(* ===== verification/Crawler_Prelude.thy ===== *)
theory Crawler_Prelude
  imports Main "HOL-Library.Sublist" "HOL-Library.Multiset"
begin

text \<open>
  The shared base of the development: Go's machine integers and clock values, the byte-string
  functions of the packages strings and strconv that the crawler calls, UTF-8 and its white space, Go
  maps, and the interface that several components share (a transition system with an invariant).

  Go strings are byte sequences, modelled as \<^typ>\<open>string\<close>; letter case is mapped on ASCII
  letters only.  A Go \<^verbatim>\<open>time.Time\<close> is the number of nanoseconds since the zero time, so the
  zero value is \<open>0\<close>; a \<^verbatim>\<open>time.Duration\<close> is an \<open>int\<close> of nanoseconds whose products wrap at 64 bits.
\<close>

named_theorems go_defs
  \<comment> \<open>defining equations of the models of Go library functions\<close>

named_theorems inv_intros
  \<comment> \<open>preservation lemmas: one per operation and invariant\<close>

section \<open>Machine integers and time\<close>

type_synonym Duration = int
type_synonym Time = int

definition wrap64 :: "int \<Rightarrow> int" where
  "wrap64 x = (x + 2 ^ 63) mod 2 ^ 64 - 2 ^ 63"

definition wrap32 :: "int \<Rightarrow> int" where
  "wrap32 x = (x + 2 ^ 31) mod 2 ^ 32 - 2 ^ 31"

definition in_int64 :: "int \<Rightarrow> bool" where
  "in_int64 x \<longleftrightarrow> - (2 ^ 63) \<le> x \<and> x < 2 ^ 63"

lemma wrap64_id: "in_int64 x \<Longrightarrow> wrap64 x = x"
  by (simp add: wrap64_def in_int64_def)

lemma wrap64_in_int64 [simp]: "in_int64 (wrap64 x)"
proof -
  have "0 \<le> (x + 2 ^ 63) mod 2 ^ 64" "(x + 2 ^ 63) mod 2 ^ 64 < (2 ^ 64 :: int)"
    by simp_all
  then show ?thesis by (simp add: wrap64_def in_int64_def)
qed

lemma wrap64_idem [simp]: "wrap64 (wrap64 x) = wrap64 x"
  by (rule wrap64_id) simp

abbreviation Nanosecond :: Duration where "Nanosecond \<equiv> 1"
abbreviation Millisecond :: Duration where "Millisecond \<equiv> 1000000"
abbreviation Second :: Duration where "Second \<equiv> 1000000000"
abbreviation Minute :: Duration where "Minute \<equiv> 60000000000"
abbreviation Hour :: Duration where "Hour \<equiv> 3600000000000"

definition time_IsZero :: "Time \<Rightarrow> bool" where
  [go_defs]: "time_IsZero t \<longleftrightarrow> t = 0"

definition time_Before :: "Time \<Rightarrow> Time \<Rightarrow> bool" where
  [go_defs]: "time_Before t u \<longleftrightarrow> t < u"

definition time_After :: "Time \<Rightarrow> Time \<Rightarrow> bool" where
  [go_defs]: "time_After t u \<longleftrightarrow> u < t"

text \<open>\<^verbatim>\<open>t.Sub(u)\<close> saturates at the largest and smallest duration.\<close>

definition time_Sub :: "Time \<Rightarrow> Time \<Rightarrow> Duration" where
  "time_Sub t u = max (- (2 ^ 63)) (min (2 ^ 63 - 1) (t - u))"

lemma time_Sub_exact: "in_int64 (t - u) \<Longrightarrow> time_Sub t u = t - u"
  by (simp add: time_Sub_def in_int64_def)

text \<open>\<^verbatim>\<open>t.UnixMilli()\<close>: the zero time is 62135596800 seconds before the Unix epoch.\<close>

definition time_UnixMilli :: "Time \<Rightarrow> int" where
  "time_UnixMilli t = (t - 62135596800 * Second) div Millisecond"

lemma time_UnixMilli_mono: "t \<le> u \<Longrightarrow> time_UnixMilli t \<le> time_UnixMilli u"
  by (simp add: time_UnixMilli_def zdiv_mono1)

text \<open>Go's integer division truncates towards zero.\<close>

definition go_quot :: "int \<Rightarrow> int \<Rightarrow> int" where
  "go_quot a b = sgn a * sgn b * (\<bar>a\<bar> div \<bar>b\<bar>)"

lemma go_quot_nonneg: "0 \<le> a \<Longrightarrow> 0 < b \<Longrightarrow> go_quot a b = a div b"
  by (cases "a = 0") (simp_all add: go_quot_def)

section \<open>Byte strings\<close>

definition lower_char :: "char \<Rightarrow> char" where
  "lower_char c = (if 65 \<le> (of_char c :: nat) \<and> (of_char c :: nat) \<le> 90
     then char_of ((of_char c :: nat) + 32) else c)"

definition upper_char :: "char \<Rightarrow> char" where
  "upper_char c = (if 97 \<le> (of_char c :: nat) \<and> (of_char c :: nat) \<le> 122
     then char_of ((of_char c :: nat) - 32) else c)"

definition strings_ToLower :: "string \<Rightarrow> string" where
  "strings_ToLower s = map lower_char s"

definition strings_ToUpper :: "string \<Rightarrow> string" where
  "strings_ToUpper s = map upper_char s"

lemma lower_char_idem [simp]: "lower_char (lower_char c) = lower_char c"
  by (auto simp: lower_char_def)

lemma upper_char_idem [simp]: "upper_char (upper_char c) = upper_char c"
  by (auto simp: upper_char_def)

lemma ToLower_idem [simp]: "strings_ToLower (strings_ToLower s) = strings_ToLower s"
  by (simp add: strings_ToLower_def)

lemma ToUpper_idem [simp]: "strings_ToUpper (strings_ToUpper s) = strings_ToUpper s"
  by (simp add: strings_ToUpper_def)

lemma ToLower_Nil_iff [simp]: "strings_ToLower s = [] \<longleftrightarrow> s = []"
  by (simp add: strings_ToLower_def)

lemma ToLower_append [simp]: "strings_ToLower (s @ t) = strings_ToLower s @ strings_ToLower t"
  by (simp add: strings_ToLower_def)

definition strings_HasPrefix :: "string \<Rightarrow> string \<Rightarrow> bool" where
  "strings_HasPrefix s p \<longleftrightarrow> take (length p) s = p"

definition strings_HasSuffix :: "string \<Rightarrow> string \<Rightarrow> bool" where
  "strings_HasSuffix s p \<longleftrightarrow> length p \<le> length s \<and> drop (length s - length p) s = p"

definition strings_TrimPrefix :: "string \<Rightarrow> string \<Rightarrow> string" where
  "strings_TrimPrefix s p = (if strings_HasPrefix s p then drop (length p) s else s)"

lemma HasPrefix_append [simp]: "strings_HasPrefix (p @ s) p"
  by (simp add: strings_HasPrefix_def)

lemma HasPrefix_iff: "strings_HasPrefix s p \<longleftrightarrow> (\<exists>t. s = p @ t)"
  by (metis append_take_drop_id strings_HasPrefix_def HasPrefix_append)

text \<open>The first position at which \<open>sub\<close> occurs, as \<^verbatim>\<open>strings.Index\<close> (with \<open>None\<close> for \<open>-1\<close>).\<close>

fun strings_Index :: "string \<Rightarrow> string \<Rightarrow> nat option" where
  "strings_Index [] sub = (if sub = [] then Some 0 else None)"
| "strings_Index (c # s) sub =
     (if strings_HasPrefix (c # s) sub then Some 0 else map_option Suc (strings_Index s sub))"

definition strings_LastIndex :: "string \<Rightarrow> string \<Rightarrow> nat option" where
  "strings_LastIndex s sub =
     map_option (\<lambda>i. length s - length sub - i) (strings_Index (rev s) (rev sub))"

definition strings_Contains :: "string \<Rightarrow> string \<Rightarrow> bool" where
  "strings_Contains s sub \<longleftrightarrow> strings_Index s sub \<noteq> None"

definition strings_Cut :: "string \<Rightarrow> string \<Rightarrow> string \<times> string \<times> bool" where
  "strings_Cut s sep = (case strings_Index s sep of
       None \<Rightarrow> (s, [], False)
     | Some i \<Rightarrow> (take i s, drop (i + length sep) s, True))"

lemma Index_Some_split:
  "strings_Index s sub = Some i \<Longrightarrow> s = take i s @ sub @ drop (i + length sub) s"
proof (induction s arbitrary: i)
  case Nil
  then show ?case by (simp split: if_splits)
next
  case (Cons c s)
  show ?case
  proof (cases "strings_HasPrefix (c # s) sub")
    case True
    with Cons.prems have "i = 0" by simp
    with True show ?thesis
      by (simp add: strings_HasPrefix_def) (metis append_take_drop_id)
  next
    case False
    with Cons.prems obtain k where "strings_Index s sub = Some k" "i = Suc k" by auto
    with Cons.IH show ?thesis by auto
  qed
qed

lemma Index_Some_less:
  "strings_Index s sub = Some i \<Longrightarrow> sub \<noteq> [] \<Longrightarrow> i < length s"
proof (induction s arbitrary: i)
  case Nil
  then show ?case by (simp split: if_splits)
next
  case (Cons c s)
  then show ?case by (cases "strings_HasPrefix (c # s) sub") auto
qed

lemma Index_char_None_iff: "strings_Index s [c] = None \<longleftrightarrow> c \<notin> set s"
  by (induction s) (auto simp: strings_HasPrefix_def)

lemma Index_char_SomeD:
  "strings_Index s [c] = Some i \<Longrightarrow> i < length s \<and> s ! i = c \<and> c \<notin> set (take i s)"
proof (induction s arbitrary: i)
  case Nil
  then show ?case by simp
next
  case (Cons a s)
  then show ?case by (cases "a = c") (auto simp: strings_HasPrefix_def)
qed

lemma LastIndex_char_None_iff: "strings_LastIndex s [c] = None \<longleftrightarrow> c \<notin> set s"
  using Index_char_None_iff [of "rev s" c] by (simp add: strings_LastIndex_def)

lemma LastIndex_char_SomeD:
  assumes "strings_LastIndex s [c] = Some i"
  shows "i < length s" and "s ! i = c" and "c \<notin> set (drop (Suc i) s)"
proof -
  from assms obtain k where k: "strings_Index (rev s) [c] = Some k" and i: "i = length s - 1 - k"
    by (auto simp: strings_LastIndex_def)
  note D = Index_char_SomeD [OF k]
  then have len: "k < length s" by simp
  then show "i < length s" using i by simp
  show "s ! i = c" using D i len by (simp add: rev_nth)
  have "Suc i = length s - k" using i len by simp
  with D show "c \<notin> set (drop (Suc i) s)" by (simp add: take_rev)
qed

text \<open>\<^verbatim>\<open>strings.Split\<close> on a one-byte separator.\<close>

fun split_on :: "char \<Rightarrow> string \<Rightarrow> string list" where
  "split_on d [] = [[]]"
| "split_on d (c # s) =
     (if c = d then [] # split_on d s
      else (case split_on d s of [] \<Rightarrow> [[c]] | w # ws \<Rightarrow> (c # w) # ws))"

fun join_with :: "string \<Rightarrow> string list \<Rightarrow> string" where
  "join_with sep [] = []"
| "join_with sep [w] = w"
| "join_with sep (w # ws) = w @ sep @ join_with sep ws"

lemma split_on_not_Nil [simp]: "split_on d s \<noteq> []"
  by (induction s) (auto split: list.splits)

lemma split_on_no_sep: "d \<notin> set w \<Longrightarrow> split_on d w = [w]"
  by (induction w) auto

lemma split_on_append: "d \<notin> set w \<Longrightarrow> split_on d (w @ d # s) = w # split_on d s"
  by (induction w) auto

lemma split_on_join:
  "ws \<noteq> [] \<Longrightarrow> \<forall>w\<in>set ws. d \<notin> set w \<Longrightarrow> split_on d (join_with [d] ws) = ws"
  by (induction ws rule: induct_list012) (auto simp: split_on_no_sep split_on_append)

definition is_space :: "char \<Rightarrow> bool" where
  "is_space c \<longleftrightarrow> (of_char c :: nat) \<in> {9, 10, 11, 12, 13, 32}"

definition strings_TrimSpace :: "string \<Rightarrow> string" where
  "strings_TrimSpace s = rev (dropWhile is_space (rev (dropWhile is_space s)))"

text \<open>\<^verbatim>\<open>strings.TrimRight(s, "/")\<close> for a one-byte cutset.\<close>

definition trim_right :: "char \<Rightarrow> string \<Rightarrow> string" where
  "trim_right d s = rev (dropWhile (\<lambda>c. c = d) (rev s))"

lemma trim_right_idem [simp]: "trim_right d (trim_right d s) = trim_right d s"
  by (simp add: trim_right_def)

lemma trim_right_no_suffix: "trim_right d s \<noteq> [] \<Longrightarrow> last (trim_right d s) \<noteq> d"
  using hd_dropWhile [of "\<lambda>c. c = d" "rev s"] by (simp add: trim_right_def last_rev)

lemma trim_right_prefix: "prefix (trim_right d s) s"
proof -
  have "s = rev (dropWhile (\<lambda>c. c = d) (rev s)) @ rev (takeWhile (\<lambda>c. c = d) (rev s))"
    by (metis rev_append rev_rev_ident takeWhile_dropWhile_id)
  then show ?thesis unfolding trim_right_def prefix_def by blast
qed

section \<open>Decimal numbers\<close>

definition digit_char :: "nat \<Rightarrow> char" where
  "digit_char d = char_of (48 + d)"

fun nat_to_dec :: "nat \<Rightarrow> string" where
  "nat_to_dec n = (if n < 10 then [digit_char n] else nat_to_dec (n div 10) @ [digit_char (n mod 10)])"

declare nat_to_dec.simps [simp del]

definition strconv_Itoa :: "int \<Rightarrow> string" where
  "strconv_Itoa i = (if i < 0 then CHR ''-'' # nat_to_dec (nat (- i)) else nat_to_dec (nat i))"

definition is_digit :: "char \<Rightarrow> bool" where
  "is_digit c \<longleftrightarrow> 48 \<le> (of_char c :: nat) \<and> (of_char c :: nat) \<le> 57"

definition digit_val :: "char \<Rightarrow> int" where
  "digit_val c = int (of_char c) - 48"

definition dec_value :: "string \<Rightarrow> int" where
  "dec_value s = foldl (\<lambda>acc c. 10 * acc + digit_val c) 0 s"

text \<open>\<^verbatim>\<open>strconv.Atoi\<close>: an optional sign and at least one digit; a value outside \<open>int64\<close> is an
  error.\<close>

definition strconv_Atoi :: "string \<Rightarrow> int option" where
  "strconv_Atoi s =
     (let neg = strings_HasPrefix s ''-'';
          body = (if neg \<or> strings_HasPrefix s ''+'' then drop 1 s else s);
          v = (if neg then - dec_value body else dec_value body)
      in if body \<noteq> [] \<and> (\<forall>c\<in>set body. is_digit c) \<and> in_int64 v then Some v else None)"

lemma digit_char_props [simp]:
  assumes "d < 10"
  shows "is_digit (digit_char d)" and "digit_val (digit_char d) = int d"
proof -
  have "(of_char (char_of (48 + d) :: char) :: nat) = 48 + d"
    using assms by simp
  then show "is_digit (digit_char d)" "digit_val (digit_char d) = int d"
    using assms by (simp_all add: is_digit_def digit_val_def digit_char_def)
qed

lemma dec_value_snoc [simp]: "dec_value (s @ [c]) = 10 * dec_value s + digit_val c"
  by (simp add: dec_value_def)

lemma nat_to_dec_correct:
  "nat_to_dec n \<noteq> [] \<and> (\<forall>c\<in>set (nat_to_dec n). is_digit c) \<and> dec_value (nat_to_dec n) = int n"
proof (induction n rule: nat_to_dec.induct)
  case (1 n)
  show ?case
  proof (cases "n < 10")
    case True
    then show ?thesis by (simp add: nat_to_dec.simps [of n] dec_value_def)
  next
    case False
    have "10 * int (n div 10) + int (n mod 10) = int n" by presburger
    with 1 False show ?thesis by (simp add: nat_to_dec.simps [of n])
  qed
qed

lemma not_sign_if_digit: "is_digit c \<Longrightarrow> c \<noteq> CHR ''-'' \<and> c \<noteq> CHR ''+''"
  by (auto simp: is_digit_def)

lemma Atoi_Itoa:
  assumes "in_int64 i"
  shows "strconv_Atoi (strconv_Itoa i) = Some i"
proof -
  let ?d = "nat_to_dec (nat \<bar>i\<bar>)"
  note d = nat_to_dec_correct [of "nat \<bar>i\<bar>"]
  then obtain c w where cw: "?d = c # w" by (cases ?d) auto
  with d have "c \<noteq> CHR ''-''" "c \<noteq> CHR ''+''" using not_sign_if_digit by auto
  with cw d assms show ?thesis
    by (cases "i < 0") (simp_all add: strconv_Atoi_def strconv_Itoa_def strings_HasPrefix_def Let_def)
qed

section \<open>Go maps\<close>

text \<open>
  A Go map is a partial function; \<open>m[k]\<close> on a missing key reads the zero value.  Where the code
  tells a nil map from an empty one, the field is an \<open>option\<close>.
\<close>

type_synonym string_map = "string \<rightharpoonup> string"

definition map_index :: "string_map option \<Rightarrow> string \<Rightarrow> string" where
  "map_index m k = (case m of None \<Rightarrow> [] | Some h \<Rightarrow> (case h k of None \<Rightarrow> [] | Some v \<Rightarrow> v))"

definition make_if_nil :: "('k \<rightharpoonup> 'v) option \<Rightarrow> ('k \<rightharpoonup> 'v)" where
  "make_if_nil m = (case m of None \<Rightarrow> Map.empty | Some h \<Rightarrow> h)"

lemma make_if_nil_simps [simp]: "make_if_nil None = Map.empty" "make_if_nil (Some h) = h"
  by (simp_all add: make_if_nil_def)

section \<open>UTF-8 and white space\<close>

text \<open>The encoding of a rune.\<close>

definition utf8_enc :: "int \<Rightarrow> string" where
  "utf8_enc r =
     (if r < 0x80 then [char_of (nat r)]
      else if r < 0x800 then [char_of (nat (0xC0 + r div 64)), char_of (nat (0x80 + r mod 64))]
      else if r < 0x10000 then [char_of (nat (0xE0 + r div 4096)), char_of (nat (0x80 + r div 64 mod 64)), char_of (nat (0x80 + r mod 64))]
      else [char_of (nat (0xF0 + r div 262144)), char_of (nat (0x80 + r div 4096 mod 64)), char_of (nat (0x80 + r div 64 mod 64)),
            char_of (nat (0x80 + r mod 64))])"

text \<open>\<^verbatim>\<open>unicode.IsSpace\<close>; a string starts with a rune exactly if it starts with its encoding.\<close>

definition space_runes :: "int list" where
  "space_runes = [9, 10, 11, 12, 13, 32, 0x85, 0xA0, 0x1680] @ [0x2000..0x200A] @ [0x2028, 0x2029, 0x202F, 0x205F, 0x3000]"

text \<open>\<^verbatim>\<open>strings.TrimSpace\<close> on UTF-8: a string ends with a rune exactly if it ends with its encoding.\<close>

fun trim_each :: "nat \<Rightarrow> string list \<Rightarrow> string \<Rightarrow> string" where
  "trim_each 0 ps s = s"
| "trim_each (Suc n) ps s = (case List.find (\<lambda>p. prefix p s) ps of None \<Rightarrow> s | Some p \<Rightarrow> trim_each n ps (drop (length p) s))"

definition unicode_TrimLeft :: "string \<Rightarrow> string" where
  "unicode_TrimLeft s = trim_each (length s) (map utf8_enc space_runes) s"

definition unicode_TrimRight :: "string \<Rightarrow> string" where
  "unicode_TrimRight s = rev (trim_each (length s) (map (\<lambda>r. rev (utf8_enc r)) space_runes) (rev s))"

definition unicode_TrimSpace :: "string \<Rightarrow> string" where
  "unicode_TrimSpace s = unicode_TrimRight (unicode_TrimLeft s)"

text \<open>The loop drops a string of \<open>ps\<close> until none is a prefix.\<close>

lemma trim_each_suffix: "\<exists>xs. s = xs @ trim_each n ps s"
proof (induction n ps s rule: trim_each.induct)
  case (2 n ps s)
  show ?case
  proof (cases "List.find (\<lambda>p. prefix p s) ps")
    case (Some p)
    then obtain xs where "drop (length p) s = xs @ trim_each n ps (drop (length p) s)" using 2 by blast
    then have "s = (take (length p) s @ xs) @ trim_each n ps (drop (length p) s)" by (metis append.assoc append_take_drop_id)
    then show ?thesis using Some by (simp only: trim_each.simps option.case) blast
  qed simp
qed simp

lemma trim_each_done:
  assumes "[] \<notin> set ps" "length s \<le> n" "p \<in> set ps"
  shows "\<not> prefix p (trim_each n ps s)"
  using assms
proof (induction n ps s rule: trim_each.induct)
  case (1 ps s)
  then show ?case by auto
next
  case (2 n ps s)
  show ?case
  proof (cases "List.find (\<lambda>p. prefix p s) ps")
    case None
    then have "\<not> prefix p s" using 2(4) by (simp add: find_None_iff)
    then show ?thesis using None by simp
  next
    case (Some q)
    then have q: "q \<in> set ps" "prefix q s" by (auto simp: find_Some_iff)
    then have "q \<noteq> []" using 2(2) by metis
    then have "0 < length q" by simp
    then have "length (drop (length q) s) \<le> n" using 2(3) unfolding length_drop by linarith
    then show ?thesis using 2(1) [OF Some 2(2) _ 2(4)] Some by simp
  qed
qed

lemma trim_each_id: "(\<forall>p\<in>set ps. \<not> prefix p s) \<Longrightarrow> trim_each n ps s = s"
  by (cases n) (auto simp: find_None_iff[THEN iffD2] split: option.splits dest: find_Some_iff[THEN iffD1])

definition trimmed :: "string \<Rightarrow> bool" where
  "trimmed s \<longleftrightarrow> list_all (\<lambda>r. \<not> prefix (utf8_enc r) s \<and> \<not> suffix (utf8_enc r) s) space_runes"

lemma utf8_enc_ne [simp]: "utf8_enc r \<noteq> []" "[] \<noteq> utf8_enc r"
  by (simp_all add: utf8_enc_def)

lemma TrimLeft_done: "r \<in> set space_runes \<Longrightarrow> \<not> prefix (utf8_enc r) (unicode_TrimLeft s)"
  unfolding unicode_TrimLeft_def by (rule trim_each_done) auto

lemma TrimRight_done: "r \<in> set space_runes \<Longrightarrow> \<not> suffix (utf8_enc r) (unicode_TrimRight s)"
  unfolding unicode_TrimRight_def suffix_to_prefix rev_rev_ident by (rule trim_each_done) auto

lemma TrimRight_prefix: "prefix (unicode_TrimRight s) s"
proof -
  obtain xs where "rev s = xs @ trim_each (length s) (map (\<lambda>r. rev (utf8_enc r)) space_runes) (rev s)"
    using trim_each_suffix by blast
  then have "s = unicode_TrimRight s @ rev xs" unfolding unicode_TrimRight_def by (metis rev_append rev_rev_ident)
  then show ?thesis by (metis prefixI)
qed

theorem TrimSpace_trimmed: "trimmed (unicode_TrimSpace s)"
  unfolding trimmed_def list_all_iff unicode_TrimSpace_def
  using TrimLeft_done TrimRight_done TrimRight_prefix prefix_order.trans by blast

lemma TrimSpace_id: "trimmed s \<Longrightarrow> unicode_TrimSpace s = s"
  unfolding unicode_TrimSpace_def unicode_TrimLeft_def unicode_TrimRight_def trimmed_def
  by (simp add: trim_each_id list_all_iff suffix_to_prefix)

section \<open>Interface: transition systems with an invariant\<close>

text \<open>
  A component whose operations interleave is a step relation.  An invariant that holds initially
  and is kept by every step holds in every reachable state; a transition property that every
  step has from an invariant state holds along every run.
\<close>

locale transition_system =
  fixes start :: "'s \<Rightarrow> bool"
    and step :: "'s \<Rightarrow> 's \<Rightarrow> bool"
    and inv :: "'s \<Rightarrow> bool"
  assumes inv_start: "start s \<Longrightarrow> inv s"
    and inv_step: "inv s \<Longrightarrow> step s t \<Longrightarrow> inv t"
begin

lemma inv_steps: "step\<^sup>*\<^sup>* s t \<Longrightarrow> inv s \<Longrightarrow> inv t"
  by (induction rule: rtranclp_induct) (auto intro: inv_step)

lemma inv_reachable: "start s \<Longrightarrow> step\<^sup>*\<^sup>* s t \<Longrightarrow> inv t"
  using inv_start inv_steps by blast

lemma measure_mono_steps:
  fixes f :: "'s \<Rightarrow> 'm::order"
  assumes "step\<^sup>*\<^sup>* s t" and "inv s" and "\<And>u v. inv u \<Longrightarrow> step u v \<Longrightarrow> f u \<le> f v"
  shows "f s \<le> f t"
  using assms
  by (induction rule: rtranclp_induct) (auto intro: order.trans dest: inv_steps)

end

end
