(* ===== verification/Go_Heap.thy ===== *)
theory Go_Heap
  imports Crawler_Prelude
begin

text \<open>
  The package container/heap, as the frontier uses it: the sift loops \<open>up\<close> and \<open>down\<close> over an
  array (a list updated by index), \<open>Push\<close>, \<open>Pop\<close> and \<open>Init\<close>.  The locale \<open>heap_order\<close> is the
  contract of heap.Interface (\<open>Less\<close> is a strict weak order); inside it the operations are shown
  to keep the multiset of elements and the heap order, and \<open>Pop\<close> to return a least element.
\<close>

definition list_swap :: "'a list \<Rightarrow> nat \<Rightarrow> nat \<Rightarrow> 'a list" where
  "list_swap xs i j = xs[i := xs ! j, j := xs ! i]"

abbreviation heap_parent :: "nat \<Rightarrow> nat" where
  "heap_parent k \<equiv> (k - 1) div 2"

function heap_up :: "('a \<Rightarrow> 'a \<Rightarrow> bool) \<Rightarrow> 'a list \<Rightarrow> nat \<Rightarrow> 'a list" where
  "heap_up lessf xs j =
     (let i = heap_parent j
      in if i = j \<or> \<not> lessf (xs ! j) (xs ! i) then xs
         else heap_up lessf (list_swap xs i j) i)"
  by pat_completeness auto
termination
  by (relation "measure (\<lambda>(_, _, j). j)") auto

declare heap_up.simps [simp del]

function heap_down :: "('a \<Rightarrow> 'a \<Rightarrow> bool) \<Rightarrow> 'a list \<Rightarrow> nat \<Rightarrow> nat \<Rightarrow> 'a list" where
  "heap_down lessf xs i n =
     (let j1 = 2 * i + 1
      in if n \<le> j1 then xs
         else let j = (if j1 + 1 < n \<and> lessf (xs ! (j1 + 1)) (xs ! j1) then j1 + 1 else j1)
              in if \<not> lessf (xs ! j) (xs ! i) then xs
                 else heap_down lessf (list_swap xs i j) j n)"
  by pat_completeness auto
termination
  by (relation "measure (\<lambda>(_, _, i, n). n - i)") (auto split: if_splits)

declare heap_down.simps [simp del]

definition heap_Init :: "('a \<Rightarrow> 'a \<Rightarrow> bool) \<Rightarrow> 'a list \<Rightarrow> 'a list" where
  "heap_Init lessf xs = fold (\<lambda>i ys. heap_down lessf ys i (length ys)) (rev [0..<length xs div 2]) xs"

definition heap_Push :: "('a \<Rightarrow> 'a \<Rightarrow> bool) \<Rightarrow> 'a list \<Rightarrow> 'a \<Rightarrow> 'a list" where
  "heap_Push lessf xs x = heap_up lessf (xs @ [x]) (length xs)"

text \<open>\<open>Pop\<close> of an empty heap indexes position \<open>-1\<close> and panics: \<open>None\<close>.\<close>

definition heap_Pop :: "('a \<Rightarrow> 'a \<Rightarrow> bool) \<Rightarrow> 'a list \<Rightarrow> ('a \<times> 'a list) option" where
  "heap_Pop lessf xs =
     (if xs = [] then None
      else let n = length xs - 1; ys = heap_down lessf (list_swap xs 0 n) 0 n
           in Some (last ys, butlast ys))"

text \<open>The heap order on the parents from \<open>lo\<close> on, over the first \<open>n\<close> elements.\<close>

definition heap_from :: "('a \<Rightarrow> 'a \<Rightarrow> bool) \<Rightarrow> nat \<Rightarrow> nat \<Rightarrow> 'a list \<Rightarrow> bool" where
  "heap_from lessf lo n xs \<longleftrightarrow>
     (\<forall>k<n. 0 < k \<longrightarrow> lo \<le> heap_parent k \<longrightarrow> \<not> lessf (xs ! k) (xs ! heap_parent k))"

abbreviation is_heap :: "('a \<Rightarrow> 'a \<Rightarrow> bool) \<Rightarrow> 'a list \<Rightarrow> bool" where
  "is_heap lessf xs \<equiv> heap_from lessf 0 (length xs) xs"

section \<open>Permutation\<close>

lemma length_list_swap [simp]: "length (list_swap xs i j) = length xs"
  by (simp add: list_swap_def)

lemma mset_list_swap [simp]:
  "i < length xs \<Longrightarrow> j < length xs \<Longrightarrow> mset (list_swap xs i j) = mset xs"
  by (simp add: list_swap_def mset_swap)

lemma nth_list_swap:
  "i < length xs \<Longrightarrow> j < length xs \<Longrightarrow> k < length xs \<Longrightarrow>
   list_swap xs i j ! k = (if k = i then xs ! j else if k = j then xs ! i else xs ! k)"
  by (auto simp: list_swap_def nth_list_update)

lemma mset_heap_up: "j < length xs \<Longrightarrow> mset (heap_up lessf xs j) = mset xs"
proof (induction lessf xs j rule: heap_up.induct)
  case (1 lessf xs j)
  then show ?case by (subst heap_up.simps) (simp add: Let_def)
qed

lemma mset_heap_down:
  "i < length xs \<Longrightarrow> n \<le> length xs \<Longrightarrow> mset (heap_down lessf xs i n) = mset xs"
proof (induction lessf xs i n rule: heap_down.induct)
  case (1 lessf xs i n)
  then show ?case by (subst heap_down.simps) (simp add: Let_def)
qed

lemma length_heap_down [simp]: "length (heap_down lessf xs i n) = length xs"
proof (induction lessf xs i n rule: heap_down.induct)
  case (1 lessf xs i n)
  then show ?case by (subst heap_down.simps) (simp add: Let_def)
qed

text \<open>Elements at and beyond the bound \<open>n\<close> are not touched by \<open>down\<close>.\<close>

lemma nth_heap_down_beyond:
  "n \<le> k \<Longrightarrow> i < n \<Longrightarrow> heap_down lessf xs i n ! k = xs ! k"
proof (induction lessf xs i n rule: heap_down.induct)
  case (1 lessf xs i n)
  then show ?case by (subst heap_down.simps) (auto simp: Let_def list_swap_def)
qed

lemma heap_down_step:
  assumes "\<not> n \<le> 2 * i + 1"
    and "j = (if 2 * i + 1 + 1 < n \<and> lessf (xs ! (2 * i + 1 + 1)) (xs ! (2 * i + 1))
             then 2 * i + 1 + 1 else 2 * i + 1)"
    and "lessf (xs ! j) (xs ! i)"
  shows "heap_down lessf xs i n = heap_down lessf (list_swap xs i j) j n"
  using assms by (subst heap_down.simps) (auto simp: Let_def)

lemma heap_down_bound_le: "n \<le> i \<Longrightarrow> heap_down lessf xs i n = xs"
  by (subst heap_down.simps) simp

lemma mset_heap_Push [simp]: "mset (heap_Push lessf xs x) = add_mset x (mset xs)"
  by (simp add: heap_Push_def mset_heap_up)

lemma length_heap_Push [simp]: "length (heap_Push lessf xs x) = Suc (length xs)"
  using mset_eq_length [of "heap_Push lessf xs x" "xs @ [x]"] by simp

lemma set_heap_Push [simp]: "set (heap_Push lessf xs x) = insert x (set xs)"
  using mset_eq_setD [of "heap_Push lessf xs x" "x # xs"] by simp

lemma heap_Pop_None_iff [simp]: "heap_Pop lessf xs = None \<longleftrightarrow> xs = []"
  by (simp add: heap_Pop_def Let_def)

lemma last_heap_down_root:
  assumes "xs \<noteq> []"
  shows "last (heap_down lessf (list_swap xs 0 (length xs - 1)) 0 (length xs - 1)) = xs ! 0"
proof -
  let ?n = "length xs - 1"
  let ?ys = "heap_down lessf (list_swap xs 0 ?n) 0 ?n"
  have "?ys \<noteq> []" using assms by (metis length_heap_down length_list_swap length_0_conv)
  then have "last ?ys = ?ys ! ?n" by (simp add: last_conv_nth)
  also have "\<dots> = list_swap xs 0 ?n ! ?n"
    using assms by (cases "?n = 0") (simp_all add: nth_heap_down_beyond heap_down_bound_le)
  also have "\<dots> = xs ! 0" using assms by (simp add: nth_list_swap)
  finally show ?thesis .
qed

lemma heap_Pop_SomeD:
  assumes "heap_Pop lessf xs = Some (x, ys)"
  shows "x = xs ! 0" and "mset xs = add_mset x (mset ys)" and "length xs = Suc (length ys)"
proof -
  let ?n = "length xs - 1"
  let ?zs = "heap_down lessf (list_swap xs 0 ?n) 0 ?n"
  from assms have ne: "xs \<noteq> []" and x: "x = last ?zs" and ys: "ys = butlast ?zs"
    by (auto simp: heap_Pop_def Let_def split: if_splits)
  from x last_heap_down_root [OF ne] show "x = xs ! 0" by (rule trans)
  have "?zs \<noteq> []" using ne by (metis length_heap_down length_list_swap length_0_conv)
  then have "?zs = ys @ [x]" using x ys by simp
  then have "mset ?zs = add_mset x (mset ys)" by simp
  then show "mset xs = add_mset x (mset ys)" using ne by (simp add: mset_heap_down)
  then show "length xs = Suc (length ys)" by (metis size_add_mset size_mset)
qed

lemma parent_less: "0 < k \<Longrightarrow> heap_parent k < k"
  by auto

lemma parent_iff: "0 < k \<Longrightarrow> heap_parent k = i \<longleftrightarrow> k = 2 * i + 1 \<or> k = 2 * i + 2"
  by auto

section \<open>The contract of heap.Interface\<close>

locale heap_order =
  fixes lessf :: "'a \<Rightarrow> 'a \<Rightarrow> bool"
  assumes asym: "lessf x y \<Longrightarrow> \<not> lessf y x"
    and neg_trans: "\<not> lessf x y \<Longrightarrow> \<not> lessf y z \<Longrightarrow> \<not> lessf x z"
begin

text \<open>The loop invariant of \<open>up\<close>: only position \<open>j\<close> may be smaller than its parent, and the
  children of \<open>j\<close> are not smaller than that parent.\<close>

definition up_ok :: "'a list \<Rightarrow> nat \<Rightarrow> bool" where
  "up_ok xs j \<longleftrightarrow>
     (\<forall>k<length xs. 0 < k \<longrightarrow> k \<noteq> j \<longrightarrow> \<not> lessf (xs ! k) (xs ! heap_parent k)) \<and>
     (\<forall>k<length xs. 0 < k \<longrightarrow> heap_parent k = j \<longrightarrow> 0 < j \<longrightarrow> \<not> lessf (xs ! k) (xs ! heap_parent j))"

lemma up_ok_swap:
  assumes ok: "up_ok xs j" and j: "j < length xs" "0 < j" and lt: "lessf (xs ! j) (xs ! heap_parent j)"
  shows "up_ok (list_swap xs (heap_parent j) j) (heap_parent j)"
proof -
  let ?i = "heap_parent j" and ?ys = "list_swap xs (heap_parent j) j"
  have ij: "?i < j" using j by auto
  have nth: "?ys ! k = (if k = ?i then xs ! j else if k = j then xs ! ?i else xs ! k)"
    if "k < length xs" for k using that j ij by (simp add: nth_list_swap)
  have ord: "\<not> lessf (xs ! k) (xs ! heap_parent k)" if "k < length xs" "0 < k" "k \<noteq> j" for k
    using ok that by (simp add: up_ok_def)
  have "\<not> lessf (?ys ! k) (?ys ! heap_parent k)" if k: "k < length xs" "0 < k" "k \<noteq> ?i" for k
  proof -
    have pk: "heap_parent k < length xs" "heap_parent k \<noteq> k" using k by auto
    consider "k = j" | "k \<noteq> j" "heap_parent k = j" | "k \<noteq> j" "heap_parent k = ?i"
      | "k \<noteq> j" "heap_parent k \<noteq> j" "heap_parent k \<noteq> ?i" by blast
    then show ?thesis
    proof cases
      case 1
      then show ?thesis using nth k pk ij asym [OF lt] by simp
    next
      case 2
      then have "\<not> lessf (xs ! k) (xs ! ?i)" using k ok j by (simp add: up_ok_def)
      then show ?thesis using nth [OF k(1)] nth [OF pk(1)] 2 k ij by simp
    next
      case 3
      then have "\<not> lessf (xs ! k) (xs ! ?i)" using ord [of k] k by simp
      then have "\<not> lessf (xs ! k) (xs ! j)" using asym [OF lt] by (rule neg_trans)
      then show ?thesis using nth [OF k(1)] nth [OF pk(1)] 3 k by simp
    next
      case 4
      then show ?thesis using nth k pk ord by simp
    qed
  qed
  moreover have "\<not> lessf (?ys ! k) (?ys ! heap_parent ?i)"
    if k: "k < length xs" "0 < k" "heap_parent k = ?i" "0 < ?i" for k
  proof -
    have p: "heap_parent ?i < ?i" "?i < length xs" using parent_less [OF k(4)] j by auto
    have oi: "\<not> lessf (xs ! ?i) (xs ! heap_parent ?i)" using ord [of ?i] p k ij by simp
    have ki: "k \<noteq> ?i" using parent_less [OF k(2)] k(3) by linarith
    have pi: "?ys ! heap_parent ?i = xs ! heap_parent ?i" using nth [of "heap_parent ?i"] p ij by simp
    show ?thesis
    proof (cases "k = j")
      case True
      then have "?ys ! k = xs ! ?i" using nth [OF k(1)] ki by simp
      then show ?thesis using oi pi by simp
    next
      case False
      then have "\<not> lessf (xs ! k) (xs ! ?i)" using ord [of k] k by simp
      then have "\<not> lessf (xs ! k) (xs ! heap_parent ?i)" using oi by (rule neg_trans)
      moreover have "?ys ! k = xs ! k" using nth [OF k(1)] ki False by simp
      ultimately show ?thesis using pi by simp
    qed
  qed
  ultimately show ?thesis by (simp add: up_ok_def)
qed

lemma heap_up_is_heap:
  "up_ok xs j \<Longrightarrow> j < length xs \<Longrightarrow> is_heap lessf (heap_up lessf xs j)"
proof (induction j arbitrary: xs rule: less_induct)
  case (less j)
  show ?case
  proof (cases "j = 0 \<or> \<not> lessf (xs ! j) (xs ! heap_parent j)")
    case True
    then have "heap_up lessf xs j = xs" by (subst heap_up.simps) (auto simp: Let_def)
    with True less.prems show ?thesis by (auto simp: up_ok_def heap_from_def)
  next
    case False
    then have "heap_parent j < j" by auto
    moreover have "heap_up lessf xs j = heap_up lessf (list_swap xs (heap_parent j) j) (heap_parent j)"
      using False by (subst heap_up.simps) (auto simp: Let_def)
    ultimately show ?thesis
      using less.IH up_ok_swap [OF less.prems] False less.prems(2) by simp
  qed
qed

lemma heap_Push_is_heap [inv_intros]: "is_heap lessf xs \<Longrightarrow> is_heap lessf (heap_Push lessf xs x)"
  unfolding heap_Push_def
  by (rule heap_up_is_heap) (auto simp: up_ok_def heap_from_def nth_append)

text \<open>The loop invariant of \<open>down\<close> at position \<open>i\<close>.\<close>

definition down_ok :: "nat \<Rightarrow> nat \<Rightarrow> 'a list \<Rightarrow> nat \<Rightarrow> bool" where
  "down_ok lo n xs i \<longleftrightarrow>
     (\<forall>k<n. 0 < k \<longrightarrow> lo \<le> heap_parent k \<longrightarrow> heap_parent k \<noteq> i \<longrightarrow>
        \<not> lessf (xs ! k) (xs ! heap_parent k)) \<and>
     (\<forall>k<n. 0 < k \<longrightarrow> heap_parent k = i \<longrightarrow> 0 < i \<longrightarrow> lo \<le> heap_parent i \<longrightarrow>
        \<not> lessf (xs ! k) (xs ! heap_parent i))"

lemma down_ok_swap:
  assumes ok: "down_ok lo n xs i" and n: "n \<le> length xs" and lo: "lo \<le> i"
    and j: "j < n" "0 < j" "heap_parent j = i" and lt: "lessf (xs ! j) (xs ! i)"
    and least: "\<And>k. k < n \<Longrightarrow> 0 < k \<Longrightarrow> heap_parent k = i \<Longrightarrow> \<not> lessf (xs ! k) (xs ! j)"
  shows "down_ok lo n (list_swap xs i j) j"
proof -
  let ?ys = "list_swap xs i j"
  have ij: "i < j" using j by auto
  have nth: "?ys ! k = (if k = i then xs ! j else if k = j then xs ! i else xs ! k)"
    if "k < n" for k using that n j ij by (simp add: nth_list_swap)
  have ord: "\<not> lessf (xs ! k) (xs ! heap_parent k)"
    if "k < n" "0 < k" "lo \<le> heap_parent k" "heap_parent k \<noteq> i" for k
    using ok that by (simp add: down_ok_def)
  have "\<not> lessf (?ys ! k) (?ys ! heap_parent k)"
    if k: "k < n" "0 < k" "lo \<le> heap_parent k" "heap_parent k \<noteq> j" for k
  proof -
    have pk: "heap_parent k < n" "heap_parent k \<noteq> k" using k by auto
    consider "heap_parent k = i" | "heap_parent k \<noteq> i" "k = i" | "heap_parent k \<noteq> i" "k \<noteq> i" by blast
    then show ?thesis
    proof cases
      case 1
      then show ?thesis using nth k pk least [of k] asym [OF lt] by auto
    next
      case 2
      then have "\<not> lessf (xs ! j) (xs ! heap_parent i)" using ok j k by (auto simp: down_ok_def)
      then show ?thesis using nth k pk 2 by auto
    next
      case 3
      then show ?thesis using nth k pk ord j by auto
    qed
  qed
  moreover have "\<not> lessf (?ys ! k) (?ys ! i)" if k: "k < n" "0 < k" "heap_parent k = j" for k
  proof -
    have kk: "k \<noteq> i" "k \<noteq> j" using k ij by auto
    have "\<not> lessf (xs ! k) (xs ! j)" using ord [of k] k lo ij by simp
    then show ?thesis using nth [OF k(1)] nth [of i] j ij kk by simp
  qed
  ultimately show ?thesis using j by (simp add: down_ok_def)
qed

lemma heap_down_heap_from:
  "down_ok lo n xs i \<Longrightarrow> n \<le> length xs \<Longrightarrow> lo \<le> i \<Longrightarrow> heap_from lessf lo n (heap_down lessf xs i n)"
proof (induction "n - i" arbitrary: xs i rule: less_induct)
  case less
  let ?j1 = "2 * i + 1"
  let ?j = "if ?j1 + 1 < n \<and> lessf (xs ! (?j1 + 1)) (xs ! ?j1) then ?j1 + 1 else ?j1"
  have least: "\<not> lessf (xs ! k) (xs ! ?j)" if "k < n" "0 < k" "heap_parent k = i" for k
  proof -
    have "k = ?j1 \<or> k = ?j1 + 1" using that by auto
    then show ?thesis using that(1) asym by auto
  qed
  show ?case
  proof (cases "n \<le> ?j1 \<or> \<not> lessf (xs ! ?j) (xs ! i)")
    case stop: True
    then have eq: "heap_down lessf xs i n = xs" by (subst heap_down.simps) (auto simp: Let_def)
    have "\<not> lessf (xs ! k) (xs ! i)" if k: "k < n" "0 < k" "heap_parent k = i" for k
    proof -
      have "\<not> n \<le> ?j1" using k by auto
      with stop have "\<not> lessf (xs ! ?j) (xs ! i)" by blast
      with least [OF k] show ?thesis by (rule neg_trans)
    qed
    then show ?thesis using less.prems eq by (auto simp: heap_from_def down_ok_def)
  next
    case go: False
    then have j: "?j < n" "0 < ?j" "heap_parent ?j = i" "i < ?j" by auto
    have "heap_down lessf xs i n = heap_down lessf (list_swap xs i ?j) ?j n"
      using go heap_down_step [OF _ refl] by blast
    moreover have "down_ok lo n (list_swap xs i ?j) ?j"
      using down_ok_swap [OF less.prems j(1-3) _ least] go by blast
    ultimately show ?thesis using less.hyps [of ?j] j less.prems by simp
  qed
qed

lemma heap_Pop_is_heap [inv_intros]:
  assumes "is_heap lessf xs" and "heap_Pop lessf xs = Some (x, ys)"
  shows "is_heap lessf ys"
proof -
  let ?n = "length xs - 1"
  let ?zs = "heap_down lessf (list_swap xs 0 ?n) 0 ?n"
  from assms have ne: "xs \<noteq> []" and ys: "ys = butlast ?zs"
    by (auto simp: heap_Pop_def Let_def split: if_splits)
  have "down_ok 0 ?n (list_swap xs 0 ?n) 0"
    using assms(1) ne by (auto simp: down_ok_def heap_from_def nth_list_swap)
  then have "heap_from lessf 0 ?n ?zs" by (rule heap_down_heap_from) simp_all
  then show ?thesis using ys by (auto simp: heap_from_def nth_butlast)
qed

lemma heap_root_least: "is_heap lessf xs \<Longrightarrow> k < length xs \<Longrightarrow> \<not> lessf (xs ! k) (xs ! 0)"
proof (induction k rule: less_induct)
  case (less k)
  show ?case
  proof (cases "k = 0")
    case True
    then show ?thesis using asym by auto
  next
    case False
    then have p: "heap_parent k < k" using parent_less by simp
    have "\<not> lessf (xs ! k) (xs ! heap_parent k)" using less.prems False by (simp add: heap_from_def)
    moreover have "\<not> lessf (xs ! heap_parent k) (xs ! 0)" using less.IH [OF p] less.prems p by simp
    ultimately show ?thesis by (rule neg_trans)
  qed
qed

lemma heap_Pop_least:
  assumes "is_heap lessf xs" and "heap_Pop lessf xs = Some (x, ys)" and "y \<in> set xs"
  shows "\<not> lessf y x"
  using assms heap_Pop_SomeD(1) [OF assms(2)] heap_root_least by (auto simp: in_set_conv_nth)

lemma heap_Init_is_heap: "is_heap lessf (heap_Init lessf xs)"
proof -
  have step: "heap_from lessf m (length zs) (fold (\<lambda>i ys. heap_down lessf ys i (length ys)) (rev [m..<h]) zs)
      \<and> length (fold (\<lambda>i ys. heap_down lessf ys i (length ys)) (rev [m..<h]) zs) = length zs"
    if "m \<le> h" "heap_from lessf h (length zs) zs" for m h zs
    using that
  proof (induction "h - m" arbitrary: h zs)
    case 0
    then show ?case by simp
  next
    case (Suc d)
    then obtain h' where h: "h = Suc h'" "m \<le> h'" "d = h' - m" by (cases h) auto
    let ?zs = "heap_down lessf zs h' (length zs)"
    have "\<not> (0 < h' \<and> h' \<le> heap_parent h')" by auto
    then have "down_ok h' (length zs) zs h'"
      using Suc.prems h unfolding down_ok_def heap_from_def
      by (metis Suc_leI le_neq_implies_less)
    then have "heap_from lessf h' (length ?zs) ?zs"
      using heap_down_heap_from by simp
    then show ?case using Suc.hyps(1) [of h' ?zs] h by simp
  qed
  have "heap_from lessf (length xs div 2) (length xs) xs" by (auto simp: heap_from_def)
  then show ?thesis using step [of 0 "length xs div 2" xs] by (simp add: heap_Init_def)
qed

end

end
