(* ===== verification/Frontier_Queue.thy ===== *)
theory Frontier_Queue
  imports Go_Heap
begin

text \<open>
  pkg/frontier/frontier.go and queue.go: the URL entry, its priorities, and the priority queue.
  \<open>pq_less\<close> is \<^verbatim>\<open>priorityQueue.Less\<close> on two entries; it is a strict weak order, so the contract
  \<open>heap_order\<close> of container/heap holds for it and its lemmas apply to the queue.
\<close>

type_synonym Priority = int

definition PriorityCritical :: Priority where "PriorityCritical = 0"
definition PriorityHigh :: Priority where "PriorityHigh = 1"
definition PriorityNormal :: Priority where "PriorityNormal = 2"
definition PriorityLow :: Priority where "PriorityLow = 3"

lemmas priority_defs = PriorityCritical_def PriorityHigh_def PriorityNormal_def PriorityLow_def

record URLEntry =
  entry_URL :: string
  entry_Priority :: Priority
  entry_Depth :: int
  entry_Metadata :: "string_map option"
  entry_DiscoveredAt :: Time

type_synonym priorityQueue = "URLEntry list"

definition pq_less :: "URLEntry \<Rightarrow> URLEntry \<Rightarrow> bool" where
  "pq_less a b =
     (if entry_Priority a \<noteq> entry_Priority b then entry_Priority a < entry_Priority b
      else time_Before (entry_DiscoveredAt a) (entry_DiscoveredAt b))"

definition newPriorityQueue :: "int \<Rightarrow> priorityQueue" where
  "newPriorityQueue capacity = heap_Init pq_less []"

definition pq_Push :: "priorityQueue \<Rightarrow> URLEntry \<Rightarrow> priorityQueue" where
  "pq_Push pq x = heap_Push pq_less pq x"

definition pq_Pop :: "priorityQueue \<Rightarrow> (URLEntry \<times> priorityQueue) option" where
  "pq_Pop pq = heap_Pop pq_less pq"

interpretation pq: heap_order pq_less
  by unfold_locales (auto simp: pq_less_def time_Before_def split: if_splits)

abbreviation pq_heap :: "priorityQueue \<Rightarrow> bool" where
  "pq_heap pq \<equiv> is_heap pq_less pq"

lemma newPriorityQueue_heap [simp]: "newPriorityQueue c = []" "pq_heap (newPriorityQueue c)"
  by (simp_all add: newPriorityQueue_def heap_Init_def heap_from_def)

lemma pq_Push_facts [simp]:
  "mset (pq_Push pq x) = add_mset x (mset pq)"
  "set (pq_Push pq x) = insert x (set pq)"
  "length (pq_Push pq x) = Suc (length pq)"
  by (simp_all add: pq_Push_def)

lemma pq_Push_heap [inv_intros]: "pq_heap pq \<Longrightarrow> pq_heap (pq_Push pq x)"
  unfolding pq_Push_def by (rule pq.heap_Push_is_heap)

lemma pq_Pop_None_iff [simp]: "pq_Pop pq = None \<longleftrightarrow> pq = []"
  by (simp add: pq_Pop_def)

lemma pq_Pop_Nil [simp]: "pq_Pop [] = None"
  by simp

lemma pq_Pop_SomeD:
  assumes "pq_Pop pq = Some (e, pq')"
  shows "mset pq = add_mset e (mset pq')" and "length pq = Suc (length pq')"
    and "pq_heap pq \<Longrightarrow> pq_heap pq'"
    and "pq_heap pq \<Longrightarrow> x \<in> set pq \<Longrightarrow> \<not> pq_less x e"
proof -
  from assms have p: "heap_Pop pq_less pq = Some (e, pq')" by (simp add: pq_Pop_def)
  show "mset pq = add_mset e (mset pq')" "length pq = Suc (length pq')"
    using heap_Pop_SomeD(2,3) [OF p] .
  show "pq_heap pq'" if "pq_heap pq" using that p by (rule pq.heap_Pop_is_heap)
  show "\<not> pq_less x e" if "pq_heap pq" "x \<in> set pq" using that(1) p that(2) by (rule pq.heap_Pop_least)
qed

text \<open>Draining a queue yields its entries in priority order, first discovered first.\<close>

fun pq_drain :: "nat \<Rightarrow> priorityQueue \<Rightarrow> URLEntry list" where
  "pq_drain 0 pq = []"
| "pq_drain (Suc n) pq = (case pq_Pop pq of None \<Rightarrow> [] | Some (e, pq') \<Rightarrow> e # pq_drain n pq')"

lemma pq_drain_perm: "mset (pq_drain (length pq) pq) = mset pq"
proof (induction "length pq" arbitrary: pq)
  case 0
  then show ?case by simp
next
  case (Suc n)
  then obtain e pq' where pop: "pq_Pop pq = Some (e, pq')" by (cases "pq_Pop pq") auto
  then have "length pq = Suc (length pq')" "mset pq = add_mset e (mset pq')"
    by (rule pq_Pop_SomeD)+
  with Suc pop show ?case by simp
qed

lemma pq_drain_sorted:
  "pq_heap pq \<Longrightarrow> n \<le> length pq \<Longrightarrow> sorted_wrt (\<lambda>a b. \<not> pq_less b a) (pq_drain n pq)
     \<and> set (pq_drain n pq) \<subseteq> set pq"
proof (induction n arbitrary: pq)
  case 0
  then show ?case by simp
next
  case (Suc n)
  then obtain e pq' where pop: "pq_Pop pq = Some (e, pq')" by (cases "pq_Pop pq") auto
  note D = pq_Pop_SomeD [OF pop]
  have sub: "set pq = insert e (set pq')" using D(1) by (metis set_mset_mset set_mset_add_mset_insert)
  have IH: "sorted_wrt (\<lambda>a b. \<not> pq_less b a) (pq_drain n pq') \<and> set (pq_drain n pq') \<subseteq> set pq'"
    using Suc.IH Suc.prems D(2,3) by simp
  moreover have "\<forall>x\<in>set (pq_drain n pq'). \<not> pq_less x e"
    using IH sub D(4) [OF Suc.prems(1)] by blast
  ultimately show ?case using pop sub by auto
qed

end
