(* ===== verification/Frontier_Interface.thy ===== *)
theory Frontier_Interface
  imports Frontier_Queue
begin

text \<open>
  The interface \<^verbatim>\<open>Frontier\<close> of pkg/frontier/frontier.go as its users see it: entries are added, taken
  out by \<open>Next\<close>, and nothing else changes what is pending.  \<open>frontier_run\<close> performs a sequence of
  calls and collects the entries that were accepted and the entries that were delivered.  The
  locale \<open>frontier_contract\<close> states what one call does to the pending entries, and
  \<open>dedup_frontier\<close> adds that no URL is accepted twice; the facts on whole runs are proved once,
  inside them.
\<close>

datatype 'c frontier_op = OpAdd Time "URLEntry option" | OpNext Time | OpCtl 'c

type_synonym 'f add_call = "Time \<Rightarrow> 'f \<Rightarrow> URLEntry option \<Rightarrow> URLEntry option \<times> 'f"
type_synonym 'f next_call = "Time \<Rightarrow> 'f \<Rightarrow> URLEntry option \<times> 'f"

definition opt_list :: "'a option \<Rightarrow> 'a list" where
  "opt_list x = (case x of None \<Rightarrow> [] | Some a \<Rightarrow> [a])"

lemma opt_list_simps [simp]: "opt_list None = []" "opt_list (Some a) = [a]"
  by (simp_all add: opt_list_def)

lemma distinct_submset:
  assumes "distinct xs" and "mset ys \<subseteq># mset xs"
  shows "distinct ys"
proof -
  obtain zs where "mset xs = mset (ys @ zs)"
    using assms(2) by (metis ex_mset mset_append mset_subset_eq_exists_conv)
  then have "distinct (ys @ zs)" using assms(1) mset_eq_imp_distinct_iff by blast
  then show ?thesis by simp
qed

fun frontier_run ::
  "'f add_call \<Rightarrow> 'f next_call \<Rightarrow> ('c \<Rightarrow> 'f \<Rightarrow> 'f) \<Rightarrow> 'c frontier_op list \<Rightarrow> 'f \<Rightarrow>
   URLEntry list \<times> URLEntry list \<times> 'f"
where
  "frontier_run add nxt ctl [] f = ([], [], f)"
| "frontier_run add nxt ctl (OpAdd now e # ops) f =
     (let (r, f1) = add now f e; (acc, del, f2) = frontier_run add nxt ctl ops f1
      in (opt_list r @ acc, del, f2))"
| "frontier_run add nxt ctl (OpNext now # ops) f =
     (let (r, f1) = nxt now f; (acc, del, f2) = frontier_run add nxt ctl ops f1
      in (acc, opt_list r @ del, f2))"
| "frontier_run add nxt ctl (OpCtl c # ops) f = frontier_run add nxt ctl ops (ctl c f)"

locale frontier_contract =
  fixes add :: "'f add_call"
    and nxt :: "'f next_call"
    and ctl :: "'c \<Rightarrow> 'f \<Rightarrow> 'f"
    and pending :: "'f \<Rightarrow> URLEntry multiset"
    and finv :: "'f \<Rightarrow> bool"
  assumes add_pending: "finv f \<Longrightarrow> add now f e = (r, f') \<Longrightarrow>
      finv f' \<and> pending f' = pending f + mset (opt_list r)"
    and nxt_pending: "finv f \<Longrightarrow> nxt now f = (r, f') \<Longrightarrow>
      finv f' \<and> pending f = pending f' + mset (opt_list r)"
    and ctl_pending: "finv f \<Longrightarrow> finv (ctl c f) \<and> pending (ctl c f) = pending f"
begin

text \<open>Nothing is lost and nothing is made up.\<close>

lemma run_conservation:
  "finv f \<Longrightarrow> frontier_run add nxt ctl ops f = (acc, del, f') \<Longrightarrow>
   finv f' \<and> pending f + mset acc = mset del + pending f'"
proof (induction ops arbitrary: f acc del f')
  case Nil
  then show ?case by simp
next
  case (Cons op ops)
  show ?case
  proof (cases op)
    case (OpAdd now e)
    obtain r f1 where a: "add now f e = (r, f1)" by fastforce
    obtain acc1 del1 f2 where run: "frontier_run add nxt ctl ops f1 = (acc1, del1, f2)"
      by (metis prod_cases3)
    have "acc = opt_list r @ acc1" "del = del1" "f2 = f'" using Cons.prems(2) OpAdd a run by auto
    moreover have "finv f1" and p: "pending f1 = pending f + mset (opt_list r)"
      using add_pending [OF Cons.prems(1) a] by simp_all
    moreover note IH = Cons.IH [OF this(1) run]
    moreover have "pending f + (mset (opt_list r) + mset acc1) = pending f1 + mset acc1"
      unfolding p by (simp only: ac_simps)
    ultimately show ?thesis by simp
  next
    case (OpNext now)
    obtain r f1 where a: "nxt now f = (r, f1)" by fastforce
    obtain acc1 del1 f2 where run: "frontier_run add nxt ctl ops f1 = (acc1, del1, f2)"
      by (metis prod_cases3)
    have eqs: "acc = acc1" "del = opt_list r @ del1" "f2 = f'" using Cons.prems(2) OpNext a run by auto
    have inv1: "finv f1" and p: "pending f = pending f1 + mset (opt_list r)"
      using nxt_pending [OF Cons.prems(1) a] by simp_all
    note IH = Cons.IH [OF inv1 run]
    have "pending f + mset acc1 = mset (opt_list r) + (pending f1 + mset acc1)"
      unfolding p by (simp only: ac_simps)
    also have "\<dots> = mset (opt_list r) + (mset del1 + pending f2)" using IH by simp
    finally show ?thesis using IH unfolding eqs mset_append by (simp add: add.assoc)
  next
    case (OpCtl c)
    then have "frontier_run add nxt ctl ops (ctl c f) = (acc, del, f')" using Cons.prems(2) by simp
    then show ?thesis using Cons.IH [of "ctl c f" acc del f'] ctl_pending [OF Cons.prems(1), of c] by simp
  qed
qed

end

locale dedup_frontier = frontier_contract +
  fixes seen :: "'f \<Rightarrow> string set"
  assumes add_seen: "finv f \<Longrightarrow> add now f e = (r, f') \<Longrightarrow>
      seen f' = seen f \<union> entry_URL ` set (opt_list r) \<and> seen f \<inter> entry_URL ` set (opt_list r) = {}"
    and nxt_seen: "finv f \<Longrightarrow> nxt now f = (r, f') \<Longrightarrow> seen f' = seen f"
    and ctl_seen: "finv f \<Longrightarrow> seen (ctl c f) = seen f"
begin

lemma run_accepted_distinct:
  "finv f \<Longrightarrow> frontier_run add nxt ctl ops f = (acc, del, f') \<Longrightarrow>
   distinct (map entry_URL acc) \<and> entry_URL ` set acc \<inter> seen f = {} \<and>
   seen f' = seen f \<union> entry_URL ` set acc"
proof (induction ops arbitrary: f acc del f')
  case Nil
  then show ?case by simp
next
  case (Cons op ops)
  show ?case
  proof (cases op)
    case (OpAdd now e)
    obtain r f1 where a: "add now f e = (r, f1)" by fastforce
    obtain acc1 del1 f2 where run: "frontier_run add nxt ctl ops f1 = (acc1, del1, f2)"
      by (metis prod_cases3)
    have "acc = opt_list r @ acc1" "f2 = f'" using Cons.prems(2) OpAdd a run by auto
    moreover note add_seen [OF Cons.prems(1) a]
    moreover have "finv f1" using add_pending [OF Cons.prems(1) a] by simp
    note Cons.IH [OF this run]
    ultimately show ?thesis by (cases r) auto
  next
    case (OpNext now)
    obtain r f1 where a: "nxt now f = (r, f1)" by fastforce
    obtain acc1 del1 f2 where run: "frontier_run add nxt ctl ops f1 = (acc1, del1, f2)"
      by (metis prod_cases3)
    have "acc = acc1" "f2 = f'" using Cons.prems(2) OpNext a run by auto
    moreover have "finv f1" using nxt_pending [OF Cons.prems(1) a] by simp
    note Cons.IH [OF this run]
    ultimately show ?thesis using nxt_seen [OF Cons.prems(1) a] by simp
  next
    case (OpCtl c)
    then have "frontier_run add nxt ctl ops (ctl c f) = (acc, del, f')" using Cons.prems(2) by simp
    then show ?thesis
      using Cons.IH [of "ctl c f" acc del f'] ctl_pending [OF Cons.prems(1), of c]
        ctl_seen [OF Cons.prems(1), of c] by simp
  qed
qed

text \<open>From an empty frontier, what is delivered is a sub-multiset of what was accepted, so no URL
  is delivered twice.\<close>

lemma run_delivered_distinct:
  assumes inv: "finv f" and empty: "pending f = {#}"
    and run: "frontier_run add nxt ctl ops f = (acc, del, f')"
  shows "mset acc = mset del + pending f'" and "distinct (map entry_URL acc)"
    and "distinct (map entry_URL del)"
proof -
  show cons: "mset acc = mset del + pending f'" using run_conservation [OF inv run] empty by simp
  show dist: "distinct (map entry_URL acc)" using run_accepted_distinct [OF inv run] by simp
  show "distinct (map entry_URL del)"
    by (rule distinct_submset [OF dist]) (simp add: cons)
qed

end

end
