(* ===== verification/Frontier_Dedup.thy ===== *)
theory Frontier_Dedup
  imports Crawler_Prelude
begin

text \<open>
  pkg/frontier/dedup.go: the set of seen URLs.  The methods run under a read-write lock; \<open>MarkSeen\<close>
  first looks the URL up under the read lock, releases it, and looks again under the write lock.
  The sequential functions come first; the second part interleaves any number of \<open>MarkSeen\<close>
  calls at the granularity of their critical sections.
\<close>

record Deduplicator =
  dedup_seen :: "string set"

definition NewDeduplicator :: "int \<Rightarrow> Deduplicator" where
  "NewDeduplicator capacity = \<lparr>dedup_seen = {}\<rparr>"

definition Deduplicator_IsSeen :: "Deduplicator \<Rightarrow> string \<Rightarrow> bool" where
  "Deduplicator_IsSeen d url \<longleftrightarrow> url \<in> dedup_seen d"

text \<open>The critical section under the read lock, and the one under the write lock.\<close>

definition MarkSeen_fast :: "Deduplicator \<Rightarrow> string \<Rightarrow> bool" where
  "MarkSeen_fast d url \<longleftrightarrow> url \<in> dedup_seen d"

definition MarkSeen_slow :: "Deduplicator \<Rightarrow> string \<Rightarrow> bool \<times> Deduplicator" where
  "MarkSeen_slow d url =
     (if url \<in> dedup_seen d then (False, d)
      else (True, d\<lparr>dedup_seen := insert url (dedup_seen d)\<rparr>))"

definition Deduplicator_MarkSeen :: "Deduplicator \<Rightarrow> string \<Rightarrow> bool \<times> Deduplicator" where
  "Deduplicator_MarkSeen d url = (if MarkSeen_fast d url then (False, d) else MarkSeen_slow d url)"

definition Deduplicator_Size :: "Deduplicator \<Rightarrow> nat" where
  "Deduplicator_Size d = card (dedup_seen d)"

definition Deduplicator_Reset :: "Deduplicator \<Rightarrow> Deduplicator" where
  "Deduplicator_Reset d = d\<lparr>dedup_seen := {}\<rparr>"

lemma MarkSeen_eq:
  "Deduplicator_MarkSeen d url =
     (url \<notin> dedup_seen d, d\<lparr>dedup_seen := insert url (dedup_seen d)\<rparr>)"
  by (cases d) (auto simp: Deduplicator_MarkSeen_def MarkSeen_fast_def MarkSeen_slow_def insert_absorb)

lemma seen_NewDeduplicator [simp]: "dedup_seen (NewDeduplicator c) = {}"
  by (simp add: NewDeduplicator_def)

section \<open>Concurrent callers\<close>

text \<open>
  A caller marks one URL: it is at its start, between the two locks, or done with its result.
  Each step is one critical section of one caller.
\<close>

datatype mark_pc = AtStart | BetweenLocks | Returned bool

record mark_state =
  ms_dedup :: Deduplicator
  ms_pc :: "nat \<Rightarrow> mark_pc"

inductive mark_step :: "(nat \<Rightarrow> string) \<Rightarrow> mark_state \<Rightarrow> mark_state \<Rightarrow> bool" for u where
  fast_seen: "ms_pc s i = AtStart \<Longrightarrow> MarkSeen_fast (ms_dedup s) (u i) \<Longrightarrow>
     mark_step u s (s\<lparr>ms_pc := (ms_pc s)(i := Returned False)\<rparr>)"
| fast_unseen: "ms_pc s i = AtStart \<Longrightarrow> \<not> MarkSeen_fast (ms_dedup s) (u i) \<Longrightarrow>
     mark_step u s (s\<lparr>ms_pc := (ms_pc s)(i := BetweenLocks)\<rparr>)"
| slow: "ms_pc s i = BetweenLocks \<Longrightarrow> MarkSeen_slow (ms_dedup s) (u i) = (b, d) \<Longrightarrow>
     mark_step u s (s\<lparr>ms_dedup := d, ms_pc := (ms_pc s)(i := Returned b)\<rparr>)"

inductive_cases mark_stepE: "mark_step u s t"

definition mark_start :: "mark_state \<Rightarrow> bool" where
  "mark_start s \<longleftrightarrow> dedup_seen (ms_dedup s) = {} \<and> (\<forall>i. ms_pc s i = AtStart)"

text \<open>
  The invariant: a URL is in the set exactly when some caller returned \<open>True\<close> for it, no two
  callers returned \<open>True\<close> for the same URL, and a caller that returned \<open>False\<close> found its URL.
\<close>

definition mark_inv :: "(nat \<Rightarrow> string) \<Rightarrow> mark_state \<Rightarrow> bool" where
  "mark_inv u s \<longleftrightarrow>
     (\<forall>x. x \<in> dedup_seen (ms_dedup s) \<longleftrightarrow> (\<exists>i. ms_pc s i = Returned True \<and> u i = x)) \<and>
     (\<forall>i j. ms_pc s i = Returned True \<longrightarrow> ms_pc s j = Returned True \<longrightarrow> u i = u j \<longrightarrow> i = j) \<and>
     (\<forall>i. ms_pc s i = Returned False \<longrightarrow> u i \<in> dedup_seen (ms_dedup s))"

lemma mark_inv_start: "mark_start s \<Longrightarrow> mark_inv u s"
  by (auto simp: mark_start_def mark_inv_def)

text \<open>The invariant only reads which callers returned what.\<close>

lemma mark_inv_cong:
  assumes "mark_inv u s" and "ms_dedup t = ms_dedup s"
    and "\<And>k. ms_pc t k = Returned True \<longleftrightarrow> ms_pc s k = Returned True"
    and "\<And>k. ms_pc t k = Returned False \<Longrightarrow> u k \<in> dedup_seen (ms_dedup s)"
  shows "mark_inv u t"
  using assms by (simp add: mark_inv_def)

lemma mark_inv_seenD: "mark_inv u s \<Longrightarrow> ms_pc s k = Returned b \<Longrightarrow> u k \<in> dedup_seen (ms_dedup s)"
  by (cases b) (auto simp: mark_inv_def)

lemma mark_inv_return_False:
  assumes "mark_inv u s" and "ms_pc s i \<noteq> Returned True" and "u i \<in> dedup_seen (ms_dedup s)"
  shows "mark_inv u (s\<lparr>ms_pc := (ms_pc s)(i := Returned False)\<rparr>)"
  using assms by (intro mark_inv_cong [OF assms(1)]) (auto split: if_splits dest: mark_inv_seenD)

lemma mark_inv_between:
  assumes "mark_inv u s" and "ms_pc s i = AtStart"
  shows "mark_inv u (s\<lparr>ms_pc := (ms_pc s)(i := BetweenLocks)\<rparr>)"
  using assms by (intro mark_inv_cong [OF assms(1)]) (auto split: if_splits dest: mark_inv_seenD)

lemma mark_inv_return_True:
  assumes inv: "mark_inv u s" and pc: "ms_pc s i = BetweenLocks"
    and new: "u i \<notin> dedup_seen (ms_dedup s)"
    and d: "dedup_seen d = insert (u i) (dedup_seen (ms_dedup s))"
  shows "mark_inv u (s\<lparr>ms_dedup := d, ms_pc := (ms_pc s)(i := Returned True)\<rparr>)" (is "mark_inv u ?t")
proof -
  have ret: "ms_pc ?t k = Returned True \<longleftrightarrow> k = i \<or> ms_pc s k = Returned True" for k by simp
  have fresh: "u k \<noteq> u i" if "ms_pc s k = Returned b" for k b
    using mark_inv_seenD [OF inv that] new by auto
  have seen: "x \<in> dedup_seen (ms_dedup ?t) \<longleftrightarrow> x = u i \<or> x \<in> dedup_seen (ms_dedup s)" for x
    using d by simp
  have "x \<in> dedup_seen (ms_dedup ?t) \<longleftrightarrow> (\<exists>k. ms_pc ?t k = Returned True \<and> u k = x)" for x
    using inv unfolding ret seen mark_inv_def by blast
  moreover have "k = j" if "ms_pc ?t k = Returned True" "ms_pc ?t j = Returned True" "u k = u j" for k j
    using that inv fresh unfolding ret mark_inv_def by metis
  moreover have "u k \<in> dedup_seen (ms_dedup ?t)" if "ms_pc ?t k = Returned False" for k
    using that mark_inv_seenD [OF inv] unfolding seen by (auto split: if_splits)
  ultimately show ?thesis unfolding mark_inv_def by blast
qed

lemma mark_inv_step: "mark_inv u s \<Longrightarrow> mark_step u s t \<Longrightarrow> mark_inv u t"
proof (erule mark_stepE)
  fix i b d
  assume inv: "mark_inv u s" and pc: "ms_pc s i = BetweenLocks"
    and slow: "MarkSeen_slow (ms_dedup s) (u i) = (b, d)"
    and t: "t = s\<lparr>ms_dedup := d, ms_pc := (ms_pc s)(i := Returned b)\<rparr>"
  show "mark_inv u t"
  proof (cases "u i \<in> dedup_seen (ms_dedup s)")
    case True
    with slow have "b = False" "d = ms_dedup s" by (auto simp: MarkSeen_slow_def)
    with t mark_inv_return_False [OF inv _ True] pc show ?thesis by simp
  next
    case False
    with slow have "b" "dedup_seen d = insert (u i) (dedup_seen (ms_dedup s))"
      by (auto simp: MarkSeen_slow_def)
    with t mark_inv_return_True [OF inv pc False] show ?thesis by simp
  qed
qed (auto simp: MarkSeen_fast_def intro: mark_inv_return_False mark_inv_between)

interpretation marks: transition_system mark_start "mark_step u" "mark_inv u" for u
  by unfold_locales (auto intro: mark_inv_start mark_inv_step)

text \<open>
  C11. Whatever the interleaving of concurrent \<open>MarkSeen\<close> calls on a fresh deduplicator, as soon as one
  call for a URL has returned, exactly one call for that URL has returned \<open>true\<close>.
\<close>

theorem MarkSeen_exactly_one:
  assumes "mark_start s" and "(mark_step u)\<^sup>*\<^sup>* s t" and "ms_pc t i = Returned b"
  shows "\<exists>!j. ms_pc t j = Returned True \<and> u j = u i"
proof -
  have inv: "mark_inv u t" using marks.inv_reachable assms(1,2) .
  then obtain j where "ms_pc t j = Returned True" "u j = u i"
    using mark_inv_seenD [OF inv assms(3)] unfolding mark_inv_def by blast
  moreover have "k = j" if "ms_pc t k = Returned True" "u k = u i" for k
    using that \<open>ms_pc t j = Returned True\<close> \<open>u j = u i\<close> inv unfolding mark_inv_def by metis
  ultimately show ?thesis by blast
qed

text \<open>Two callers race for one URL; both pass the read lock before either takes the write lock.\<close>

theorem MarkSeen_exactly_one_witness:
  "\<exists>s t. mark_start s \<and> (mark_step (\<lambda>_. ''a''))\<^sup>*\<^sup>* s t \<and> ms_pc t 1 = Returned False \<and>
     (\<exists>!j. ms_pc t j = Returned True \<and> ''a'' = ''a'')"
proof -
  let ?u = "\<lambda>_::nat. ''a''"
  let ?s0 = "\<lparr>ms_dedup = NewDeduplicator 0, ms_pc = (\<lambda>_. AtStart)\<rparr>"
  let ?s1 = "?s0\<lparr>ms_pc := (\<lambda>_. AtStart)(0 := BetweenLocks)\<rparr>"
  let ?s2 = "?s1\<lparr>ms_pc := (\<lambda>_. AtStart)(0 := BetweenLocks, 1 := BetweenLocks)\<rparr>"
  let ?d = "\<lparr>dedup_seen = {''a''}\<rparr>"
  let ?s3 = "?s2\<lparr>ms_dedup := ?d, ms_pc := (\<lambda>_. AtStart)(0 := BetweenLocks, 1 := BetweenLocks, 0 := Returned True)\<rparr>"
  let ?t = "?s3\<lparr>ms_dedup := ?d, ms_pc := (ms_pc ?s3)(1 := Returned False)\<rparr>"
  have start: "mark_start ?s0" by (simp add: mark_start_def)
  have s01: "mark_step ?u ?s0 ?s1" using fast_unseen [of ?s0 0 ?u] by (simp add: MarkSeen_fast_def)
  have s12: "mark_step ?u ?s1 ?s2" using fast_unseen [of ?s1 1 ?u] by (simp add: MarkSeen_fast_def)
  have s23: "mark_step ?u ?s2 ?s3"
    using slow [of ?s2 0 ?u True ?d] by (simp add: MarkSeen_slow_def NewDeduplicator_def)
  have s3t: "mark_step ?u ?s3 ?t"
    using slow [of ?s3 1 ?u False ?d] by (simp add: MarkSeen_slow_def)
  have run: "(mark_step ?u)\<^sup>*\<^sup>* ?s0 ?t"
    by (rule converse_rtranclp_into_rtranclp [OF s01 converse_rtranclp_into_rtranclp [OF s12
      converse_rtranclp_into_rtranclp [OF s23 r_into_rtranclp [of "mark_step ?u", OF s3t]]]])
  have pc: "ms_pc ?t 1 = Returned False" by simp
  show ?thesis using start run pc MarkSeen_exactly_one [OF start run pc]
    by (intro exI [of _ ?s0] exI [of _ ?t]) simp
qed

end
