(* ===== verification/Frontier_Filter.thy ===== *)
theory Frontier_Filter
  imports Crawler_Prelude
begin

text \<open>
  pkg/frontier/filter.go: ordered allow and deny rules.  A compiled \<^verbatim>\<open>*regexp.Regexp\<close> is
  represented by its \<open>MatchString\<close> function, and \<open>regexp.Compile\<close> is the argument \<open>compile\<close>, which
  gives \<open>None\<close> for a pattern it rejects.
\<close>

record FilterRule =
  rule_Pattern :: "string \<Rightarrow> bool"
  rule_Allow :: bool

type_synonym URLFilter = "FilterRule list"

definition NewFilter :: URLFilter where
  "NewFilter = []"

definition Filter_AddAllowRule ::
  "(string \<Rightarrow> (string \<Rightarrow> bool) option) \<Rightarrow> URLFilter \<Rightarrow> string \<Rightarrow> bool \<times> URLFilter" where
  "Filter_AddAllowRule compile f pattern =
     (case compile pattern of
        None \<Rightarrow> (False, f)
      | Some re \<Rightarrow> (True, f @ [\<lparr>rule_Pattern = re, rule_Allow = True\<rparr>]))"

definition Filter_AddDenyRule ::
  "(string \<Rightarrow> (string \<Rightarrow> bool) option) \<Rightarrow> URLFilter \<Rightarrow> string \<Rightarrow> bool \<times> URLFilter" where
  "Filter_AddDenyRule compile f pattern =
     (case compile pattern of
        None \<Rightarrow> (False, f)
      | Some re \<Rightarrow> (True, f @ [\<lparr>rule_Pattern = re, rule_Allow = False\<rparr>]))"

fun Filter_IsAllowed :: "URLFilter \<Rightarrow> string \<Rightarrow> bool" where
  "Filter_IsAllowed [] url = True"
| "Filter_IsAllowed (rule # rules) url =
     (if rule_Pattern rule url then rule_Allow rule else Filter_IsAllowed rules url)"

lemma Filter_IsAllowed_append:
  "Filter_IsAllowed (f @ g) url =
     (if \<exists>r\<in>set f. rule_Pattern r url then Filter_IsAllowed f url else Filter_IsAllowed g url)"
  by (induction f) auto

lemma Filter_IsAllowed_no_match:
  "\<forall>r\<in>set f. \<not> rule_Pattern r url \<Longrightarrow> Filter_IsAllowed f url"
  by (induction f) auto

lemma Filter_denied_by_deny_rule:
  "\<not> Filter_IsAllowed f url \<Longrightarrow> \<exists>r\<in>set f. rule_Pattern r url \<and> \<not> rule_Allow r"
  by (induction f) (auto split: if_splits)

end
