(* ===== verification/Net_URL.thy ===== *)
theory Net_URL
  imports Crawler_Prelude "HOL-Library.List_Lexorder" "HOL-Library.Char_ord"
begin

text \<open>
  The part of Go's package net/url that the crawler calls: \<open>Parse\<close> with its helpers (scheme,
  authority, host and path), \<open>Hostname\<close>, \<open>Port\<close>, \<open>Query\<close>, \<open>QueryEscape\<close>, \<open>EscapedPath\<close>,
  \<open>RequestURI\<close> and \<open>String\<close>.  Bytes are characters.  \<open>None\<close> stands for a parse error.  Host
  parsing follows Go 1.26: an IP literal stands at the start of the host and is a valid IPv6
  address, and a second colon outside brackets is rejected (except for the postgres schemes).
  No limit on the number of query parameters is modelled.
\<close>

section \<open>Percent encoding\<close>

datatype encoding = encodePath | encodePathSegment | encodeHost | encodeZone
  | encodeUserPassword | encodeQueryComponent | encodeFragment

definition is_alnum :: "char \<Rightarrow> bool" where
  "is_alnum c = (let n = (of_char c :: nat)
     in (97 \<le> n \<and> n \<le> 122) \<or> (65 \<le> n \<and> n \<le> 90) \<or> (48 \<le> n \<and> n \<le> 57))"

definition shouldEscape :: "char \<Rightarrow> encoding \<Rightarrow> bool" where
  "shouldEscape c mode =
     (if is_alnum c then False
      else if (mode = encodeHost \<or> mode = encodeZone) \<and>
              (c \<in> set ''!$&()*+,;=:[]<>'' \<or> c = CHR 0x27 \<or> c = CHR 0x22) then False
      else if c \<in> set ''-_.~'' then False
      else if c \<in> set ''$&+,/:;=?@'' then
        (case mode of
           encodePath \<Rightarrow> c = CHR ''?''
         | encodePathSegment \<Rightarrow> c \<in> set ''/;,?''
         | encodeUserPassword \<Rightarrow> c \<in> set ''@/?:''
         | encodeQueryComponent \<Rightarrow> True
         | encodeFragment \<Rightarrow> False
         | _ \<Rightarrow> True)
      else if mode = encodeFragment \<and> c \<in> set ''!()*'' then False
      else True)"

definition upperhex :: "nat \<Rightarrow> char" where
  "upperhex d = (if d < 10 then char_of (48 + d) else char_of (55 + d))"

definition ishex :: "char \<Rightarrow> bool" where
  "ishex c = (let n = (of_char c :: nat)
     in (48 \<le> n \<and> n \<le> 57) \<or> (97 \<le> n \<and> n \<le> 102) \<or> (65 \<le> n \<and> n \<le> 70))"

definition unhex :: "char \<Rightarrow> nat" where
  "unhex c = (let n = (of_char c :: nat)
     in if 48 \<le> n \<and> n \<le> 57 then n - 48
        else if 97 \<le> n \<and> n \<le> 102 then n - 87
        else if 65 \<le> n \<and> n \<le> 70 then n - 55 else 0)"

definition hex_pair :: "char \<Rightarrow> char \<Rightarrow> char" where
  "hex_pair a b = char_of (16 * unhex a + unhex b)"

definition escape_char :: "encoding \<Rightarrow> char \<Rightarrow> string" where
  "escape_char mode c =
     (if shouldEscape c mode then
        (if c = CHR '' '' \<and> mode = encodeQueryComponent then ''+''
         else [CHR ''%'', upperhex (of_char c div 16), upperhex (of_char c mod 16)])
      else [c])"

definition url_escape :: "string \<Rightarrow> encoding \<Rightarrow> string" where
  "url_escape s mode = concat (map (escape_char mode) s)"

definition bad_escape :: "encoding \<Rightarrow> char \<Rightarrow> char \<Rightarrow> bool" where
  "bad_escape mode a b =
     ((mode = encodeHost \<and> unhex a < 8 \<and> (a, b) \<noteq> (CHR ''2'', CHR ''5'')) \<or>
      (mode = encodeZone \<and> (a, b) \<noteq> (CHR ''2'', CHR ''5'') \<and> hex_pair a b \<noteq> CHR '' '' \<and>
         shouldEscape (hex_pair a b) encodeHost))"

fun url_unescape :: "encoding \<Rightarrow> string \<Rightarrow> string option" where
  "url_unescape mode [] = Some []"
| "url_unescape mode (c # s) =
     (if c = CHR ''%'' then
        (case s of
           a # b # t \<Rightarrow>
             (if \<not> ishex a \<or> \<not> ishex b \<or> bad_escape mode a b then None
              else map_option (\<lambda>r. hex_pair a b # r) (url_unescape mode t))
         | _ \<Rightarrow> None)
      else if c = CHR ''+'' \<and> mode = encodeQueryComponent then
        map_option (\<lambda>r. CHR '' '' # r) (url_unescape mode s)
      else if (mode = encodeHost \<or> mode = encodeZone) \<and> (of_char c :: nat) < 128 \<and> shouldEscape c mode
        then None
      else map_option (\<lambda>r. c # r) (url_unescape mode s))"

definition QueryEscape :: "string \<Rightarrow> string" where
  "QueryEscape s = url_escape s encodeQueryComponent"

definition QueryUnescape :: "string \<Rightarrow> string option" where
  "QueryUnescape s = url_unescape encodeQueryComponent s"

section \<open>Queries\<close>

text \<open>\<open>ParseQuery\<close> as the pairs it appends, in order; a key-value text with a semicolon or a bad
  escape is dropped (\<open>Query\<close> ignores the error).\<close>

definition parse_pair :: "string \<Rightarrow> (string \<times> string) list" where
  "parse_pair kv =
     (if CHR '';'' \<in> set kv \<or> kv = [] then []
      else let (k, v, _) = strings_Cut kv ''=''
           in (case (QueryUnescape k, QueryUnescape v) of
                 (Some k', Some v') \<Rightarrow> [(k', v')]
               | _ \<Rightarrow> []))"

definition url_Query :: "string \<Rightarrow> (string \<times> string) list" where
  "url_Query q = concat (map parse_pair (split_on (CHR ''&'') q))"

section \<open>Hosts\<close>

definition validOptionalPort :: "string \<Rightarrow> bool" where
  "validOptionalPort p = (case p of [] \<Rightarrow> True | c # ds \<Rightarrow> c = CHR '':'' \<and> (\<forall>d\<in>set ds. is_digit d))"

definition valid_ip4_field :: "string \<Rightarrow> bool" where
  "valid_ip4_field f \<longleftrightarrow> f \<noteq> [] \<and> (\<forall>c\<in>set f. is_digit c) \<and>
     (length f = 1 \<or> hd f \<noteq> CHR ''0'') \<and> dec_value f \<le> 255"

definition valid_ip4 :: "string \<Rightarrow> bool" where
  "valid_ip4 s = (let fs = split_on (CHR ''.'') s in length fs = 4 \<and> (\<forall>f\<in>set fs. valid_ip4_field f))"

text \<open>The group loop of \<open>netip.ParseAddr\<close> on an IPv6 text: \<open>i\<close> bytes are filled, \<open>ell\<close> tells
  whether an ellipsis was seen; eight groups bound the recursion.\<close>

fun ip6_groups :: "nat \<Rightarrow> nat \<Rightarrow> bool \<Rightarrow> string \<Rightarrow> bool" where
  "ip6_groups 0 i ell s = (s = [] \<and> \<not> ell)"
| "ip6_groups (Suc n) i ell s =
     (let ds = takeWhile ishex s; rest = dropWhile ishex s
      in if ds = [] \<or> 4 < length ds then False
         else if rest \<noteq> [] \<and> hd rest = CHR ''.'' then
           (ell \<or> i = 12) \<and> i + 4 \<le> 16 \<and> valid_ip4 s \<and> (if i + 4 < 16 then ell else \<not> ell)
         else if rest = [] then (if i + 2 < 16 then ell else \<not> ell)
         else if hd rest \<noteq> CHR '':'' \<or> tl rest = [] then False
         else if hd (tl rest) = CHR '':'' then
           (if ell then False
            else if tl (tl rest) = [] then i + 2 < 16
            else ip6_groups n (i + 2) True (tl (tl rest)))
         else ip6_groups n (i + 2) ell (tl rest))"

definition valid_ip6 :: "string \<Rightarrow> bool" where
  "valid_ip6 addr =
     (let (s, zone, has_zone) = strings_Cut addr ''%''
      in CHR '':'' \<in> set s \<and> CHR ''.'' \<notin> set (takeWhile (\<lambda>c. c \<noteq> CHR '':'') s) \<and>
         (has_zone \<longrightarrow> zone \<noteq> []) \<and>
         (if strings_HasPrefix s ''::'' then drop 2 s = [] \<or> ip6_groups 8 0 True (drop 2 s)
          else ip6_groups 8 0 False s))"

definition host_unescape_literal :: "string \<Rightarrow> string option" where
  "host_unescape_literal h =
     (case strings_Index h ''%25'' of
        Some z \<Rightarrow> (case (url_unescape encodeHost (take z h), url_unescape encodeZone (drop z h)) of
                    (Some a, Some b) \<Rightarrow> Some (a @ b) | _ \<Rightarrow> None)
      | None \<Rightarrow> url_unescape encodeHost h)"

definition parseHost :: "string \<Rightarrow> string \<Rightarrow> string option" where
  "parseHost scheme host =
     (case strings_LastIndex host ''['' of
        Some open \<Rightarrow>
          (case strings_LastIndex host '']'' of
             None \<Rightarrow> None
           | Some close \<Rightarrow>
               (let colonPort = drop (close + 1) host;
                    literal = drop (open + 1) (take close host)
                in if open \<noteq> 0 \<or> \<not> validOptionalPort colonPort then None
                   else (case (host_unescape_literal literal, url_unescape encodeHost colonPort) of
                           (Some h, Some p) \<Rightarrow> if valid_ip6 h then Some (''['' @ h @ '']'' @ p) else None
                         | _ \<Rightarrow> None)))
      | None \<Rightarrow>
          (case strings_Index host '':'' of
             None \<Rightarrow> url_unescape encodeHost host
           | Some first \<Rightarrow>
               (let i = (if scheme \<in> {''postgres'', ''postgresql''}
                         then (case strings_LastIndex host '':'' of None \<Rightarrow> first | Some l \<Rightarrow> l)
                         else first)
                in if validOptionalPort (drop i host) then url_unescape encodeHost host else None)))"

text \<open>User names and passwords: a password is present when the user info has a colon.\<close>

type_synonym Userinfo = "string \<times> string option"

definition validUserinfo :: "string \<Rightarrow> bool" where
  "validUserinfo s \<longleftrightarrow> (\<forall>c\<in>set s. is_alnum c \<or> c \<in> set ''-._:~!$&()*+,;=%@'' \<or> c = CHR 0x27)"

definition parseAuthority :: "string \<Rightarrow> string \<Rightarrow> (Userinfo option \<times> string) option" where
  "parseAuthority scheme authority =
     (case strings_LastIndex authority ''@'' of
        None \<Rightarrow> map_option (\<lambda>h. (None, h)) (parseHost scheme authority)
      | Some i \<Rightarrow>
          (case parseHost scheme (drop (i + 1) authority) of
             None \<Rightarrow> None
           | Some h \<Rightarrow>
               (let userinfo = take i authority
                in if \<not> validUserinfo userinfo then None
                   else (case strings_Cut userinfo '':'' of
                           (name, pass, False) \<Rightarrow>
                             map_option (\<lambda>n. (Some (n, None), h)) (url_unescape encodeUserPassword name)
                         | (name, pass, True) \<Rightarrow>
                             (case (url_unescape encodeUserPassword name,
                                    url_unescape encodeUserPassword pass) of
                                (Some n, Some p) \<Rightarrow> Some (Some (n, Some p), h)
                              | _ \<Rightarrow> None)))))"

section \<open>URLs\<close>

record URL =
  url_Scheme :: string
  url_Opaque :: string
  url_User :: "Userinfo option"
  url_Host :: string
  url_Path :: string
  url_RawPath :: string
  url_OmitHost :: bool
  url_ForceQuery :: bool
  url_RawQuery :: string
  url_Fragment :: string
  url_RawFragment :: string

definition new_URL :: URL where
  "new_URL = \<lparr>url_Scheme = [], url_Opaque = [], url_User = None, url_Host = [], url_Path = [],
     url_RawPath = [], url_OmitHost = False, url_ForceQuery = False, url_RawQuery = [],
     url_Fragment = [], url_RawFragment = []\<rparr>"

definition scheme_letter :: "char \<Rightarrow> bool" where
  "scheme_letter c = (let n = (of_char c :: nat) in (97 \<le> n \<and> n \<le> 122) \<or> (65 \<le> n \<and> n \<le> 90))"

text \<open>\<open>getScheme\<close>: \<open>None\<close> for a missing scheme before a colon.\<close>

definition scheme_char :: "char \<Rightarrow> bool" where
  "scheme_char c \<longleftrightarrow> scheme_letter c \<or> is_digit c \<or> c \<in> set ''+-.''"

definition getScheme :: "string \<Rightarrow> (string \<times> string) option" where
  "getScheme s =
     (let sch = takeWhile scheme_char s; rest = dropWhile scheme_char s
      in if sch \<noteq> [] \<and> \<not> scheme_letter (hd sch) then Some ([], s)
         else if rest \<noteq> [] \<and> hd rest = CHR '':'' then
           (if sch = [] then None else Some (sch, tl rest))
         else Some ([], s))"

definition has_ctl_byte :: "string \<Rightarrow> bool" where
  "has_ctl_byte s \<longleftrightarrow> (\<exists>c\<in>set s. (of_char c :: nat) < 32 \<or> (of_char c :: nat) = 127)"

definition setPath :: "string \<Rightarrow> URL \<Rightarrow> URL option" where
  "setPath p u =
     (case url_unescape encodePath p of
        None \<Rightarrow> None
      | Some path \<Rightarrow>
          Some (u\<lparr>url_Path := path,
                  url_RawPath := (if p = url_escape path encodePath then [] else p)\<rparr>))"

definition setFragment :: "string \<Rightarrow> URL \<Rightarrow> URL option" where
  "setFragment f u =
     (case url_unescape encodeFragment f of
        None \<Rightarrow> None
      | Some frag \<Rightarrow>
          Some (u\<lparr>url_Fragment := frag,
                  url_RawFragment := (if f = url_escape frag encodeFragment then [] else f)\<rparr>))"

definition split_query :: "string \<Rightarrow> URL \<Rightarrow> string \<times> URL" where
  "split_query rest u =
     (if strings_HasSuffix rest ''?'' \<and> count_list rest (CHR ''?'') = 1
      then (butlast rest, u\<lparr>url_ForceQuery := True\<rparr>)
      else (let (r, q, _) = strings_Cut rest ''?'' in (r, u\<lparr>url_RawQuery := q\<rparr>)))"

definition parse_hier :: "string \<Rightarrow> URL \<Rightarrow> URL option" where
  "parse_hier rest u =
     (if (url_Scheme u \<noteq> [] \<or> \<not> strings_HasPrefix rest ''///'') \<and> strings_HasPrefix rest ''//'' then
        (let a = drop 2 rest;
             authority = takeWhile (\<lambda>c. c \<noteq> CHR ''/'') a;
             path = dropWhile (\<lambda>c. c \<noteq> CHR ''/'') a
         in (case parseAuthority (url_Scheme u) authority of
               None \<Rightarrow> None
             | Some (user, host) \<Rightarrow> setPath path (u\<lparr>url_User := user, url_Host := host\<rparr>)))
      else setPath rest
             (if url_Scheme u \<noteq> [] \<and> strings_HasPrefix rest ''/'' then u\<lparr>url_OmitHost := True\<rparr> else u))"

definition parse_no_fragment :: "string \<Rightarrow> URL option" where
  "parse_no_fragment rawURL =
     (if has_ctl_byte rawURL then None
      else if rawURL = ''*'' then Some (new_URL\<lparr>url_Path := ''*''\<rparr>)
      else (case getScheme rawURL of
              None \<Rightarrow> None
            | Some (sch, rest0) \<Rightarrow>
                (let (rest, u) = split_query rest0 (new_URL\<lparr>url_Scheme := strings_ToLower sch\<rparr>)
                 in if \<not> strings_HasPrefix rest ''/'' \<and> url_Scheme u \<noteq> [] then
                      Some (u\<lparr>url_Opaque := rest\<rparr>)
                    else if \<not> strings_HasPrefix rest ''/'' \<and>
                            CHR '':'' \<in> set (takeWhile (\<lambda>c. c \<noteq> CHR ''/'') rest) then None
                    else parse_hier rest u)))"

definition url_Parse :: "string \<Rightarrow> URL option" where
  "url_Parse rawURL =
     (let (u, frag, _) = strings_Cut rawURL ''#''
      in (case parse_no_fragment u of
            None \<Rightarrow> None
          | Some url \<Rightarrow> if frag = [] then Some url else setFragment frag url))"

section \<open>Accessors and printing\<close>

definition splitHostPort :: "string \<Rightarrow> string \<times> string" where
  "splitHostPort hp =
     (let (host, port) =
            (case strings_LastIndex hp '':'' of
               Some colon \<Rightarrow> if validOptionalPort (drop colon hp)
                             then (take colon hp, drop (colon + 1) hp) else (hp, [])
             | None \<Rightarrow> (hp, []))
      in (if strings_HasPrefix host ''['' \<and> strings_HasSuffix host '']''
          then butlast (tl host) else host, port))"

definition url_Hostname :: "URL \<Rightarrow> string" where
  "url_Hostname u = fst (splitHostPort (url_Host u))"

definition url_Port :: "URL \<Rightarrow> string" where
  "url_Port u = snd (splitHostPort (url_Host u))"

definition validEncoded :: "string \<Rightarrow> encoding \<Rightarrow> bool" where
  "validEncoded s mode \<longleftrightarrow>
     (\<forall>c\<in>set s. c \<in> set ''!$&()*+,;=:@[]%'' \<or> c = CHR 0x27 \<or> \<not> shouldEscape c mode)"

definition EscapedPath :: "URL \<Rightarrow> string" where
  "EscapedPath u =
     (if url_RawPath u \<noteq> [] \<and> validEncoded (url_RawPath u) encodePath \<and>
         url_unescape encodePath (url_RawPath u) = Some (url_Path u) then url_RawPath u
      else if url_Path u = ''*'' then ''*''
      else url_escape (url_Path u) encodePath)"

definition EscapedFragment :: "URL \<Rightarrow> string" where
  "EscapedFragment u =
     (if url_RawFragment u \<noteq> [] \<and> validEncoded (url_RawFragment u) encodeFragment \<and>
         url_unescape encodeFragment (url_RawFragment u) = Some (url_Fragment u)
      then url_RawFragment u else url_escape (url_Fragment u) encodeFragment)"

definition Userinfo_String :: "Userinfo \<Rightarrow> string" where
  "Userinfo_String ui = (case ui of
       (n, None) \<Rightarrow> url_escape n encodeUserPassword
     | (n, Some p) \<Rightarrow> url_escape n encodeUserPassword @ '':'' @ url_escape p encodeUserPassword)"

definition authority_String :: "URL \<Rightarrow> string" where
  "authority_String u =
     (if url_Scheme u = [] \<and> url_Host u = [] \<and> url_User u = None then []
      else if url_OmitHost u \<and> url_Host u = [] \<and> url_User u = None then []
      else (if url_Host u \<noteq> [] \<or> url_Path u \<noteq> [] \<or> url_User u \<noteq> None then ''//'' else []) @
           (case url_User u of None \<Rightarrow> [] | Some ui \<Rightarrow> Userinfo_String ui @ ''@'') @
           url_escape (url_Host u) encodeHost)"

definition url_String :: "URL \<Rightarrow> string" where
  "url_String u =
     (let sch = (if url_Scheme u \<noteq> [] then url_Scheme u @ '':'' else []);
          path = EscapedPath u;
          pre = sch @ authority_String u @
                (if path \<noteq> [] \<and> hd path \<noteq> CHR ''/'' \<and> url_Host u \<noteq> [] then ''/'' else []);
          dot = (if pre = [] \<and> CHR '':'' \<in> set (takeWhile (\<lambda>c. c \<noteq> CHR ''/'') path) then ''./'' else []);
          body = (if url_Opaque u \<noteq> [] then sch @ url_Opaque u else pre @ dot @ path)
      in body @
         (if url_ForceQuery u \<or> url_RawQuery u \<noteq> [] then ''?'' @ url_RawQuery u else []) @
         (if url_Fragment u \<noteq> [] then ''#'' @ EscapedFragment u else []))"

text \<open>\<open>RequestURI\<close>: the path and query of an HTTP request line.\<close>

definition url_RequestURI :: "URL \<Rightarrow> string" where
  "url_RequestURI u =
     (let r = (if url_Opaque u = [] then (if EscapedPath u = [] then ''/'' else EscapedPath u)
               else if strings_HasPrefix (url_Opaque u) ''//'' then url_Scheme u @ '':'' @ url_Opaque u
               else url_Opaque u)
      in r @ (if url_ForceQuery u \<or> url_RawQuery u \<noteq> [] then ''?'' @ url_RawQuery u else []))"

section \<open>The query round trip\<close>

lemma hex_pair_upperhex: "hex_pair (upperhex (of_char c div 16)) (upperhex (of_char c mod 16)) = c"
proof -
  have u: "unhex (upperhex d) = d" if "d < 16" for d
    using that by (auto simp: unhex_def upperhex_def Let_def)
  have "(of_char c :: nat) < 256" by simp
  then have "(of_char c :: nat) div 16 < 16" by (simp add: less_mult_imp_div_less)
  then show ?thesis
    by (simp add: hex_pair_def u mod_less_divisor)
qed

lemma ishex_upperhex [simp]: "d < 16 \<Longrightarrow> ishex (upperhex d)"
  by (auto simp: ishex_def upperhex_def Let_def)

lemma unescape_escape_char:
  "url_unescape encodeQueryComponent (escape_char encodeQueryComponent c @ s) =
     map_option (\<lambda>r. c # r) (url_unescape encodeQueryComponent s)"
proof (cases "shouldEscape c encodeQueryComponent")
  case True
  have "(of_char c :: nat) div 16 < 16"
    using of_char_of [of "0::nat"] by (simp add: less_mult_imp_div_less)
  with True show ?thesis
    by (auto simp: escape_char_def hex_pair_upperhex bad_escape_def)
next
  case False
  then have "c \<noteq> CHR ''%''" "c \<noteq> CHR ''+''"
    by (auto simp: shouldEscape_def is_alnum_def)
  with False show ?thesis by (simp add: escape_char_def)
qed

lemma QueryUnescape_QueryEscape: "QueryUnescape (QueryEscape s) = Some s"
  by (induction s)
     (simp_all add: QueryUnescape_def QueryEscape_def url_escape_def unescape_escape_char)

end
