(* ===== verification/Frontier_Canonical.thy ===== *)
theory Frontier_Canonical
  imports Net_URL
begin

text \<open>
  pkg/frontier/canonical.go.  \<open>canonical_query\<close> is the loop that rebuilds the query from the
  sorted parameters, \<open>canonical_URL\<close> the changes the function makes to the parsed URL, and
  \<open>Canonicalize\<close> the whole function.
\<close>

definition query_keys :: "(string \<times> string) list \<Rightarrow> string list" where
  "query_keys params = sort (remdups (map fst params))"

definition query_values :: "(string \<times> string) list \<Rightarrow> string \<Rightarrow> string list" where
  "query_values params k = sort (map snd (filter (\<lambda>p. fst p = k) params))"

definition sorted_params :: "(string \<times> string) list \<Rightarrow> (string \<times> string) list" where
  "sorted_params params =
     concat (map (\<lambda>k. map (\<lambda>v. (k, v)) (query_values params k)) (query_keys params))"

definition encode_pair :: "string \<times> string \<Rightarrow> string" where
  "encode_pair p = QueryEscape (fst p) @ ''='' @ QueryEscape (snd p)"

definition canonical_query :: "string \<Rightarrow> string" where
  "canonical_query q = join_with ''&'' (map encode_pair (sorted_params (url_Query q)))"

definition canonical_URL :: "URL \<Rightarrow> URL" where
  "canonical_URL u0 =
     (let u1 = u0\<lparr>url_Scheme := strings_ToLower (url_Scheme u0), url_Host := strings_ToLower (url_Host u0)\<rparr>;
          host = url_Hostname u1;
          port = url_Port u1;
          u2 = (if (url_Scheme u1 = ''http'' \<and> port = ''80'') \<or> (url_Scheme u1 = ''https'' \<and> port = ''443'')
                then u1\<lparr>url_Host := host\<rparr> else u1);
          u3 = u2\<lparr>url_Fragment := []\<rparr>;
          u4 = (if url_RawQuery u3 \<noteq> [] then u3\<lparr>url_RawQuery := canonical_query (url_RawQuery u3)\<rparr> else u3)
      in (if 1 < length (url_Path u4) then u4\<lparr>url_Path := trim_right (CHR ''/'') (url_Path u4)\<rparr> else u4))"

definition Canonicalize :: "string \<Rightarrow> string" where
  "Canonicalize rawURL =
     (case url_Parse rawURL of None \<Rightarrow> rawURL | Some u \<Rightarrow> url_String (canonical_URL u))"

section \<open>The query: sorted, independent of the order, stable\<close>

lemma set_sorted_params [simp]: "set (sorted_params ps) = set ps"
  by (force simp: sorted_params_def query_keys_def query_values_def)

lemma sorted_params_mset_cong:
  assumes "mset ps = mset qs"
  shows "sorted_params ps = sorted_params qs"
proof -
  have "set (map fst ps) = set (map fst qs)" using assms by (metis mset_eq_setD set_map)
  then have keys: "query_keys ps = query_keys qs"
    unfolding query_keys_def by (metis distinct_remdups set_remdups sorted_list_of_set_sort_remdups)
  have "query_values ps k = query_values qs k" for k
  proof -
    let ?xs = "map snd (filter (\<lambda>p. fst p = k) ps)" and ?ys = "map snd (filter (\<lambda>p. fst p = k) qs)"
    have "mset (sort ?ys) = mset ?xs" using assms by simp
    then show ?thesis unfolding query_values_def by (rule properties_for_sort) simp
  qed
  with keys show ?thesis by (simp add: sorted_params_def)
qed

lemma mset_concat_filter_keys:
  "distinct ks \<Longrightarrow> fst ` set ps \<subseteq> set ks \<Longrightarrow>
   mset (concat (map (\<lambda>k. filter (\<lambda>p. fst p = k) ps) ks)) = mset ps"
proof (induction ks arbitrary: ps)
  case Nil
  then show ?case by simp
next
  case (Cons k ks)
  let ?rest = "filter (\<lambda>p. fst p \<noteq> k) ps"
  have "filter (\<lambda>p. fst p = k') ?rest = filter (\<lambda>p. fst p = k') ps" if "k' \<in> set ks" for k'
    using that Cons.prems(1) by (auto simp: filter_filter intro: filter_cong)
  then have eq: "concat (map (\<lambda>k. filter (\<lambda>p. fst p = k) ps) ks) = concat (map (\<lambda>k. filter (\<lambda>p. fst p = k) ?rest) ks)"
    by (metis (no_types, lifting) map_eq_conv)
  have "mset (concat (map (\<lambda>k. filter (\<lambda>p. fst p = k) ?rest) ks)) = mset ?rest"
    using Cons.prems by (intro Cons.IH) auto
  then show ?case unfolding list.map concat.simps mset_append eq
    by (simp add: multiset_partition [symmetric])
qed

lemma mset_sorted_params [simp]: "mset (sorted_params ps) = mset ps"
proof -
  have "mset (map (\<lambda>v. (k, v)) (query_values ps k)) = mset (filter (\<lambda>p. fst p = k) ps)" for k
  proof -
    have "image_mset (\<lambda>p. (k, snd p)) (mset (filter (\<lambda>p. fst p = k) ps)) = mset (filter (\<lambda>p. fst p = k) ps)"
      by (rule trans [OF multiset.map_cong multiset.map_ident]) auto
    then show ?thesis by (simp add: query_values_def image_mset.compositionality comp_def)
  qed
  then have "mset (sorted_params ps) = mset (concat (map (\<lambda>k. filter (\<lambda>p. fst p = k) ps) (query_keys ps)))"
    unfolding sorted_params_def mset_concat by (simp add: comp_def)
  then show ?thesis
    using mset_concat_filter_keys [of "query_keys ps" ps] by (simp add: query_keys_def)
qed

lemma sorted_params_idem [simp]: "sorted_params (sorted_params ps) = sorted_params ps"
  by (rule sorted_params_mset_cong) simp

text \<open>An encoded pair contains no separator and parses back to the pair.\<close>

lemma escape_char_query_no_sep:
  "d \<in> set (escape_char encodeQueryComponent c) \<Longrightarrow> d \<notin> set ''&;=''"
proof -
  have hex: "upperhex k \<notin> set ''&;=''" if "k < 16" for k
    using ishex_upperhex [OF that] by (auto simp: ishex_def)
  have "(of_char c :: nat) div 16 < 16" by (simp add: less_mult_imp_div_less)
  then show "d \<in> set (escape_char encodeQueryComponent c) \<Longrightarrow> d \<notin> set ''&;=''"
    using hex [of "of_char c div 16"] hex [of "of_char c mod 16"]
    by (auto simp: escape_char_def shouldEscape_def is_alnum_def split: if_splits)
qed

lemma QueryEscape_no_sep: "set (QueryEscape s) \<inter> set ''&;='' = {}"
  using escape_char_query_no_sep by (fastforce simp: QueryEscape_def url_escape_def)

lemma Index_append_first:
  "c \<notin> set s \<Longrightarrow> strings_Index (s @ c # t) [c] = Some (length s)"
  by (induction s) (auto simp: strings_HasPrefix_def)

lemma Cut_first: "c \<notin> set s \<Longrightarrow> strings_Cut (s @ c # t) [c] = (s, t, True)"
  by (simp add: strings_Cut_def Index_append_first)

lemma parse_pair_encode [simp]: "parse_pair (encode_pair p) = [p]"
proof -
  have "CHR '';'' \<notin> set (encode_pair p)"
    using QueryEscape_no_sep [of "fst p"] QueryEscape_no_sep [of "snd p"] by (auto simp: encode_pair_def)
  moreover have "strings_Cut (encode_pair p) ''='' = (QueryEscape (fst p), QueryEscape (snd p), True)"
    using QueryEscape_no_sep [of "fst p"] by (simp add: encode_pair_def Cut_first)
  ultimately show ?thesis
    by (simp add: parse_pair_def QueryUnescape_QueryEscape encode_pair_def)
qed

lemma encode_pair_no_amp: "CHR ''&'' \<notin> set (encode_pair p)"
  using QueryEscape_no_sep [of "fst p"] QueryEscape_no_sep [of "snd p"] by (auto simp: encode_pair_def)

lemma url_Query_join_encode: "url_Query (join_with ''&'' (map encode_pair ps)) = ps"
proof (cases "ps = []")
  case True
  then show ?thesis by (simp add: url_Query_def parse_pair_def)
next
  case False
  then have "split_on (CHR ''&'') (join_with ''&'' (map encode_pair ps)) = map encode_pair ps"
    by (intro split_on_join) (auto simp: encode_pair_no_amp)
  then show ?thesis by (simp add: url_Query_def comp_def)
qed

lemma url_Query_canonical_query: "url_Query (canonical_query q) = sorted_params (url_Query q)"
  by (simp add: canonical_query_def url_Query_join_encode)

lemma canonical_query_idem [simp]: "canonical_query (canonical_query q) = canonical_query q"
  by (simp add: canonical_query_def url_Query_join_encode)

lemma canonical_query_Nil [simp]: "canonical_query [] = []"
  by (simp add: canonical_query_def url_Query_def parse_pair_def sorted_params_def query_keys_def)

section \<open>The whole URL\<close>

text \<open>
  C31. The query of a canonical URL carries the parameters of the original in sorted order, is
  not changed by canonicalising again, and two queries have the same canonical form exactly when
  they have the same parameters with the same multiplicities, in whatever order.
\<close>

theorem canonical_query_normal_form:
  "url_Query (canonical_query q) = sorted_params (url_Query q) \<and>
   canonical_query (canonical_query q) = canonical_query q \<and>
   (canonical_query q = canonical_query r \<longleftrightarrow> mset (url_Query q) = mset (url_Query r))"
proof (intro conjI)
  show "canonical_query q = canonical_query r \<longleftrightarrow> mset (url_Query q) = mset (url_Query r)"
  proof
    assume "canonical_query q = canonical_query r"
    from arg_cong [OF this, of url_Query]
    have "sorted_params (url_Query q) = sorted_params (url_Query r)"
      by (simp only: url_Query_canonical_query)
    from arg_cong [OF this, of mset] show "mset (url_Query q) = mset (url_Query r)" by simp
  next
    assume "mset (url_Query q) = mset (url_Query r)"
    from sorted_params_mset_cong [OF this] show "canonical_query q = canonical_query r"
      by (simp add: canonical_query_def)
  qed
qed (simp_all add: url_Query_canonical_query)

text \<open>The host step on its own: lowercased, and without the scheme's default port.\<close>

definition default_port :: "string \<Rightarrow> string \<Rightarrow> bool" where
  "default_port scheme port \<longleftrightarrow>
     (scheme = ''http'' \<and> port = ''80'') \<or> (scheme = ''https'' \<and> port = ''443'')"

definition canonical_host :: "string \<Rightarrow> string \<Rightarrow> string" where
  "canonical_host scheme h =
     (if default_port scheme (snd (splitHostPort h)) then fst (splitHostPort h) else h)"

lemma canonical_URL_alt:
  "canonical_URL u =
     u\<lparr>url_Scheme := strings_ToLower (url_Scheme u),
       url_Host := canonical_host (strings_ToLower (url_Scheme u)) (strings_ToLower (url_Host u)),
       url_Fragment := [],
       url_RawQuery := canonical_query (url_RawQuery u),
       url_Path := (if 1 < length (url_Path u) then trim_right (CHR ''/'') (url_Path u) else url_Path u)\<rparr>"
  by (cases u) (auto simp: canonical_URL_def Let_def canonical_host_def default_port_def
      url_Hostname_def url_Port_def)

lemma splitHostPort_no_colon:
  "CHR '':'' \<notin> set h \<Longrightarrow> CHR ''['' \<notin> set h \<Longrightarrow> splitHostPort h = (h, [])"
  by (cases h) (auto simp: splitHostPort_def LastIndex_char_None_iff [THEN iffD2] strings_HasPrefix_def)

lemma splitHostPort_one_colon:
  assumes "count_list h (CHR '':'') \<le> 1" and "CHR ''['' \<notin> set h"
    and "snd (splitHostPort h) \<noteq> []"
  shows "CHR '':'' \<notin> set (fst (splitHostPort h)) \<and> set (fst (splitHostPort h)) \<subseteq> set h"
proof -
  from assms(3) obtain i where i: "strings_LastIndex h '':'' = Some i"
    and v: "validOptionalPort (drop i h)"
    by (auto simp: splitHostPort_def Let_def split: option.splits if_splits)
  have no: "\<not> strings_HasPrefix (take i h) ''[''"
    using assms(2) in_set_takeD [of _ i h] by (cases "take i h") (auto simp: strings_HasPrefix_def)
  have fst: "fst (splitHostPort h) = take i h" using i v no by (simp add: splitHostPort_def)
  note D = LastIndex_char_SomeD [OF i]
  have "h = take i h @ CHR '':'' # drop (Suc i) h" using D id_take_nth_drop by metis
  then have "count_list h (CHR '':'') = count_list (take i h) (CHR '':'') + 1 + count_list (drop (Suc i) h) (CHR '':'')"
    by (metis count_list_append count_list.simps(2) add.assoc add.commute)
  with assms(1) have "count_list (take i h) (CHR '':'') = 0" by linarith
  then show ?thesis using fst by (auto simp: count_list_0_iff dest: in_set_takeD)
qed

lemma canonical_host_idem:
  assumes "count_list h (CHR '':'') \<le> 1" and "CHR ''['' \<notin> set h"
  shows "canonical_host s (canonical_host s h) = canonical_host s h"
proof (cases "default_port s (snd (splitHostPort h))")
  case True
  then have "snd (splitHostPort h) \<noteq> []" by (auto simp: default_port_def)
  with splitHostPort_one_colon [OF assms] assms(2)
  have "splitHostPort (fst (splitHostPort h)) = (fst (splitHostPort h), [])"
    by (intro splitHostPort_no_colon) auto
  with True show ?thesis by (simp add: canonical_host_def default_port_def)
next
  case False
  then show ?thesis by (simp add: canonical_host_def)
qed

lemma lower_char_eq_iff [simp]:
  "lower_char c = CHR '':'' \<longleftrightarrow> c = CHR '':''" "lower_char c = CHR ''['' \<longleftrightarrow> c = CHR ''[''"
proof -
  have "lower_char c \<noteq> CHR '':''" "lower_char c \<noteq> CHR ''[''"
    if "65 \<le> (of_char c :: nat)" "(of_char c :: nat) \<le> 90"
  proof -
    have "(of_char (lower_char c) :: nat) = of_char c + 32" using that by (simp add: lower_char_def)
    then show "lower_char c \<noteq> CHR '':''" "lower_char c \<noteq> CHR ''[''" using that by auto
  qed
  then show "lower_char c = CHR '':'' \<longleftrightarrow> c = CHR '':''" "lower_char c = CHR ''['' \<longleftrightarrow> c = CHR ''[''"
    by (auto simp: lower_char_def)
qed

lemma ToLower_host_chars [simp]:
  "count_list (strings_ToLower h) (CHR '':'') = count_list h (CHR '':'')"
  "CHR ''['' \<in> set (strings_ToLower h) \<longleftrightarrow> CHR ''['' \<in> set h"
  by (induction h) (auto simp: strings_ToLower_def lower_char_eq_iff [THEN eq_commute [THEN trans]])

lemma lower_canonical_host:
  "strings_ToLower (canonical_host s (strings_ToLower h)) = canonical_host s (strings_ToLower h)"
proof -
  have "set (fst (splitHostPort x)) \<subseteq> set x" for x
    by (auto simp: splitHostPort_def Let_def strings_HasPrefix_def dest!: in_set_butlastD list.set_sel(2) [rotated]
        split: option.splits if_splits dest: in_set_takeD)
  then have "set (canonical_host s (strings_ToLower h)) \<subseteq> set (strings_ToLower h)"
    by (auto simp: canonical_host_def)
  then have "\<forall>c\<in>set (canonical_host s (strings_ToLower h)). lower_char c = c"
    by (auto simp: strings_ToLower_def)
  then show ?thesis by (simp add: strings_ToLower_def map_idI)
qed



text \<open>
  Two defects of the canonical form.  Dropping the default port of a bracketed IPv6 literal
  also drops its brackets, so the canonical URL no longer parses; and a trailing slash makes an
  encoded slash inside the path a real one, so two different resources share one canonical URL.
\<close>

theorem Canonicalize_defects:
  "Canonicalize ''http://[::1]:80/x'' = ''http://::1/x'' \<and> url_Parse ''http://::1/x'' = None \<and>
   Canonicalize ''http://a/x%2Fy'' = ''http://a/x%2Fy'' \<and>
   Canonicalize ''http://a/x%2Fy/'' = Canonicalize ''http://a/x/y''"
  by (intro conjI) code_simp+

end
