(* ===== verification/Frontier_Memory.thy ===== *)
theory Frontier_Memory
  imports Frontier_Interface Frontier_Dedup Frontier_Filter Frontier_Canonical
begin

text \<open>
  pkg/frontier/memory.go: the in-memory frontier as state passing.  \<^verbatim>\<open>time.Now()\<close> is the argument
  \<open>now\<close> of the operations that read the clock.  \<open>MemoryFrontier_Next_iter\<close> is one turn of the loop
  of \<open>Next\<close>: it returns an error, an entry together with the politeness sleep, or reaches the
  blocking select; theory \<open>Frontier_Waiters\<close> interleaves these turns.
\<close>

section \<open>State and configuration\<close>

datatype frontier_error = ErrClosed | ErrFiltered | ErrDuplicate | ErrEmptyURL | ErrNilEntry

record FrontierConfig =
  fc_CrawlDelay :: Duration
  fc_InitialCapacity :: int

definition DefaultFrontierConfig :: FrontierConfig where
  "DefaultFrontierConfig = \<lparr>fc_CrawlDelay = Second, fc_InitialCapacity = 0\<rparr>"

record MemoryFrontier =
  mf_cfg :: FrontierConfig
  mf_pq :: priorityQueue
  mf_dedup :: Deduplicator
  mf_filter :: URLFilter
  mf_notify :: bool
  mf_size :: int
  mf_closed :: bool
  mf_domainLast :: "string \<rightharpoonup> Time"

definition NewMemoryFrontier :: "FrontierConfig \<Rightarrow> MemoryFrontier" where
  "NewMemoryFrontier cfg =
     (let cap = fc_InitialCapacity cfg
      in \<lparr>mf_cfg = cfg, mf_pq = newPriorityQueue cap, mf_dedup = NewDeduplicator cap,
          mf_filter = NewFilter, mf_notify = False, mf_size = 0, mf_closed = False,
          mf_domainLast = Map.empty\<rparr>)"

section \<open>extractDomain and its index loops\<close>

function indexOf_loop :: "string \<Rightarrow> string \<Rightarrow> nat \<Rightarrow> int" where
  "indexOf_loop s sub i =
     (if i + length sub \<le> length s then
        (if take (length sub) (drop i s) = sub then int i else indexOf_loop s sub (i + 1))
      else - 1)"
  by pat_completeness auto
termination
  by (relation "measure (\<lambda>(s, sub, i). Suc (length s) - i)") auto

declare indexOf_loop.simps [simp del]

definition indexOf :: "string \<Rightarrow> string \<Rightarrow> int" where
  "indexOf s sub = indexOf_loop s sub 0"

fun lastIndexOf_loop :: "string \<Rightarrow> string \<Rightarrow> nat \<Rightarrow> int" where
  "lastIndexOf_loop s sub 0 = (if take (length sub) s = sub then 0 else - 1)"
| "lastIndexOf_loop s sub (Suc i) =
     (if take (length sub) (drop (Suc i) s) = sub then int (Suc i) else lastIndexOf_loop s sub i)"

definition lastIndexOf :: "string \<Rightarrow> string \<Rightarrow> int" where
  "lastIndexOf s sub = (if length s < length sub then - 1 else lastIndexOf_loop s sub (length s - length sub))"

definition extractDomain :: "string \<Rightarrow> string" where
  "extractDomain rawURL =
     (let pos = indexOf rawURL ''://'';
          idx = (if 3 < length rawURL \<and> 0 \<le> pos then nat pos + 3 else 0);
          host = takeWhile (\<lambda>c. c \<noteq> CHR ''/'' \<and> c \<noteq> CHR ''?'') (drop idx rawURL);
          colonPos = lastIndexOf host '':''
      in if 0 \<le> colonPos then take (nat colonPos) host else host)"

section \<open>Operations\<close>

text \<open>\<open>Add\<close> returns its error, the entry as it leaves it (the caller's entry is changed in place),
  and the frontier.\<close>

definition MemoryFrontier_Add ::
  "Time \<Rightarrow> MemoryFrontier \<Rightarrow> URLEntry option \<Rightarrow> frontier_error option \<times> URLEntry option \<times> MemoryFrontier"
where
  "MemoryFrontier_Add now f entry =
     (case entry of
        None \<Rightarrow> (Some ErrNilEntry, None, f)
      | Some e \<Rightarrow>
          if entry_URL e = [] then (Some ErrEmptyURL, Some e, f)
          else if mf_closed f then (Some ErrClosed, Some e, f)
          else
            let e1 = e\<lparr>entry_URL := Canonicalize (entry_URL e)\<rparr>
            in if \<not> Filter_IsAllowed (mf_filter f) (entry_URL e1) then (Some ErrFiltered, Some e1, f)
               else (case Deduplicator_MarkSeen (mf_dedup f) (entry_URL e1) of
                   (False, d) \<Rightarrow> (Some ErrDuplicate, Some e1, f\<lparr>mf_dedup := d\<rparr>)
                 | (True, d) \<Rightarrow>
                     let e2 = (if time_IsZero (entry_DiscoveredAt e1) then e1\<lparr>entry_DiscoveredAt := now\<rparr> else e1)
                     in (None, Some e2,
                         f\<lparr>mf_dedup := d, mf_pq := pq_Push (mf_pq f) e2, mf_size := mf_size f + 1,
                           mf_notify := True\<rparr>)))"

text \<open>\<open>enforceCrawlDelay\<close> returns how long the caller sleeps (unless its context ends first).\<close>

definition enforceCrawlDelay :: "Time \<Rightarrow> MemoryFrontier \<Rightarrow> string \<Rightarrow> Duration \<times> MemoryFrontier" where
  "enforceCrawlDelay now f rawURL =
     (let domain = extractDomain rawURL
      in if domain = [] then (0, f)
         else let last = mf_domainLast f domain;
                  f' = f\<lparr>mf_domainLast := (mf_domainLast f)(domain \<mapsto> now)\<rparr>
              in (case last of
                    None \<Rightarrow> (0, f')
                  | Some t \<Rightarrow>
                      let elapsed = time_Sub now t
                      in if fc_CrawlDelay (mf_cfg f) \<le> elapsed then (0, f')
                         else (wrap64 (fc_CrawlDelay (mf_cfg f) - elapsed), f')))"

datatype next_result = NextErr frontier_error | NextEntry URLEntry Duration | NextSelect

definition MemoryFrontier_Next_iter :: "Time \<Rightarrow> MemoryFrontier \<Rightarrow> next_result \<times> MemoryFrontier" where
  "MemoryFrontier_Next_iter now f =
     (if mf_closed f then (NextErr ErrClosed, f)
      else (case pq_Pop (mf_pq f) of
          Some (e, pq') \<Rightarrow>
            let f1 = f\<lparr>mf_pq := pq', mf_size := mf_size f - 1\<rparr>;
                (wait, f2) = enforceCrawlDelay now f1 (entry_URL e)
            in (NextEntry e wait, f2)
        | None \<Rightarrow> (NextSelect, f)))"

definition MemoryFrontier_Size :: "MemoryFrontier \<Rightarrow> int" where
  "MemoryFrontier_Size f = mf_size f"

definition MemoryFrontier_Close :: "MemoryFrontier \<Rightarrow> MemoryFrontier" where
  "MemoryFrontier_Close f = f\<lparr>mf_closed := True, mf_notify := True\<rparr>"

definition MemoryFrontier_Filter :: "MemoryFrontier \<Rightarrow> URLFilter" where
  "MemoryFrontier_Filter f = mf_filter f"

section \<open>The index loops are the library functions\<close>

lemma indexOf_loop_shift: "indexOf_loop (c # s) sub (Suc i) =
   (if indexOf_loop s sub i < 0 then - 1 else indexOf_loop s sub i + 1)"
proof (induction s sub i rule: indexOf_loop.induct)
  case (1 s sub i)
  show ?case
  proof (cases "i + length sub \<le> length s \<and> take (length sub) (drop i s) \<noteq> sub")
    case True
    then show ?thesis
      using 1 indexOf_loop.simps [of "c # s" sub "Suc i"] indexOf_loop.simps [of s sub i] by simp
  next
    case False
    then show ?thesis
      using indexOf_loop.simps [of "c # s" sub "Suc i"] indexOf_loop.simps [of s sub i] by auto
  qed
qed

lemma indexOf_eq:
  "indexOf s sub = (case strings_Index s sub of None \<Rightarrow> - 1 | Some i \<Rightarrow> int i)"
proof (induction s)
  case Nil
  then show ?case by (simp add: indexOf_def indexOf_loop.simps)
next
  case (Cons c s)
  have "indexOf (c # s) sub =
      (if strings_HasPrefix (c # s) sub then 0 else indexOf_loop (c # s) sub (Suc 0))"
    using indexOf_loop.simps [of "c # s" sub 0] indexOf_loop.simps [of "c # s" sub "Suc 0"]
    by (auto simp: indexOf_def strings_HasPrefix_def dest: arg_cong [where f = length])
  then show ?case using Cons
    by (auto simp: indexOf_loop_shift indexOf_def split: option.splits)
qed

lemma lastIndexOf_char_loop:
  "i < length s \<Longrightarrow> s ! i = c \<Longrightarrow> c \<notin> set (drop (Suc i) s) \<Longrightarrow> i \<le> k \<Longrightarrow> k < length s \<Longrightarrow>
   lastIndexOf_loop s [c] k = int i"
proof (induction k)
  case 0
  then show ?case by (cases s) auto
next
  case (Suc k)
  have head: "take 1 (drop (Suc k) s) = [s ! Suc k]"
    using Suc.prems by (metis Cons_nth_drop_Suc One_nat_def take0 take_Suc_Cons)
  show ?case
  proof (cases "i = Suc k")
    case True
    then show ?thesis using Suc.prems head by simp
  next
    case False
    then have lt: "Suc i \<le> Suc k" and len: "Suc k - Suc i < length (drop (Suc i) s)"
      using Suc.prems by auto
    have "s ! Suc k = drop (Suc i) s ! (Suc k - Suc i)" using lt Suc.prems by simp
    then have "s ! Suc k \<in> set (drop (Suc i) s)" using nth_mem [OF len] by simp
    then have "s ! Suc k \<noteq> c" using Suc.prems by metis
    then show ?thesis using Suc head False by simp
  qed
qed

lemma lastIndexOf_char_None: "c \<notin> set s \<Longrightarrow> lastIndexOf s [c] = - 1"
proof -
  assume c: "c \<notin> set s"
  have "lastIndexOf_loop s [c] k = - 1" if "k < length s" for k
    using that
  proof (induction k)
    case 0
    then show ?case using c by (cases s) auto
  next
    case (Suc k)
    have "take 1 (drop (Suc k) s) = [s ! Suc k]"
      using Suc.prems by (metis Cons_nth_drop_Suc One_nat_def take0 take_Suc_Cons)
    moreover have "s ! Suc k \<noteq> c" using c Suc.prems nth_mem by metis
    ultimately show ?case using Suc by simp
  qed
  then show ?thesis by (cases s) (auto simp: lastIndexOf_def)
qed

lemma lastIndexOf_append_char:
  assumes "c \<notin> set t"
  shows "lastIndexOf (s @ c # t) [c] = int (length s)"
  using lastIndexOf_char_loop [of "length s" "s @ c # t" c "length (s @ t)"] assms
  by (simp add: lastIndexOf_def)

lemma Index_append_sub:
  "hd sub \<notin> set s \<Longrightarrow> sub \<noteq> [] \<Longrightarrow> strings_Index (s @ sub @ t) sub = Some (length s)"
proof (induction s)
  case Nil
  then show ?case by (cases sub) (auto simp: strings_HasPrefix_def)
next
  case (Cons a s)
  then show ?case by (cases sub) (auto simp: strings_HasPrefix_def)
qed

text \<open>On \<open>scheme://host[:port]rest\<close> the domain is the host.\<close>

lemma takeWhile_stop:
  "\<forall>c\<in>set h. P c \<Longrightarrow> r = [] \<or> \<not> P (hd r) \<Longrightarrow> takeWhile P (h @ r) = h"
  by (cases r) auto

lemma extractDomain_parts:
  assumes scheme: "CHR '':'' \<notin> set scheme"
    and auth: "\<forall>c\<in>set auth. c \<noteq> CHR ''/'' \<and> c \<noteq> CHR ''?''"
    and rest: "rest = [] \<or> hd rest = CHR ''/'' \<or> hd rest = CHR ''?''"
    and ne: "scheme @ auth @ rest \<noteq> []"
  shows "extractDomain (scheme @ ''://'' @ auth @ rest) =
     (if 0 \<le> lastIndexOf auth '':'' then take (nat (lastIndexOf auth '':'')) auth else auth)"
proof -
  have idx: "indexOf (scheme @ ''://'' @ auth @ rest) ''://'' = int (length scheme)"
    using Index_append_sub [of "''://''" scheme "auth @ rest"] scheme by (simp add: indexOf_eq)
  have len: "3 < length (scheme @ ''://'' @ auth @ rest)" using ne by (auto simp: neq_Nil_conv)
  have drop: "drop (length scheme + 3) (scheme @ ''://'' @ auth @ rest) = auth @ rest" by simp
  have host: "takeWhile (\<lambda>c. c \<noteq> CHR ''/'' \<and> c \<noteq> CHR ''?'') (auth @ rest) = auth"
    using auth rest by (intro takeWhile_stop) auto
  show ?thesis unfolding extractDomain_def Let_def idx using len host
    by (simp add: drop [simplified])
qed

section \<open>The invariant\<close>

text \<open>
  The size counter is the length of the queue, the queue is a heap, no URL is queued twice, and
  every queued URL has been marked as seen.
\<close>

definition frontier_inv :: "MemoryFrontier \<Rightarrow> bool" where
  "frontier_inv f \<longleftrightarrow>
     pq_heap (mf_pq f) \<and> mf_size f = int (length (mf_pq f)) \<and>
     distinct (map entry_URL (mf_pq f)) \<and> entry_URL ` set (mf_pq f) \<subseteq> dedup_seen (mf_dedup f)"

lemma frontier_inv_New [inv_intros]: "frontier_inv (NewMemoryFrontier cfg)"
  by (simp add: frontier_inv_def NewMemoryFrontier_def Let_def heap_from_def)

lemma frontier_inv_Close [inv_intros]: "frontier_inv f \<Longrightarrow> frontier_inv (MemoryFrontier_Close f)"
  by (simp add: frontier_inv_def MemoryFrontier_Close_def)

lemma enforceCrawlDelay_frame:
  assumes "enforceCrawlDelay now f u = (w, f')"
  obtains m where "f' = f\<lparr>mf_domainLast := m\<rparr>"
proof -
  have "f' = f\<lparr>mf_domainLast := mf_domainLast f'\<rparr>"
    using assms by (auto simp: enforceCrawlDelay_def Let_def split: if_splits option.splits)
  then show ?thesis by (rule that)
qed

text \<open>The five outcomes of \<open>Add\<close>.\<close>

definition add_entry :: "Time \<Rightarrow> URLEntry \<Rightarrow> URLEntry" where
  "add_entry now e =
     e\<lparr>entry_URL := Canonicalize (entry_URL e),
       entry_DiscoveredAt := (if time_IsZero (entry_DiscoveredAt e) then now else entry_DiscoveredAt e)\<rparr>"

lemma Add_Some:
  "MemoryFrontier_Add now f (Some e) =
     (let u = Canonicalize (entry_URL e)
      in if entry_URL e = [] then (Some ErrEmptyURL, Some e, f)
         else if mf_closed f then (Some ErrClosed, Some e, f)
         else if \<not> Filter_IsAllowed (mf_filter f) u then (Some ErrFiltered, Some (e\<lparr>entry_URL := u\<rparr>), f)
         else if u \<in> dedup_seen (mf_dedup f) then (Some ErrDuplicate, Some (e\<lparr>entry_URL := u\<rparr>), f)
         else (None, Some (add_entry now e),
               f\<lparr>mf_dedup := (mf_dedup f)\<lparr>dedup_seen := insert u (dedup_seen (mf_dedup f))\<rparr>,
                 mf_pq := pq_Push (mf_pq f) (add_entry now e), mf_size := mf_size f + 1,
                 mf_notify := True\<rparr>))"
  by (simp add: MemoryFrontier_Add_def MarkSeen_eq Let_def add_entry_def insert_absorb)

lemma Add_acceptedD:
  assumes "MemoryFrontier_Add now f entry = (None, r, f')"
  obtains e where "entry = Some e" and "r = Some (add_entry now e)"
    and "entry_URL e \<noteq> []" and "\<not> mf_closed f" and "Filter_IsAllowed (mf_filter f) (Canonicalize (entry_URL e))"
    and "Canonicalize (entry_URL e) \<notin> dedup_seen (mf_dedup f)"
    and "f' = f\<lparr>mf_dedup := (mf_dedup f)\<lparr>dedup_seen := insert (Canonicalize (entry_URL e)) (dedup_seen (mf_dedup f))\<rparr>,
                 mf_pq := pq_Push (mf_pq f) (add_entry now e), mf_size := mf_size f + 1,
                 mf_notify := True\<rparr>"
proof (cases entry)
  case None
  with assms show ?thesis by (simp add: MemoryFrontier_Add_def)
next
  case (Some e)
  show ?thesis
    by (rule that [OF Some]) (use assms Some in \<open>auto simp: Add_Some Let_def split: if_splits\<close>)
qed

lemma Add_rejectedD:
  "MemoryFrontier_Add now f entry = (Some err, r, f') \<Longrightarrow> f' = f"
  by (cases entry) (auto simp: Add_Some Let_def MemoryFrontier_Add_def [of now f None] split: if_splits)

lemma distinct_map_mset: "mset xs = mset ys \<Longrightarrow> distinct (map g xs) = distinct (map g ys)"
  by (metis mset_eq_imp_distinct_iff mset_map)

lemma add_entry_URL [simp]: "entry_URL (add_entry now e) = Canonicalize (entry_URL e)"
  by (simp add: add_entry_def)

lemma frontier_inv_Add [inv_intros]:
  assumes inv: "frontier_inv f" and add: "MemoryFrontier_Add now f entry = (err, r, f')"
  shows "frontier_inv f'"
proof (cases err)
  case None
  with add obtain e where
    new: "Canonicalize (entry_URL e) \<notin> dedup_seen (mf_dedup f)" and
    f': "f' = f\<lparr>mf_dedup := (mf_dedup f)\<lparr>dedup_seen := insert (Canonicalize (entry_URL e)) (dedup_seen (mf_dedup f))\<rparr>,
                 mf_pq := pq_Push (mf_pq f) (add_entry now e), mf_size := mf_size f + 1,
                 mf_notify := True\<rparr>"
    by (auto elim: Add_acceptedD)
  let ?x = "add_entry now e"
  have "distinct (map entry_URL (pq_Push (mf_pq f) ?x)) = distinct (map entry_URL (?x # mf_pq f))"
    by (rule distinct_map_mset) simp
  then have "distinct (map entry_URL (pq_Push (mf_pq f) ?x))"
    using inv new by (auto simp: frontier_inv_def)
  moreover have "pq_heap (pq_Push (mf_pq f) ?x)"
    using inv by (intro pq_Push_heap) (simp add: frontier_inv_def)
  ultimately show ?thesis using inv f' by (auto simp: frontier_inv_def)
next
  case (Some x)
  with add Add_rejectedD inv show ?thesis by metis
qed

text \<open>One turn of \<open>Next\<close>.\<close>

lemma Next_entryD:
  assumes "MemoryFrontier_Next_iter now f = (NextEntry e wait, f')"
  obtains pq' m where "\<not> mf_closed f" and "pq_Pop (mf_pq f) = Some (e, pq')"
    and "f' = f\<lparr>mf_pq := pq', mf_size := mf_size f - 1, mf_domainLast := m\<rparr>"
proof -
  from assms obtain pq' where op: "\<not> mf_closed f" and pop: "pq_Pop (mf_pq f) = Some (e, pq')"
    and w: "enforceCrawlDelay now (f\<lparr>mf_pq := pq', mf_size := mf_size f - 1\<rparr>) (entry_URL e) = (wait, f')"
    by (auto simp: MemoryFrontier_Next_iter_def Let_def split: if_splits option.splits prod.splits)
  from w obtain m where "f' = f\<lparr>mf_pq := pq', mf_size := mf_size f - 1\<rparr>\<lparr>mf_domainLast := m\<rparr>"
    by (rule enforceCrawlDelay_frame)
  then show ?thesis using that op pop by simp
qed

lemma Next_otherD:
  "MemoryFrontier_Next_iter now f = (r, f') \<Longrightarrow> (\<And>e w. r \<noteq> NextEntry e w) \<Longrightarrow> f' = f"
  by (auto simp: MemoryFrontier_Next_iter_def Let_def split: if_splits option.splits prod.splits)

lemma frontier_inv_Next [inv_intros]:
  assumes inv: "frontier_inv f" and nxt: "MemoryFrontier_Next_iter now f = (r, f')"
  shows "frontier_inv f'"
proof (cases "\<exists>e w. r = NextEntry e w")
  case True
  with nxt obtain e pq' m where pop: "pq_Pop (mf_pq f) = Some (e, pq')"
    and f': "f' = f\<lparr>mf_pq := pq', mf_size := mf_size f - 1, mf_domainLast := m\<rparr>"
    by (auto elim: Next_entryD)
  note D = pq_Pop_SomeD [OF pop]
  have "distinct (map entry_URL (mf_pq f)) = distinct (map entry_URL (e # pq'))"
    by (rule distinct_map_mset) (simp add: D(1))
  moreover have "set (mf_pq f) = insert e (set pq')"
    using D(1) by (metis set_mset_mset set_mset_add_mset_insert)
  ultimately show ?thesis using inv f' D(2,3) by (auto simp: frontier_inv_def)
next
  case False
  with nxt Next_otherD inv show ?thesis by metis
qed

section \<open>The frontier interface\<close>

text \<open>\<open>MemoryFrontier\<close> as a \<^verbatim>\<open>Frontier\<close>: the calls of the interface, and the calls that only change the
  filter or close the frontier.\<close>

datatype frontier_ctl = CtlClose | CtlAllow string | CtlDeny string

definition mem_add :: "MemoryFrontier add_call" where
  "mem_add now f e = (case MemoryFrontier_Add now f e of
       (None, r, f') \<Rightarrow> (r, f')
     | (Some err, r, f') \<Rightarrow> (None, f'))"

definition mem_next :: "MemoryFrontier next_call" where
  "mem_next now f = (case MemoryFrontier_Next_iter now f of
       (NextEntry e wait, f') \<Rightarrow> (Some e, f')
     | (r, f') \<Rightarrow> (None, f'))"

definition mem_ctl ::
  "(string \<Rightarrow> (string \<Rightarrow> bool) option) \<Rightarrow> frontier_ctl \<Rightarrow> MemoryFrontier \<Rightarrow> MemoryFrontier" where
  "mem_ctl compile c f = (case c of
       CtlClose \<Rightarrow> MemoryFrontier_Close f
     | CtlAllow p \<Rightarrow> f\<lparr>mf_filter := snd (Filter_AddAllowRule compile (mf_filter f) p)\<rparr>
     | CtlDeny p \<Rightarrow> f\<lparr>mf_filter := snd (Filter_AddDenyRule compile (mf_filter f) p)\<rparr>)"

definition mem_pending :: "MemoryFrontier \<Rightarrow> URLEntry multiset" where
  "mem_pending f = mset (mf_pq f)"

definition mem_seen :: "MemoryFrontier \<Rightarrow> string set" where
  "mem_seen f = dedup_seen (mf_dedup f)"

lemma mem_add_cases:
  assumes "mem_add now f e = (r, f')"
  shows "(r = None \<and> f' = f) \<or> (\<exists>x. r = Some x \<and> MemoryFrontier_Add now f e = (None, Some x, f'))"
proof (cases "MemoryFrontier_Add now f e")
  case (fields err x f1)
  show ?thesis
  proof (cases err)
    case None
    with fields have "\<exists>y. x = Some y" by (auto elim: Add_acceptedD)
    with None fields assms show ?thesis by (auto simp: mem_add_def)
  next
    case (Some y)
    with fields have "f1 = f" by (simp add: Add_rejectedD)
    with Some fields assms show ?thesis by (auto simp: mem_add_def)
  qed
qed

lemma mem_add_state:
  assumes "MemoryFrontier_Add now f e = (None, Some x, f')"
  shows "mem_pending f' = add_mset x (mem_pending f)" and "mem_seen f' = insert (entry_URL x) (mem_seen f)"
    and "entry_URL x \<notin> mem_seen f"
  using assms by (auto simp: mem_pending_def mem_seen_def elim: Add_acceptedD)

lemma mem_next_cases:
  assumes "mem_next now f = (r, f')"
  shows "(r = None \<and> f' = f) \<or> (\<exists>e w. r = Some e \<and> MemoryFrontier_Next_iter now f = (NextEntry e w, f'))"
proof (cases "MemoryFrontier_Next_iter now f")
  case (Pair nr f1)
  with assms show ?thesis
    by (cases nr) (auto simp: mem_next_def dest: Next_otherD)
qed

lemma mem_next_state:
  assumes "MemoryFrontier_Next_iter now f = (NextEntry e w, f')"
  shows "mem_pending f = add_mset e (mem_pending f')" and "mem_seen f' = mem_seen f"
proof -
  from assms obtain pq' m where "pq_Pop (mf_pq f) = Some (e, pq')"
    and f': "f' = f\<lparr>mf_pq := pq', mf_size := mf_size f - 1, mf_domainLast := m\<rparr>"
    by (rule Next_entryD)
  from this(1) have "mset (mf_pq f) = add_mset e (mset pq')" by (rule pq_Pop_SomeD(1))
  then show "mem_pending f = add_mset e (mem_pending f')" "mem_seen f' = mem_seen f"
    using f' by (simp_all add: mem_pending_def mem_seen_def)
qed

lemma mem_ctl_state [simp]:
  "mf_pq (mem_ctl compile c f) = mf_pq f" "mf_dedup (mem_ctl compile c f) = mf_dedup f"
  "mf_size (mem_ctl compile c f) = mf_size f"
  by (cases c; simp add: mem_ctl_def MemoryFrontier_Close_def)+

interpretation mf: dedup_frontier mem_add mem_next "mem_ctl compile" mem_pending frontier_inv mem_seen
  for compile
proof unfold_locales
  fix f now e r f'
  assume inv: "frontier_inv f" and add: "mem_add now f e = (r, f')"
  from mem_add_cases [OF add] show "frontier_inv f' \<and> mem_pending f' = mem_pending f + mset (opt_list r)"
    using frontier_inv_Add [OF inv] mem_add_state(1) inv by fastforce
  from mem_add_cases [OF add] show
    "mem_seen f' = mem_seen f \<union> entry_URL ` set (opt_list r) \<and> mem_seen f \<inter> entry_URL ` set (opt_list r) = {}"
    using mem_add_state(2,3) by auto
next
  fix f now r f'
  assume inv: "frontier_inv f" and nxt: "mem_next now f = (r, f')"
  from mem_next_cases [OF nxt] show "frontier_inv f' \<and> mem_pending f = mem_pending f' + mset (opt_list r)"
    using frontier_inv_Next [OF inv] mem_next_state(1) inv by fastforce
  from mem_next_cases [OF nxt] show "mem_seen f' = mem_seen f" using mem_next_state(2) by auto
next
  fix f c
  assume inv: "frontier_inv f"
  then show "frontier_inv (mem_ctl compile c f) \<and> mem_pending (mem_ctl compile c f) = mem_pending f"
    by (simp add: frontier_inv_def mem_pending_def)
  show "mem_seen (mem_ctl compile c f) = mem_seen f" by (simp add: mem_seen_def)
qed

text \<open>
  C1. Any sequence of calls on a new in-memory frontier (adds, takes, closing, new filter rules)
  loses no entry and makes none up: the accepted entries are those delivered and those still
  queued, the size counter is their difference, and no URL is accepted or delivered twice.
\<close>

theorem memory_frontier_run:
  assumes "frontier_run mem_add mem_next (mem_ctl compile) ops (NewMemoryFrontier cfg) = (acc, del, f')"
  shows "mset acc = mset del + mset (mf_pq f') \<and>
    MemoryFrontier_Size f' = int (length acc) - int (length del) \<and>
    distinct (map entry_URL acc) \<and> distinct (map entry_URL del)"
proof -
  have inv: "frontier_inv (NewMemoryFrontier cfg)" by (rule frontier_inv_New)
  have empty: "mem_pending (NewMemoryFrontier cfg) = {#}"
    by (simp add: mem_pending_def NewMemoryFrontier_def Let_def)
  note run = mf.run_delivered_distinct [OF inv empty assms]
  have "frontier_inv f'" using mf.run_conservation [OF inv assms] by simp
  moreover have "length acc = length del + length (mf_pq f')"
    using arg_cong [OF run(1), of size] by (simp add: mem_pending_def)
  ultimately show ?thesis using run
    by (simp add: mem_pending_def MemoryFrontier_Size_def frontier_inv_def)
qed

definition sample_entry :: "string \<Rightarrow> Priority \<Rightarrow> URLEntry" where
  "sample_entry u p =
     \<lparr>entry_URL = u, entry_Priority = p, entry_Depth = 0, entry_Metadata = None, entry_DiscoveredAt = 0\<rparr>"

definition sample_ops :: "frontier_ctl frontier_op list" where
  "sample_ops = [OpAdd 5 (Some (sample_entry ''a'' PriorityNormal)), OpAdd 6 (Some (sample_entry ''b'' PriorityHigh)),
     OpAdd 7 (Some (sample_entry ''a'' PriorityHigh)), OpNext 8, OpCtl CtlClose, OpNext 9]"

theorem memory_frontier_run_witness:
  "\<exists>acc del f'. frontier_run mem_add mem_next (mem_ctl (\<lambda>_. None)) sample_ops (NewMemoryFrontier DefaultFrontierConfig)
       = (acc, del, f') \<and> map entry_URL acc = [''a'', ''b''] \<and> map entry_URL del = [''b''] \<and>
     MemoryFrontier_Size f' = 1 \<and> mset acc = mset del + mset (mf_pq f')"
proof -
  obtain acc del f' where run: "frontier_run mem_add mem_next (mem_ctl (\<lambda>_. None)) sample_ops
      (NewMemoryFrontier DefaultFrontierConfig) = (acc, del, f')" by (metis prod_cases3)
  have "map entry_URL (fst (frontier_run mem_add mem_next (mem_ctl (\<lambda>_. None)) sample_ops
      (NewMemoryFrontier DefaultFrontierConfig))) = [''a'', ''b'']"
    by code_simp
  then have acc: "map entry_URL acc = [''a'', ''b'']" using run by simp
  have "map entry_URL (fst (snd (frontier_run mem_add mem_next (mem_ctl (\<lambda>_. None)) sample_ops
      (NewMemoryFrontier DefaultFrontierConfig)))) = [''b'']"
    by code_simp
  then have del: "map entry_URL del = [''b'']" using run by simp
  have "length acc = 2" "length del = 1"
    using arg_cong [OF acc, of length] arg_cong [OF del, of length] by simp_all
  then show ?thesis using run memory_frontier_run [OF run] acc del by auto
qed

text \<open>
  C12. \<open>Add\<close> accepts exactly the entries with a non-empty URL, on an open frontier, whose canonical URL
  the filter allows and that was never seen before; the accepted entry carries the canonical URL
  and a discovery time, and it alone joins the queue.  A rejected call leaves the frontier as it
  was.
\<close>

theorem Add_accepts_iff:
  "(fst (MemoryFrontier_Add now f entry) = None \<longleftrightarrow>
     (\<exists>e. entry = Some e \<and> entry_URL e \<noteq> [] \<and> \<not> mf_closed f \<and>
        Filter_IsAllowed (mf_filter f) (Canonicalize (entry_URL e)) \<and>
        Canonicalize (entry_URL e) \<notin> dedup_seen (mf_dedup f))) \<and>
   (case MemoryFrontier_Add now f entry of
      (Some err, r, f') \<Rightarrow> f' = f
    | (None, None, f') \<Rightarrow> False
    | (None, Some e', f') \<Rightarrow>
        entry_URL e' = Canonicalize (entry_URL (the entry)) \<and>
        entry_DiscoveredAt e' =
          (if entry_DiscoveredAt (the entry) = 0 then now else entry_DiscoveredAt (the entry)) \<and>
        entry_Priority e' = entry_Priority (the entry) \<and> entry_Depth e' = entry_Depth (the entry) \<and>
        mset (mf_pq f') = add_mset e' (mset (mf_pq f)) \<and>
        dedup_seen (mf_dedup f') = insert (entry_URL e') (dedup_seen (mf_dedup f)))"
proof (cases entry)
  case None
  then show ?thesis by (simp add: MemoryFrontier_Add_def)
next
  case (Some e)
  then show ?thesis by (simp add: Add_Some Let_def add_entry_def time_IsZero_def)
qed

text \<open>Successive takes drain the queue.\<close>

lemma mem_next_open:
  assumes "\<not> mf_closed f"
  obtains f' where "mem_next now f = (map_option fst (pq_Pop (mf_pq f)), f')"
    and "\<not> mf_closed f'"
    and "mf_pq f' = (case pq_Pop (mf_pq f) of None \<Rightarrow> mf_pq f | Some (e, pq') \<Rightarrow> pq')"
proof (cases "pq_Pop (mf_pq f)")
  case None
  then show ?thesis using assms that [of f]
    by (simp add: mem_next_def MemoryFrontier_Next_iter_def)
next
  case (Some p)
  obtain e pq' where p: "p = (e, pq')" by (cases p)
  obtain w f' where w: "enforceCrawlDelay now (f\<lparr>mf_pq := pq', mf_size := mf_size f - 1\<rparr>) (entry_URL e) = (w, f')"
    by fastforce
  then obtain m where m: "f' = f\<lparr>mf_pq := pq', mf_size := mf_size f - 1, mf_domainLast := m\<rparr>"
    by (rule enforceCrawlDelay_frame) simp
  show ?thesis using Some p w m assms that [of f']
    by (simp add: mem_next_def MemoryFrontier_Next_iter_def Let_def)
qed

lemma run_nexts:
  "\<not> mf_closed f \<Longrightarrow> frontier_run mem_add mem_next ctl (map OpNext ts) f = (acc, del, f') \<Longrightarrow>
   acc = [] \<and> del = pq_drain (length ts) (mf_pq f)"
proof (induction ts arbitrary: f acc del)
  case Nil
  then show ?case by simp
next
  case (Cons t ts)
  from Cons.prems(1) obtain f1 where n: "mem_next t f = (map_option fst (pq_Pop (mf_pq f)), f1)"
    and op: "\<not> mf_closed f1"
    and pq: "mf_pq f1 = (case pq_Pop (mf_pq f) of None \<Rightarrow> mf_pq f | Some (e, pq') \<Rightarrow> pq')"
    by (rule mem_next_open)
  obtain acc1 del1 f2 where run: "frontier_run mem_add mem_next ctl (map OpNext ts) f1 = (acc1, del1, f2)"
    by (metis prod_cases3)
  have IH: "acc1 = [] \<and> del1 = pq_drain (length ts) (mf_pq f1)"
    using Cons.IH [OF op] run Cons.prems(2) n by auto
  have stop: "pq_drain k [] = []" for k
    using pq_Pop_None_iff [of "[]"] by (cases k) simp_all
  show ?case
    using Cons.prems(2) n run IH pq stop by (cases "pq_Pop (mf_pq f)") auto
qed

lemma pq_drain_long: "length pq \<le> n \<Longrightarrow> pq_drain n pq = pq_drain (length pq) pq"
proof (induction n arbitrary: pq)
  case (Suc n)
  show ?case
  proof (cases "pq_Pop pq")
    case (Some p)
    then obtain e pq' where p: "pq_Pop pq = Some (e, pq')" by (cases p) auto
    then have "length pq = Suc (length pq')" by (rule pq_Pop_SomeD(2))
    then show ?thesis using p Suc by simp
  qed simp
qed simp

text \<open>
  C4. Successive calls of \<open>Next\<close> on an open frontier deliver by priority, and entries of equal priority
  by discovery time: no entry comes before one that is strictly more urgent.  As many calls as
  there are queued entries deliver every one of them.
\<close>

theorem Next_delivers_in_order:
  assumes inv: "frontier_inv f" and op: "\<not> mf_closed f"
    and run: "frontier_run mem_add mem_next (mem_ctl compile) (map OpNext ts) f = (acc, del, f')"
  shows "sorted_wrt (\<lambda>a b. entry_Priority a < entry_Priority b \<or>
           entry_Priority a = entry_Priority b \<and> entry_DiscoveredAt a \<le> entry_DiscoveredAt b) del \<and>
    length del = min (length ts) (length (mf_pq f)) \<and>
    (length (mf_pq f) \<le> length ts \<longrightarrow> mset del = mset (mf_pq f))"
proof -
  let ?n = "min (length ts) (length (mf_pq f))"
  have heap: "pq_heap (mf_pq f)" using inv by (simp add: frontier_inv_def)
  have del: "del = pq_drain ?n (mf_pq f)"
    using run_nexts [OF op run] pq_drain_long [of "mf_pq f" "length ts"] by (simp add: min_def)
  have "sorted_wrt (\<lambda>a b. \<not> pq_less b a) del"
    using pq_drain_sorted [OF heap, of ?n] del by simp
  then have "sorted_wrt (\<lambda>a b. entry_Priority a < entry_Priority b \<or>
      entry_Priority a = entry_Priority b \<and> entry_DiscoveredAt a \<le> entry_DiscoveredAt b) del"
    by (rule sorted_wrt_mono_rel [rotated]) (auto simp: pq_less_def time_Before_def split: if_splits)
  moreover have "length (pq_drain k pq) = min k (length pq)" for k pq
  proof (induction k arbitrary: pq)
    case (Suc k)
    then show ?case
      by (cases "pq_Pop pq") (auto dest: pq_Pop_SomeD(2))
  qed simp
  moreover have "length (mf_pq f) \<le> length ts \<longrightarrow> mset del = mset (mf_pq f)"
    using pq_drain_perm [of "mf_pq f"] by (simp add: del)
  ultimately show ?thesis using del by simp
qed

theorem Next_delivers_in_order_witness:
  "\<exists>f acc del f'. frontier_inv f \<and> \<not> mf_closed f \<and> mf_pq f \<noteq> [] \<and>
     frontier_run mem_add mem_next (mem_ctl (\<lambda>_. None)) (map OpNext [1, 2]) f = (acc, del, f') \<and>
     length del = 1 \<and> mset del = mset (mf_pq f)"
proof -
  let ?f = "(NewMemoryFrontier DefaultFrontierConfig)\<lparr>mf_pq := [sample_entry ''a'' 2], mf_size := 1,
      mf_dedup := \<lparr>dedup_seen = {''a''}\<rparr>\<rparr>"
  have inv: "frontier_inv ?f"
    by (simp add: frontier_inv_def heap_from_def sample_entry_def)
  have op: "\<not> mf_closed ?f" by (simp add: NewMemoryFrontier_def Let_def)
  obtain acc del f' where run:
    "frontier_run mem_add mem_next (mem_ctl (\<lambda>_. None)) (map OpNext [1, 2]) ?f = (acc, del, f')"
    by (metis prod_cases3)
  show ?thesis using inv op run Next_delivers_in_order [OF inv op run]
    by (intro exI [of _ ?f] exI [of _ acc] exI [of _ del] exI [of _ f']) simp
qed

text \<open>
  On a URL \<open>scheme://host[:port]\<close> followed by nothing, a path or a query, \<open>extractDomain\<close> (with
  its hand-written index loops) returns the host without the port.
\<close>

theorem extractDomain_host:
  assumes "CHR '':'' \<notin> set scheme"
    and "\<forall>c\<in>set host. c \<notin> {CHR ''/'', CHR ''?'', CHR '':''}"
    and "port = [] \<or> hd port = CHR '':'' \<and> (\<forall>c\<in>set (tl port). is_digit c)"
    and "rest = [] \<or> hd rest \<in> {CHR ''/'', CHR ''?''}"
    and "scheme @ host \<noteq> []"
  shows "extractDomain (scheme @ ''://'' @ host @ port @ rest) = host"
proof -
  have digit: "c \<noteq> CHR ''/'' \<and> c \<noteq> CHR ''?'' \<and> c \<noteq> CHR '':''" if "is_digit c" for c
    using that by (auto simp: is_digit_def)
  have port: "port = [] \<or> (\<exists>ds. port = CHR '':'' # ds \<and> (\<forall>c\<in>set ds. is_digit c))"
    using assms(3) by (cases port) auto
  have auth: "\<forall>c\<in>set (host @ port). c \<noteq> CHR ''/'' \<and> c \<noteq> CHR ''?''"
  proof
    fix c assume "c \<in> set (host @ port)"
    with port consider "c \<in> set host" | "c = CHR '':''" | "is_digit c" by fastforce
    then show "c \<noteq> CHR ''/'' \<and> c \<noteq> CHR ''?''" using assms(2) digit by cases auto
  qed
  have last: "(if 0 \<le> lastIndexOf (host @ port) '':'' then take (nat (lastIndexOf (host @ port) '':'')) (host @ port)
      else host @ port) = host"
  proof (cases "port = []")
    case True
    have "CHR '':'' \<notin> set host" using assms(2) by blast
    with True show ?thesis by (simp add: lastIndexOf_char_None)
  next
    case False
    then obtain ds where ds: "port = CHR '':'' # ds" "\<forall>c\<in>set ds. is_digit c" using port by blast
    then have "CHR '':'' \<notin> set ds" using digit by blast
    note ds(1) this
    then show ?thesis by (simp add: lastIndexOf_append_char)
  qed
  have ne: "scheme @ (host @ port) @ rest \<noteq> []" using assms(5) by auto
  have rest: "rest = [] \<or> hd rest = CHR ''/'' \<or> hd rest = CHR ''?''" using assms(4) by simp
  show ?thesis using extractDomain_parts [OF assms(1) auth rest ne] last by simp
qed

theorem extractDomain_host_witness:
  "extractDomain (''https'' @ ''://'' @ ''a.example'' @ '':8080'' @ ''/p?q'') = ''a.example''"
  by (rule extractDomain_host) (simp_all add: is_digit_def)

section \<open>Politeness\<close>

text \<open>
  The releases of a consumer that calls \<open>enforceCrawlDelay\<close> at the given times: each call returns to
  its caller after its sleep.  A sequential consumer makes no call before the previous one
  returned.
\<close>

fun enforce_run :: "MemoryFrontier \<Rightarrow> (Time \<times> string) list \<Rightarrow> Time list" where
  "enforce_run f [] = []"
| "enforce_run f ((now, u) # calls) =
     (let (w, f') = enforceCrawlDelay now f u in (now + w) # enforce_run f' calls)"

fun sequential_calls :: "MemoryFrontier \<Rightarrow> (Time \<times> string) list \<Rightarrow> bool" where
  "sequential_calls f [] = True"
| "sequential_calls f ((now, u) # calls) =
     (let (w, f') = enforceCrawlDelay now f u
      in (\<forall>(t, _)\<in>set calls. now \<le> t \<and> now + w \<le> t) \<and> sequential_calls f' calls)"

lemma enforceCrawlDelay_release:
  assumes "enforceCrawlDelay now f u = (w, f')" and dom: "extractDomain u \<noteq> []"
    and last: "mf_domainLast f (extractDomain u) = Some t" and le: "t \<le> now"
    and int64: "in_int64 (fc_CrawlDelay (mf_cfg f))"
  shows "now + w = max now (t + fc_CrawlDelay (mf_cfg f))"
proof (cases "fc_CrawlDelay (mf_cfg f) \<le> time_Sub now t")
  case True
  then have "w = 0" using assms(1) dom last by (simp add: enforceCrawlDelay_def Let_def)
  moreover have "fc_CrawlDelay (mf_cfg f) \<le> now - t"
    using True le by (auto simp: time_Sub_def)
  ultimately show ?thesis by simp
next
  case False
  let ?d = "fc_CrawlDelay (mf_cfg f)"
  have sub: "time_Sub now t = now - t" using False le int64 by (auto simp: time_Sub_def in_int64_def)
  have "in_int64 (?d - (now - t))" using False le int64 sub by (auto simp: in_int64_def)
  then have "w = ?d - (now - t)"
    using assms(1) dom last False sub by (simp add: enforceCrawlDelay_def Let_def wrap64_id)
  then show ?thesis using False sub by simp
qed

lemma enforceCrawlDelay_state:
  assumes "enforceCrawlDelay now f u = (w, f')"
  shows "mf_cfg f' = mf_cfg f"
    and "mf_domainLast f' =
      (if extractDomain u = [] then mf_domainLast f else (mf_domainLast f)(extractDomain u \<mapsto> now))"
  using assms by (auto simp: enforceCrawlDelay_def Let_def split: if_splits option.splits)

text \<open>Once a domain was called at time \<open>t\<close>, no later call for it is released before \<open>t\<close> plus the
  delay.\<close>

lemma enforce_run_after:
  assumes "mf_domainLast f d = Some t" and "d \<noteq> []" and "in_int64 (fc_CrawlDelay (mf_cfg f))"
    and "\<forall>(s, _)\<in>set calls. t \<le> s" and "sorted (map fst calls)"
    and "k < length calls" and "extractDomain (snd (calls ! k)) = d"
  shows "t + fc_CrawlDelay (mf_cfg f) \<le> enforce_run f calls ! k"
  using assms
proof (induction calls arbitrary: f t k)
  case Nil
  then show ?case by simp
next
  case (Cons c calls)
  obtain now u where c: "c = (now, u)" by (cases c)
  obtain w f' where e: "enforceCrawlDelay now f u = (w, f')" by fastforce
  note st = enforceCrawlDelay_state [OF e]
  have le: "t \<le> now" using Cons.prems(4) c by simp
  show ?case
  proof (cases k)
    case 0
    then have "extractDomain u = d" using Cons.prems(7) c by simp
    then have "now + w = max now (t + fc_CrawlDelay (mf_cfg f))"
      using enforceCrawlDelay_release [OF e _ _ le] Cons.prems(1,2,3) by simp
    then show ?thesis using 0 c e by simp
  next
    case (Suc m)
    define t' where "t' = (if extractDomain u = d then now else t)"
    have "mf_domainLast f' d = Some t'" using st Cons.prems(1,2) by (simp add: t'_def)
    moreover have "\<forall>(s, _)\<in>set calls. t' \<le> s"
      using Cons.prems(4,5) c by (auto simp: t'_def)
    ultimately have "t' + fc_CrawlDelay (mf_cfg f') \<le> enforce_run f' calls ! m"
      using Cons.prems Suc c st by (intro Cons.IH) auto
    moreover have "t \<le> t'" using le by (simp add: t'_def)
    ultimately show ?thesis using Suc c e st by simp
  qed
qed

lemma enforce_run_call_gap:
  assumes "in_int64 (fc_CrawlDelay (mf_cfg f))" and "sorted (map fst calls)"
    and "j < k" and "k < length calls"
    and "extractDomain (snd (calls ! j)) = d" and "extractDomain (snd (calls ! k)) = d" and "d \<noteq> []"
  shows "fst (calls ! j) + fc_CrawlDelay (mf_cfg f) \<le> enforce_run f calls ! k"
  using assms
proof (induction calls arbitrary: f j k)
  case Nil
  then show ?case by simp
next
  case (Cons c calls)
  obtain now u where c: "c = (now, u)" by (cases c)
  obtain w f' where e: "enforceCrawlDelay now f u = (w, f')" by fastforce
  note st = enforceCrawlDelay_state [OF e]
  obtain m where k: "k = Suc m" using Cons.prems(3) by (cases k) auto
  show ?case
  proof (cases j)
    case 0
    have "now + fc_CrawlDelay (mf_cfg f') \<le> enforce_run f' calls ! m"
      by (rule enforce_run_after [of _ d]) (use Cons.prems 0 k c st in \<open>auto\<close>)
    then show ?thesis using 0 k c e st by simp
  next
    case (Suc i)
    then show ?thesis using Cons.IH [of f' i m] Cons.prems k c e st by simp
  qed
qed

lemma sequential_sorted: "sequential_calls f calls \<Longrightarrow> sorted (map fst calls)"
proof (induction f calls rule: sequential_calls.induct)
  case (2 f now u calls)
  obtain w f' where e: "enforceCrawlDelay now f u = (w, f')" by fastforce
  with 2 show ?case by auto
qed simp

lemma sequential_release:
  "sequential_calls f calls \<Longrightarrow> i < j \<Longrightarrow> j < length calls \<Longrightarrow> enforce_run f calls ! i \<le> fst (calls ! j)"
proof (induction f calls arbitrary: i j rule: sequential_calls.induct)
  case (2 f now u calls)
  obtain w f' where e: "enforceCrawlDelay now f u = (w, f')" by fastforce
  obtain m where j: "j = Suc m" using "2.prems"(2) by (cases j) auto
  show ?case
  proof (cases i)
    case 0
    have "calls ! m \<in> set calls" using "2.prems"(3) j by simp
    then have "now + w \<le> fst (calls ! m)" using "2.prems"(1) e by auto
    then show ?thesis using 0 j e by simp
  next
    case (Suc k)
    then show ?thesis using "2.IH" [of "(w, f')" w f' k m] "2.prems" e j by simp
  qed
qed simp


definition sample_calls :: "(Time \<times> string) list" where
  "sample_calls = [(0, ''http://a/1''), (100000000, ''http://a/2''), (1000000000, ''http://a/3'')]"


text \<open>
  The delay between two successive releases can fall far below \<open>CrawlDelay\<close>, because
  \<open>domainLast\<close> records when a call was made and not when it was released: with the default delay of
  one second, a sequential consumer that calls at 0 s, 0.1 s and 1.0 s is released at 0 s, 1.0 s
  and 1.1 s.
\<close>

theorem crawl_delay_not_minimum:
  "sequential_calls (NewMemoryFrontier DefaultFrontierConfig) sample_calls \<and>
   map (extractDomain \<circ> snd) sample_calls = [''a'', ''a'', ''a''] \<and>
   enforce_run (NewMemoryFrontier DefaultFrontierConfig) sample_calls
     = [0, 1 * Second, 1 * Second + 100 * Millisecond]"
proof -
  have "sequential_calls (NewMemoryFrontier DefaultFrontierConfig) sample_calls" by code_simp
  moreover have "map (extractDomain \<circ> snd) sample_calls = [''a'', ''a'', ''a'']" by code_simp
  moreover have "enforce_run (NewMemoryFrontier DefaultFrontierConfig) sample_calls
     = [0, 1 * Second, 1 * Second + 100 * Millisecond]" by code_simp
  ultimately show ?thesis by blast
qed

end
