(* ===== verification/Frontier_Waiters.thy ===== *)
theory Frontier_Waiters
  imports Frontier_Memory
begin

text \<open>
  Blocked consumers of the in-memory frontier (pkg/frontier/memory.go, \<open>Add\<close>, \<open>Next\<close> and \<open>Close\<close>).  Any
  number of consumers run \<open>Next\<close>, producers run \<open>Add\<close>, and \<open>Close\<close> is called at most once.  Each step is one
  atomic action of the code: a load of \<open>closed\<close>, a critical section of the queue's mutex, an
  operation on the channel \<open>notify\<close>.  The channel has one buffer slot: a send hands its token to a
  receiver that is already blocked, otherwise it fills the slot, otherwise it takes the default
  branch and is dropped.  The parameter \<open>cancel\<close> says whether the consumers' contexts may end.
\<close>

datatype consumer_pc =
    Checking
  | CheckedOpen
  | AtSelect
  | Blocked
  | NextReturned

record wait_state =
  ws_frontier :: MemoryFrontier
  ws_consumers :: "consumer_pc list"
  ws_adding :: nat
  ws_notifying :: nat

text \<open>The non-blocking send at the end of \<open>Add\<close> and \<open>Close\<close>.\<close>

inductive notify_send :: "wait_state \<Rightarrow> wait_state \<Rightarrow> bool" where
  hand_off: "i < length (ws_consumers s) \<Longrightarrow> ws_consumers s ! i = Blocked \<Longrightarrow>
     notify_send s (s\<lparr>ws_consumers := (ws_consumers s)[i := Checking]\<rparr>)"
| buffered: "Blocked \<notin> set (ws_consumers s) \<Longrightarrow>
     notify_send s (s\<lparr>ws_frontier := (ws_frontier s)\<lparr>mf_notify := True\<rparr>\<rparr>)"

inductive_cases notify_sendE: "notify_send s t"

text \<open>A full slot stays full: the dropped send is the case of \<open>buffered\<close> that changes nothing.\<close>

inductive wait_step :: "bool \<Rightarrow> wait_state \<Rightarrow> wait_state \<Rightarrow> bool" for cancel where
  next_closed: "i < length (ws_consumers s) \<Longrightarrow> ws_consumers s ! i = Checking \<Longrightarrow>
     mf_closed (ws_frontier s) \<Longrightarrow>
     wait_step cancel s (s\<lparr>ws_consumers := (ws_consumers s)[i := NextReturned]\<rparr>)"
| next_open: "i < length (ws_consumers s) \<Longrightarrow> ws_consumers s ! i = Checking \<Longrightarrow>
     \<not> mf_closed (ws_frontier s) \<Longrightarrow>
     wait_step cancel s (s\<lparr>ws_consumers := (ws_consumers s)[i := CheckedOpen]\<rparr>)"
| next_pop: "i < length (ws_consumers s) \<Longrightarrow> ws_consumers s ! i = CheckedOpen \<Longrightarrow>
     pq_Pop (mf_pq (ws_frontier s)) = Some (e, pq') \<Longrightarrow>
     wait_step cancel s (s\<lparr>ws_frontier := (ws_frontier s)\<lparr>mf_pq := pq'\<rparr>,
       ws_consumers := (ws_consumers s)[i := NextReturned]\<rparr>)"
| next_empty: "i < length (ws_consumers s) \<Longrightarrow> ws_consumers s ! i = CheckedOpen \<Longrightarrow>
     pq_Pop (mf_pq (ws_frontier s)) = None \<Longrightarrow>
     wait_step cancel s (s\<lparr>ws_consumers := (ws_consumers s)[i := AtSelect]\<rparr>)"
| next_receive: "i < length (ws_consumers s) \<Longrightarrow> ws_consumers s ! i = AtSelect \<Longrightarrow>
     mf_notify (ws_frontier s) \<Longrightarrow>
     wait_step cancel s (s\<lparr>ws_frontier := (ws_frontier s)\<lparr>mf_notify := False\<rparr>,
       ws_consumers := (ws_consumers s)[i := Checking]\<rparr>)"
| next_block: "i < length (ws_consumers s) \<Longrightarrow> ws_consumers s ! i = AtSelect \<Longrightarrow>
     \<not> mf_notify (ws_frontier s) \<Longrightarrow>
     wait_step cancel s (s\<lparr>ws_consumers := (ws_consumers s)[i := Blocked]\<rparr>)"
| next_cancelled: "cancel \<Longrightarrow> i < length (ws_consumers s) \<Longrightarrow>
     ws_consumers s ! i \<in> {AtSelect, Blocked} \<Longrightarrow>
     wait_step cancel s (s\<lparr>ws_consumers := (ws_consumers s)[i := NextReturned]\<rparr>)"
| next_again: "i < length (ws_consumers s) \<Longrightarrow> ws_consumers s ! i = NextReturned \<Longrightarrow>
     wait_step cancel s (s\<lparr>ws_consumers := (ws_consumers s)[i := Checking]\<rparr>)"
| add_check: "\<not> mf_closed (ws_frontier s) \<Longrightarrow>
     wait_step cancel s (s\<lparr>ws_adding := ws_adding s + 1\<rparr>)"
| add_push: "ws_adding s = Suc n \<Longrightarrow>
     wait_step cancel s (s\<lparr>ws_frontier := (ws_frontier s)\<lparr>mf_pq := pq_Push (mf_pq (ws_frontier s)) e\<rparr>,
       ws_adding := n, ws_notifying := ws_notifying s + 1\<rparr>)"
| close_store: "\<not> mf_closed (ws_frontier s) \<Longrightarrow>
     wait_step cancel s (s\<lparr>ws_frontier := (ws_frontier s)\<lparr>mf_closed := True\<rparr>,
       ws_notifying := ws_notifying s + 1\<rparr>)"
| send: "ws_notifying s = Suc n \<Longrightarrow> notify_send (s\<lparr>ws_notifying := n\<rparr>) t \<Longrightarrow> wait_step cancel s t"

inductive_cases wait_stepE: "wait_step cancel s t"

definition wait_start :: "nat \<Rightarrow> wait_state \<Rightarrow> bool" where
  "wait_start n s \<longleftrightarrow>
     mf_pq (ws_frontier s) = [] \<and> \<not> mf_closed (ws_frontier s) \<and> \<not> mf_notify (ws_frontier s) \<and>
     ws_consumers s = replicate n Checking \<and> ws_adding s = 0 \<and> ws_notifying s = 0"

text \<open>
  A token in the slot, or a send still to come, whenever there is something to be told and every
  consumer is asleep; and the slot is empty while somebody is blocked on it.
\<close>

definition wait_inv :: "wait_state \<Rightarrow> bool" where
  "wait_inv s \<longleftrightarrow>
     (Blocked \<in> set (ws_consumers s) \<longrightarrow> \<not> mf_notify (ws_frontier s)) \<and>
     (set (ws_consumers s) \<subseteq> {AtSelect, Blocked} \<longrightarrow> mf_pq (ws_frontier s) \<noteq> [] \<longrightarrow>
        ws_consumers s \<noteq> [] \<longrightarrow> mf_notify (ws_frontier s) \<or> 0 < ws_notifying s) \<and>
     (set (ws_consumers s) \<subseteq> {CheckedOpen, AtSelect, Blocked} \<longrightarrow> mf_closed (ws_frontier s) \<longrightarrow>
        ws_consumers s \<noteq> [] \<longrightarrow> mf_notify (ws_frontier s) \<or> 0 < ws_notifying s)"

lemma wait_inv_start: "wait_start n s \<Longrightarrow> wait_inv s"
  by (auto simp: wait_start_def wait_inv_def)

lemma set_update_subset: "x \<in> set (xs[i := y]) \<Longrightarrow> x = y \<or> x \<in> set xs"
  using set_update_subset_insert by fastforce

lemma subset_update_awake:
  "i < length xs \<Longrightarrow> y \<notin> A \<Longrightarrow> \<not> set (xs[i := y]) \<subseteq> A"
  using set_update_memI by fastforce

lemma subset_update_asleep:
  "i < length xs \<Longrightarrow> xs ! i \<in> A \<Longrightarrow> set (xs[i := y]) \<subseteq> A \<Longrightarrow> set xs \<subseteq> A"
  by (metis list_update_id list_update_overwrite set_update_subsetI)

lemma wait_inv_wake:
  assumes "wait_inv s" and "i < length (ws_consumers s)" and "pc \<in> {Checking, NextReturned}"
    and "ws_consumers t = (ws_consumers s)[i := pc]"
    and "mf_notify (ws_frontier t) \<longrightarrow> mf_notify (ws_frontier s)"
  shows "wait_inv t"
proof -
  have awake: "\<not> set (ws_consumers t) \<subseteq> {AtSelect, Blocked}"
    "\<not> set (ws_consumers t) \<subseteq> {CheckedOpen, AtSelect, Blocked}"
    using assms(2-4) subset_update_awake [of i "ws_consumers s" pc] by auto
  have "Blocked \<in> set (ws_consumers t) \<longrightarrow> Blocked \<in> set (ws_consumers s)"
    using assms(3,4) set_update_subset [of Blocked "ws_consumers s" i pc] by auto
  with awake show ?thesis using assms(1,5) unfolding wait_inv_def by blast
qed

lemma wait_inv_told:
  assumes "wait_inv s" and "ws_consumers t = ws_consumers s"
    and "mf_notify (ws_frontier t) = mf_notify (ws_frontier s)" and "0 < ws_notifying t"
  shows "wait_inv t"
  using assms by (simp add: wait_inv_def)

lemma wait_inv_adding: "wait_inv (s\<lparr>ws_adding := n\<rparr>) = wait_inv s"
  by (simp add: wait_inv_def)

lemma wait_inv_step: "wait_inv s \<Longrightarrow> wait_step cancel s t \<Longrightarrow> wait_inv t"
proof (erule wait_stepE)
  fix i
  assume inv: "wait_inv s" and i: "i < length (ws_consumers s)" "ws_consumers s ! i = Checking"
    and op: "\<not> mf_closed (ws_frontier s)" and t: "t = s\<lparr>ws_consumers := (ws_consumers s)[i := CheckedOpen]\<rparr>"
  have "\<not> set (ws_consumers t) \<subseteq> {AtSelect, Blocked}"
    using t i subset_update_awake [of i "ws_consumers s" CheckedOpen] by auto
  moreover have "Blocked \<in> set (ws_consumers t) \<longrightarrow> Blocked \<in> set (ws_consumers s)"
    using t set_update_subset [of Blocked "ws_consumers s" i CheckedOpen] by auto
  ultimately show "wait_inv t" using inv op t by (simp add: wait_inv_def)
next
  fix i
  assume inv: "wait_inv s" and i: "i < length (ws_consumers s)" "ws_consumers s ! i = CheckedOpen"
    and empty: "mf_pq (ws_frontier s) = []"
    and t: "t = s\<lparr>ws_consumers := (ws_consumers s)[i := AtSelect]\<rparr>"
  have "set (ws_consumers t) \<subseteq> {CheckedOpen, AtSelect, Blocked} \<longrightarrow>
      set (ws_consumers s) \<subseteq> {CheckedOpen, AtSelect, Blocked}"
    using t i subset_update_asleep [of i "ws_consumers s" "{CheckedOpen, AtSelect, Blocked}" AtSelect] by simp
  moreover have "Blocked \<in> set (ws_consumers t) \<longrightarrow> Blocked \<in> set (ws_consumers s)"
    using t set_update_subset [of Blocked "ws_consumers s" i AtSelect] by auto
  ultimately show "wait_inv t" using inv empty t by (simp add: wait_inv_def)
next
  fix i
  assume inv: "wait_inv s" and i: "i < length (ws_consumers s)" "ws_consumers s ! i = AtSelect"
    and no: "\<not> mf_notify (ws_frontier s)" and t: "t = s\<lparr>ws_consumers := (ws_consumers s)[i := Blocked]\<rparr>"
  have asleep: "set (ws_consumers t) \<subseteq> A \<longrightarrow> set (ws_consumers s) \<subseteq> A" if "AtSelect \<in> A" for A
    using t i that subset_update_asleep [of i "ws_consumers s" A Blocked] by simp
  have sub: "set (ws_consumers t) \<subseteq> {AtSelect, Blocked} \<longrightarrow> set (ws_consumers s) \<subseteq> {AtSelect, Blocked}"
    "set (ws_consumers t) \<subseteq> {CheckedOpen, AtSelect, Blocked} \<longrightarrow>
     set (ws_consumers s) \<subseteq> {CheckedOpen, AtSelect, Blocked}"
    by (rule asleep, simp)+
  have same: "ws_frontier t = ws_frontier s" "ws_notifying t = ws_notifying s"
    and ne: "ws_consumers t \<noteq> [] \<longrightarrow> ws_consumers s \<noteq> []" using t by auto
  show "wait_inv t" using inv no sub ne unfolding wait_inv_def same by satx
next
  fix n
  assume inv: "wait_inv s" and send: "notify_send (s\<lparr>ws_notifying := n\<rparr>) t"
  from send show "wait_inv t"
  proof (rule notify_sendE)
    fix i
    assume "i < length (ws_consumers (s\<lparr>ws_notifying := n\<rparr>))"
      and "t = s\<lparr>ws_notifying := n, ws_consumers := (ws_consumers (s\<lparr>ws_notifying := n\<rparr>))[i := Checking]\<rparr>"
    then show ?thesis by - (rule wait_inv_wake [OF inv, of i Checking], simp_all)
  next
    assume "Blocked \<notin> set (ws_consumers (s\<lparr>ws_notifying := n\<rparr>))"
      and "t = s\<lparr>ws_notifying := n, ws_frontier := (ws_frontier (s\<lparr>ws_notifying := n\<rparr>))\<lparr>mf_notify := True\<rparr>\<rparr>"
    then show ?thesis by (simp add: wait_inv_def)
  qed
next
  fix i
  assume "wait_inv s" "i < length (ws_consumers s)" "t = s\<lparr>ws_consumers := (ws_consumers s)[i := NextReturned]\<rparr>"
  then show "wait_inv t" by - (rule wait_inv_wake [of s i NextReturned], simp_all)
next
  fix i e pq'
  assume "wait_inv s" "i < length (ws_consumers s)"
    "t = s\<lparr>ws_frontier := (ws_frontier s)\<lparr>mf_pq := pq'\<rparr>, ws_consumers := (ws_consumers s)[i := NextReturned]\<rparr>"
  then show "wait_inv t" by - (rule wait_inv_wake [of s i NextReturned], simp_all)
next
  fix i
  assume "wait_inv s" "i < length (ws_consumers s)"
    "t = s\<lparr>ws_frontier := (ws_frontier s)\<lparr>mf_notify := False\<rparr>, ws_consumers := (ws_consumers s)[i := Checking]\<rparr>"
  then show "wait_inv t" by - (rule wait_inv_wake [of s i Checking], simp_all)
next
  fix i
  assume "wait_inv s" "i < length (ws_consumers s)" "t = s\<lparr>ws_consumers := (ws_consumers s)[i := NextReturned]\<rparr>"
  then show "wait_inv t" by - (rule wait_inv_wake [of s i NextReturned], simp_all)
next
  fix i
  assume "wait_inv s" "i < length (ws_consumers s)" "t = s\<lparr>ws_consumers := (ws_consumers s)[i := Checking]\<rparr>"
  then show "wait_inv t" by - (rule wait_inv_wake [of s i Checking], simp_all)
next
  fix n e
  assume "wait_inv s"
    "t = s\<lparr>ws_frontier := (ws_frontier s)\<lparr>mf_pq := pq_Push (mf_pq (ws_frontier s)) e\<rparr>, ws_adding := n,
       ws_notifying := Suc (ws_notifying s)\<rparr>"
  then show "wait_inv t" by - (rule wait_inv_told [of s], simp_all)
next
  assume "wait_inv s"
    "t = s\<lparr>ws_frontier := (ws_frontier s)\<lparr>mf_closed := True\<rparr>, ws_notifying := Suc (ws_notifying s)\<rparr>"
  then show "wait_inv t" by - (rule wait_inv_told [of s], simp_all)
next
  assume "wait_inv s" "t = s\<lparr>ws_adding := Suc (ws_adding s)\<rparr>"
  then show "wait_inv t" by (simp add: wait_inv_adding)
qed

interpretation waiters: transition_system "wait_start n" "wait_step cancel" wait_inv for n cancel
  by unfold_locales (auto intro: wait_inv_start wait_inv_step)

text \<open>
  C7. Wake-ups of the in-memory frontier: in every interleaving of producers, one \<open>Close\<close> and any number
  of consumers, when all sends are done and every consumer is blocked in \<open>Next\<close>, the queue is empty
  and the frontier is open.  So an entry is never left waiting while all consumers sleep, and a
  single consumer never misses a wake-up.
\<close>

theorem all_blocked_only_if_idle:
  assumes "wait_start n s" and "(wait_step cancel)\<^sup>*\<^sup>* s t"
    and "set (ws_consumers t) \<subseteq> {Blocked}" and "ws_consumers t \<noteq> []" and "ws_notifying t = 0"
  shows "mf_pq (ws_frontier t) = [] \<and> \<not> mf_closed (ws_frontier t)"
proof -
  have inv: "wait_inv t" using waiters.inv_reachable assms(1,2) .
  have "Blocked \<in> set (ws_consumers t)" using assms(3,4) by (cases "ws_consumers t") auto
  then have "\<not> mf_notify (ws_frontier t)" using inv by (simp add: wait_inv_def)
  moreover have "set (ws_consumers t) \<subseteq> {AtSelect, Blocked}" "set (ws_consumers t) \<subseteq> {CheckedOpen, AtSelect, Blocked}"
    using assms(3) by blast+
  ultimately show ?thesis using inv assms(4,5) unfolding wait_inv_def by simp
qed

definition idle_state :: "consumer_pc list \<Rightarrow> wait_state" where
  "idle_state pcs = \<lparr>ws_frontier = NewMemoryFrontier DefaultFrontierConfig, ws_consumers = pcs,
     ws_adding = 0, ws_notifying = 0\<rparr>"

lemma idle_state_frontier [simp]:
  "mf_pq (ws_frontier (idle_state pcs)) = []" "\<not> mf_closed (ws_frontier (idle_state pcs))"
  "\<not> mf_notify (ws_frontier (idle_state pcs))" "ws_consumers (idle_state pcs) = pcs"
  "ws_adding (idle_state pcs) = 0" "ws_notifying (idle_state pcs) = 0"
  "(idle_state pcs)\<lparr>ws_consumers := pcs'\<rparr> = idle_state pcs'"
  by (simp_all add: idle_state_def NewMemoryFrontier_def Let_def)

text \<open>A consumer of the idle frontier that starts \<open>Next\<close> ends up at its select, then blocked.\<close>

lemma idle_to_select:
  assumes "i < length pcs" and "pcs ! i = Checking"
  shows "(wait_step cancel)\<^sup>*\<^sup>* (idle_state pcs) (idle_state (pcs[i := AtSelect]))"
proof -
  have "wait_step cancel (idle_state pcs) (idle_state (pcs[i := CheckedOpen]))"
    using next_open [of i "idle_state pcs" cancel] assms by simp
  moreover have "wait_step cancel (idle_state (pcs[i := CheckedOpen])) (idle_state (pcs[i := AtSelect]))"
    using next_empty [of i "idle_state (pcs[i := CheckedOpen])" cancel] assms by simp
  ultimately show ?thesis by (meson converse_rtranclp_into_rtranclp r_into_rtranclp)
qed

lemma idle_to_blocked:
  assumes "i < length pcs" and "pcs ! i = Checking"
  shows "(wait_step cancel)\<^sup>*\<^sup>* (idle_state pcs) (idle_state (pcs[i := Blocked]))"
proof -
  have "wait_step cancel (idle_state (pcs[i := AtSelect])) (idle_state (pcs[i := Blocked]))"
    using next_block [of i "idle_state (pcs[i := AtSelect])" cancel] assms by simp
  with idle_to_select [OF assms] show ?thesis by (rule rtranclp.rtrancl_into_rtrancl)
qed

theorem all_blocked_only_if_idle_witness:
  "\<exists>s t. wait_start 1 s \<and> (wait_step True)\<^sup>*\<^sup>* s t \<and> ws_consumers t = [Blocked] \<and>
     mf_pq (ws_frontier t) = [] \<and> \<not> mf_closed (ws_frontier t)"
proof -
  have start: "wait_start 1 (idle_state [Checking])" by (simp add: wait_start_def)
  have run: "(wait_step True)\<^sup>*\<^sup>* (idle_state [Checking]) (idle_state [Blocked])"
    using idle_to_blocked [of 0 "[Checking]" True] by simp
  have "mf_pq (ws_frontier (idle_state [Blocked])) = [] \<and> \<not> mf_closed (ws_frontier (idle_state [Blocked]))"
    by (rule all_blocked_only_if_idle [OF start run]) simp_all
  with start run show ?thesis
    by (intro exI [of _ "idle_state [Checking]"] exI [of _ "idle_state [Blocked]"]) simp
qed

section \<open>Two consumers\<close>

text \<open>After \<open>Close\<close>, with no call in flight, nothing wakes a blocked consumer.\<close>

definition stuck :: "nat \<Rightarrow> wait_state \<Rightarrow> bool" where
  "stuck i s \<longleftrightarrow> mf_closed (ws_frontier s) \<and> \<not> mf_notify (ws_frontier s) \<and> ws_adding s = 0 \<and>
     ws_notifying s = 0 \<and> i < length (ws_consumers s) \<and> ws_consumers s ! i = Blocked"

lemma stuck_step: "stuck i s \<Longrightarrow> wait_step False s t \<Longrightarrow> stuck i t"
  by (erule wait_stepE) (auto simp: stuck_def nth_list_update)

interpretation stuck_forever: transition_system "stuck i" "wait_step False" "stuck i" for i
  by unfold_locales (auto intro: stuck_step)


text \<open>
  With two consumers an entry can stay queued while one of them is blocked and no send is
  outstanding: both consumers are about to block when two entries are added, the second
  notification finds the slot full and is dropped, and only one consumer is woken.
\<close>

theorem dropped_notification:
  "\<exists>s t. wait_start 2 s \<and> (wait_step False)\<^sup>*\<^sup>* s t \<and> \<not> mf_closed (ws_frontier t) \<and>
     ws_consumers t = [NextReturned, Blocked] \<and> length (mf_pq (ws_frontier t)) = 1 \<and>
     ws_adding t = 0 \<and> ws_notifying t = 0 \<and> \<not> mf_notify (ws_frontier t)"
proof -
  let ?e = "sample_entry ''a'' PriorityNormal" and ?e' = "sample_entry ''b'' PriorityNormal"
  let ?R = "(wait_step False)\<^sup>*\<^sup>*"
  let ?pq = "pq_Push (pq_Push [] ?e) ?e'"
  let ?s = "idle_state [AtSelect, AtSelect]"
  let ?f = "ws_frontier ?s"
  let ?s3 = "?s\<lparr>ws_frontier := ?f\<lparr>mf_pq := ?pq\<rparr>, ws_adding := 0, ws_notifying := 2\<rparr>"
  let ?s4 = "?s\<lparr>ws_frontier := ?f\<lparr>mf_pq := ?pq, mf_notify := True\<rparr>, ws_adding := 0, ws_notifying := 0\<rparr>"
  let ?s5 = "?s\<lparr>ws_frontier := ?f\<lparr>mf_pq := ?pq, mf_notify := False\<rparr>, ws_consumers := [CheckedOpen, AtSelect],
    ws_adding := 0, ws_notifying := 0\<rparr>"
  note concrete = idle_state_def NewMemoryFrontier_def Let_def
  obtain x pq' where pop: "pq_Pop ?pq = Some (x, pq')"
    by (cases "pq_Pop ?pq") (auto dest: arg_cong [where f = length])
  let ?t = "?s\<lparr>ws_frontier := ?f\<lparr>mf_pq := pq', mf_notify := False\<rparr>, ws_consumers := [NextReturned, Blocked],
    ws_adding := 0, ws_notifying := 0\<rparr>"
  have start: "wait_start 2 (idle_state [Checking, Checking])" by (simp add: wait_start_def numeral_2_eq_2)
  have "?R (idle_state [Checking, Checking]) (idle_state [AtSelect, Checking])"
    using idle_to_select [of 0 "[Checking, Checking]" False] by simp
  also have "?R (idle_state [AtSelect, Checking]) ?s"
    using idle_to_select [of 1 "[AtSelect, Checking]" False] by simp
  also have "wait_step False ?s (?s\<lparr>ws_adding := 1\<rparr>)"
    using add_check [of ?s False] by (simp add: concrete)
  also have "wait_step False \<dots> (?s\<lparr>ws_adding := 2\<rparr>)"
    using add_check [of "?s\<lparr>ws_adding := 1\<rparr>" False] by (simp add: concrete numeral_2_eq_2)
  also have "wait_step False \<dots> (?s\<lparr>ws_frontier := ?f\<lparr>mf_pq := pq_Push [] ?e\<rparr>, ws_adding := 1, ws_notifying := 1\<rparr>)"
    using add_push [of "?s\<lparr>ws_adding := 2\<rparr>" 1 False ?e] by (simp add: concrete)
  also have "wait_step False \<dots> ?s3"
    using add_push [of "?s\<lparr>ws_frontier := ?f\<lparr>mf_pq := pq_Push [] ?e\<rparr>, ws_adding := 1, ws_notifying := 1\<rparr>" 0 False ?e']
    by (simp add: concrete numeral_2_eq_2)
  also have "wait_step False \<dots> (?s4\<lparr>ws_notifying := 1\<rparr>)"
    using send [of ?s3 1 _ False, OF _ buffered] by (simp add: concrete)
  also have "wait_step False \<dots> ?s4"
    using send [of "?s4\<lparr>ws_notifying := 1\<rparr>" 0 _ False, OF _ buffered] by (simp add: concrete)
  also have "wait_step False \<dots> (?s5\<lparr>ws_consumers := [Checking, AtSelect]\<rparr>)"
    using next_receive [of 0 ?s4 False] by (simp add: concrete)
  also have "wait_step False \<dots> ?s5"
    using next_open [of 0 "?s5\<lparr>ws_consumers := [Checking, AtSelect]\<rparr>" False] by (simp add: concrete)
  also have "wait_step False \<dots> (?t\<lparr>ws_consumers := [NextReturned, AtSelect]\<rparr>)"
    using next_pop [of 0 ?s5 x pq' False] pop by (simp add: concrete)
  also have "wait_step False \<dots> ?t"
    using next_block [of 1 "?t\<lparr>ws_consumers := [NextReturned, AtSelect]\<rparr>" False] by (simp add: concrete)
  finally have run: "?R (idle_state [Checking, Checking]) ?t" .
  have "length pq' = 1" using pq_Pop_SomeD(2) [OF pop] by simp
  then show ?thesis using start run
    by (intro exI [of _ "idle_state [Checking, Checking]"] exI [of _ ?t]) simp
qed

end
