(* ===== verification/Crawl_Errors.thy ===== *)
theory Crawl_Errors
  imports Crawler_Prelude
begin

text \<open>
  pkg/errors/errors.go: the error types, and the \<^verbatim>\<open>errors.As\<close> walk their classification uses.  A Go
  error value is an element of \<open>error\<close>: a plain error, one made by \<^verbatim>\<open>fmt.Errorf("...: %w", err)\<close>, a
  context error, or one of the crawler's types; each of these embeds a \<open>CrawlerError\<close> (code, message,
  cause) and inherits its \<open>Error\<close> and \<open>Unwrap\<close>.
\<close>

section \<open>Error values\<close>

type_synonym ErrorCode = int

definition CodeUnknown :: ErrorCode where "CodeUnknown = 0"
definition CodeNetwork :: ErrorCode where "CodeNetwork = 1"
definition CodeHTTP :: ErrorCode where "CodeHTTP = 2"
definition CodeExtraction :: ErrorCode where "CodeExtraction = 3"
definition CodeConfig :: ErrorCode where "CodeConfig = 4"
definition CodeRobots :: ErrorCode where "CodeRobots = 5"
definition CodeRateLimit :: ErrorCode where "CodeRateLimit = 6"
definition CodeTimeout :: ErrorCode where "CodeTimeout = 7"
definition CodeCancelled :: ErrorCode where "CodeCancelled = 8"

lemmas error_code_defs = CodeUnknown_def CodeNetwork_def CodeHTTP_def CodeExtraction_def CodeConfig_def
  CodeRobots_def CodeRateLimit_def CodeTimeout_def CodeCancelled_def

datatype error =
    ErrorString string
  | ContextCanceled
  | DeadlineExceeded
  | WrapError string error string
  | CrawlerError ErrorCode string "error option"
  | NetworkError ErrorCode string "error option" string
  | HTTPError ErrorCode string "error option" int string
  | ExtractionError ErrorCode string "error option" string string
  | ConfigError ErrorCode string "error option" string
  | RobotsError ErrorCode string "error option" string
  | RateLimitError ErrorCode string "error option" string
  | TimeoutError ErrorCode string "error option" string

text \<open>The embedded \<open>CrawlerError\<close> of a value of one of the crawler's types.\<close>

fun embedded :: "error \<Rightarrow> (ErrorCode \<times> string \<times> error option) option" where
  "embedded (CrawlerError c m x) = Some (c, m, x)"
| "embedded (NetworkError c m x u) = Some (c, m, x)"
| "embedded (HTTPError c m x s u) = Some (c, m, x)"
| "embedded (ExtractionError c m x s u) = Some (c, m, x)"
| "embedded (ConfigError c m x f) = Some (c, m, x)"
| "embedded (RobotsError c m x u) = Some (c, m, x)"
| "embedded (RateLimitError c m x d) = Some (c, m, x)"
| "embedded (TimeoutError c m x u) = Some (c, m, x)"
| "embedded _ = None"

fun error_Unwrap :: "error \<Rightarrow> error option" where
  "error_Unwrap (WrapError pre e post) = Some e"
| "error_Unwrap e = (case embedded e of Some (c, m, x) \<Rightarrow> x | None \<Rightarrow> None)"

lemma size_Unwrap: "error_Unwrap e = Some x \<Longrightarrow> size x < size e"
  by (cases e) auto

text \<open>The text of an error.  \<open>WrapError pre e post\<close> is the format with \<^verbatim>\<open>%w\<close> between \<open>pre\<close> and \<open>post\<close>.\<close>

function error_Error :: "error \<Rightarrow> string" where
  "error_Error e =
     (case e of
        ErrorString s \<Rightarrow> s
      | ContextCanceled \<Rightarrow> ''context canceled''
      | DeadlineExceeded \<Rightarrow> ''context deadline exceeded''
      | WrapError pre x post \<Rightarrow> pre @ error_Error x @ post
      | _ \<Rightarrow>
          (case embedded e of
             None \<Rightarrow> []
           | Some (c, m, None) \<Rightarrow> m
           | Some (c, m, Some x) \<Rightarrow> m @ '': '' @ error_Error x))"
  by pat_completeness auto
termination
  by (relation "measure size") auto

declare error_Error.simps [simp del]

section \<open>Constructors\<close>

definition NewNetworkError :: "string \<Rightarrow> error option \<Rightarrow> error" where
  "NewNetworkError url cause = NetworkError CodeNetwork (''network error for '' @ url) cause url"

definition NewHTTPError :: "string \<Rightarrow> int \<Rightarrow> error" where
  "NewHTTPError url statusCode =
     HTTPError CodeHTTP (''HTTP '' @ strconv_Itoa statusCode @ '' for '' @ url) None statusCode url"

text \<open>\<^verbatim>\<open>%q\<close> quotes its argument; bytes outside printable ASCII take their escape form.\<close>

definition quote_char :: "char \<Rightarrow> string" where
  "quote_char c =
     (let n = (of_char c :: nat)
      in if n = 34 \<or> n = 92 then [CHR 0x5C, c]
         else if 32 \<le> n \<and> n < 127 then [c]
         else if n = 7 then [CHR 0x5C, CHR ''a''] else if n = 8 then [CHR 0x5C, CHR ''b'']
         else if n = 12 then [CHR 0x5C, CHR ''f''] else if n = 10 then [CHR 0x5C, CHR ''n'']
         else if n = 13 then [CHR 0x5C, CHR ''r''] else if n = 9 then [CHR 0x5C, CHR ''t'']
         else if n = 11 then [CHR 0x5C, CHR ''v'']
         else [CHR 0x5C, CHR ''x'', ''0123456789abcdef'' ! (n div 16), ''0123456789abcdef'' ! (n mod 16)])"

definition strconv_Quote :: "string \<Rightarrow> string" where
  "strconv_Quote s = [CHR 0x22] @ concat (map quote_char s) @ [CHR 0x22]"

definition NewExtractionError :: "string \<Rightarrow> string \<Rightarrow> error option \<Rightarrow> error" where
  "NewExtractionError url selector cause =
     ExtractionError CodeExtraction
       (''extraction failed for selector '' @ strconv_Quote selector @ '' on '' @ url) cause selector url"

definition NewConfigError :: "string \<Rightarrow> string \<Rightarrow> error" where
  "NewConfigError field message =
     ConfigError CodeConfig (''config error: '' @ field @ '': '' @ message) None field"

definition NewRobotsError :: "string \<Rightarrow> error" where
  "NewRobotsError url = RobotsError CodeRobots (''blocked by robots.txt: '' @ url) None url"

definition NewRateLimitError :: "string \<Rightarrow> error" where
  "NewRateLimitError domain =
     RateLimitError CodeRateLimit (''rate limit exceeded for '' @ domain) None domain"

definition NewTimeoutError :: "string \<Rightarrow> error option \<Rightarrow> error" where
  "NewTimeoutError url cause = TimeoutError CodeTimeout (''timeout for '' @ url) cause url"

section \<open>Classification\<close>

text \<open>\<^verbatim>\<open>errors.As\<close>: the first error of the chain that has the target type.\<close>

function errors_As :: "(error \<Rightarrow> bool) \<Rightarrow> error \<Rightarrow> error option" where
  "errors_As is_target e =
     (if is_target e then Some e
      else (case error_Unwrap e of None \<Rightarrow> None | Some x \<Rightarrow> errors_As is_target x))"
  by pat_completeness auto
termination
  by (relation "measure (\<lambda>(_, e). size e)") (auto dest: size_Unwrap)

declare errors_As.simps [simp del]

fun is_NetworkError :: "error \<Rightarrow> bool" where
  "is_NetworkError (NetworkError c m x u) = True" | "is_NetworkError _ = False"

fun is_TimeoutError :: "error \<Rightarrow> bool" where
  "is_TimeoutError (TimeoutError c m x u) = True" | "is_TimeoutError _ = False"

fun is_RateLimitError :: "error \<Rightarrow> bool" where
  "is_RateLimitError (RateLimitError c m x u) = True" | "is_RateLimitError _ = False"

fun is_HTTPError :: "error \<Rightarrow> bool" where
  "is_HTTPError (HTTPError c m x s u) = True" | "is_HTTPError _ = False"

fun err_StatusCode :: "error \<Rightarrow> int" where
  "err_StatusCode (HTTPError c m x s u) = s" | "err_StatusCode _ = 0"

definition IsRetryable :: "error option \<Rightarrow> bool" where
  "IsRetryable err =
     (case err of
        None \<Rightarrow> False
      | Some e \<Rightarrow>
          if errors_As is_NetworkError e \<noteq> None then True
          else if errors_As is_TimeoutError e \<noteq> None then True
          else if errors_As is_RateLimitError e \<noteq> None then True
          else (case errors_As is_HTTPError e of
              Some h \<Rightarrow> err_StatusCode h \<ge> 500 \<or> err_StatusCode h = 429
            | None \<Rightarrow> False))"

definition IsTemporary :: "error option \<Rightarrow> bool" where
  "IsTemporary err =
     (case err of
        None \<Rightarrow> False
      | Some e \<Rightarrow>
          if errors_As is_NetworkError e \<noteq> None then True
          else if errors_As is_TimeoutError e \<noteq> None then True
          else errors_As is_RateLimitError e \<noteq> None)"

section \<open>Properties\<close>

text \<open>The unwrap chain of an error, and \<open>errors_As\<close> on it.\<close>

function error_chain :: "error \<Rightarrow> error list" where
  "error_chain e = e # (case error_Unwrap e of None \<Rightarrow> [] | Some x \<Rightarrow> error_chain x)"
  by pat_completeness auto
termination
  by (relation "measure size") (auto dest: size_Unwrap)

declare error_chain.simps [simp del]

lemma errors_As_find: "errors_As P e = find P (error_chain e)"
proof (induction P e rule: errors_As.induct)
  case (1 P e)
  then show ?case
    by (subst errors_As.simps, subst error_chain.simps) (simp split: option.split)
qed

lemma errors_As_None_iff: "errors_As P e = None \<longleftrightarrow> (\<forall>x\<in>set (error_chain e). \<not> P x)"
  by (auto simp: errors_As_find find_None_iff)

lemma find_first:
  "List.find P xs = Some h \<longleftrightarrow> (\<exists>pre post. xs = pre @ h # post \<and> P h \<and> list_all (\<lambda>x. \<not> P x) pre)"
proof (induction xs)
  case (Cons a xs)
  show ?case
  proof (cases "P a")
    case True
    then have "(\<exists>pre post. a # xs = pre @ h # post \<and> P h \<and> list_all (\<lambda>x. \<not> P x) pre) \<longleftrightarrow> h = a"
      by (auto simp: Cons_eq_append_conv)
    then show ?thesis using True by auto
  next
    case False
    have "(\<exists>pre post. a # xs = pre @ h # post \<and> P h \<and> list_all (\<lambda>x. \<not> P x) pre) \<longleftrightarrow>
        (\<exists>pre post. xs = pre @ h # post \<and> P h \<and> list_all (\<lambda>x. \<not> P x) pre)" (is "?l \<longleftrightarrow> ?r")
    proof
      assume ?l
      then show ?r using False by (auto simp: Cons_eq_append_conv)
    next
      assume ?r
      then obtain pre post where "xs = pre @ h # post" "P h" "list_all (\<lambda>x. \<not> P x) pre" by blast
      then show ?l using False by (intro exI [of _ "a # pre"] exI [of _ post]) simp
    qed
    then show ?thesis using Cons False by simp
  qed
qed simp

definition transient :: "error \<Rightarrow> bool" where
  "transient e \<longleftrightarrow> is_NetworkError e \<or> is_TimeoutError e \<or> is_RateLimitError e"

text \<open>
  C37. \<open>IsTemporary\<close> holds exactly when some error of the unwrap chain is a network, timeout or
  rate-limit error; \<open>IsRetryable\<close> holds exactly then, or when the first HTTP error of the chain has
  a status of at least 500 or equal to 429.  So every temporary error is retryable, and wrapping
  an error changes neither answer.
\<close>

theorem retry_classification:
  "IsTemporary (Some e) = (\<exists>x\<in>set (error_chain e). transient x) \<and>
   IsRetryable (Some e) = (IsTemporary (Some e) \<or>
     (\<exists>pre h post. error_chain e = pre @ h # post \<and> is_HTTPError h \<and> list_all (\<lambda>x. \<not> is_HTTPError x) pre \<and>
        (err_StatusCode h \<ge> 500 \<or> err_StatusCode h = 429))) \<and>
   IsRetryable (Some (WrapError p e s)) = IsRetryable (Some e) \<and>
   IsTemporary (Some (WrapError p e s)) = IsTemporary (Some e)"
proof -
  have temp: "IsTemporary (Some e) = (\<exists>x\<in>set (error_chain e). transient x)" for e
    by (simp add: IsTemporary_def transient_def errors_As_None_iff) blast
  have http: "(case errors_As is_HTTPError e of
        Some h \<Rightarrow> err_StatusCode h \<ge> 500 \<or> err_StatusCode h = 429 | None \<Rightarrow> False) \<longleftrightarrow>
      (\<exists>h. errors_As is_HTTPError e = Some h \<and> (err_StatusCode h \<ge> 500 \<or> err_StatusCode h = 429))" for e
    by (simp split: option.split)
  have retry: "IsRetryable (Some e) = (IsTemporary (Some e) \<or>
      (\<exists>h. errors_As is_HTTPError e = Some h \<and> (err_StatusCode h \<ge> 500 \<or> err_StatusCode h = 429)))" for e
    unfolding IsRetryable_def IsTemporary_def option.case http by auto
  have wrap: "errors_As P (WrapError p e s) = errors_As P e" if "\<not> P (WrapError p e s)" for P
    using that by (simp add: errors_As.simps [of P "WrapError p e s"])
  have "IsTemporary (Some (WrapError p e s)) = IsTemporary (Some e)"
    by (simp add: IsTemporary_def wrap)
  moreover have "IsRetryable (Some (WrapError p e s)) = IsRetryable (Some e)"
    by (simp add: IsRetryable_def wrap)
  ultimately show ?thesis using temp retry unfolding errors_As_find find_first by blast
qed

text \<open>
  Errors made by the package's constructors are classified by their type: network, timeout and
  rate-limit errors are temporary; HTTP errors are retryable exactly for status 429 and from 500
  on; extraction errors are as retryable as their cause;
  configuration and robots errors never are.
\<close>

theorem constructor_classification:
  "IsTemporary (Some (NewNetworkError u c)) \<and> IsTemporary (Some (NewTimeoutError u c)) \<and>
   IsTemporary (Some (NewRateLimitError u)) \<and>
   IsRetryable (Some (NewHTTPError u code)) = (code \<ge> 500 \<or> code = 429) \<and>
   \<not> IsTemporary (Some (NewHTTPError u code)) \<and>
   IsRetryable (Some (NewExtractionError u s c)) = IsRetryable c \<and>
   \<not> IsRetryable (Some (NewConfigError f m)) \<and> \<not> IsRetryable (Some (NewRobotsError u)) \<and>
   error_Error (NewNetworkError u (Some (NewHTTPError v 404))) =
     ''network error for '' @ u @ '': HTTP 404 for '' @ v"
proof -
  note As = errors_As.simps [of _ "NetworkError _ _ _ _"] errors_As.simps [of _ "TimeoutError _ _ _ _"]
    errors_As.simps [of _ "RateLimitError _ _ _ _"] errors_As.simps [of _ "HTTPError _ _ _ _ _"]
    errors_As.simps [of _ "ConfigError _ _ _ _"] errors_As.simps [of _ "RobotsError _ _ _ _"]
    errors_As.simps [of _ "ExtractionError _ _ _ _ _"]
  have itoa: "strconv_Itoa 404 = ''404''" by code_simp
  have msg: "error_Error (NewNetworkError u (Some (NewHTTPError v 404))) =
     ''network error for '' @ u @ '': HTTP 404 for '' @ v"
    by (simp add: error_Error.simps NewNetworkError_def NewHTTPError_def itoa)
  have ext: "IsRetryable (Some (NewExtractionError u s c)) = IsRetryable c"
    by (cases c) (simp_all add: IsRetryable_def NewExtractionError_def As)
  show ?thesis using msg ext
    by (simp add: IsTemporary_def IsRetryable_def NewNetworkError_def NewTimeoutError_def
        NewRateLimitError_def NewHTTPError_def NewConfigError_def NewRobotsError_def As)
qed

end
