(* ===== verification/Middleware_Chain.thy ===== *)
theory Middleware_Chain
  imports Crawl_Errors
begin

text \<open>
  pkg/middleware/chain.go.  A handler runs in a world \<open>'w\<close> (the clock, the network, the state of the
  middlewares), takes the request and returns the world, the request as the callee left it (Go
  passes a pointer) and the pair of response and error, or panics.  A \<^verbatim>\<open>nil\<close> response, error or map
  is \<open>None\<close>.  The locale \<open>header_middleware\<close> is the contract shared by the middlewares that set one
  request header and then call the next handler.
\<close>

section \<open>Requests, responses, chains\<close>

datatype any_value = AnyString string | AnyBool bool | AnyInt int

type_synonym any_map = "string \<rightharpoonup> any_value"

record Request =
  req_URL :: string
  req_Method :: string
  req_Headers :: "string_map option"
  req_Body :: string
  req_Meta :: "any_map option"

record Response =
  resp_StatusCode :: int
  resp_Headers :: "string_map option"
  resp_Body :: string
  resp_Meta :: "any_map option"

datatype go_result = Ret "Response option" "error option" | Panic string

type_synonym 'w NextFunc = "'w \<Rightarrow> Request \<Rightarrow> 'w \<times> Request \<times> go_result"

type_synonym 'w Middleware = "'w \<Rightarrow> Request \<Rightarrow> 'w NextFunc \<Rightarrow> 'w \<times> Request \<times> go_result"

record 'w Chain =
  chain_middlewares :: "'w Middleware list"
  chain_handler :: "'w NextFunc"

definition NewChain :: "'w NextFunc \<Rightarrow> 'w Chain" where
  "NewChain handler = \<lparr>chain_middlewares = [], chain_handler = handler\<rparr>"

definition Chain_Use :: "'w Chain \<Rightarrow> 'w Middleware \<Rightarrow> 'w Chain" where
  "Chain_Use c mw = c\<lparr>chain_middlewares := chain_middlewares c @ [mw]\<rparr>"

definition Func_ProcessRequest :: "'w Middleware \<Rightarrow> 'w Middleware" where
  "Func_ProcessRequest f w req nxt = f w req nxt"

definition Chain_UseFunc :: "'w Chain \<Rightarrow> 'w Middleware \<Rightarrow> 'w Chain" where
  "Chain_UseFunc c fn = Chain_Use c (Func_ProcessRequest fn)"

text \<open>The loop that wraps the handler, from the last middleware to the first.\<close>

fun Chain_build :: "'w Middleware list \<Rightarrow> nat \<Rightarrow> 'w NextFunc \<Rightarrow> 'w NextFunc" where
  "Chain_build mws 0 nxt = nxt"
| "Chain_build mws (Suc i) nxt = Chain_build mws i (\<lambda>w req. (mws ! i) w req nxt)"

definition Chain_Execute :: "'w Chain \<Rightarrow> 'w NextFunc" where
  "Chain_Execute c w req =
     (if length (chain_middlewares c) = 0 then chain_handler c w req
      else Chain_build (chain_middlewares c) (length (chain_middlewares c)) (chain_handler c) w req)"

definition Chain_Len :: "'w Chain \<Rightarrow> nat" where
  "Chain_Len c = length (chain_middlewares c)"

text \<open>
  A middleware object lives in the world; a reference reads and writes it there.  References to
  different objects of one chain are different projections of the world.
\<close>

record ('w, 's) ref =
  deref :: "'w \<Rightarrow> 's"
  assign :: "'s \<Rightarrow> 'w \<Rightarrow> 'w"

definition lawful_ref :: "('w, 's) ref \<Rightarrow> bool" where
  "lawful_ref r \<longleftrightarrow>
     (\<forall>w x. deref r (assign r x w) = x) \<and> (\<forall>w x y. assign r x (assign r y w) = assign r x w) \<and>
     (\<forall>w. assign r (deref r w) w = w)"

definition fst_ref :: "('s \<times> 'v, 's) ref" where
  "fst_ref = \<lparr>deref = fst, assign = (\<lambda>x w. (x, snd w))\<rparr>"

definition snd_ref :: "('s \<times> 'v, 'v) ref" where
  "snd_ref = \<lparr>deref = snd, assign = (\<lambda>x w. (fst w, x))\<rparr>"

lemma deref_assign [simp]: "lawful_ref r \<Longrightarrow> deref r (assign r x w) = x"
  unfolding lawful_ref_def by blast

lemma assign_assign [simp]: "lawful_ref r \<Longrightarrow> assign r x (assign r y w) = assign r x w"
  unfolding lawful_ref_def by blast

lemma assign_deref [simp]: "lawful_ref r \<Longrightarrow> assign r (deref r w) w = w"
  unfolding lawful_ref_def by blast

lemma pair_ref_simps [simp]:
  "deref fst_ref (a, b) = a" "assign fst_ref x (a, b) = (x, b)"
  "deref snd_ref (a, b) = b" "assign snd_ref y (a, b) = (a, y)"
  by (simp_all add: fst_ref_def snd_ref_def)

lemma lawful_fst_ref [simp]: "lawful_ref fst_ref"
  by (simp add: lawful_ref_def fst_ref_def)

lemma lawful_snd_ref [simp]: "lawful_ref snd_ref"
  by (simp add: lawful_ref_def snd_ref_def)

section \<open>Execution as nesting\<close>

lemma Chain_build_foldr:
  "n \<le> length mws \<Longrightarrow>
   Chain_build mws n nxt = foldr (\<lambda>mw nx w req. mw w req nx) (take n mws) nxt"
  by (induction n arbitrary: nxt) (simp_all add: take_Suc_conv_app_nth)

lemma Chain_Execute_foldr:
  "Chain_Execute c = foldr (\<lambda>mw nx w req. mw w req nx) (chain_middlewares c) (chain_handler c)"
  by (intro ext) (simp add: Chain_Execute_def Chain_build_foldr)

lemma foldl_Use:
  "chain_middlewares (foldl Chain_Use c mws) = chain_middlewares c @ mws"
  "chain_handler (foldl Chain_Use c mws) = chain_handler c"
  by (induction mws arbitrary: c) (simp_all add: Chain_Use_def)

lemma Execute_Use:
  "Chain_Execute (foldl Chain_Use (NewChain h) mws) = foldr (\<lambda>mw nx w req. mw w req nx) mws h"
  by (simp add: Chain_Execute_foldr foldl_Use NewChain_def)

lemma Len_Use: "Chain_Len (foldl Chain_Use (NewChain h) mws) = length mws"
  by (simp add: Chain_Len_def foldl_Use NewChain_def)

text \<open>A middleware that logs on its way in and on its way out.\<close>

datatype trace_event = In nat | Handled | Out nat

definition traced :: "nat \<Rightarrow> trace_event list Middleware" where
  "traced n w req nxt = (case nxt (w @ [In n]) req of (w', req', r) \<Rightarrow> (w' @ [Out n], req', r))"

definition traced_handler :: "trace_event list NextFunc" where
  "traced_handler w req = (w @ [Handled], req, Ret None None)"

lemma traced_run:
  "foldr (\<lambda>mw nx w req. mw w req nx) (map traced ns) traced_handler w req =
     (w @ map In ns @ [Handled] @ map Out (rev ns), req, Ret None None)"
  by (induction ns arbitrary: w) (simp_all add: traced_def traced_handler_def)

text \<open>
  C21. A chain runs its middlewares as an onion: executing one built from \<open>first @ second\<close> is
  executing \<open>first\<close> around the chain of \<open>second\<close>; the first middleware added is outermost, so
  middlewares that log see the request in the order they were added and the response in the
  reverse order, with the handler called once in between.
\<close>

theorem chain_onion:
  "Chain_Execute (foldl Chain_Use (NewChain h) (first @ second)) =
     Chain_Execute (foldl Chain_Use (NewChain (Chain_Execute (foldl Chain_Use (NewChain h) second))) first) \<and>
   Chain_Execute (foldl Chain_Use (NewChain h) (mw # second)) w req =
     mw w req (Chain_Execute (foldl Chain_Use (NewChain h) second)) \<and>
   fst (Chain_Execute (foldl Chain_Use (NewChain traced_handler) (map traced ns)) [] req) =
     map In ns @ [Handled] @ map Out (rev ns) \<and>
   Chain_Len (foldl Chain_Use (NewChain h) first) = length first"
  unfolding Execute_Use Len_Use by (simp add: traced_run)

section \<open>Interface: middlewares that set a header\<close>

definition set_header :: "string \<Rightarrow> string \<Rightarrow> Request \<Rightarrow> Request" where
  "set_header k v req = req\<lparr>req_Headers := Some ((make_if_nil (req_Headers req))(k \<mapsto> v))\<rparr>"

lemma map_index_set_header [simp]:
  "map_index (req_Headers (set_header k v req)) k' =
     (if k' = k then v else map_index (req_Headers req) k')"
  by (cases "req_Headers req") (simp_all add: set_header_def map_index_def)

lemma set_header_other [simp]:
  "req_URL (set_header k v req) = req_URL req" "req_Method (set_header k v req) = req_Method req"
  "req_Body (set_header k v req) = req_Body req" "req_Meta (set_header k v req) = req_Meta req"
  by (simp_all add: set_header_def)

text \<open>
  The middleware computes a value (or fails) from its state and the request's URL, then calls the
  next handler once with the header set; on failure it returns the error without calling it.
\<close>

locale header_middleware =
  fixes mw :: "'w Middleware"
    and header :: string
    and produce :: "'w \<Rightarrow> string \<Rightarrow> (error + string) \<times> 'w"
  assumes sets: "produce w (req_URL req) = (Inr v, w') \<Longrightarrow> mw w req nxt = nxt w' (set_header header v req)"
    and fails: "produce w (req_URL req) = (Inl e, w') \<Longrightarrow> mw w req nxt = (w', req, Ret None (Some e))"
begin

lemma handler_sees_header:
  assumes "produce w (req_URL req) = (Inr v, w')"
  obtains req' where "mw w req nxt = nxt w' req'" and "map_index (req_Headers req') header = v"
    and "\<And>k. k \<noteq> header \<Longrightarrow> map_index (req_Headers req') k = map_index (req_Headers req) k"
    and "req_URL req' = req_URL req" and "req_Method req' = req_Method req"
    and "req_Body req' = req_Body req" and "req_Meta req' = req_Meta req"
  using sets [OF assms] by (intro that [of "set_header header v req"]) simp_all

lemma calls_next_or_fails:
  "(\<exists>w' req'. mw w req nxt = nxt w' req') \<or> (\<exists>w' e. mw w req nxt = (w', req, Ret None (Some e)))"
proof (cases "produce w (req_URL req)")
  case (Pair r w')
  then show ?thesis using sets fails by (cases r) blast+
qed

end

end
