(* ===== verification/Middleware_Headers.thy ===== *)
theory Middleware_Headers
  imports Middleware_Chain Net_URL "HOL-Library.Word"
begin

unbundle bit_operations_syntax

text \<open>
  pkg/middleware/useragent.go and auth.go, and \<open>extractHost\<close> of ratelimit.go: the middlewares that set
  one request header.  The round-robin counter is a 64-bit word.  Random numbers, the HTTP call to
  the token endpoint and JSON decoding are arguments; both middlewares satisfy the contract
  \<open>header_middleware\<close>.
\<close>

section \<open>useragent.go\<close>

definition extractHost :: "string \<Rightarrow> string" where
  "extractHost rawURL =
     (case url_Parse rawURL of None \<Rightarrow> [] | Some u \<Rightarrow> strings_ToLower (url_Hostname u))"

definition RotationRoundRobin :: string where "RotationRoundRobin = ''round-robin''"
definition RotationRandom :: string where "RotationRandom = ''random''"
definition RotationPerDomain :: string where "RotationPerDomain = ''per-domain''"

lemmas rotation_defs = RotationRoundRobin_def RotationRandom_def RotationPerDomain_def

definition DefaultUserAgents :: "string list" where
  "DefaultUserAgents =
    [''Mozilla/5.0 (Windows NT 10.0; Win64; x64) AppleWebKit/537.36 (KHTML, like Gecko) Chrome/122.0.0.0 Safari/537.36'',
     ''Mozilla/5.0 (Macintosh; Intel Mac OS X 10_15_7) AppleWebKit/537.36 (KHTML, like Gecko) Chrome/122.0.0.0 Safari/537.36'',
     ''Mozilla/5.0 (X11; Linux x86_64) AppleWebKit/537.36 (KHTML, like Gecko) Chrome/122.0.0.0 Safari/537.36'',
     ''Mozilla/5.0 (Windows NT 10.0; Win64; x64; rv:123.0) Gecko/20100101 Firefox/123.0'',
     ''Mozilla/5.0 (Macintosh; Intel Mac OS X 14.3; rv:123.0) Gecko/20100101 Firefox/123.0'',
     ''Mozilla/5.0 (X11; Linux x86_64; rv:123.0) Gecko/20100101 Firefox/123.0'',
     ''Mozilla/5.0 (Macintosh; Intel Mac OS X 14_3_1) AppleWebKit/605.1.15 (KHTML, like Gecko) Version/17.3.1 Safari/605.1.15'',
     ''Mozilla/5.0 (Windows NT 10.0; Win64; x64) AppleWebKit/537.36 (KHTML, like Gecko) Chrome/122.0.0.0 Safari/537.36 Edg/122.0.0.0'']"

record UserAgentConfig =
  uac_UserAgents :: "string list"
  uac_RotationMode :: string

definition DefaultUserAgentConfig :: UserAgentConfig where
  "DefaultUserAgentConfig = \<lparr>uac_UserAgents = DefaultUserAgents, uac_RotationMode = RotationRoundRobin\<rparr>"

record UserAgent =
  ua_cfg :: UserAgentConfig
  ua_index :: "64 word"

definition NewUserAgent :: "UserAgentConfig \<Rightarrow> UserAgent" where
  "NewUserAgent cfg =
     (let cfg1 = (if length (uac_UserAgents cfg) = 0 then cfg\<lparr>uac_UserAgents := DefaultUserAgents\<rparr> else cfg);
          cfg2 = (if uac_RotationMode cfg1 \<in> {RotationRoundRobin, RotationRandom, RotationPerDomain} then cfg1
                  else cfg1\<lparr>uac_RotationMode := RotationRoundRobin\<rparr>)
      in \<lparr>ua_cfg = cfg2, ua_index = 0\<rparr>)"

text \<open>hash/fnv, 64-bit FNV-1a.\<close>

definition fnv64a :: "string \<Rightarrow> 64 word" where
  "fnv64a s = foldl (\<lambda>h c. (h XOR of_nat (of_char c)) * 1099511628211) 14695981039346656037 s"

text \<open>\<open>rnd w n\<close> is \<^verbatim>\<open>rand.Uint64N(n)\<close>.\<close>

definition UserAgent_pick ::
  "('w \<Rightarrow> nat \<Rightarrow> nat \<times> 'w) \<Rightarrow> ('w, UserAgent) ref \<Rightarrow> 'w \<Rightarrow> string \<Rightarrow> string \<times> 'w" where
  "UserAgent_pick rnd r w rawURL =
     (let ua = deref r w;
          pool = uac_UserAgents (ua_cfg ua);
          n = length pool;
          host = extractHost rawURL;
          round_robin = (pool ! (unat (ua_index ua) mod n), assign r (ua\<lparr>ua_index := ua_index ua + 1\<rparr>) w)
      in if uac_RotationMode (ua_cfg ua) = RotationRandom then (case rnd w n of (i, w') \<Rightarrow> (pool ! i, w'))
         else if uac_RotationMode (ua_cfg ua) = RotationPerDomain then
           (if host = [] then round_robin else (pool ! (unat (fnv64a host) mod n), w))
         else round_robin)"

definition UserAgent_ProcessRequest ::
  "('w \<Rightarrow> nat \<Rightarrow> nat \<times> 'w) \<Rightarrow> ('w, UserAgent) ref \<Rightarrow> 'w Middleware" where
  "UserAgent_ProcessRequest rnd r w req nxt =
     (case UserAgent_pick rnd r w (req_URL req) of (agent, w') \<Rightarrow>
        let req1 = (if req_Headers req = None then req\<lparr>req_Headers := Some Map.empty\<rparr> else req)
        in nxt w' (req1\<lparr>req_Headers := map_option (\<lambda>h. h(''User-Agent'' \<mapsto> agent)) (req_Headers req1)\<rparr>))"

section \<open>auth.go\<close>

definition AuthTypeBasic :: string where "AuthTypeBasic = ''basic''"
definition AuthTypeBearer :: string where "AuthTypeBearer = ''bearer''"
definition AuthTypeOAuth2 :: string where "AuthTypeOAuth2 = ''oauth2''"

lemmas auth_type_defs = AuthTypeBasic_def AuthTypeBearer_def AuthTypeOAuth2_def

record OAuth2Config =
  oa_ClientID :: string
  oa_ClientSecret :: string
  oa_TokenURL :: string
  oa_Scopes :: "string list"

record AuthConfig =
  ac_Type :: string
  ac_Username :: string
  ac_Password :: string
  ac_Token :: string
  ac_OAuth2 :: "OAuth2Config option"

record oauth2Token =
  tok_AccessToken :: string
  tok_ExpiresIn :: int
  tok_TokenType :: string
  tok_expiry :: Time

record Auth =
  auth_cfg :: AuthConfig
  auth_token :: "oauth2Token option"

definition oauth2Token_expired :: "Time \<Rightarrow> oauth2Token \<Rightarrow> bool" where
  "oauth2Token_expired now t =
     (if time_IsZero (tok_expiry t) then False else time_After (now + 10 * Second) (tok_expiry t))"

text \<open>\<open>None\<close>: the constructor panics.\<close>

definition NewAuth :: "AuthConfig \<Rightarrow> Auth option" where
  "NewAuth cfg = (if ac_Type cfg = [] then None else Some \<lparr>auth_cfg = cfg, auth_token = None\<rparr>)"

text \<open>encoding/base64, the standard alphabet with padding.\<close>

definition b64_char :: "nat \<Rightarrow> char" where
  "b64_char i = ''ABCDEFGHIJKLMNOPQRSTUVWXYZabcdefghijklmnopqrstuvwxyz0123456789+/'' ! i"

fun base64_encode :: "string \<Rightarrow> string" where
  "base64_encode [] = []"
| "base64_encode [x] =
     (let a = (of_char x :: nat) in [b64_char (a div 4), b64_char (a mod 4 * 16), CHR ''='', CHR ''=''])"
| "base64_encode [x, y] =
     (let a = (of_char x :: nat); b = (of_char y :: nat)
      in [b64_char (a div 4), b64_char (a mod 4 * 16 + b div 16), b64_char (b mod 16 * 4), CHR ''=''])"
| "base64_encode (x # y # z # s) =
     (let a = (of_char x :: nat); b = (of_char y :: nat); c = (of_char z :: nat)
      in [b64_char (a div 4), b64_char (a mod 4 * 16 + b div 16), b64_char (b mod 16 * 4 + c div 64),
          b64_char (c mod 64)] @ base64_encode s)"

definition basicAuthHeader :: "string \<Rightarrow> string \<Rightarrow> string" where
  "basicAuthHeader username password = ''Basic '' @ base64_encode (username @ '':'' @ password)"

text \<open>The environment of the token request: the clock, the HTTP call (status and body, or an
  error), JSON decoding, and the error texts of net/url.\<close>

record 'w auth_env =
  ae_now :: "'w \<Rightarrow> Time"
  ae_post :: "'w \<Rightarrow> string \<Rightarrow> string \<Rightarrow> (error + int \<times> string) \<times> 'w"
  ae_decode :: "string \<Rightarrow> error + oauth2Token"
  ae_url_error :: "string \<Rightarrow> error"

definition token_form :: "OAuth2Config \<Rightarrow> string" where
  "token_form cfg =
     (let pairs = [(''client_id'', oa_ClientID cfg), (''client_secret'', oa_ClientSecret cfg),
            (''grant_type'', ''client_credentials'')] @
            (if 0 < length (oa_Scopes cfg) then [(''scope'', join_with '' '' (oa_Scopes cfg))] else [])
      in join_with ''&'' (map (\<lambda>(k, v). QueryEscape k @ ''='' @ QueryEscape v) pairs))"

definition Auth_fetchToken :: "'w auth_env \<Rightarrow> Auth \<Rightarrow> 'w \<Rightarrow> (error + oauth2Token) \<times> 'w" where
  "Auth_fetchToken env a w =
     (case ac_OAuth2 (auth_cfg a) of
        None \<Rightarrow> (Inl (ErrorString ''middleware.Auth: OAuth2 config is nil''), w)
      | Some cfg \<Rightarrow>
          if url_Parse (oa_TokenURL cfg) = None then
            (Inl (WrapError ''middleware.Auth: building token request: '' (ae_url_error env (oa_TokenURL cfg)) []), w)
          else (case ae_post env w (oa_TokenURL cfg) (token_form cfg) of
              (Inl err, w1) \<Rightarrow> (Inl (WrapError ''middleware.Auth: token request failed: '' err []), w1)
            | (Inr (status, body), w1) \<Rightarrow>
                if status \<noteq> 200 then
                  (Inl (ErrorString (''middleware.Auth: token endpoint returned HTTP '' @ strconv_Itoa status)), w1)
                else (case ae_decode env body of
                    Inl err \<Rightarrow> (Inl (WrapError ''middleware.Auth: decoding token response: '' err []), w1)
                  | Inr tok \<Rightarrow>
                      if tok_AccessToken tok = [] then
                        (Inl (ErrorString ''middleware.Auth: token response missing access_token''), w1)
                      else if 0 < tok_ExpiresIn tok then
                        (Inr (tok\<lparr>tok_expiry := ae_now env w1 + wrap64 (tok_ExpiresIn tok * Second)\<rparr>), w1)
                      else (Inr tok, w1))))"

definition Auth_oauth2Header ::
  "'w auth_env \<Rightarrow> ('w, Auth) ref \<Rightarrow> 'w \<Rightarrow> (error + string) \<times> 'w" where
  "Auth_oauth2Header env r w =
     (let a = deref r w
      in if (case auth_token a of None \<Rightarrow> True | Some t \<Rightarrow> oauth2Token_expired (ae_now env w) t) then
           (case Auth_fetchToken env a w of
              (Inl err, w1) \<Rightarrow> (Inl err, w1)
            | (Inr tok, w1) \<Rightarrow>
                (Inr (''Bearer '' @ tok_AccessToken tok), assign r (a\<lparr>auth_token := Some tok\<rparr>) w1))
         else (Inr (''Bearer '' @ tok_AccessToken (the (auth_token a))), w))"

definition Auth_buildHeader ::
  "'w auth_env \<Rightarrow> ('w, Auth) ref \<Rightarrow> 'w \<Rightarrow> (error + string) \<times> 'w" where
  "Auth_buildHeader env r w =
     (let cfg = auth_cfg (deref r w)
      in if ac_Type cfg = AuthTypeBasic then (Inr (basicAuthHeader (ac_Username cfg) (ac_Password cfg)), w)
         else if ac_Type cfg = AuthTypeBearer then (Inr (''Bearer '' @ ac_Token cfg), w)
         else if ac_Type cfg = AuthTypeOAuth2 then Auth_oauth2Header env r w
         else (Inl (ErrorString (''middleware.Auth: unsupported auth type '' @ strconv_Quote (ac_Type cfg))), w))"

definition Auth_ProcessRequest :: "'w auth_env \<Rightarrow> ('w, Auth) ref \<Rightarrow> 'w Middleware" where
  "Auth_ProcessRequest env r w req nxt =
     (case Auth_buildHeader env r w of
        (Inl err, w1) \<Rightarrow> (w1, req, Ret None (Some err))
      | (Inr header, w1) \<Rightarrow>
          let req1 = (if req_Headers req = None then req\<lparr>req_Headers := Some Map.empty\<rparr> else req)
          in nxt w1 (req1\<lparr>req_Headers := map_option (\<lambda>h. h(''Authorization'' \<mapsto> header)) (req_Headers req1)\<rparr>))"

section \<open>Both set one header\<close>

lemma set_header_code:
  "(let req1 = (if req_Headers req = None then req\<lparr>req_Headers := Some Map.empty\<rparr> else req)
    in f (req1\<lparr>req_Headers := map_option (\<lambda>h. h(k \<mapsto> v)) (req_Headers req1)\<rparr>)) = f (set_header k v req)"
  by (cases "req_Headers req") (simp_all add: set_header_def Let_def)

interpretation user_agent: header_middleware "UserAgent_ProcessRequest rnd r" "''User-Agent''"
  "\<lambda>w u. case UserAgent_pick rnd r w u of (agent, w') \<Rightarrow> (Inr agent, w')" for rnd r
  by unfold_locales (auto simp: UserAgent_ProcessRequest_def set_header_code split: prod.splits)

interpretation auth: header_middleware "Auth_ProcessRequest env r" "''Authorization''"
  "\<lambda>w u. Auth_buildHeader env r w" for env r
  by unfold_locales (auto simp: Auth_ProcessRequest_def set_header_code split: prod.splits sum.splits)

section \<open>User-Agent rotation\<close>

fun pick_run ::
  "('w \<Rightarrow> nat \<Rightarrow> nat \<times> 'w) \<Rightarrow> ('w, UserAgent) ref \<Rightarrow> 'w \<Rightarrow> string list \<Rightarrow> string list" where
  "pick_run rnd r w [] = []"
| "pick_run rnd r w (u # us) = (case UserAgent_pick rnd r w u of (a, w') \<Rightarrow> a # pick_run rnd r w' us)"

lemma pick_round_robin:
  assumes "uac_RotationMode (ua_cfg (deref r w)) = RotationRoundRobin"
  shows "UserAgent_pick rnd r w u =
     (uac_UserAgents (ua_cfg (deref r w)) ! (unat (ua_index (deref r w)) mod length (uac_UserAgents (ua_cfg (deref r w)))),
      assign r ((deref r w)\<lparr>ua_index := ua_index (deref r w) + 1\<rparr>) w)"
  using assms by (simp add: UserAgent_pick_def Let_def rotation_defs)

lemma unat_Suc_64: "unat (i :: 64 word) + 1 < 2 ^ 64 \<Longrightarrow> unat (i + 1) = unat i + 1"
  using unat_add_lem [of i 1] by simp

lemma pick_run_round_robin:
  assumes "lawful_ref r" and "uac_RotationMode (ua_cfg (deref r w)) = RotationRoundRobin"
    and "unat (ua_index (deref r w)) + length us < 2 ^ 64"
  shows "pick_run rnd r w us = map (\<lambda>i. uac_UserAgents (ua_cfg (deref r w)) !
     ((unat (ua_index (deref r w)) + i) mod length (uac_UserAgents (ua_cfg (deref r w))))) [0..<length us]"
  using assms
proof (induction us arbitrary: w)
  case Nil
  then show ?case by simp
next
  case (Cons u us)
  let ?ua = "deref r w"
  let ?w = "assign r (?ua\<lparr>ua_index := ua_index ?ua + 1\<rparr>) w"
  have idx: "unat (ua_index ?ua + 1) = unat (ua_index ?ua) + 1"
    using Cons.prems(3) by (intro unat_Suc_64) simp
  have "pick_run rnd r ?w us = map (\<lambda>i. uac_UserAgents (ua_cfg ?ua) !
     ((unat (ua_index ?ua) + 1 + i) mod length (uac_UserAgents (ua_cfg ?ua)))) [0..<length us]"
    using Cons.IH [of ?w] Cons.prems idx by simp
  moreover have "[0..<length (u # us)] = 0 # map Suc [0..<length us]"
    by (simp add: upt_conv_Cons map_Suc_upt del: upt_Suc)
  ultimately show ?case
    using pick_round_robin [OF Cons.prems(2), of rnd u] by (simp add: comp_def del: upt_Suc)
qed

text \<open>
  Round-robin rotation is fair: any run of as many requests as there are agents, starting
  anywhere below the wrap of the 64-bit counter, uses the pool once around, beginning where the
  counter stands.
\<close>

theorem round_robin_fair:
  assumes "lawful_ref r" and "uac_RotationMode (ua_cfg (deref r w)) = RotationRoundRobin"
    and "length us = length (uac_UserAgents (ua_cfg (deref r w)))"
    and "unat (ua_index (deref r w)) + length us < 2 ^ 64"
  shows "pick_run rnd r w us = rotate (unat (ua_index (deref r w))) (uac_UserAgents (ua_cfg (deref r w)))"
  unfolding pick_run_round_robin [OF assms(1,2,4)]
  by (rule nth_equalityI) (simp_all add: assms(3) nth_rotate)

theorem round_robin_fair_witness:
  "pick_run (\<lambda>w n. (0, w)) fst_ref
     (\<lparr>ua_cfg = \<lparr>uac_UserAgents = [''x'', ''y'', ''z''], uac_RotationMode = RotationRoundRobin\<rparr>, ua_index = 7\<rparr>, ())
     [''u'', ''v'', ''u''] = [''y'', ''z'', ''x'']"
proof -
  let ?w = "(\<lparr>ua_cfg = \<lparr>uac_UserAgents = [''x'', ''y'', ''z''], uac_RotationMode = RotationRoundRobin\<rparr>,
     ua_index = 7\<rparr>, ())"
  have "pick_run (\<lambda>w n. (0, w)) fst_ref ?w [''u'', ''v'', ''u''] =
      rotate (unat (ua_index (deref fst_ref ?w))) (uac_UserAgents (ua_cfg (deref fst_ref ?w)))"
    by (rule round_robin_fair) simp_all
  also have "\<dots> = [''y'', ''z'', ''x'']" by (simp add: rotate_drop_take)
  finally show ?thesis .
qed

text \<open>
  A middleware made by \<open>NewUserAgent\<close> always picks an agent of its pool, whatever the
  configured mode, and with per-domain rotation two URLs of one host get the same agent without
  touching the counter.
\<close>

theorem user_agent_from_pool:
  assumes "ua_cfg (deref r w) = ua_cfg (NewUserAgent cfg)" and "\<And>w n. 0 < n \<Longrightarrow> fst (rnd w n) < n"
  shows "fst (UserAgent_pick rnd r w u) \<in> set (uac_UserAgents (ua_cfg (NewUserAgent cfg))) \<and>
    (uac_RotationMode cfg = RotationPerDomain \<longrightarrow> extractHost u \<noteq> [] \<longrightarrow> extractHost v = extractHost u \<longrightarrow>
       UserAgent_pick rnd r w v = UserAgent_pick rnd r w u \<and> snd (UserAgent_pick rnd r w u) = w)"
proof -
  let ?pool = "uac_UserAgents (ua_cfg (NewUserAgent cfg))"
  have ne: "?pool \<noteq> []" by (auto simp: NewUserAgent_def Let_def DefaultUserAgents_def)
  then have n: "0 < length ?pool" by simp
  have "fst (UserAgent_pick rnd r w u) \<in> set ?pool"
    using assms(1) n assms(2) [OF n, of w] by (auto simp: UserAgent_pick_def Let_def split: prod.splits)
  moreover have "uac_RotationMode (ua_cfg (NewUserAgent cfg)) = RotationPerDomain"
    if "uac_RotationMode cfg = RotationPerDomain"
    using that by (simp add: NewUserAgent_def Let_def)
  ultimately show ?thesis
    using assms(1) by (auto simp: UserAgent_pick_def Let_def rotation_defs)
qed

theorem user_agent_from_pool_witness:
  "extractHost ''http://A.b/x'' = ''a.b'' \<and>
   fst (UserAgent_pick (\<lambda>w n. (0, w)) fst_ref
     (NewUserAgent \<lparr>uac_UserAgents = [''p'', ''q''], uac_RotationMode = RotationPerDomain\<rparr>, ()) ''http://A.b/x'')
     \<in> {''p'', ''q''}"
proof -
  let ?cfg = "\<lparr>uac_UserAgents = [''p'', ''q''], uac_RotationMode = RotationPerDomain\<rparr>"
  have "fst (UserAgent_pick (\<lambda>w n. (0, w)) fst_ref (NewUserAgent ?cfg, ()) ''http://A.b/x'')
      \<in> set (uac_UserAgents (ua_cfg (NewUserAgent ?cfg)))"
    using user_agent_from_pool [of fst_ref "(NewUserAgent ?cfg, ())" ?cfg "\<lambda>w n. (0, w)" "''http://A.b/x''"]
    by simp
  moreover have "extractHost ''http://A.b/x'' = ''a.b''" by code_simp
  ultimately show ?thesis by (simp add: NewUserAgent_def Let_def)
qed

section \<open>Authentication\<close>

text \<open>Decoding base64, the specification of the encoding.\<close>

definition b64_val :: "char \<Rightarrow> nat" where
  "b64_val c = length (takeWhile (\<lambda>x. x \<noteq> c) ''ABCDEFGHIJKLMNOPQRSTUVWXYZabcdefghijklmnopqrstuvwxyz0123456789+/'')"

fun base64_decode :: "string \<Rightarrow> string" where
  "base64_decode (p # q # r # t # s) =
     (let a = b64_val p; b = b64_val q; c = b64_val r; d = b64_val t
      in [char_of (a * 4 + b div 16)] @
         (if r = CHR ''='' then [] else [char_of (b mod 16 * 16 + c div 4)]) @
         (if t = CHR ''='' then [] else [char_of (c mod 4 * 64 + d)]) @ base64_decode s)"
| "base64_decode _ = []"

lemma b64_table: "\<forall>i\<in>{..<64}. b64_val (b64_char i) = i \<and> b64_char i \<noteq> CHR ''=''"
  by code_simp

lemma b64_val_char [simp]: "i < 64 \<Longrightarrow> b64_val (b64_char i) = i"
  and b64_char_not_pad [simp]: "i < 64 \<Longrightarrow> b64_char i \<noteq> CHR ''=''"
  using b64_table by auto

lemma of_char_256: "(of_char c :: nat) < 256"
  by (metis mod_less_divisor of_char_mod_256 zero_less_numeral)

lemma sextet_bounds:
  fixes a b c :: nat
  assumes "a < 256" "b < 256" "c < 256"
  shows "a div 4 < 64" "a mod 4 * 16 + b div 16 < 64" "b mod 16 * 4 + c div 64 < 64" "c mod 64 < 64"
proof -
  have "a div 4 < 64" "b div 16 < 16" "c div 64 < 4" using assms by (simp_all add: less_mult_imp_div_less)
  moreover have "a mod 4 < 4" "b mod 16 < 16" "c mod 64 < 64" by simp_all
  ultimately show "a div 4 < 64" "a mod 4 * 16 + b div 16 < 64" "b mod 16 * 4 + c div 64 < 64" "c mod 64 < 64"
    by linarith+
qed

lemma sextet_join:
  fixes a b c :: nat
  assumes "b < 256" "c < 256"
  shows "a div 4 * 4 + (a mod 4 * 16 + b div 16) div 16 = a"
    "(a mod 4 * 16 + b div 16) mod 16 * 16 + (b mod 16 * 4 + c div 64) div 4 = b"
    "(b mod 16 * 4 + c div 64) mod 4 * 64 + c mod 64 = c"
proof -
  have "b div 16 < 16" "c div 64 < 4" using assms by (simp_all add: less_mult_imp_div_less)
  then show "a div 4 * 4 + (a mod 4 * 16 + b div 16) div 16 = a"
    "(a mod 4 * 16 + b div 16) mod 16 * 16 + (b mod 16 * 4 + c div 64) div 4 = b"
    "(b mod 16 * 4 + c div 64) mod 4 * 64 + c mod 64 = c"
    by simp_all
qed

lemma base64_round_trip: "base64_decode (base64_encode s) = s"
proof (induction s rule: base64_encode.induct)
  case (2 x)
  have B: "(of_char x :: nat) div 4 < 64" "(of_char x :: nat) mod 4 * 16 < 64"
    using sextet_bounds(1,2) [OF of_char_256 [of x], of 0 0] by simp_all
  show ?case using B by (simp add: Let_def)
next
  case (3 x y)
  have B: "(of_char x :: nat) div 4 < 64" "(of_char x :: nat) mod 4 * 16 + of_char y div 16 < 64"
      "(of_char y :: nat) mod 16 * 4 < 64"
    using sextet_bounds(1,2,3) [OF of_char_256 [of x] of_char_256 [of y], of 0] by simp_all
  have J: "(of_char x :: nat) div 4 * 4 + (of_char x mod 4 * 16 + of_char y div 16) div 16 = of_char x"
      "((of_char x :: nat) mod 4 * 16 + of_char y div 16) mod 16 * 16 + of_char y mod 16 = of_char y"
    using sextet_join(1,2) [OF of_char_256 [of y], of 0 "of_char x"] by simp_all
  show ?case using B J by (simp add: Let_def)
next
  case (4 x y z s)
  note B = sextet_bounds [OF of_char_256 [of x] of_char_256 [of y] of_char_256 [of z]]
    and J = sextet_join(1) [OF of_char_256 [of y] of_char_256 [of z], of "of_char x"]
      sextet_join(2) [OF of_char_256 [of y] of_char_256 [of z], of "of_char x"]
      sextet_join(3) [OF of_char_256 [of y] of_char_256 [of z]]
  show ?case using B J 4 by (simp add: Let_def)
qed simp

text \<open>
  The Basic credentials header is the scheme followed by base64 that decodes to the user name,
  a colon and the password, for arbitrary bytes.
\<close>

theorem basicAuthHeader_decodes:
  "take 6 (basicAuthHeader username password) = ''Basic '' \<and>
   base64_decode (drop 6 (basicAuthHeader username password)) = username @ '':'' @ password"
  by (simp add: basicAuthHeader_def base64_round_trip)

text \<open>
  The OAuth2 token cache.  A cached token that has no expiry, or expires at least ten seconds
  after now, is used without any network call and without changing the world.  A missing or
  expiring token is fetched: if the fetch fails its error is returned and no token is stored; if
  it succeeds, the stored token is the one whose access token is in the header.
\<close>

theorem oauth2Header_cases:
  assumes "lawful_ref r"
  shows "case auth_token (deref r w) of
      Some t \<Rightarrow>
        (if tok_expiry t = 0 \<or> ae_now env w + 10 * Second \<le> tok_expiry t
         then Auth_oauth2Header env r w = (Inr (''Bearer '' @ tok_AccessToken t), w)
         else (case Auth_fetchToken env (deref r w) w of
             (Inl err, w1) \<Rightarrow> Auth_oauth2Header env r w = (Inl err, w1)
           | (Inr tok, w1) \<Rightarrow> fst (Auth_oauth2Header env r w) = Inr (''Bearer '' @ tok_AccessToken tok) \<and>
               auth_token (deref r (snd (Auth_oauth2Header env r w))) = Some tok))
    | None \<Rightarrow>
        (case Auth_fetchToken env (deref r w) w of
             (Inl err, w1) \<Rightarrow> Auth_oauth2Header env r w = (Inl err, w1)
           | (Inr tok, w1) \<Rightarrow> fst (Auth_oauth2Header env r w) = Inr (''Bearer '' @ tok_AccessToken tok) \<and>
               auth_token (deref r (snd (Auth_oauth2Header env r w))) = Some tok)"
  using assms
  by (auto simp: Auth_oauth2Header_def Let_def oauth2Token_expired_def time_IsZero_def time_After_def
      split: option.split prod.split sum.split)

definition sample_token :: oauth2Token where
  "sample_token = \<lparr>tok_AccessToken = ''t'', tok_ExpiresIn = 60, tok_TokenType = ''bearer'', tok_expiry = 60 * Second\<rparr>"

definition sample_auth :: Auth where
  "sample_auth = \<lparr>auth_cfg = \<lparr>ac_Type = AuthTypeOAuth2, ac_Username = [], ac_Password = [], ac_Token = [],
     ac_OAuth2 = None\<rparr>, auth_token = Some sample_token\<rparr>"

definition sample_env :: "(Auth \<times> Time) auth_env" where
  "sample_env = \<lparr>ae_now = snd, ae_post = (\<lambda>w u b. (Inl ContextCanceled, w)),
     ae_decode = (\<lambda>b. Inl ContextCanceled), ae_url_error = ErrorString\<rparr>"

definition sample_env' :: "(Auth \<times> UserAgent) auth_env" where
  "sample_env' = \<lparr>ae_now = (\<lambda>w. 0), ae_post = (\<lambda>w u b. (Inl ContextCanceled, w)),
     ae_decode = (\<lambda>b. Inl ContextCanceled), ae_url_error = ErrorString\<rparr>"

theorem oauth2Header_cases_witness:
  "Auth_oauth2Header sample_env fst_ref (sample_auth, 50 * Second) = (Inr ''Bearer t'', (sample_auth, 50 * Second)) \<and>
   fst (Auth_oauth2Header sample_env fst_ref (sample_auth, 51 * Second)) =
     Inl (ErrorString ''middleware.Auth: OAuth2 config is nil'')"
  using oauth2Header_cases [OF lawful_fst_ref, where w = "(sample_auth, 50 * Second)" and env = sample_env]
    oauth2Header_cases [OF lawful_fst_ref, where w = "(sample_auth, 51 * Second)" and env = sample_env]
  by (simp add: sample_auth_def sample_token_def sample_env_def Auth_fetchToken_def)

text \<open>
  A token fetched at time \<open>t\<close> with a lifetime of \<open>n\<close> seconds is used until ten seconds before
  its end and refreshed from then on, as long as \<open>n\<close> seconds fit a 64-bit duration.
\<close>

theorem token_lifetime:
  assumes "Auth_fetchToken env a w = (Inr tok, w1)" and "0 < tok_ExpiresIn tok"
    and "in_int64 (tok_ExpiresIn tok * Second)" and "0 \<le> ae_now env w1"
  shows "oauth2Token_expired now tok \<longleftrightarrow> ae_now env w1 + tok_ExpiresIn tok * Second - 10 * Second < now"
proof -
  obtain tok0 where tok: "tok = tok0\<lparr>tok_expiry := ae_now env w1 + wrap64 (tok_ExpiresIn tok0 * Second)\<rparr>"
    using assms(1,2)
    by (auto simp: Auth_fetchToken_def split: option.splits if_splits prod.splits sum.splits)
  then have "tok_expiry tok = ae_now env w1 + tok_ExpiresIn tok * Second"
    using assms(3) by (simp add: wrap64_id)
  then show ?thesis using assms(2,4)
    by (simp add: oauth2Token_expired_def time_IsZero_def time_After_def) linarith
qed

theorem token_lifetime_witness:
  "\<exists>env a tok. Auth_fetchToken env a (5 * Second) = (Inr tok, 5 * Second) \<and>
     \<not> oauth2Token_expired (55 * Second) tok \<and> oauth2Token_expired (55 * Second + 1) tok"
proof -
  let ?env = "\<lparr>ae_now = (\<lambda>w. w), ae_post = (\<lambda>w u b. (Inr (200, []), w)),
     ae_decode = (\<lambda>b. Inr sample_token), ae_url_error = ErrorString\<rparr>"
  let ?a = "\<lparr>auth_cfg = \<lparr>ac_Type = AuthTypeOAuth2, ac_Username = [], ac_Password = [], ac_Token = [],
     ac_OAuth2 = Some \<lparr>oa_ClientID = ''i'', oa_ClientSecret = ''s'', oa_TokenURL = ''/t'', oa_Scopes = []\<rparr>\<rparr>,
     auth_token = None\<rparr>"
  let ?tok = "sample_token\<lparr>tok_expiry := 65 * Second\<rparr>"
  have url: "url_Parse ''/t'' \<noteq> None" by code_simp
  have wrap: "wrap64 (60 * Second) = 60 * Second" by (simp add: wrap64_def)
  have fetch: "Auth_fetchToken ?env ?a (5 * Second) = (Inr ?tok, 5 * Second)"
    using url wrap by (simp add: Auth_fetchToken_def sample_token_def)
  have "oauth2Token_expired now ?tok \<longleftrightarrow> 55 * Second < now" for now
    using token_lifetime [OF fetch, of now] by (simp add: sample_token_def in_int64_def)
  then have "\<not> oauth2Token_expired (55 * Second) ?tok" "oauth2Token_expired (55 * Second + 1) ?tok"
    by simp_all
  with fetch show ?thesis by blast
qed

section \<open>Both in one chain\<close>

text \<open>
  A request that goes through authentication and then User-Agent rotation reaches the handler
  with both headers set and everything else as the caller built it.
\<close>

theorem auth_then_user_agent:
  assumes "Auth_buildHeader env ra w = (Inr cred, w1)"
    and "UserAgent_pick rnd ru w1 (req_URL req) = (agent, w2)"
  shows "\<exists>req'. Chain_Execute (foldl Chain_Use (NewChain handler)
        [Auth_ProcessRequest env ra, UserAgent_ProcessRequest rnd ru]) w req = handler w2 req' \<and>
      map_index (req_Headers req') ''Authorization'' = cred \<and> map_index (req_Headers req') ''User-Agent'' = agent \<and>
      {k. map_index (req_Headers req') k \<noteq> map_index (req_Headers req) k} \<subseteq> {''Authorization'', ''User-Agent''} \<and>
      req_URL req' = req_URL req \<and> req_Method req' = req_Method req \<and> req_Body req' = req_Body req"
proof -
  let ?r1 = "set_header ''Authorization'' cred req"
  let ?r2 = "set_header ''User-Agent'' agent ?r1"
  have "Auth_ProcessRequest env ra w req nxt = nxt w1 ?r1" for nxt
    by (rule auth.sets) (rule assms(1))
  moreover have "UserAgent_ProcessRequest rnd ru w1 ?r1 nxt = nxt w2 ?r2" for nxt
    by (rule user_agent.sets) (simp add: assms(2))
  ultimately show ?thesis unfolding Execute_Use
    by (intro exI [of _ ?r2]) auto
qed

theorem auth_then_user_agent_witness:
  "\<exists>w2 req'. Chain_Execute (foldl Chain_Use (NewChain (\<lambda>w req. (w, req, Ret None None)))
      [Auth_ProcessRequest sample_env' fst_ref, UserAgent_ProcessRequest (\<lambda>w n. (0, w)) snd_ref])
      (sample_auth\<lparr>auth_cfg := (auth_cfg sample_auth)\<lparr>ac_Type := AuthTypeBearer, ac_Token := ''k''\<rparr>\<rparr>, NewUserAgent DefaultUserAgentConfig)
      \<lparr>req_URL = ''http://a/'', req_Method = ''GET'', req_Headers = None, req_Body = [], req_Meta = None\<rparr>
     = (w2, req', Ret None None) \<and> map_index (req_Headers req') ''Authorization'' = ''Bearer k'' \<and>
     map_index (req_Headers req') ''User-Agent'' = hd DefaultUserAgents"
proof -
  let ?w = "(sample_auth\<lparr>auth_cfg := (auth_cfg sample_auth)\<lparr>ac_Type := AuthTypeBearer, ac_Token := ''k''\<rparr>\<rparr>, NewUserAgent DefaultUserAgentConfig)"
  let ?req = "\<lparr>req_URL = ''http://a/'', req_Method = ''GET'', req_Headers = None, req_Body = [], req_Meta = None\<rparr>"
  have a: "Auth_buildHeader sample_env' fst_ref ?w = (Inr ''Bearer k'', ?w)"
    by (simp add: Auth_buildHeader_def auth_type_defs)
  obtain w2 where u: "UserAgent_pick (\<lambda>w n. (0, w)) snd_ref ?w (req_URL ?req) = (hd DefaultUserAgents, w2)"
    by (simp add: UserAgent_pick_def NewUserAgent_def DefaultUserAgentConfig_def rotation_defs Let_def hd_conv_nth DefaultUserAgents_def)
  show ?thesis using auth_then_user_agent [OF a u, of "\<lambda>w req. (w, req, Ret None None)"] by auto
qed

end
