(* ===== verification/Middleware_Cache.thy ===== *)
theory Middleware_Cache
  imports Middleware_Chain "HOL-Library.AList"
begin

text \<open>
  pkg/middleware/cache.go: the LRU response cache.  The list elements of container/list are
  identified by numbers: \<open>cache_lru\<close> is the list from front to back, \<open>cache_elems\<close> the store of the
  entries they point to, and \<open>cache_entries\<close> the map from keys to elements as an association list.
  The second part refines an abstract recency list, a list of keys with their responses and
  expiry times, most recently used first.
\<close>

section \<open>Configuration and state\<close>

record CacheConfig =
  cc_MaxEntries :: int
  cc_DefaultTTL :: Duration
  cc_CacheableMethods :: "string list"
  cc_CacheableStatuses :: "int list"

definition DefaultCacheConfig :: CacheConfig where
  "DefaultCacheConfig = \<lparr>cc_MaxEntries = 256, cc_DefaultTTL = 5 * Minute, cc_CacheableMethods = [''GET''],
     cc_CacheableStatuses = [200]\<rparr>"

record cacheEntry =
  ce_key :: string
  ce_resp :: Response
  ce_expiry :: Time

record Cache =
  cache_cfg :: CacheConfig
  cache_lru :: "nat list"
  cache_entries :: "(string \<times> nat) list"
  cache_elems :: "nat \<rightharpoonup> cacheEntry"
  cache_fresh :: nat
  cache_methods :: "string list"
  cache_statuses :: "int list"

definition NewCache :: "CacheConfig \<Rightarrow> Cache" where
  "NewCache cfg0 =
     (let cfg1 = (if cc_MaxEntries cfg0 \<le> 0 then cfg0\<lparr>cc_MaxEntries := 256\<rparr> else cfg0);
          cfg2 = (if cc_DefaultTTL cfg1 \<le> 0 then cfg1\<lparr>cc_DefaultTTL := 5 * Minute\<rparr> else cfg1);
          cfg3 = (if length (cc_CacheableMethods cfg2) = 0 then cfg2\<lparr>cc_CacheableMethods := [''GET'']\<rparr> else cfg2);
          cfg = (if length (cc_CacheableStatuses cfg3) = 0 then cfg3\<lparr>cc_CacheableStatuses := [200]\<rparr> else cfg3)
      in \<lparr>cache_cfg = cfg, cache_lru = [], cache_entries = [], cache_elems = Map.empty, cache_fresh = 0,
          cache_methods = map strings_ToUpper (cc_CacheableMethods cfg),
          cache_statuses = cc_CacheableStatuses cfg\<rparr>)"

section \<open>Cache-Control and expiry\<close>

definition hasNoStore :: "Response \<Rightarrow> bool" where
  "hasNoStore resp =
     (let cc = map_index (resp_Headers resp) ''Cache-Control''
      in if cc = [] then False
         else \<exists>d\<in>set (split_on (CHR '','') cc). strings_TrimSpace (strings_ToLower d) = ''no-store'')"

fun max_age_loop :: "string list \<Rightarrow> Duration \<Rightarrow> Duration" where
  "max_age_loop [] dflt = dflt"
| "max_age_loop (d # ds) dflt =
     (let d' = strings_TrimSpace (strings_ToLower d)
      in if strings_HasPrefix d' ''max-age='' then
           (case strconv_Atoi (strings_TrimPrefix d' ''max-age='') of
              Some n \<Rightarrow> if 0 < n then wrap64 (n * Second) else max_age_loop ds dflt
            | None \<Rightarrow> max_age_loop ds dflt)
         else max_age_loop ds dflt)"

definition responseTTL :: "Response \<Rightarrow> Duration \<Rightarrow> Duration" where
  "responseTTL resp defaultTTL =
     (let cc = map_index (resp_Headers resp) ''Cache-Control''
      in if cc \<noteq> [] then max_age_loop (split_on (CHR '','') cc) defaultTTL else defaultTTL)"

definition expiryTime :: "Time \<Rightarrow> Duration \<Rightarrow> Time" where
  "expiryTime now ttl = (if ttl \<le> 0 then 0 else now + ttl)"

section \<open>Operations\<close>

definition cache_entry :: "Cache \<Rightarrow> nat \<Rightarrow> cacheEntry" where
  "cache_entry c i = the (cache_elems c i)"

text \<open>\<open>evict\<close> takes an element or nil.\<close>

definition cache_evict :: "Cache \<Rightarrow> nat option \<Rightarrow> Cache" where
  "cache_evict c elem =
     (case elem of
        None \<Rightarrow> c
      | Some i \<Rightarrow> c\<lparr>cache_lru := remove1 i (cache_lru c),
                    cache_entries := AList.delete (ce_key (cache_entry c i)) (cache_entries c)\<rparr>)"

definition lru_Back :: "nat list \<Rightarrow> nat option" where
  "lru_Back l = (if l = [] then None else Some (last l))"

definition MoveToFront :: "nat \<Rightarrow> nat list \<Rightarrow> nat list" where
  "MoveToFront i l = i # remove1 i l"

definition cache_get :: "Time \<Rightarrow> Cache \<Rightarrow> string \<Rightarrow> Response option \<times> Cache" where
  "cache_get now c key =
     (case map_of (cache_entries c) key of
        None \<Rightarrow> (None, c)
      | Some i \<Rightarrow>
          let entry = cache_entry c i
          in if \<not> time_IsZero (ce_expiry entry) \<and> time_After now (ce_expiry entry)
             then (None, cache_evict c (Some i))
             else (Some (ce_resp entry), c\<lparr>cache_lru := MoveToFront i (cache_lru c)\<rparr>))"

text \<open>The eviction loop of \<open>set\<close>; every turn but one on an empty list removes an entry, so the number
  of entries is enough fuel.\<close>

fun evict_loop :: "nat \<Rightarrow> Cache \<Rightarrow> Cache" where
  "evict_loop 0 c = c"
| "evict_loop (Suc n) c =
     (if cc_MaxEntries (cache_cfg c) \<le> int (length (cache_entries c))
      then evict_loop n (cache_evict c (lru_Back (cache_lru c))) else c)"

definition cache_set :: "Time \<Rightarrow> Cache \<Rightarrow> string \<Rightarrow> Response \<Rightarrow> Duration \<Rightarrow> Cache" where
  "cache_set now c key resp ttl =
     (case map_of (cache_entries c) key of
        Some i \<Rightarrow>
          c\<lparr>cache_lru := MoveToFront i (cache_lru c),
            cache_elems := (cache_elems c)(i \<mapsto> (cache_entry c i)\<lparr>ce_resp := resp, ce_expiry := expiryTime now ttl\<rparr>)\<rparr>
      | None \<Rightarrow>
          let c1 = evict_loop (length (cache_entries c)) c;
              i = cache_fresh c1
          in c1\<lparr>cache_lru := i # cache_lru c1,
                cache_elems := (cache_elems c1)(i \<mapsto> \<lparr>ce_key = key, ce_resp = resp, ce_expiry = expiryTime now ttl\<rparr>),
                cache_fresh := i + 1,
                cache_entries := AList.update key i (cache_entries c1)\<rparr>)"

definition Cache_Len :: "Cache \<Rightarrow> nat" where
  "Cache_Len c = length (cache_entries c)"

definition Cache_ProcessRequest :: "('w \<Rightarrow> Time) \<Rightarrow> ('w, Cache) ref \<Rightarrow> 'w Middleware" where
  "Cache_ProcessRequest now r w req nxt =
     (let m0 = strings_ToUpper (req_Method req);
          method = (if m0 = [] then ''GET'' else m0);
          key = method @ '' '' @ req_URL req
      in if method \<notin> set (cache_methods (deref r w)) then nxt w req
         else (case cache_get (now w) (deref r w) key of
             (Some cached, c1) \<Rightarrow> (assign r c1 w, req, Ret (Some cached) None)
           | (None, c1) \<Rightarrow>
               (case nxt (assign r c1 w) req of
                  (w2, req2, Ret (Some resp) None) \<Rightarrow>
                    (if resp_StatusCode resp \<in> set (cache_statuses (deref r w2)) \<and> \<not> hasNoStore resp
                     then (let c2 = deref r w2
                           in (assign r (cache_set (now w2) c2 key resp
                                 (responseTTL resp (cc_DefaultTTL (cache_cfg c2)))) w2,
                               req2, Ret (Some resp) None))
                     else (w2, req2, Ret (Some resp) None))
                | other \<Rightarrow> other)))"

section \<open>The abstract recency list\<close>

type_synonym recency_list = "(string \<times> Response \<times> Time) list"

definition cache_abs :: "Cache \<Rightarrow> recency_list" where
  "cache_abs c = map (\<lambda>i. (ce_key (cache_entry c i), ce_resp (cache_entry c i), ce_expiry (cache_entry c i))) (cache_lru c)"

definition without :: "string \<Rightarrow> recency_list \<Rightarrow> recency_list" where
  "without k l = filter (\<lambda>e. fst e \<noteq> k) l"

definition lru_get :: "Time \<Rightarrow> recency_list \<Rightarrow> string \<Rightarrow> Response option \<times> recency_list" where
  "lru_get now l k =
     (case map_of l k of
        None \<Rightarrow> (None, l)
      | Some (resp, exp) \<Rightarrow>
          if exp \<noteq> 0 \<and> exp < now then (None, without k l) else (Some resp, (k, resp, exp) # without k l))"

definition lru_set :: "nat \<Rightarrow> recency_list \<Rightarrow> string \<Rightarrow> Response \<Rightarrow> Time \<Rightarrow> recency_list" where
  "lru_set cap l k resp exp = take cap ((k, resp, exp) # without k l)"

text \<open>The invariant: the map and the list hold the same elements, each under its own key.\<close>

definition cache_inv :: "Cache \<Rightarrow> bool" where
  "cache_inv c \<longleftrightarrow>
     distinct (cache_lru c) \<and> distinct (map fst (cache_entries c)) \<and>
     (\<forall>k i. map_of (cache_entries c) k = Some i \<longleftrightarrow> i \<in> set (cache_lru c) \<and> ce_key (cache_entry c i) = k) \<and>
     length (cache_entries c) = length (cache_lru c) \<and>
     (\<forall>i\<in>set (cache_lru c). i < cache_fresh c) \<and>
     0 < cc_MaxEntries (cache_cfg c) \<and> int (length (cache_lru c)) \<le> cc_MaxEntries (cache_cfg c)"

lemma cache_inv_New [inv_intros]: "cache_inv (NewCache cfg)"
  by (simp add: cache_inv_def NewCache_def Let_def)

lemma cache_invD:
  assumes "cache_inv c"
  shows "distinct (cache_lru c)" and "distinct (map fst (cache_entries c))"
    and "map_of (cache_entries c) k = Some i \<longleftrightarrow> i \<in> set (cache_lru c) \<and> ce_key (cache_entry c i) = k"
    and "length (cache_entries c) = length (cache_lru c)"
    and "i \<in> set (cache_lru c) \<Longrightarrow> i < cache_fresh c"
    and "0 < cc_MaxEntries (cache_cfg c)" and "int (length (cache_lru c)) \<le> cc_MaxEntries (cache_cfg c)"
  using assms by (auto simp: cache_inv_def)

lemma same_key: "cache_inv c \<Longrightarrow> i \<in> set (cache_lru c) \<Longrightarrow> j \<in> set (cache_lru c) \<Longrightarrow>
   ce_key (cache_entry c i) = ce_key (cache_entry c j) \<Longrightarrow> i = j"
  using cache_invD(3) [of c] by (metis option.inject)

lemma distinct_abs_keys: "cache_inv c \<Longrightarrow> distinct (map fst (cache_abs c))"
  using cache_invD(1) [of c] same_key [of c]
  by (auto simp: cache_abs_def comp_def distinct_map inj_on_def)

lemma abs_lookup:
  assumes "cache_inv c"
  shows "map_of (cache_abs c) k =
     map_option (\<lambda>i. (ce_resp (cache_entry c i), ce_expiry (cache_entry c i))) (map_of (cache_entries c) k)"
proof (cases "map_of (cache_entries c) k")
  case None
  then have "ce_key (cache_entry c i) \<noteq> k" if "i \<in> set (cache_lru c)" for i
    using cache_invD(3) [OF assms, of k i] that by auto
  then have "k \<notin> fst ` set (cache_abs c)" unfolding cache_abs_def set_map image_image by fastforce
  then have "map_of (cache_abs c) k = None" by (simp add: map_of_eq_None_iff)
  then show ?thesis by (simp only: None option.map)
next
  case (Some i)
  then have "i \<in> set (cache_lru c)" "ce_key (cache_entry c i) = k" using cache_invD(3) [OF assms] by auto
  then have "(k, ce_resp (cache_entry c i), ce_expiry (cache_entry c i)) \<in> set (cache_abs c)"
    by (auto simp: cache_abs_def)
  then show ?thesis using Some distinct_abs_keys [OF assms] by (simp add: map_of_is_SomeI)
qed

lemma abs_remove1:
  assumes inv: "cache_inv c" and i: "i \<in> set (cache_lru c)"
  shows "map (\<lambda>j. (ce_key (cache_entry c j), ce_resp (cache_entry c j), ce_expiry (cache_entry c j)))
     (remove1 i (cache_lru c)) = without (ce_key (cache_entry c i)) (cache_abs c)"
proof -
  have "remove1 i (cache_lru c) = filter (\<lambda>j. i \<noteq> j) (cache_lru c)"
    using cache_invD(1) [OF inv] by (simp add: distinct_remove1_removeAll removeAll_filter_not_eq)
  also have "\<dots> = filter (\<lambda>j. ce_key (cache_entry c j) \<noteq> ce_key (cache_entry c i)) (cache_lru c)"
    using same_key [OF inv _ i] by (intro filter_cong) auto
  finally show ?thesis by (simp add: without_def cache_abs_def filter_map comp_def)
qed

lemma length_delete:
  assumes "distinct (map fst al)" and "map_of al k = Some v"
  shows "length (AList.delete k al) = length al - 1"
proof -
  have "k \<in> set (map fst al)" using map_of_SomeD [OF assms(2)] by force
  have "length (AList.delete k al) = length (removeAll k (map fst al))"
    by (metis length_map AList.delete_keys)
  also have "\<dots> = length (remove1 k (map fst al))"
    using assms(1) by (simp add: distinct_remove1_removeAll)
  finally show ?thesis using \<open>k \<in> set (map fst al)\<close> by (simp add: length_remove1)
qed

lemma evict_unchanged [simp]:
  "cache_cfg (cache_evict c e) = cache_cfg c" "cache_elems (cache_evict c e) = cache_elems c"
  "cache_fresh (cache_evict c e) = cache_fresh c" "cache_entry (cache_evict c e) = cache_entry c"
  "cache_methods (cache_evict c e) = cache_methods c" "cache_statuses (cache_evict c e) = cache_statuses c"
  by (cases e; simp add: cache_evict_def cache_entry_def fun_eq_iff)+

lemma evict_element:
  assumes inv: "cache_inv c" and i: "i \<in> set (cache_lru c)"
  shows "cache_inv (cache_evict c (Some i))"
    and "cache_abs (cache_evict c (Some i)) = without (ce_key (cache_entry c i)) (cache_abs c)"
    and "length (cache_lru (cache_evict c (Some i))) = length (cache_lru c) - 1"
proof -
  let ?c = "cache_evict c (Some i)" and ?k = "ce_key (cache_entry c i)"
  note D = cache_invD [OF inv]
  have lru: "cache_lru ?c = remove1 i (cache_lru c)"
    and ents: "cache_entries ?c = AList.delete ?k (cache_entries c)"
    by (simp_all add: cache_evict_def)
  have present: "map_of (cache_entries c) ?k = Some i" using D(3) i by simp
  show abs: "cache_abs ?c = without ?k (cache_abs c)"
    using abs_remove1 [OF inv i] by (simp add: cache_abs_def lru)
  show len: "length (cache_lru ?c) = length (cache_lru c) - 1" using i by (simp add: lru length_remove1)
  have set: "set (cache_lru ?c) = set (cache_lru c) - {i}" using D(1) by (simp add: lru)
  have "distinct (map fst (cache_entries ?c))" using D(2) by (simp add: ents distinct_delete)
  moreover have "map_of (cache_entries ?c) k = Some j \<longleftrightarrow> j \<in> set (cache_lru ?c) \<and> ce_key (cache_entry ?c j) = k" for k j
    using D(3) [of k j] present same_key [OF inv i, of j] unfolding ents set delete_conv'
    by (auto split: if_splits)
  moreover have "length (cache_entries ?c) = length (cache_lru ?c)"
    using length_delete [OF D(2) present] D(4) by (simp add: ents len)
  moreover have "distinct (cache_lru ?c)" using D(1) by (simp add: lru)
  moreover have "\<forall>j\<in>set (cache_lru ?c). j < cache_fresh ?c" using D(5) by (simp add: set)
  ultimately show "cache_inv ?c" using D(6,7) len unfolding cache_inv_def by simp
qed

lemma without_last:
  assumes "distinct (map fst l)" and "l \<noteq> []"
  shows "without (fst (last l)) l = butlast l"
proof -
  have l: "l = butlast l @ [last l]" using assms(2) by simp
  then have "distinct (map fst (butlast l @ [last l]))" using assms(1) by simp
  then have "fst e \<noteq> fst (last l)" if "e \<in> set (butlast l)" for e
    using that by (auto simp: image_iff dest: bspec)
  then have "without (fst (last l)) (butlast l @ [last l]) = butlast l"
    by (simp add: without_def filter_empty_conv)
  then show ?thesis using l by simp
qed

lemma evict_back:
  assumes inv: "cache_inv c" and ne: "cache_lru c \<noteq> []"
  shows "cache_inv (cache_evict c (lru_Back (cache_lru c)))"
    and "cache_abs (cache_evict c (lru_Back (cache_lru c))) = butlast (cache_abs c)"
    and "length (cache_lru (cache_evict c (lru_Back (cache_lru c)))) = length (cache_lru c) - 1"
proof -
  let ?i = "last (cache_lru c)"
  have b: "lru_Back (cache_lru c) = Some ?i" using ne by (simp add: lru_Back_def)
  have i: "?i \<in> set (cache_lru c)" using ne by simp
  have ne': "cache_abs c \<noteq> []" using ne by (simp add: cache_abs_def)
  have "fst (last (cache_abs c)) = ce_key (cache_entry c ?i)"
    using ne by (simp add: cache_abs_def last_map)
  then show "cache_inv (cache_evict c (lru_Back (cache_lru c)))"
    "cache_abs (cache_evict c (lru_Back (cache_lru c))) = butlast (cache_abs c)"
    "length (cache_lru (cache_evict c (lru_Back (cache_lru c)))) = length (cache_lru c) - 1"
    unfolding b using evict_element [OF inv i] without_last [OF distinct_abs_keys [OF inv] ne'] by simp_all
qed

lemma length_cache_abs [simp]: "length (cache_abs c) = length (cache_lru c)"
  by (simp add: cache_abs_def)

text \<open>The loop leaves room for one more entry: its condition is false at the end.\<close>

lemma evict_loop_correct:
  assumes inv: "cache_inv c"
  shows "cache_inv (evict_loop (length (cache_entries c)) c)"
    and "cache_abs (evict_loop (length (cache_entries c)) c) = take (nat (cc_MaxEntries (cache_cfg c)) - 1) (cache_abs c)"
    and "int (length (cache_lru (evict_loop (length (cache_entries c)) c))) < cc_MaxEntries (cache_cfg c)"
    and "cache_cfg (evict_loop (length (cache_entries c)) c) = cache_cfg c"
proof -
  let ?M = "cc_MaxEntries (cache_cfg c)" and ?e = "cache_evict c (lru_Back (cache_lru c))"
  note D = cache_invD [OF inv]
  have "cache_inv (evict_loop (length (cache_entries c)) c) \<and>
        cache_abs (evict_loop (length (cache_entries c)) c) = take (nat ?M - 1) (cache_abs c) \<and>
        int (length (cache_lru (evict_loop (length (cache_entries c)) c))) < ?M \<and>
        cache_cfg (evict_loop (length (cache_entries c)) c) = cache_cfg c"
  proof (cases "int (length (cache_lru c)) = ?M")
    case True
    then obtain n where n: "length (cache_entries c) = Suc n" using D(4,6) by (metis gr0_conv_Suc of_nat_0_less_iff)
    then have ne: "cache_lru c \<noteq> []" using D(4) by auto
    note E = evict_back [OF inv ne]
    have small: "\<not> ?M \<le> int (length (cache_entries ?e))"
      using cache_invD(4) [OF E(1)] E(3) True ne by (simp add: of_nat_diff Suc_leI)
    have "evict_loop n ?e = ?e" using small by (cases n) auto
    then have step: "evict_loop (length (cache_entries c)) c = ?e" using n True D(4) by simp
    have "nat ?M - 1 = length (cache_abs c) - 1" using True by simp
    then show ?thesis
      unfolding step using E small cache_invD(4) [OF E(1)] by (simp add: butlast_conv_take)
  next
    case False
    then have small: "\<not> ?M \<le> int (length (cache_entries c))" using D(4,7) by simp
    then have step: "evict_loop (length (cache_entries c)) c = c" by (cases "length (cache_entries c)") auto
    have "length (cache_abs c) \<le> nat ?M - 1" using small D(4) by simp
    then show ?thesis
      unfolding step using inv small D(4) by simp
  qed
  then show "cache_inv (evict_loop (length (cache_entries c)) c)"
    "cache_abs (evict_loop (length (cache_entries c)) c) = take (nat ?M - 1) (cache_abs c)"
    "int (length (cache_lru (evict_loop (length (cache_entries c)) c))) < ?M"
    "cache_cfg (evict_loop (length (cache_entries c)) c) = cache_cfg c"
    by blast+
qed

lemma evict_loop_unchanged:
  "cache_fresh (evict_loop n c) = cache_fresh c" "cache_elems (evict_loop n c) = cache_elems c"
  "cache_entry (evict_loop n c) = cache_entry c"
  by (induction n arbitrary: c) simp_all

lemma evict_loop_keeps_absent:
  "map_of (cache_entries c) k = None \<Longrightarrow> map_of (cache_entries (evict_loop n c)) k = None"
proof (induction n arbitrary: c)
  case (Suc n)
  have "map_of (cache_entries (cache_evict c e)) k = None" for e
    using Suc.prems by (cases e) (simp_all add: cache_evict_def delete_conv')
  then show ?case using Suc by simp
qed simp

lemma cache_get_hit:
  assumes inv: "cache_inv c" and i: "map_of (cache_entries c) key = Some i"
  shows "cache_inv (c\<lparr>cache_lru := MoveToFront i (cache_lru c)\<rparr>)"
    and "cache_abs (c\<lparr>cache_lru := MoveToFront i (cache_lru c)\<rparr>) =
      (key, ce_resp (cache_entry c i), ce_expiry (cache_entry c i)) # without key (cache_abs c)"
proof -
  note D = cache_invD [OF inv]
  have mem: "i \<in> set (cache_lru c)" and key: "ce_key (cache_entry c i) = key" using D(3) i by auto
  have ent: "cache_entry (c\<lparr>cache_lru := l\<rparr>) = cache_entry c" for l by (simp add: cache_entry_def fun_eq_iff)
  have set: "set (MoveToFront i (cache_lru c)) = set (cache_lru c)"
    and dist: "distinct (MoveToFront i (cache_lru c))"
    and len: "length (MoveToFront i (cache_lru c)) = length (cache_lru c)"
    using D(1) mem by (auto simp: MoveToFront_def length_remove1)
      (metis One_nat_def Suc_pred length_pos_if_in_set)
  show "cache_inv (c\<lparr>cache_lru := MoveToFront i (cache_lru c)\<rparr>)"
    using inv unfolding cache_inv_def by (simp add: ent set dist len)
  show "cache_abs (c\<lparr>cache_lru := MoveToFront i (cache_lru c)\<rparr>) =
      (key, ce_resp (cache_entry c i), ce_expiry (cache_entry c i)) # without key (cache_abs c)"
    using abs_remove1 [OF inv mem] by (simp add: cache_abs_def ent MoveToFront_def key)
qed

text \<open>\<open>get\<close> against the recency list.\<close>

lemma cache_get_abs:
  assumes "cache_inv c" and "cache_get now c key = (r, c')"
  shows "cache_inv c' \<and> (r, cache_abs c') = lru_get now (cache_abs c) key"
proof (cases "map_of (cache_entries c) key")
  case None
  then show ?thesis using assms abs_lookup [OF assms(1), of key]
    by (auto simp: cache_get_def lru_get_def)
next
  case (Some i)
  then have mem: "i \<in> set (cache_lru c)" and key: "ce_key (cache_entry c i) = key"
    using cache_invD(3) [OF assms(1)] by auto
  have look: "map_of (cache_abs c) key = Some (ce_resp (cache_entry c i), ce_expiry (cache_entry c i))"
    using abs_lookup [OF assms(1), of key] Some by simp
  show ?thesis
  proof (cases "ce_expiry (cache_entry c i) \<noteq> 0 \<and> ce_expiry (cache_entry c i) < now")
    case True
    then have "r = None" "c' = cache_evict c (Some i)"
      using assms(2) Some by (auto simp: cache_get_def Let_def time_IsZero_def time_After_def)
    then show ?thesis using evict_element [OF assms(1) mem] look key True by (simp add: lru_get_def)
  next
    case False
    then have "r = Some (ce_resp (cache_entry c i))" "c' = c\<lparr>cache_lru := MoveToFront i (cache_lru c)\<rparr>"
      using assms(2) Some by (auto simp: cache_get_def Let_def time_IsZero_def time_After_def)
    then show ?thesis using cache_get_hit [OF assms(1) Some] look False by (auto simp: lru_get_def)
  qed
qed

lemma cache_set_update:
  assumes inv: "cache_inv c" and i: "map_of (cache_entries c) key = Some i"
  shows "cache_inv (cache_set now c key resp ttl)"
    and "cache_abs (cache_set now c key resp ttl) = (key, resp, expiryTime now ttl) # without key (cache_abs c)"
proof -
  let ?e = "(cache_entry c i)\<lparr>ce_resp := resp, ce_expiry := expiryTime now ttl\<rparr>"
  let ?c = "c\<lparr>cache_lru := MoveToFront i (cache_lru c)\<rparr>"
  have set: "cache_set now c key resp ttl = ?c\<lparr>cache_elems := (cache_elems c)(i \<mapsto> ?e)\<rparr>"
    using i by (simp add: cache_set_def)
  have ent: "cache_entry (?c\<lparr>cache_elems := (cache_elems c)(i \<mapsto> ?e)\<rparr>) j = (if j = i then ?e else cache_entry ?c j)" for j
    by (simp add: cache_entry_def)
  have key: "ce_key (cache_entry c i) = key" and mem: "i \<in> set (cache_lru c)"
    using cache_invD(3) [OF inv] i by auto
  have keys: "ce_key (cache_entry (?c\<lparr>cache_elems := (cache_elems c)(i \<mapsto> ?e)\<rparr>) j) = ce_key (cache_entry ?c j)" for j
    unfolding ent by (simp add: cache_entry_def)
  show "cache_inv (cache_set now c key resp ttl)"
    using cache_get_hit(1) [OF inv i] unfolding set cache_inv_def keys by simp
  have rest: "j \<noteq> i" if "j \<in> set (remove1 i (cache_lru c))" for j
    using that cache_invD(1) [OF inv] by auto
  have "cache_abs (cache_set now c key resp ttl) = (key, resp, expiryTime now ttl) #
     map (\<lambda>j. (ce_key (cache_entry c j), ce_resp (cache_entry c j), ce_expiry (cache_entry c j))) (remove1 i (cache_lru c))"
    unfolding set cache_abs_def MoveToFront_def using rest key
    by (simp add: cache_entry_def)
  then show "cache_abs (cache_set now c key resp ttl) = (key, resp, expiryTime now ttl) # without key (cache_abs c)"
    using abs_remove1 [OF inv mem] key by simp
qed

lemma cache_set_insert:
  assumes inv: "cache_inv c" and absent: "map_of (cache_entries c) key = None"
  shows "cache_inv (cache_set now c key resp ttl)"
    and "cache_abs (cache_set now c key resp ttl) =
      (key, resp, expiryTime now ttl) # take (nat (cc_MaxEntries (cache_cfg c)) - 1) (cache_abs c)"
proof -
  define c1 where "c1 = evict_loop (length (cache_entries c)) c"
  let ?i = "cache_fresh c1"
  let ?new = "\<lparr>ce_key = key, ce_resp = resp, ce_expiry = expiryTime now ttl\<rparr>"
  let ?c' = "cache_set now c key resp ttl"
  note L = evict_loop_correct [OF inv, folded c1_def]
  note D = cache_invD [OF L(1)]
  have c': "?c' = c1\<lparr>cache_lru := ?i # cache_lru c1, cache_elems := (cache_elems c1)(?i \<mapsto> ?new),
      cache_fresh := ?i + 1, cache_entries := AList.update key ?i (cache_entries c1)\<rparr>"
    using absent by (simp add: cache_set_def c1_def Let_def)
  have none: "map_of (cache_entries c1) key = None"
    unfolding c1_def by (rule evict_loop_keeps_absent [OF absent])
  have fresh: "?i \<notin> set (cache_lru c1)" using D(5) by blast
  have ent: "cache_entry ?c' j = (if j = ?i then ?new else cache_entry c1 j)" for j
    unfolding c' by (simp add: cache_entry_def)
  have len: "length (AList.update key ?i (cache_entries c1)) = Suc (length (cache_entries c1))"
    using none by (metis length_map length_append_singleton update_keys map_of_eq_None_iff list.set_map)
  have look: "map_of (cache_entries ?c') k = Some j \<longleftrightarrow> j \<in> set (cache_lru ?c') \<and> ce_key (cache_entry ?c' j) = k" for k j
    using D(3) [of k j] none fresh unfolding ent by (auto simp: c' update_conv')
  show "cache_inv ?c'"
    using L(3) D(1,2,4,5,6) fresh look unfolding cache_inv_def
    by (simp add: c' len distinct_update L(4) less_SucI)
  have "map (\<lambda>j. (ce_key (cache_entry ?c' j), ce_resp (cache_entry ?c' j), ce_expiry (cache_entry ?c' j))) (cache_lru c1)
      = cache_abs c1"
    using fresh unfolding cache_abs_def ent by (intro map_cong) auto
  moreover have "cache_lru ?c' = ?i # cache_lru c1" by (simp add: c')
  ultimately show "cache_abs ?c' = (key, resp, expiryTime now ttl) # take (nat (cc_MaxEntries (cache_cfg c)) - 1) (cache_abs c)"
    using L(2) unfolding cache_abs_def [of ?c'] by (simp add: ent)
qed

text \<open>\<open>set\<close> against the recency list.\<close>

lemma cache_set_abs:
  assumes "cache_inv c"
  shows "cache_inv (cache_set now c key resp ttl) \<and>
    cache_abs (cache_set now c key resp ttl) =
      lru_set (nat (cc_MaxEntries (cache_cfg c))) (cache_abs c) key resp (expiryTime now ttl) \<and>
    int (Cache_Len (cache_set now c key resp ttl)) \<le> cc_MaxEntries (cache_cfg c)"
proof -
  let ?c' = "cache_set now c key resp ttl" and ?M = "nat (cc_MaxEntries (cache_cfg c))"
  note D = cache_invD [OF assms]
  have M: "0 < ?M" "length (cache_abs c) \<le> ?M" using D(6,7) by auto
  have main: "cache_inv ?c' \<and> cache_abs ?c' = lru_set ?M (cache_abs c) key resp (expiryTime now ttl)"
  proof (cases "map_of (cache_entries c) key")
    case None
    then have "map_of (cache_abs c) key = None" using abs_lookup [OF assms, of key] by simp
    then have "without key (cache_abs c) = cache_abs c"
      by (auto simp: without_def map_of_eq_None_iff filter_id_conv)
    then show ?thesis using cache_set_insert [OF assms None, of now resp ttl] M(1)
      by (cases ?M) (simp_all add: lru_set_def)
  next
    case (Some i)
    have "length ((key, resp, expiryTime now ttl) # without key (cache_abs c)) \<le> ?M"
    proof -
      have mem: "i \<in> set (cache_lru c)" and key: "ce_key (cache_entry c i) = key"
        using cache_invD(3) [OF assms] Some by auto
      have "length (without key (cache_abs c)) = length (remove1 i (cache_lru c))"
        using arg_cong [OF abs_remove1 [OF assms mem], of length] key by simp
      then have "Suc (length (without key (cache_abs c))) = length (cache_lru c)"
        using mem by (simp add: length_remove1) (metis Suc_pred length_pos_if_in_set)
      then show ?thesis using M(2) by simp
    qed
    then show ?thesis using cache_set_update [OF assms Some, of now resp ttl] by (simp add: lru_set_def)
  qed
  have "length (cache_abs ?c') \<le> ?M" using main by (simp add: lru_set_def)
  then have "length (cache_lru ?c') \<le> ?M" unfolding length_cache_abs .
  moreover have "Cache_Len ?c' = length (cache_lru ?c')"
    using main cache_invD(4) [of ?c'] by (simp add: Cache_Len_def)
  ultimately have "int (Cache_Len ?c') \<le> cc_MaxEntries (cache_cfg c)" using M(1) by linarith
  with main show ?thesis by blast
qed

definition sample_response :: "int \<Rightarrow> Response" where
  "sample_response n = \<lparr>resp_StatusCode = n, resp_Headers = None, resp_Body = [], resp_Meta = None\<rparr>"

text \<open>
  C6. The cache refines an abstract recency list of bounded length.  \<open>get\<close> returns a live entry and
  moves it to the front, and drops an expired one and reports a miss.  \<open>set\<close> puts the entry in front,
  replacing an older one with the same key, and drops the least recently used entry when the list
  would outgrow \<open>MaxEntries\<close>; its eviction loop ends with room for the new entry.  Both keep the
  invariant, which bounds the number of entries.
\<close>

theorem cache_refines_lru:
  assumes "cache_inv c"
  shows "(fst (cache_get now c key), cache_abs (snd (cache_get now c key))) = lru_get now (cache_abs c) key \<and>
    cache_abs (cache_set now c key resp ttl) =
      lru_set (nat (cc_MaxEntries (cache_cfg c))) (cache_abs c) key resp (expiryTime now ttl) \<and>
    cache_inv (snd (cache_get now c key)) \<and> cache_inv (cache_set now c key resp ttl) \<and>
    int (Cache_Len (cache_set now c key resp ttl)) \<le> cc_MaxEntries (cache_cfg c)"
  using cache_get_abs [OF assms, of now key] cache_set_abs [OF assms, of now key resp ttl] by (metis prod.collapse)

theorem cache_refines_lru_witness:
  "cache_abs (cache_set 7 (NewCache \<lparr>cc_MaxEntries = 1, cc_DefaultTTL = 1, cc_CacheableMethods = [], cc_CacheableStatuses = []\<rparr>)
     ''k'' (sample_response 200) 3) = [(''k'', sample_response 200, 10)]"
  using cache_refines_lru [OF cache_inv_New, of 7
      "\<lparr>cc_MaxEntries = 1, cc_DefaultTTL = 1, cc_CacheableMethods = [], cc_CacheableStatuses = []\<rparr>" "''k''" "sample_response 200" 3]
  by (simp add: lru_set_def without_def expiryTime_def cache_abs_def [of "NewCache _"] NewCache_def Let_def)

section \<open>The middleware\<close>

definition cache_key :: "Request \<Rightarrow> string" where
  "cache_key req =
     (let m0 = strings_ToUpper (req_Method req) in (if m0 = [] then ''GET'' else m0) @ '' '' @ req_URL req)"

definition cacheable_method :: "Cache \<Rightarrow> Request \<Rightarrow> bool" where
  "cacheable_method c req \<longleftrightarrow>
     (let m0 = strings_ToUpper (req_Method req) in (if m0 = [] then ''GET'' else m0) \<in> set (cache_methods c))"

text \<open>The four ways through the middleware.\<close>

lemma Cache_ProcessRequest_cases:
  "Cache_ProcessRequest now r w req nxt =
     (if \<not> cacheable_method (deref r w) req then nxt w req
      else (case cache_get (now w) (deref r w) (cache_key req) of
          (Some cached, c1) \<Rightarrow> (assign r c1 w, req, Ret (Some cached) None)
        | (None, c1) \<Rightarrow>
            (case nxt (assign r c1 w) req of
               (w2, req2, Ret (Some resp) None) \<Rightarrow>
                 (if resp_StatusCode resp \<in> set (cache_statuses (deref r w2)) \<and> \<not> hasNoStore resp
                  then (assign r (cache_set (now w2) (deref r w2) (cache_key req) resp
                          (responseTTL resp (cc_DefaultTTL (cache_cfg (deref r w2))))) w2, req2, Ret (Some resp) None)
                  else (w2, req2, Ret (Some resp) None))
             | other \<Rightarrow> other)))"
  unfolding Cache_ProcessRequest_def cacheable_method_def cache_key_def Let_def by simp

lemma lru_set_lookup: "0 < cap \<Longrightarrow> map_of (lru_set cap l k resp exp) k = Some (resp, exp)"
  by (cases cap) (simp_all add: lru_set_def)

lemma cache_set_then_get:
  assumes inv: "cache_inv c" and live: "expiryTime now ttl = 0 \<or> later \<le> expiryTime now ttl"
  shows "fst (cache_get later (cache_set now c key resp ttl) key) = Some resp"
proof -
  let ?c' = "cache_set now c key resp ttl"
  obtain r c2 where g: "cache_get later ?c' key = (r, c2)" by fastforce
  have "0 < nat (cc_MaxEntries (cache_cfg c))" using cache_invD(6) [OF inv] by simp
  then have "map_of (cache_abs ?c') key = Some (resp, expiryTime now ttl)"
    using cache_set_abs [OF inv, of now key resp ttl] lru_set_lookup by simp
  moreover have "(r, cache_abs c2) = lru_get later (cache_abs ?c') key"
    using cache_get_abs [OF _ g] cache_set_abs [OF inv] by blast
  ultimately show ?thesis using g live by (auto simp: lru_get_def)
qed

text \<open>
  A method outside the configured list goes straight to the next handler.  When a request misses
  and its response is stored, a later request with the same method and URL is answered with that
  response, without calling the next handler, until the response's lifetime (its \<open>max-age\<close>, else the
  default) is over.
\<close>

theorem cache_serves_stored:
  assumes ref: "lawful_ref r" and inv: "cache_inv (deref r w2)"
    and meth: "cacheable_method (deref r w) req" and miss: "cache_get (now w) (deref r w) (cache_key req) = (None, c1)"
    and call: "nxt (assign r c1 w) req = (w2, req2, Ret (Some resp) None)"
    and storable: "resp_StatusCode resp \<in> set (cache_statuses (deref r w2))" "\<not> hasNoStore resp"
    and run: "Cache_ProcessRequest now r w req nxt = (w3, req3, res)"
    and later: "deref r w4 = deref r w3" "cacheable_method (deref r w4) req4" "cache_key req4 = cache_key req"
    and live: "now w4 \<le> expiryTime (now w2) (responseTTL resp (cc_DefaultTTL (cache_cfg (deref r w2))))"
  shows "res = Ret (Some resp) None \<and>
    (\<exists>c. Cache_ProcessRequest now r w4 req4 = (\<lambda>nxt'. (assign r c w4, req4, Ret (Some resp) None))) \<and>
    (cacheable_method (deref r w) req' \<or> Cache_ProcessRequest now r w req' nxt = nxt w req')"
proof -
  let ?ttl = "responseTTL resp (cc_DefaultTTL (cache_cfg (deref r w2)))"
  let ?c = "cache_set (now w2) (deref r w2) (cache_key req) resp ?ttl"
  have first: "w3 = assign r ?c w2" "res = Ret (Some resp) None"
    using run meth miss call storable unfolding Cache_ProcessRequest_cases by simp_all
  then have c4: "deref r w4 = ?c" using later(1) ref by simp
  have "fst (cache_get (now w4) ?c (cache_key req4)) = Some resp"
    using cache_set_then_get [OF inv] live later(3) by simp
  then obtain c where "cache_get (now w4) (deref r w4) (cache_key req4) = (Some resp, c)"
    unfolding c4 by (cases "cache_get (now w4) ?c (cache_key req4)") simp
  then have "Cache_ProcessRequest now r w4 req4 = (\<lambda>nxt'. (assign r c w4, req4, Ret (Some resp) None))"
    using later(2) by (intro ext) (simp add: Cache_ProcessRequest_cases)
  moreover have "cacheable_method (deref r w) req' \<or> Cache_ProcessRequest now r w req' nxt = nxt w req'"
    by (simp add: Cache_ProcessRequest_cases)
  ultimately show ?thesis using first by blast
qed

definition sample_request :: "string \<Rightarrow> Request" where
  "sample_request u = \<lparr>req_URL = u, req_Method = ''get'', req_Headers = None, req_Body = [], req_Meta = None\<rparr>"

theorem cache_serves_stored_witness:
  "\<exists>w3 c. Cache_ProcessRequest snd fst_ref (NewCache DefaultCacheConfig, 0) (sample_request ''u'')
       (\<lambda>w req. (w, req, Ret (Some (sample_response 200)) None)) = (w3, sample_request ''u'', Ret (Some (sample_response 200)) None) \<and>
     Cache_ProcessRequest snd fst_ref (fst w3, 5 * Minute) (sample_request ''u'')
       (\<lambda>w req. (w, req, Ret None None)) = ((c, 5 * Minute), sample_request ''u'', Ret (Some (sample_response 200)) None)"
proof -
  let ?c = "NewCache DefaultCacheConfig" and ?req = "sample_request ''u''" and ?resp = "sample_response 200"
  let ?nxt = "\<lambda>w req. (w, req, Ret (Some ?resp) None)" and ?w = "(NewCache DefaultCacheConfig, 0 :: Time)"
  have up: "strings_ToUpper ''get'' = ''GET''" by code_simp
  have upG: "strings_ToUpper ''GET'' = ''GET''" by code_simp
  have meth: "cacheable_method c ?req" if "cache_methods c = cache_methods ?c" for c
    using that by (simp add: cacheable_method_def sample_request_def up upG NewCache_def DefaultCacheConfig_def Let_def)
  have miss: "cache_get (snd ?w) (deref fst_ref ?w) (cache_key ?req) = (None, ?c)"
    by (simp add: cache_get_def NewCache_def Let_def)
  have call: "?nxt (assign fst_ref ?c ?w) ?req = (?w, ?req, Ret (Some ?resp) None)" by simp
  have ok: "resp_StatusCode ?resp \<in> set (cache_statuses (deref fst_ref ?w))" "\<not> hasNoStore ?resp"
    by (simp_all add: sample_response_def NewCache_def DefaultCacheConfig_def Let_def hasNoStore_def map_index_def)
  obtain w3 req3 res where run: "Cache_ProcessRequest snd fst_ref ?w ?req ?nxt = (w3, req3, res)"
    by (metis prod_cases3)
  have w3: "w3 = (cache_set 0 ?c (cache_key ?req) ?resp (responseTTL ?resp (cc_DefaultTTL (cache_cfg ?c))), 0)" "req3 = ?req"
    using run meth [of ?c] miss ok unfolding Cache_ProcessRequest_cases by auto
  have meth3: "cacheable_method (fst w3) ?req"
    by (rule meth) (simp add: w3 cache_set_def NewCache_def Let_def)
  have ttl: "responseTTL ?resp (cc_DefaultTTL (cache_cfg (fst ?w))) = 5 * Minute"
    by (simp add: responseTTL_def sample_response_def map_index_def NewCache_def DefaultCacheConfig_def Let_def)
  have "res = Ret (Some ?resp) None \<and>
    (\<exists>c. Cache_ProcessRequest snd fst_ref (fst w3, 5 * Minute) ?req =
      (\<lambda>nxt'. (assign fst_ref c (fst w3, 5 * Minute), ?req, Ret (Some ?resp) None))) \<and>
    (cacheable_method (deref fst_ref ?w) ?req \<or> Cache_ProcessRequest snd fst_ref ?w ?req ?nxt = ?nxt ?w ?req)"
    by (rule cache_serves_stored [OF lawful_fst_ref _ _ miss call ok run])
      (use meth [of ?c] meth3 cache_inv_New ttl in \<open>simp_all add: fst_ref_def expiryTime_def\<close>)
  then show ?thesis using run w3(2) by auto
qed

text \<open>
  A huge \<open>max-age\<close> overflows the 64-bit duration: a response with \<open>max-age=9223372037\<close> (about
  292 years) gets a negative lifetime, which \<open>expiryTime\<close> turns into no expiry at all.
\<close>

theorem max_age_overflow:
  "responseTTL ((sample_response 200)\<lparr>resp_Headers := Some [''Cache-Control'' \<mapsto> ''max-age=9223372037'']\<rparr>) (5 * Minute)
     = - 9223372036709551616 \<and>
   expiryTime now (responseTTL ((sample_response 200)\<lparr>resp_Headers := Some [''Cache-Control'' \<mapsto> ''max-age=9223372037'']\<rparr>) (5 * Minute)) = 0"
proof -
  have "max_age_loop (split_on (CHR '','') ''max-age=9223372037'') (5 * Minute) = - 9223372036709551616" by code_simp
  then have "responseTTL ((sample_response 200)\<lparr>resp_Headers := Some [''Cache-Control'' \<mapsto> ''max-age=9223372037'']\<rparr>) (5 * Minute)
     = - 9223372036709551616"
    by (simp add: responseTTL_def map_index_def)
  then show ?thesis by (simp add: expiryTime_def)
qed

end
