(* ===== verification/Middleware_Retry.thy ===== *)
theory Middleware_Retry
  imports Complex_Main Middleware_Chain
begin

text \<open>
  pkg/middleware/retry.go: retries with exponential backoff.  Go's \<^verbatim>\<open>float64\<close> values are rationals; each
  operation is exact arithmetic followed by the rounding \<open>fl\<close>, and \<open>pow\<close> and \<open>to_int\<close> are \<^verbatim>\<open>math.Pow\<close> and the
  conversion to an integer.  Sleeping (which may end early with the context's error), the random
  source, the clock and the HTTP-date parser are the other fields of the environment.
\<close>

section \<open>Configuration\<close>

record RetryConfig =
  rc_MaxRetries :: int
  rc_InitialBackoff :: Duration
  rc_MaxBackoff :: Duration
  rc_Multiplier :: rat
  rc_JitterFactor :: rat
  rc_RetryableStatusCodes :: "int list"

definition DefaultRetryConfig :: RetryConfig where
  "DefaultRetryConfig = \<lparr>rc_MaxRetries = 3, rc_InitialBackoff = Second, rc_MaxBackoff = 30 * Second,
     rc_Multiplier = 2, rc_JitterFactor = 1 / 10, rc_RetryableStatusCodes = [429, 500, 502, 503, 504]\<rparr>"

definition NewRetry :: "RetryConfig \<Rightarrow> RetryConfig" where
  "NewRetry cfg0 =
     (let cfg1 = (if rc_MaxRetries cfg0 \<le> 0 then cfg0\<lparr>rc_MaxRetries := 3\<rparr> else cfg0);
          cfg2 = (if rc_InitialBackoff cfg1 \<le> 0 then cfg1\<lparr>rc_InitialBackoff := Second\<rparr> else cfg1);
          cfg3 = (if rc_MaxBackoff cfg2 \<le> 0 then cfg2\<lparr>rc_MaxBackoff := 30 * Second\<rparr> else cfg2);
          cfg4 = (if rc_Multiplier cfg3 \<le> 0 then cfg3\<lparr>rc_Multiplier := 2\<rparr> else cfg3)
      in if length (rc_RetryableStatusCodes cfg4) = 0
         then cfg4\<lparr>rc_RetryableStatusCodes := rc_RetryableStatusCodes DefaultRetryConfig\<rparr> else cfg4)"

record 'w retry_env =
  re_now :: "'w \<Rightarrow> Time"
  re_wait :: "'w \<Rightarrow> Duration \<Rightarrow> error option \<times> 'w"
  re_rand :: "'w \<Rightarrow> rat \<times> 'w"
  re_ParseTime :: "string \<Rightarrow> Time option"
  re_fl :: "rat \<Rightarrow> rat"
  re_pow :: "rat \<Rightarrow> rat \<Rightarrow> rat"
  re_to_int :: "rat \<Rightarrow> int"

section \<open>Delays\<close>

definition isRetryableStatus :: "RetryConfig \<Rightarrow> int \<Rightarrow> bool" where
  "isRetryableStatus cfg code \<longleftrightarrow> (\<exists>c\<in>set (rc_RetryableStatusCodes cfg). c = code)"

definition parseRetryAfter :: "'w retry_env \<Rightarrow> 'w \<Rightarrow> string \<Rightarrow> Duration" where
  "parseRetryAfter env w value =
     (case strconv_Atoi value of
        Some seconds \<Rightarrow> wrap64 (seconds * Second)
      | None \<Rightarrow>
          (case re_ParseTime env value of
             Some t \<Rightarrow> (let d = time_Sub t (re_now env w) in if 0 < d then d else 0)
           | None \<Rightarrow> 0))"

definition calculateDelay ::
  "'w retry_env \<Rightarrow> RetryConfig \<Rightarrow> 'w \<Rightarrow> int \<Rightarrow> Response option \<Rightarrow> Duration \<times> 'w" where
  "calculateDelay env cfg w attempt resp =
     (let fl = re_fl env;
          ra = (case resp of None \<Rightarrow> [] | Some r \<Rightarrow> map_index (resp_Headers r) ''Retry-After'');
          d = parseRetryAfter env w ra;
          raw = fl (fl (of_int (rc_InitialBackoff cfg)) * re_pow env (rc_Multiplier cfg) (fl (of_int (attempt - 1))));
          backoff = (if fl (of_int (rc_MaxBackoff cfg)) < raw then fl (of_int (rc_MaxBackoff cfg)) else raw)
      in if ra \<noteq> [] \<and> 0 < d then (d, w)
         else if 0 < rc_JitterFactor cfg then
           (case re_rand env w of (u, w') \<Rightarrow>
              let jitter = fl (backoff * rc_JitterFactor cfg)
              in (re_to_int env (fl (backoff + fl (fl (fl (u * 2) - 1) * jitter))), w'))
         else (re_to_int env backoff, w))"

definition retry_sleep :: "'w retry_env \<Rightarrow> 'w \<Rightarrow> Duration \<Rightarrow> error option \<times> 'w" where
  "retry_sleep env w d = (if d \<le> 0 then (None, w) else re_wait env w d)"

section \<open>The loop\<close>

text \<open>The loop with \<open>n\<close> turns left.  A nil response without an error is dereferenced and panics.\<close>

fun retry_loop ::
  "'w retry_env \<Rightarrow> RetryConfig \<Rightarrow> 'w NextFunc \<Rightarrow> nat \<Rightarrow> int \<Rightarrow> 'w \<Rightarrow> Request \<Rightarrow>
   Response option \<Rightarrow> error option \<Rightarrow> 'w \<times> Request \<times> go_result" where
  "retry_loop env cfg nxt 0 attempt w req lastResp lastErr = (w, req, Ret lastResp lastErr)"
| "retry_loop env cfg nxt (Suc n) attempt w req lastResp lastErr =
     (let (slept, w1) =
            (if 0 < attempt then
               (case calculateDelay env cfg w attempt lastResp of (delay, w') \<Rightarrow> retry_sleep env w' delay)
             else (None, w))
      in case slept of
           Some err \<Rightarrow> (w1, req, Ret lastResp (Some err))
         | None \<Rightarrow>
             (case nxt w1 req of
                (w2, req2, Panic p) \<Rightarrow> (w2, req2, Panic p)
              | (w2, req2, Ret None None) \<Rightarrow> (w2, req2, Panic ''nil pointer dereference'')
              | (w2, req2, Ret (Some resp) None) \<Rightarrow>
                  if \<not> isRetryableStatus cfg (resp_StatusCode resp) then (w2, req2, Ret (Some resp) None)
                  else retry_loop env cfg nxt n (attempt + 1) w2 req2 (Some resp) None
              | (w2, req2, Ret resp (Some err)) \<Rightarrow>
                  retry_loop env cfg nxt n (attempt + 1) w2 req2 resp (Some err)))"

definition Retry_ProcessRequest :: "'w retry_env \<Rightarrow> RetryConfig \<Rightarrow> 'w Middleware" where
  "Retry_ProcessRequest env cfg w req nxt =
     retry_loop env cfg nxt (nat (rc_MaxRetries cfg + 1)) 0 w req None None"

section \<open>Retrying a scripted handler\<close>

text \<open>
  The handler answers from a script kept in the world.  \<open>final cfg r\<close>: the loop stops at this
  result.  An environment is steady when sleeping never fails and neither sleeping nor the random
  source touches the script.
\<close>

definition script_handler :: "(go_result list \<times> 'v) NextFunc" where
  "script_handler w req = ((tl (fst w), snd w), req, hd (fst w))"

definition steady :: "(go_result list \<times> 'v) retry_env \<Rightarrow> bool" where
  "steady env \<longleftrightarrow> (\<forall>w d. fst (re_wait env w d) = None \<and> fst (snd (re_wait env w d)) = fst w) \<and>
     (\<forall>w. fst (snd (re_rand env w)) = fst w)"

fun final :: "RetryConfig \<Rightarrow> go_result \<Rightarrow> bool" where
  "final cfg (Ret (Some resp) None) = (\<not> isRetryableStatus cfg (resp_StatusCode resp))"
| "final cfg (Ret resp (Some err)) = False"
| "final cfg _ = True"

fun stop_result :: "go_result \<Rightarrow> go_result" where
  "stop_result (Ret None None) = Panic ''nil pointer dereference''"
| "stop_result r = r"

lemma calculateDelay_script:
  assumes "steady env" and "calculateDelay env cfg w a lr = (d, w')"
  shows "fst w' = fst w"
proof -
  have "w' = w \<or> w' = snd (re_rand env w)"
    using assms(2) unfolding calculateDelay_def Let_def by (auto split: if_splits prod.splits)
  moreover have "fst (snd (re_rand env w)) = fst w" using assms(1) unfolding steady_def by blast
  ultimately show ?thesis by auto
qed

lemma retry_pause:
  assumes "steady env"
  obtains w' where "(if 0 < a then (case calculateDelay env cfg w a lr of (delay, w') \<Rightarrow> retry_sleep env w' delay)
      else (None, w)) = (None, w')" and "fst w' = fst w"
proof (cases "0 < a")
  case True
  obtain d w1 where c: "calculateDelay env cfg w a lr = (d, w1)"
    by (cases "calculateDelay env cfg w a lr")
  then have w1: "fst w1 = fst w" by (rule calculateDelay_script [OF assms])
  show ?thesis
  proof (cases "d \<le> 0")
    case True
    then show ?thesis using that [of w1] c w1 \<open>0 < a\<close> by (simp add: retry_sleep_def)
  next
    case False
    have "fst (re_wait env w1 d) = None" "fst (snd (re_wait env w1 d)) = fst w1"
      using assms unfolding steady_def by blast+
    then show ?thesis using that [of "snd (re_wait env w1 d)"] c w1 False \<open>0 < a\<close>
      by (simp add: retry_sleep_def prod_eq_iff)
  qed
qed (use that in simp)

lemma retry_loop_final:
  assumes "steady env" and "final cfg r"
  shows "\<exists>v'. retry_loop env cfg script_handler (Suc n) a (r # os, v) req lr le = ((os, v'), req, stop_result r)"
proof -
  obtain w' where p: "(if 0 < a then (case calculateDelay env cfg (r # os, v) a lr of (delay, w') \<Rightarrow> retry_sleep env w' delay)
      else (None, (r # os, v))) = (None, w')" and w': "fst w' = r # os"
    by (rule retry_pause [OF assms(1), of a cfg "(r # os, v)" lr]) auto
  show ?thesis unfolding retry_loop.simps p Let_def
    using assms(2) by (cases "(cfg, r)" rule: final.cases) (auto simp: script_handler_def w' split: option.splits)
qed

lemma retry_loop_again:
  assumes "steady env" and "\<not> final cfg r"
  shows "\<exists>v' resp err. r = Ret resp err \<and>
    retry_loop env cfg script_handler (Suc n) a (r # os, v) req lr le =
      retry_loop env cfg script_handler n (a + 1) (os, v') req resp err"
proof -
  obtain w' where p: "(if 0 < a then (case calculateDelay env cfg (r # os, v) a lr of (delay, w') \<Rightarrow> retry_sleep env w' delay)
      else (None, (r # os, v))) = (None, w')" and w': "fst w' = r # os"
    by (rule retry_pause [OF assms(1), of a cfg "(r # os, v)" lr]) auto
  show ?thesis unfolding retry_loop.simps p Let_def
    using assms(2) by (cases "(cfg, r)" rule: final.cases) (auto simp: script_handler_def w' split: option.splits)
qed

lemma retry_loop_script:
  assumes "steady env" and "m \<le> length os"
  shows "\<exists>v'. retry_loop env cfg script_handler m a (os, v) req lr le =
     (let k = length (takeWhile (\<lambda>r. \<not> final cfg r) (take m os))
      in if k < m then ((drop (k + 1) os, v'), req, stop_result (os ! k))
         else ((drop m os, v'), req, (if m = 0 then Ret lr le else os ! (m - 1))))"
  using assms(2)
proof (induction m arbitrary: a os v lr le)
  case (Suc m)
  then obtain r rest where os: "os = r # rest" by (cases os) auto
  show ?case
  proof (cases "final cfg r")
    case True
    then show ?thesis using retry_loop_final [OF assms(1) True, of m a rest v req lr le] os by simp
  next
    case False
    then obtain v1 resp err where r: "r = Ret resp err" and step:
      "retry_loop env cfg script_handler (Suc m) a (r # rest, v) req lr le =
         retry_loop env cfg script_handler m (a + 1) (rest, v1) req resp err"
      using retry_loop_again [OF assms(1) False] by metis
    have "m \<le> length rest" using Suc.prems os by simp
    from Suc.IH [OF this, of "a + 1" v1 resp err] show ?thesis
      unfolding os step using False r by (auto simp: Let_def nth_Cons')
  qed
qed simp


definition sample_retry_env :: "(go_result list \<times> nat) retry_env" where
  "sample_retry_env = \<lparr>re_now = (\<lambda>w. 0), re_wait = (\<lambda>w d. (None, (fst w, snd w + 1))), re_rand = (\<lambda>w. (1 / 2, w)),
     re_ParseTime = (\<lambda>s. None), re_fl = (\<lambda>x. x), re_pow = (\<lambda>m k. m ^ nat (floor k)), re_to_int = floor\<rparr>"

definition sample_resp :: "int \<Rightarrow> go_result" where
  "sample_resp n = Ret (Some \<lparr>resp_StatusCode = n, resp_Headers = None, resp_Body = [], resp_Meta = None\<rparr>) None"

definition sample_retry_req :: Request where
  "sample_retry_req = \<lparr>req_URL = ''http://h/'', req_Method = ''GET'', req_Headers = None, req_Body = [], req_Meta = None\<rparr>"


section \<open>Backoff\<close>

text \<open>What the backoff computation relies on: rounding is monotone and exact on integers up to
  \<open>2 ^ 53\<close>, powers are not negative and the zeroth is one, and the conversion to an integer
  truncates.\<close>

definition float64_laws :: "'w retry_env \<Rightarrow> bool" where
  "float64_laws env \<longleftrightarrow>
     (\<forall>x y. x \<le> y \<longrightarrow> re_fl env x \<le> re_fl env y) \<and>
     (\<forall>i. \<bar>i\<bar> \<le> 2 ^ 53 \<longrightarrow> re_fl env (of_int i) = of_int i) \<and>
     (\<forall>m k. 0 \<le> m \<longrightarrow> 0 \<le> re_pow env m k) \<and> (\<forall>m. re_pow env m 0 = 1) \<and>
     (\<forall>x. 0 \<le> x \<longrightarrow> x \<le> 2 ^ 53 \<longrightarrow> re_to_int env x = \<lfloor>x\<rfloor>)"

text \<open>
  The delay before a retry.  A \<open>Retry-After\<close> header with a positive number of seconds decides
  alone, whatever \<open>MaxBackoff\<close> is.  Without such a header and without jitter the delay lies between
  zero and \<open>MaxBackoff\<close>, and the first one is \<open>InitialBackoff\<close> capped at \<open>MaxBackoff\<close>.
\<close>

theorem backoff_delay:
  assumes laws: "float64_laws env" and jitter: "rc_JitterFactor cfg \<le> 0" and mult: "0 \<le> rc_Multiplier cfg"
    and backoff: "0 \<le> rc_InitialBackoff cfg" "rc_InitialBackoff cfg \<le> 2 ^ 53"
      "0 \<le> rc_MaxBackoff cfg" "rc_MaxBackoff cfg \<le> 2 ^ 53"
    and silent: "map_index (resp_Headers r) ''Retry-After'' = []"
    and told: "map_index (resp_Headers r') ''Retry-After'' = ra" "strconv_Atoi ra = Some s" "0 < s" "in_int64 (s * Second)"
  shows "0 \<le> fst (calculateDelay env cfg w attempt (Some r)) \<and>
    fst (calculateDelay env cfg w attempt (Some r)) \<le> rc_MaxBackoff cfg \<and>
    calculateDelay env cfg w 1 (Some r) = (min (rc_InitialBackoff cfg) (rc_MaxBackoff cfg), w) \<and>
    calculateDelay env cfg w attempt (Some r') = (s * Second, w)"
proof -
  let ?i = "of_int (rc_InitialBackoff cfg) :: rat" and ?m = "of_int (rc_MaxBackoff cfg) :: rat"
  have exact: "re_fl env ?i = ?i" "re_fl env ?m = ?m" "re_fl env 0 = 0"
    using laws backoff unfolding float64_laws_def by (auto dest: spec [of _ 0])
  have mono: "x \<le> y \<Longrightarrow> re_fl env x \<le> re_fl env y" for x y using laws unfolding float64_laws_def by blast
  have conv: "re_to_int env x = \<lfloor>x\<rfloor>" if "0 \<le> x" "x \<le> ?m" for x
  proof -
    have "?m \<le> 2 ^ 53" using backoff(4) by (metis of_int_le_iff of_int_numeral of_int_power)
    then show ?thesis using laws that unfolding float64_laws_def by (meson order.trans)
  qed
  define raw where "raw k = re_fl env (?i * re_pow env (rc_Multiplier cfg) (re_fl env (of_int (k - 1))))" for k
  have nonneg: "0 \<le> raw k" for k
  proof -
    have "0 \<le> re_pow env (rc_Multiplier cfg) (re_fl env (of_int (k - 1)))"
      using laws mult unfolding float64_laws_def by blast
    then have "0 \<le> ?i * re_pow env (rc_Multiplier cfg) (re_fl env (of_int (k - 1)))" using backoff(1) by simp
    from mono [OF this] show ?thesis unfolding raw_def exact .
  qed
  have delay: "calculateDelay env cfg w k (Some r) = (re_to_int env (min (raw k) ?m), w)" for k
    using silent jitter unfolding calculateDelay_def Let_def by (simp add: exact raw_def min_def not_less)
  have floor: "re_to_int env (min (raw k) ?m) = \<lfloor>min (raw k) ?m\<rfloor>" for k
    using nonneg [of k] backoff(3) by (intro conv) auto
  have bounds: "0 \<le> \<lfloor>min (raw k) ?m\<rfloor>" "\<lfloor>min (raw k) ?m\<rfloor> \<le> rc_MaxBackoff cfg" for k
    using nonneg [of k] backoff(3) by (simp_all add: floor_le_iff min_less_iff_disj)
  have "raw 1 = ?i" using laws exact unfolding raw_def float64_laws_def by simp
  then have first: "\<lfloor>min (raw 1) ?m\<rfloor> = min (rc_InitialBackoff cfg) (rc_MaxBackoff cfg)"
    by (simp add: min_def)
  have "ra \<noteq> []" using told(2) by (auto simp: strconv_Atoi_def strings_HasPrefix_def Let_def)
  then have "calculateDelay env cfg w attempt (Some r') = (s * Second, w)"
    using told unfolding calculateDelay_def Let_def by (simp add: parseRetryAfter_def wrap64_id)
  then show ?thesis unfolding delay floor first using bounds by simp
qed

theorem backoff_delay_witness:
  "fst (calculateDelay sample_retry_env (DefaultRetryConfig\<lparr>rc_JitterFactor := 0\<rparr>) ([], 0) 7
     (Some \<lparr>resp_StatusCode = 503, resp_Headers = None, resp_Body = [], resp_Meta = None\<rparr>)) \<le> 30 * Second \<and>
   calculateDelay sample_retry_env (DefaultRetryConfig\<lparr>rc_JitterFactor := 0\<rparr>) ([], 0) 1
     (Some \<lparr>resp_StatusCode = 503, resp_Headers = Some [''Retry-After'' \<mapsto> ''120''], resp_Body = [], resp_Meta = None\<rparr>)
     = (120 * Second, ([], 0))"
proof -
  let ?r = "\<lparr>resp_StatusCode = 503, resp_Headers = None, resp_Body = [], resp_Meta = None\<rparr>"
  let ?r' = "\<lparr>resp_StatusCode = 503, resp_Headers = Some [''Retry-After'' \<mapsto> ''120''], resp_Body = [], resp_Meta = None\<rparr>"
  let ?cfg = "DefaultRetryConfig\<lparr>rc_JitterFactor := 0\<rparr>"
  have laws: "float64_laws sample_retry_env" by (simp add: float64_laws_def sample_retry_env_def)
  have atoi: "strconv_Atoi ''120'' = Some 120" by code_simp
  have "0 \<le> fst (calculateDelay sample_retry_env ?cfg ([], 0) k (Some ?r)) \<and>
    fst (calculateDelay sample_retry_env ?cfg ([], 0) k (Some ?r)) \<le> rc_MaxBackoff ?cfg \<and>
    calculateDelay sample_retry_env ?cfg ([], 0) 1 (Some ?r) = (min (rc_InitialBackoff ?cfg) (rc_MaxBackoff ?cfg), ([], 0)) \<and>
    calculateDelay sample_retry_env ?cfg ([], 0) k (Some ?r') = (120 * Second, ([], 0))" for k
    by (rule backoff_delay [OF laws, where ra = "''120''"])
      (simp_all add: DefaultRetryConfig_def map_index_def atoi in_int64_def)
  from this [of 7] this [of 1] show ?thesis by (simp add: DefaultRetryConfig_def)
qed

end
