(* ===== verification/Middleware_Proxy.thy ===== *)
theory Middleware_Proxy
  imports Middleware_Chain Net_URL "HOL-Library.Word"
begin

text \<open>
  pkg/middleware/proxy.go: rotation through a pool of proxies with a consecutive-failure counter for
  each.  The counters are a map from pool positions, \<^verbatim>\<open>rand.Uint64N\<close> is the argument \<open>rnd\<close>, and the
  round-robin position is a 64-bit word.
\<close>

section \<open>State\<close>

definition ProxyRotationRoundRobin :: string where "ProxyRotationRoundRobin = ''round-robin''"
definition ProxyRotationRandom :: string where "ProxyRotationRandom = ''random''"
definition ProxyRotationWeighted :: string where "ProxyRotationWeighted = ''weighted''"
definition MetaKeyProxy :: string where "MetaKeyProxy = ''proxy''"

lemmas proxy_mode_defs = ProxyRotationRoundRobin_def ProxyRotationRandom_def ProxyRotationWeighted_def

record ProxyEntry =
  px_URL :: string
  px_Username :: string
  px_Password :: string
  px_Weight :: int

record ProxyRotationConfig =
  prc_Proxies :: "ProxyEntry list"
  prc_RotationMode :: string
  prc_MaxFailures :: int

record ProxyRotation =
  pr_cfg :: ProxyRotationConfig
  pr_index :: "64 word"
  pr_failures :: "nat \<rightharpoonup> int"

text \<open>\<open>None\<close>: the constructor panics.\<close>

definition NewProxyRotation :: "ProxyRotationConfig \<Rightarrow> ProxyRotation option" where
  "NewProxyRotation cfg0 =
     (if length (prc_Proxies cfg0) = 0 then None
      else let cfg1 = (if prc_RotationMode cfg0 \<in> {ProxyRotationRoundRobin, ProxyRotationRandom, ProxyRotationWeighted}
                       then cfg0 else cfg0\<lparr>prc_RotationMode := ProxyRotationRoundRobin\<rparr>);
               cfg2 = (if prc_MaxFailures cfg1 \<le> 0 then cfg1\<lparr>prc_MaxFailures := 3\<rparr> else cfg1);
               cfg3 = cfg2\<lparr>prc_Proxies := map (\<lambda>p. if px_Weight p \<le> 0 then p\<lparr>px_Weight := 1\<rparr> else p) (prc_Proxies cfg2)\<rparr>
           in Some \<lparr>pr_cfg = cfg3, pr_index = 0, pr_failures = Map.empty\<rparr>)"

section \<open>Picking\<close>

definition isHealthy :: "ProxyRotation \<Rightarrow> nat \<Rightarrow> bool" where
  "isHealthy pr idx =
     (case pr_failures pr idx of None \<Rightarrow> True | Some v \<Rightarrow> v < prc_MaxFailures (pr_cfg pr))"

text \<open>The probing loop: the first healthy proxy from \<open>base\<close> on, around the pool once.\<close>

fun probe :: "ProxyRotation \<Rightarrow> nat \<Rightarrow> nat list \<Rightarrow> nat option" where
  "probe pr base [] = None"
| "probe pr base (i # js) =
     (let idx = (base + i) mod length (prc_Proxies (pr_cfg pr))
      in if isHealthy pr idx then Some idx else probe pr base js)"

fun pickWeighted_pool :: "ProxyRotation \<Rightarrow> nat \<Rightarrow> ProxyEntry list \<Rightarrow> (nat \<times> int) list" where
  "pickWeighted_pool pr i [] = []"
| "pickWeighted_pool pr i (p # ps) =
     (if isHealthy pr i then (i, px_Weight p) # pickWeighted_pool pr (i + 1) ps
      else pickWeighted_pool pr (i + 1) ps)"

definition pickWeighted_total :: "(nat \<times> int) list \<Rightarrow> int" where
  "pickWeighted_total pool = foldl (\<lambda>t e. wrap64 (t + snd e)) 0 pool"

fun pickWeighted_loop :: "(nat \<times> int) list \<Rightarrow> int \<Rightarrow> nat \<Rightarrow> nat" where
  "pickWeighted_loop [] r lst = lst"
| "pickWeighted_loop (e # es) r lst = (if r - snd e < 0 then fst e else pickWeighted_loop es (r - snd e) lst)"

definition pickWeighted :: "('w \<Rightarrow> nat \<Rightarrow> nat \<times> 'w) \<Rightarrow> ProxyRotation \<Rightarrow> 'w \<Rightarrow> nat option \<times> 'w" where
  "pickWeighted rnd pr w =
     (let pool = pickWeighted_pool pr 0 (prc_Proxies (pr_cfg pr));
          total = pickWeighted_total pool
      in if total = 0 then (None, w)
         else (case rnd w (nat (total mod 2 ^ 64)) of (r, w') \<Rightarrow>
             (Some (pickWeighted_loop pool (int r) (fst (last pool))), w')))"

definition ProxyRotation_pick ::
  "('w \<Rightarrow> nat \<Rightarrow> nat \<times> 'w) \<Rightarrow> ('w, ProxyRotation) ref \<Rightarrow> 'w \<Rightarrow> nat option \<times> 'w" where
  "ProxyRotation_pick rnd ref w =
     (let pr = deref ref w; n = length (prc_Proxies (pr_cfg pr))
      in if prc_RotationMode (pr_cfg pr) = ProxyRotationRandom then
           (case rnd w n of (start, w') \<Rightarrow> (probe pr start [0..<n], w'))
         else if prc_RotationMode (pr_cfg pr) = ProxyRotationWeighted then pickWeighted rnd pr w
         else (probe pr (unat (pr_index pr) mod n) [0..<n], assign ref (pr\<lparr>pr_index := pr_index pr + 1\<rparr>) w))"

section \<open>Health and requests\<close>

definition recordResult :: "ProxyRotation \<Rightarrow> nat \<Rightarrow> error option \<Rightarrow> ProxyRotation" where
  "recordResult pr idx err =
     (let ctr = (case pr_failures pr idx of None \<Rightarrow> 0 | Some v \<Rightarrow> v)
      in pr\<lparr>pr_failures := (pr_failures pr)(idx \<mapsto> (if err \<noteq> None then wrap64 (ctr + 1) else 0))\<rparr>)"

definition proxyURL :: "ProxyRotation \<Rightarrow> nat \<Rightarrow> string" where
  "proxyURL pr idx =
     (let e = prc_Proxies (pr_cfg pr) ! idx
      in if px_Username e = [] then px_URL e
         else (case url_Parse (px_URL e) of
             None \<Rightarrow> px_URL e
           | Some u \<Rightarrow> url_String (u\<lparr>url_User := Some (px_Username e, Some (px_Password e))\<rparr>)))"

definition HealthStatus :: "ProxyRotation \<Rightarrow> int list" where
  "HealthStatus pr =
     map (\<lambda>i. case pr_failures pr i of None \<Rightarrow> 0 | Some v \<Rightarrow> v) [0..<length (prc_Proxies (pr_cfg pr))]"

definition ProxyRotation_ProcessRequest ::
  "('w \<Rightarrow> nat \<Rightarrow> nat \<times> 'w) \<Rightarrow> ('w, ProxyRotation) ref \<Rightarrow> 'w Middleware" where
  "ProxyRotation_ProcessRequest rnd ref w req nxt =
     (case ProxyRotation_pick rnd ref w of
        (None, w1) \<Rightarrow> (w1, req, Ret None (Some (ErrorString ''middleware.ProxyRotation: no healthy proxy available'')))
      | (Some idx, w1) \<Rightarrow>
          let req1 = req\<lparr>req_Meta := Some ((make_if_nil (req_Meta req))(MetaKeyProxy \<mapsto> AnyString (proxyURL (deref ref w1) idx)))\<rparr>
          in (case nxt w1 req1 of
                (w2, req2, Ret resp err) \<Rightarrow> (assign ref (recordResult (deref ref w2) idx err) w2, req2, Ret resp err)
              | (w2, req2, Panic p) \<Rightarrow> (w2, req2, Panic p)))"

section \<open>Picked proxies are healthy\<close>

lemma probe_SomeD:
  "probe pr base js = Some idx \<Longrightarrow> prc_Proxies (pr_cfg pr) \<noteq> [] \<Longrightarrow>
   isHealthy pr idx \<and> idx < length (prc_Proxies (pr_cfg pr))"
  by (induction js) (auto simp: Let_def split: if_splits)

lemma probe_NoneD:
  "probe pr base js = None \<Longrightarrow> i \<in> set js \<Longrightarrow> \<not> isHealthy pr ((base + i) mod length (prc_Proxies (pr_cfg pr)))"
  by (induction js) (auto simp: Let_def split: if_splits)

lemma around_pool: "j < n \<Longrightarrow> \<exists>i<n. (base + i) mod n = (j :: nat)"
proof (intro exI [of _ "(j + (n - base mod n)) mod n"] conjI)
  assume j: "j < n"
  then show "(j + (n - base mod n)) mod n < n" by simp
  have "base mod n \<le> n" using j by (simp add: less_imp_le)
  then have "base + (j + (n - base mod n)) = j + n * (base div n + 1)"
    using mult_div_mod_eq [of n base] unfolding distrib_left by arith
  then have "(base + (j + (n - base mod n))) mod n = j" using j by (metis mod_less mod_mult_self2)
  then show "(base + (j + (n - base mod n)) mod n) mod n = j" by (simp add: mod_add_right_eq)
qed

lemma probe_all: "probe pr base [0..<length (prc_Proxies (pr_cfg pr))] = None \<Longrightarrow>
   j < length (prc_Proxies (pr_cfg pr)) \<Longrightarrow> \<not> isHealthy pr j"
  using around_pool [of j "length (prc_Proxies (pr_cfg pr))" base] probe_NoneD by fastforce

lemma pool_members:
  "set (pickWeighted_pool pr k ps) = {(k + j, px_Weight (ps ! j)) | j. j < length ps \<and> isHealthy pr (k + j)}"
proof (induction ps arbitrary: k)
  case (Cons p ps)
  have "{(k + j, px_Weight ((p # ps) ! j)) | j. j < length (p # ps) \<and> isHealthy pr (k + j)} =
     (if isHealthy pr k then {(k, px_Weight p)} else {}) \<union>
     {(k + 1 + j, px_Weight (ps ! j)) | j. j < length ps \<and> isHealthy pr (k + 1 + j)}" (is "?l = ?r")
  proof
    show "?l \<subseteq> ?r"
    proof
      fix x assume "x \<in> ?l"
      then obtain j where "x = (k + j, px_Weight ((p # ps) ! j))" "j < length (p # ps)" "isHealthy pr (k + j)" by blast
      then show "x \<in> ?r" by (cases j) auto
    qed
    show "?r \<subseteq> ?l" by (force split: if_splits)
  qed
  with Cons show ?case by simp
qed simp

lemma total_exact:
  "(\<forall>e\<in>set pool. 0 \<le> snd e) \<Longrightarrow> 0 \<le> t \<Longrightarrow> t + sum_list (map snd pool) < 2 ^ 63 \<Longrightarrow>
   foldl (\<lambda>t e. wrap64 (t + snd e)) t pool = t + sum_list (map snd pool)"
proof (induction pool arbitrary: t)
  case (Cons e pool)
  have "0 \<le> sum_list (map snd pool)" using Cons.prems(1) by (intro sum_list_nonneg) auto
  then have "wrap64 (t + snd e) = t + snd e"
    using Cons.prems by (intro wrap64_id) (auto simp: in_int64_def)
  then show ?case using Cons by (simp add: algebra_simps)
qed simp

lemma loop_in_pool:
  "r < sum_list (map snd pool) \<Longrightarrow> 0 \<le> r \<Longrightarrow> pickWeighted_loop pool r l \<in> fst ` set pool"
  by (induction pool arbitrary: r) auto

lemma loop_count_absent:
  "i \<notin> fst ` set pool \<Longrightarrow> {r \<in> {0..<sum_list (map snd pool)}. pickWeighted_loop pool r l = i} = {}"
  using loop_in_pool by fastforce

lemma loop_count:
  "\<forall>e\<in>set pool. 0 < snd e \<Longrightarrow> distinct (map fst pool) \<Longrightarrow> (i, wt) \<in> set pool \<Longrightarrow>
   card {r \<in> {0..<sum_list (map snd pool)}. pickWeighted_loop pool r l = i} = nat wt"
proof (induction pool)
  case (Cons e pool)
  let ?S = "sum_list (map snd pool)" and ?w = "snd e"
  let ?later = "{r \<in> {0..<?S}. pickWeighted_loop pool r l = i}"
  have nn: "0 \<le> ?S" using Cons.prems(1) by (intro sum_list_nonneg) auto
  have w: "0 < ?w" using Cons.prems(1) by simp
  have split: "{r \<in> {0..<sum_list (map snd (e # pool))}. pickWeighted_loop (e # pool) r l = i} =
      {r \<in> {0..<?w}. fst e = i} \<union> (\<lambda>r. r + ?w) ` ?later" (is "?A = ?B \<union> ?C")
  proof (intro set_eqI iffI)
    fix r assume r: "r \<in> ?A"
    show "r \<in> ?B \<union> ?C"
    proof (cases "r < ?w")
      case False
      then have "r - ?w \<in> ?later" using r by auto
      then show ?thesis by (intro UnI2 image_eqI [of _ _ "r - ?w"]) auto
    qed (use r in auto)
  qed (use nn w in auto)
  have cardC: "card ?C = card ?later" by (rule card_image) (simp add: inj_on_def)
  show ?case
  proof (cases "fst e = i")
    case True
    then have "wt = ?w" and "i \<notin> fst ` set pool"
      using Cons.prems(2,3) by (cases e, auto simp: image_iff)+
    then have "?C = {}" "?B = {0..<?w}" using loop_count_absent [of i pool l] True by auto
    then show ?thesis unfolding split \<open>?C = {}\<close> \<open>?B = {0..<?w}\<close> using \<open>wt = ?w\<close> by simp
  next
    case False
    then have "(i, wt) \<in> set pool" "?B = {}" using Cons.prems(3) by auto
    then show ?thesis unfolding split \<open>?B = {}\<close> Un_empty_left cardC using Cons.IH Cons.prems(1,2) by simp
  qed
qed simp

text \<open>
  Weighted selection is proportional: among the equally likely draws below the total weight of
  a pool, exactly \<open>Weight\<close> of them select a given proxy, and every draw selects one of the pool.
\<close>

theorem weighted_proportional:
  assumes "\<forall>e\<in>set pool. 0 < snd e" and "distinct (map fst pool)" and "(i, wt) \<in> set pool"
  shows "card {r \<in> {0..<sum_list (map snd pool)}. pickWeighted_loop pool r l = i} = nat wt \<and>
    (\<lambda>r. pickWeighted_loop pool r l) ` {0..<sum_list (map snd pool)} \<subseteq> fst ` set pool"
  using loop_count [OF assms] loop_in_pool by (simp add: image_subset_iff)

theorem weighted_proportional_witness:
  "card {r \<in> {0..<4}. pickWeighted_loop [(0, 1), (2, 3)] r 2 = 2} = 3"
  using weighted_proportional [of "[(0, 1), (2, 3)]" 2 3 2] by simp

lemma distinct_pool: "distinct (map fst (pickWeighted_pool pr k ps))"
proof (induction ps arbitrary: k)
  case (Cons p ps)
  have "k \<notin> fst ` set (pickWeighted_pool pr (k + 1) ps)" by (auto simp: pool_members)
  then show ?case using Cons by simp
qed simp

text \<open>A pool as the constructor leaves it: weights are positive and their sum fits an integer.\<close>

definition proxy_pool_ok :: "ProxyRotation \<Rightarrow> bool" where
  "proxy_pool_ok pr \<longleftrightarrow> prc_Proxies (pr_cfg pr) \<noteq> [] \<and> (\<forall>p\<in>set (prc_Proxies (pr_cfg pr)). 0 < px_Weight p) \<and>
     sum_list (map px_Weight (prc_Proxies (pr_cfg pr))) < 2 ^ 63"

lemma pool_weight_le:
  "\<forall>p\<in>set ps. 0 < px_Weight p \<Longrightarrow>
   sum_list (map snd (pickWeighted_pool pr k ps)) \<le> sum_list (map px_Weight ps)"
  by (induction ps arbitrary: k) (fastforce simp: add_increasing)+

lemma pickWeighted_correct:
  assumes ok: "proxy_pool_ok pr" and rnd: "\<And>w n. 0 < n \<Longrightarrow> fst (rnd w n) < n"
  shows "case fst (pickWeighted rnd pr w) of
      Some idx \<Rightarrow> idx < length (prc_Proxies (pr_cfg pr)) \<and> isHealthy pr idx
    | None \<Rightarrow> (\<forall>i<length (prc_Proxies (pr_cfg pr)). \<not> isHealthy pr i)"
proof -
  define pool where "pool = pickWeighted_pool pr 0 (prc_Proxies (pr_cfg pr))"
  let ?S = "sum_list (map snd pool)"
  have mem: "set pool = {(j, px_Weight (prc_Proxies (pr_cfg pr) ! j)) | j. j < length (prc_Proxies (pr_cfg pr)) \<and> isHealthy pr j}"
    by (simp add: pool_def pool_members)
  have pos: "\<forall>e\<in>set pool. 0 < snd e" using ok by (auto simp: mem proxy_pool_ok_def)
  then have nn: "0 \<le> ?S" by (intro sum_list_nonneg) auto
  have le: "?S < 2 ^ 63"
    using pool_weight_le [of "prc_Proxies (pr_cfg pr)" pr 0] ok by (simp add: pool_def proxy_pool_ok_def)
  have total: "pickWeighted_total pool = ?S"
    using total_exact [of pool 0] pos le by (force simp: pickWeighted_total_def)
  show ?thesis
  proof (cases "pool = []")
    case True
    then have "\<forall>i<length (prc_Proxies (pr_cfg pr)). \<not> isHealthy pr i" using mem by auto
    then show ?thesis using True total by (simp add: pickWeighted_def Let_def pool_def [symmetric])
  next
    case False
    then obtain e es where pool: "pool = e # es" by (cases pool) auto
    have "0 \<le> sum_list (map snd es)" using pos pool by (intro sum_list_nonneg) auto
    then have S: "0 < ?S" using pos by (simp add: pool)
    obtain r w' where r: "rnd w (nat ?S) = (r, w')" by fastforce
    then have "int r < ?S" using rnd [of "nat ?S" w] S by simp
    then have "pickWeighted_loop pool (int r) (fst (last pool)) \<in> fst ` set pool" by (intro loop_in_pool) simp_all
    then show ?thesis using S le r by (auto simp: pickWeighted_def Let_def pool_def [symmetric] total mem)
  qed
qed

text \<open>
  In every rotation mode the picked proxy is in the pool and healthy (fewer than \<open>MaxFailures\<close>
  consecutive failures), and no proxy is picked only when none is healthy.
\<close>

theorem pick_healthy:
  assumes ok: "proxy_pool_ok (deref ref w)" and rnd: "\<And>w n. 0 < n \<Longrightarrow> fst (rnd w n) < n"
  shows "case fst (ProxyRotation_pick rnd ref w) of
      Some idx \<Rightarrow> idx < length (prc_Proxies (pr_cfg (deref ref w))) \<and> isHealthy (deref ref w) idx
    | None \<Rightarrow> (\<forall>i<length (prc_Proxies (pr_cfg (deref ref w))). \<not> isHealthy (deref ref w) i)"
proof -
  let ?pr = "deref ref w"
  have ne: "prc_Proxies (pr_cfg ?pr) \<noteq> []" using ok by (simp add: proxy_pool_ok_def)
  have probe: "case probe ?pr b [0..<length (prc_Proxies (pr_cfg ?pr))] of
      Some idx \<Rightarrow> idx < length (prc_Proxies (pr_cfg ?pr)) \<and> isHealthy ?pr idx
    | None \<Rightarrow> (\<forall>i<length (prc_Proxies (pr_cfg ?pr)). \<not> isHealthy ?pr i)" for b
    using probe_SomeD [OF _ ne] probe_all [of ?pr b] by (auto split: option.split)
  show ?thesis
    using probe pickWeighted_correct [where rnd = rnd and w = w, OF ok rnd]
    unfolding ProxyRotation_pick_def Let_def by (simp split: prod.split)
qed

definition sample_pool :: ProxyRotation where
  "sample_pool = \<lparr>pr_cfg = \<lparr>prc_Proxies = [\<lparr>px_URL = ''http://p'', px_Username = [], px_Password = [], px_Weight = 1\<rparr>,
       \<lparr>px_URL = ''http://q'', px_Username = [], px_Password = [], px_Weight = 2\<rparr>],
       prc_RotationMode = ProxyRotationRoundRobin, prc_MaxFailures = 3\<rparr>, pr_index = 0, pr_failures = [0 \<mapsto> 3]\<rparr>"

lemma sample_pool_ok: "proxy_pool_ok sample_pool"
  by (simp add: proxy_pool_ok_def sample_pool_def)

theorem pick_healthy_witness:
  "fst (ProxyRotation_pick (\<lambda>w n. (0, w)) fst_ref (sample_pool, ())) = Some 1"
proof -
  have ok: "proxy_pool_ok (deref fst_ref (sample_pool, ()))" using sample_pool_ok by simp
  have "case fst (ProxyRotation_pick (\<lambda>w n. (0, w)) fst_ref (sample_pool, ())) of
      Some idx \<Rightarrow> idx < length (prc_Proxies (pr_cfg (deref fst_ref (sample_pool, ())))) \<and> isHealthy (deref fst_ref (sample_pool, ())) idx
    | None \<Rightarrow> (\<forall>i<length (prc_Proxies (pr_cfg (deref fst_ref (sample_pool, ())))). \<not> isHealthy (deref fst_ref (sample_pool, ())) i)"
    by (rule pick_healthy [OF ok]) simp
  then show ?thesis
    by (auto simp: sample_pool_def isHealthy_def less_Suc_eq split: option.splits)
qed

text \<open>The middleware updates only the counter of the proxy it picked.\<close>

lemma pick_failures:
  assumes "lawful_ref ref" and "ProxyRotation_pick rnd ref w = (r, w')"
    and rnd: "\<And>w n. deref ref (snd (rnd w n)) = deref ref w"
  shows "pr_failures (deref ref w') = pr_failures (deref ref w)" "pr_cfg (deref ref w') = pr_cfg (deref ref w)"
  using assms(2) rnd assms(1)
  by (auto simp: ProxyRotation_pick_def pickWeighted_def Let_def split: if_splits prod.splits)
    (metis snd_conv)+

text \<open>
  A proxy that has reached \<open>MaxFailures\<close> stays unhealthy: it is never picked again, so no request
  can reset its counter, and after any request (with a next handler that leaves the rotation
  state alone) it is still unhealthy.
\<close>

theorem unhealthy_forever:
  assumes ref: "lawful_ref ref" and ok: "proxy_pool_ok (deref ref w)"
    and rnd: "\<And>w n. 0 < n \<Longrightarrow> fst (rnd w n) < n" "\<And>w n. deref ref (snd (rnd w n)) = deref ref w"
    and nxt: "\<And>w req. deref ref (fst (nxt w req)) = deref ref w"
    and sick: "\<not> isHealthy (deref ref w) idx"
  shows "fst (ProxyRotation_pick rnd ref w) \<noteq> Some idx \<and>
    \<not> isHealthy (deref ref (fst (ProxyRotation_ProcessRequest rnd ref w req nxt))) idx"
proof -
  have healthy: "isHealthy (deref ref w) k" if "fst (ProxyRotation_pick rnd ref w) = Some k" for k
    using pickWeighted_correct [where rnd = rnd and w = w, OF ok rnd(1)] probe_SomeD [of "deref ref w"] ok that
    by (auto simp: ProxyRotation_pick_def Let_def proxy_pool_ok_def split: if_splits prod.splits option.splits)
  obtain r w1 where pick: "ProxyRotation_pick rnd ref w = (r, w1)" by fastforce
  note same = pick_failures [OF ref pick rnd(2)]
  have sick1: "\<not> isHealthy (deref ref w1) idx" using sick unfolding isHealthy_def same .
  have "\<not> isHealthy (deref ref (fst (ProxyRotation_ProcessRequest rnd ref w req nxt))) idx"
  proof (cases r)
    case None
    then show ?thesis using pick sick1 by (simp add: ProxyRotation_ProcessRequest_def)
  next
    case (Some k)
    then have "k \<noteq> idx" using healthy [of k] sick pick by auto
    let ?req = "req\<lparr>req_Meta := Some ((make_if_nil (req_Meta req))(MetaKeyProxy \<mapsto> AnyString (proxyURL (deref ref w1) k)))\<rparr>"
    obtain w2 req2 res where call: "nxt w1 ?req = (w2, req2, res)" by (metis prod_cases3)
    then have w2: "deref ref w2 = deref ref w1" using nxt [of w1 ?req] by simp
    have "isHealthy (recordResult (deref ref w2) k err) idx = isHealthy (deref ref w1) idx" for err
      using \<open>k \<noteq> idx\<close> by (simp add: w2 isHealthy_def recordResult_def Let_def split: option.split)
    then show ?thesis using Some pick call sick1 w2 ref
      by (cases res) (simp_all add: ProxyRotation_ProcessRequest_def)
  qed
  then show ?thesis using healthy sick by blast
qed

theorem unhealthy_forever_witness:
  "\<not> isHealthy (fst (fst (ProxyRotation_ProcessRequest (\<lambda>w n. (0, w)) fst_ref (sample_pool, ())
      \<lparr>req_URL = ''u'', req_Method = [], req_Headers = None, req_Body = [], req_Meta = None\<rparr>
      (\<lambda>w req. (w, req, Ret None None))))) 0"
proof -
  let ?req = "\<lparr>req_URL = ''u'', req_Method = [], req_Headers = None, req_Body = [], req_Meta = None\<rparr>"
  have "fst (ProxyRotation_pick (\<lambda>w n. (0, w)) fst_ref (sample_pool, ())) \<noteq> Some 0 \<and>
    \<not> isHealthy (deref fst_ref (fst (ProxyRotation_ProcessRequest (\<lambda>w n. (0, w)) fst_ref (sample_pool, ()) ?req
      (\<lambda>w req. (w, req, Ret None None))))) 0"
    by (rule unhealthy_forever) (simp_all add: sample_pool_ok, simp add: sample_pool_def isHealthy_def)
  then show ?thesis by (simp add: fst_ref_def)
qed

end
