(* ===== verification/Middleware_RateLimit.thy ===== *)
theory Middleware_RateLimit
  imports Complex_Main Middleware_Headers
begin

text \<open>
  pkg/middleware/ratelimit.go: one global token bucket and one per domain, created on first use.  The
  limiter of golang.org/x/time/rate is a parameter: a type \<open>'l\<close> with the operations the code calls.
  Rates are rationals.
\<close>

record RateLimitConfig =
  rlc_GlobalRPS :: rat
  rlc_DefaultDomainRPS :: rat
  rlc_DomainOverrides :: "string \<rightharpoonup> rat"
  rlc_BurstSize :: int

definition DefaultRateLimitConfig :: RateLimitConfig where
  "DefaultRateLimitConfig = \<lparr>rlc_GlobalRPS = 10, rlc_DefaultDomainRPS = 2, rlc_DomainOverrides = Map.empty,
     rlc_BurstSize = 5\<rparr>"

record ('w, 'l) limiter_ops =
  lim_NewLimiter :: "rat \<Rightarrow> int \<Rightarrow> 'l"
  lim_Wait :: "'w \<Rightarrow> 'l \<Rightarrow> error option \<times> 'l \<times> 'w"
  lim_SetLimit :: "'l \<Rightarrow> rat \<Rightarrow> 'l"

record 'l RateLimit =
  rl_cfg :: RateLimitConfig
  rl_globalLimiter :: 'l
  rl_domainLimiters :: "string \<rightharpoonup> 'l"

definition NewRateLimit :: "('w, 'l) limiter_ops \<Rightarrow> RateLimitConfig \<Rightarrow> 'l RateLimit" where
  "NewRateLimit ops cfg0 =
     (let cfg1 = (if rlc_GlobalRPS cfg0 \<le> 0 then cfg0\<lparr>rlc_GlobalRPS := 10\<rparr> else cfg0);
          cfg2 = (if rlc_DefaultDomainRPS cfg1 \<le> 0 then cfg1\<lparr>rlc_DefaultDomainRPS := 2\<rparr> else cfg1);
          cfg = (if rlc_BurstSize cfg2 \<le> 0 then cfg2\<lparr>rlc_BurstSize := 5\<rparr> else cfg2)
      in \<lparr>rl_cfg = cfg, rl_globalLimiter = lim_NewLimiter ops (rlc_GlobalRPS cfg) (rlc_BurstSize cfg),
          rl_domainLimiters = Map.empty\<rparr>)"

definition getDomainLimiter :: "('w, 'l) limiter_ops \<Rightarrow> 'l RateLimit \<Rightarrow> string \<Rightarrow> 'l \<times> 'l RateLimit" where
  "getDomainLimiter ops rl domain =
     (case rl_domainLimiters rl domain of
        Some limiter \<Rightarrow> (limiter, rl)
      | None \<Rightarrow>
          let rps = (case rlc_DomainOverrides (rl_cfg rl) domain of
                       Some override \<Rightarrow> override | None \<Rightarrow> rlc_DefaultDomainRPS (rl_cfg rl));
              limiter = lim_NewLimiter ops rps (rlc_BurstSize (rl_cfg rl))
          in (limiter, rl\<lparr>rl_domainLimiters := (rl_domainLimiters rl)(domain \<mapsto> limiter)\<rparr>))"

definition SetDomainRate :: "('w, 'l) limiter_ops \<Rightarrow> 'l RateLimit \<Rightarrow> string \<Rightarrow> rat \<Rightarrow> 'l RateLimit" where
  "SetDomainRate ops rl domain rps =
     (case rl_domainLimiters rl domain of
        Some limiter \<Rightarrow>
          rl\<lparr>rl_domainLimiters := (rl_domainLimiters rl)(domain \<mapsto> lim_SetLimit ops limiter rps)\<rparr>
      | None \<Rightarrow>
          rl\<lparr>rl_domainLimiters := (rl_domainLimiters rl)(domain \<mapsto> lim_NewLimiter ops rps (rlc_BurstSize (rl_cfg rl)))\<rparr>)"

text \<open>Waiting changes the limiter in place; the error of a cancelled wait is returned.\<close>

definition RateLimit_ProcessRequest ::
  "('w, 'l) limiter_ops \<Rightarrow> ('w, 'l RateLimit) ref \<Rightarrow> 'w Middleware" where
  "RateLimit_ProcessRequest ops r w req nxt =
     (case lim_Wait ops w (rl_globalLimiter (deref r w)) of (err, g, w1) \<Rightarrow>
        let w2 = assign r ((deref r w1)\<lparr>rl_globalLimiter := g\<rparr>) w1
        in case err of
             Some e \<Rightarrow> (w2, req, Ret None (Some e))
           | None \<Rightarrow>
               let domain = extractHost (req_URL req)
               in if domain \<noteq> [] then
                    (case getDomainLimiter ops (deref r w2) domain of (limiter, rl) \<Rightarrow>
                       (case lim_Wait ops (assign r rl w2) limiter of (err2, l, w3) \<Rightarrow>
                          let w4 = assign r ((deref r w3)\<lparr>rl_domainLimiters := (rl_domainLimiters (deref r w3))(domain \<mapsto> l)\<rparr>) w3
                          in (case err2 of Some e \<Rightarrow> (w4, req, Ret None (Some e)) | None \<Rightarrow> nxt w4 req)))
                  else nxt w2 req)"

section \<open>Every forwarded request takes its tokens\<close>

text \<open>
  The laws of the limiter the property rests on: \<open>used\<close> counts the tokens handed out, a new limiter
  has handed out none, a successful wait takes one and a failed wait none, and waiting leaves the
  middleware's own state alone.
\<close>

definition limiter_laws :: "('w, 'l) limiter_ops \<Rightarrow> ('w, 'l RateLimit) ref \<Rightarrow> ('l \<Rightarrow> nat) \<Rightarrow> bool" where
  "limiter_laws ops r used \<longleftrightarrow>
     (\<forall>rps b. used (lim_NewLimiter ops rps b) = 0) \<and>
     (\<forall>w l err l' w'. lim_Wait ops w l = (err, l', w') \<longrightarrow>
        used l' = used l + (if err = None then 1 else 0) \<and> deref r w' = deref r w)"

definition domain_used :: "('l \<Rightarrow> nat) \<Rightarrow> 'l RateLimit \<Rightarrow> string \<Rightarrow> nat" where
  "domain_used used rl d = (case rl_domainLimiters rl d of None \<Rightarrow> 0 | Some l \<Rightarrow> used l)"

lemma limiter_lawsD:
  assumes "limiter_laws ops r used" and "lim_Wait ops w l = (err, l', w')"
  shows "used l' = used l + (if err = None then 1 else 0)" and "deref r w' = deref r w"
  using assms unfolding limiter_laws_def by blast+

lemma getDomainLimiter_used:
  assumes "limiter_laws ops r used" and "getDomainLimiter ops rl d = (l, rl')"
  shows "used l = domain_used used rl d" and "rl_globalLimiter rl' = rl_globalLimiter rl"
    and "rl_cfg rl' = rl_cfg rl" and "rl_domainLimiters rl' = (rl_domainLimiters rl)(d \<mapsto> l)"
  using assms unfolding limiter_laws_def getDomainLimiter_def domain_used_def
  by (auto simp: Let_def split: option.splits)

text \<open>
  C35. No request gets past the rate limiter without a token: either a wait fails and its error is
  returned without calling the next handler, or the next handler is called once, after exactly one
  token of the global bucket and, when the URL has a host, one of that host's bucket were taken;
  the buckets of all other hosts are untouched.
\<close>

theorem rate_limit_takes_tokens:
  assumes ref: "lawful_ref r" and laws: "limiter_laws ops r used"
  shows "(\<exists>w' e. RateLimit_ProcessRequest ops r w req = (\<lambda>nxt. (w', req, Ret None (Some e)))) \<or>
    (\<exists>w'. RateLimit_ProcessRequest ops r w req = (\<lambda>nxt. nxt w' req) \<and>
       used (rl_globalLimiter (deref r w')) = used (rl_globalLimiter (deref r w)) + 1 \<and>
       (\<lambda>d. domain_used used (deref r w') d) =
         (\<lambda>d. domain_used used (deref r w) d + (if d \<noteq> [] \<and> d = extractHost (req_URL req) then 1 else 0)))"
proof -
  let ?rl = "deref r w" and ?d = "extractHost (req_URL req)"
  obtain err g w1 where g: "lim_Wait ops w (rl_globalLimiter ?rl) = (err, g, w1)" by (metis prod_cases3)
  note G = limiter_lawsD [OF laws g]
  define w2 where "w2 = assign r ((deref r w1)\<lparr>rl_globalLimiter := g\<rparr>) w1"
  have rl2: "deref r w2 = ?rl\<lparr>rl_globalLimiter := g\<rparr>" using ref G(2) by (simp add: w2_def)
  show ?thesis
  proof (cases err)
    case (Some e)
    then have "RateLimit_ProcessRequest ops r w req = (\<lambda>nxt. (w2, req, Ret None (Some e)))"
      using g by (intro ext) (simp add: RateLimit_ProcessRequest_def w2_def)
    then show ?thesis by blast
  next
    case None
    show ?thesis
    proof (cases "?d = []")
      case True
      then have "RateLimit_ProcessRequest ops r w req = (\<lambda>nxt. nxt w2 req)"
        using g None by (intro ext) (simp add: RateLimit_ProcessRequest_def w2_def Let_def)
      moreover have "(\<lambda>d. domain_used used (deref r w2) d) =
         (\<lambda>d. domain_used used ?rl d + (if d \<noteq> [] \<and> d = ?d then 1 else 0))"
        using True by (simp add: domain_used_def rl2)
      ultimately show ?thesis using G(1) None rl2 by (intro disjI2 exI [of _ w2]) simp
    next
      case False
      obtain l0 rl where gl: "getDomainLimiter ops (deref r w2) ?d = (l0, rl)" by fastforce
      note D = getDomainLimiter_used [OF laws gl]
      obtain err2 l w3 where wt: "lim_Wait ops (assign r rl w2) l0 = (err2, l, w3)" by (metis prod_cases3)
      note L = limiter_lawsD [OF laws wt]
      define w4 where "w4 = assign r ((deref r w3)\<lparr>rl_domainLimiters := (rl_domainLimiters (deref r w3))(?d \<mapsto> l)\<rparr>) w3"
      have rl4: "deref r w4 = rl\<lparr>rl_domainLimiters := (rl_domainLimiters rl)(?d \<mapsto> l)\<rparr>"
        using ref L(2) by (simp add: w4_def)
      have run: "RateLimit_ProcessRequest ops r w req nxt =
          (case err2 of Some e \<Rightarrow> (w4, req, Ret None (Some e)) | None \<Rightarrow> nxt w4 req)" for nxt
        using g None False gl wt
        by (simp add: RateLimit_ProcessRequest_def w2_def w4_def Let_def split: option.split)
      show ?thesis
      proof (cases err2)
        case (Some e)
        then show ?thesis using run by (intro disjI1 exI [of _ w4] exI [of _ e] ext) simp
      next
        case None2: None
        have "domain_used used (deref r w4) d = domain_used used ?rl d + (if d \<noteq> [] \<and> d = ?d then 1 else 0)" for d
          using L(1) D(1,4) None2 False by (simp add: domain_used_def rl4 rl2)
        moreover have "used (rl_globalLimiter (deref r w4)) = used (rl_globalLimiter ?rl) + 1"
          using G(1) D(2) None by (simp add: rl4 rl2)
        ultimately show ?thesis using run None2 by (intro disjI2 exI [of _ w4] conjI ext) simp_all
      qed
    qed
  qed
qed

text \<open>A limiter that only counts, and refuses after a limit, satisfies the laws.\<close>

definition counting_ops :: "nat \<Rightarrow> ('w, nat) limiter_ops" where
  "counting_ops limit = \<lparr>lim_NewLimiter = (\<lambda>rps b. 0),
     lim_Wait = (\<lambda>w l. if l < limit then (None, l + 1, w) else (Some DeadlineExceeded, l, w)),
     lim_SetLimit = (\<lambda>l rps. l)\<rparr>"

theorem rate_limit_takes_tokens_witness:
  "\<exists>w'. RateLimit_ProcessRequest (counting_ops 3) fst_ref
      (NewRateLimit (counting_ops 3 :: (nat RateLimit \<times> unit, nat) limiter_ops) DefaultRateLimitConfig, ())
      \<lparr>req_URL = ''http://h/'', req_Method = [], req_Headers = None, req_Body = [], req_Meta = None\<rparr> = (\<lambda>nxt. nxt w'
      \<lparr>req_URL = ''http://h/'', req_Method = [], req_Headers = None, req_Body = [], req_Meta = None\<rparr>) \<and>
     rl_globalLimiter (fst w') = 1 \<and> domain_used id (fst w') ''h'' = 1"
proof -
  let ?ops = "counting_ops 3 :: (nat RateLimit \<times> unit, nat) limiter_ops"
  let ?w = "(NewRateLimit ?ops DefaultRateLimitConfig, ())"
  let ?req = "\<lparr>req_URL = ''http://h/'', req_Method = [], req_Headers = None, req_Body = [], req_Meta = None\<rparr>"
  have host: "extractHost ''http://h/'' = ''h''" by code_simp
  have laws: "limiter_laws ?ops fst_ref id"
    by (auto simp: limiter_laws_def counting_ops_def split: if_splits)
  have new: "rl_globalLimiter (fst ?w) = 0" "rl_domainLimiters (fst ?w) = Map.empty"
    by (simp_all add: NewRateLimit_def counting_ops_def Let_def)
  have pass: "\<exists>w'. RateLimit_ProcessRequest ?ops fst_ref ?w ?req (\<lambda>w req. (w, req, Ret None None)) = (w', ?req, Ret None None)"
    using new by (simp add: RateLimit_ProcessRequest_def counting_ops_def getDomainLimiter_def host Let_def)
  from rate_limit_takes_tokens [OF lawful_fst_ref laws, of ?w ?req] show ?thesis
  proof
    assume "\<exists>w' e. RateLimit_ProcessRequest ?ops fst_ref ?w ?req = (\<lambda>nxt. (w', ?req, Ret None (Some e)))"
    then show ?thesis using pass by auto
  next
    assume "\<exists>w'. RateLimit_ProcessRequest ?ops fst_ref ?w ?req = (\<lambda>nxt. nxt w' ?req) \<and>
       id (rl_globalLimiter (deref fst_ref w')) = id (rl_globalLimiter (deref fst_ref ?w)) + 1 \<and>
       (\<lambda>d. domain_used id (deref fst_ref w') d) =
         (\<lambda>d. domain_used id (deref fst_ref ?w) d + (if d \<noteq> [] \<and> d = extractHost (req_URL ?req) then 1 else 0))"
    then obtain w' where run: "RateLimit_ProcessRequest ?ops fst_ref ?w ?req = (\<lambda>nxt. nxt w' ?req)"
      and glob: "rl_globalLimiter (fst w') = 1"
      and dom: "(\<lambda>d. domain_used id (fst w') d) =
         (\<lambda>d. domain_used id (fst ?w) d + (if d \<noteq> [] \<and> d = ''h'' then 1 else 0))"
      using new host by (auto simp: fst_ref_def)
    have "domain_used id (fst w') ''h'' = 1" using fun_cong [OF dom, of "''h''"] new by (simp add: domain_used_def)
    then show ?thesis using run glob by blast
  qed
qed

end
