(* ===== verification/Middleware_Robots.thy ===== *)
theory Middleware_Robots
  imports Middleware_Chain Net_URL
begin

text \<open>
  pkg/middleware/robots.go: robots.txt compliance.  The parser github.com/temoto/robotstxt is a
  parameter: types \<open>'d\<close> of parsed files and \<open>'g\<close> of groups with the operations the code calls.  The
  fetcher is the function the constructor takes, and \<open>OnCrawlDelay\<close> the optional callback of the
  configuration.
\<close>

section \<open>State\<close>

definition ErrDisallowed :: error where "ErrDisallowed = ErrorString ''blocked by robots.txt''"

record 'w RobotsConfig =
  rbc_Enabled :: bool
  rbc_UserAgent :: string
  rbc_CacheExpiry :: Duration
  rbc_RespectNoIndex :: bool
  rbc_OnCrawlDelay :: "(string \<Rightarrow> Duration \<Rightarrow> 'w \<Rightarrow> 'w) option"

definition DefaultRobotsConfig :: "'w RobotsConfig" where
  "DefaultRobotsConfig = \<lparr>rbc_Enabled = True, rbc_UserAgent = ''WebCrawlerSDK/1.0'', rbc_CacheExpiry = 24 * Hour,
     rbc_RespectNoIndex = True, rbc_OnCrawlDelay = None\<rparr>"

record ('d, 'g) robotstxt =
  rt_FromBytes :: "string \<Rightarrow> error + 'd"
  rt_FromStatusAndBytes :: "int \<Rightarrow> string \<Rightarrow> error + 'd"
  rt_FindGroup :: "'d \<Rightarrow> string \<Rightarrow> 'g"
  rt_Test :: "'g \<Rightarrow> string \<Rightarrow> bool"
  rt_CrawlDelay :: "'g \<Rightarrow> Duration"
  rt_Sitemaps :: "'d \<Rightarrow> string list"

record 'g robotsCacheEntry =
  rce_group :: 'g
  rce_sitemaps :: "string list"
  rce_fetchedAt :: Time

record 'g Robots =
  rb_cache :: "string \<rightharpoonup> 'g robotsCacheEntry"

text \<open>What stays fixed after construction: the configuration, the fetcher, the parser and the clock.\<close>

record ('w, 'd, 'g) robots_env =
  rb_cfg :: "'w RobotsConfig"
  rb_fetcher :: "'w \<Rightarrow> string \<Rightarrow> (error + int \<times> string) \<times> 'w"
  rb_lib :: "('d, 'g) robotstxt"
  rb_now :: "'w \<Rightarrow> Time"

definition NewRobots ::
  "'w RobotsConfig \<Rightarrow> ('w \<Rightarrow> string \<Rightarrow> (error + int \<times> string) \<times> 'w) \<Rightarrow> ('d, 'g) robotstxt \<Rightarrow> ('w \<Rightarrow> Time) \<Rightarrow>
   ('w, 'd, 'g) robots_env \<times> 'g Robots" where
  "NewRobots cfg0 fetcher lib now =
     (let cfg1 = (if rbc_UserAgent cfg0 = [] then cfg0\<lparr>rbc_UserAgent := ''WebCrawlerSDK/1.0''\<rparr> else cfg0);
          cfg = (if rbc_CacheExpiry cfg1 \<le> 0 then cfg1\<lparr>rbc_CacheExpiry := 24 * Hour\<rparr> else cfg1)
      in (\<lparr>rb_cfg = cfg, rb_fetcher = fetcher, rb_lib = lib, rb_now = now\<rparr>, \<lparr>rb_cache = Map.empty\<rparr>))"

section \<open>Fetching\<close>

definition fresh_entry :: "('w, 'd, 'g) robots_env \<Rightarrow> 'w \<Rightarrow> 'g robotsCacheEntry \<Rightarrow> bool" where
  "fresh_entry env w entry \<longleftrightarrow>
     time_Sub (rb_now env w) (rce_fetchedAt entry) < rbc_CacheExpiry (rb_cfg env)"

text \<open>A failed parse of the built-in deny-all file leaves a nil pointer, whose use panics; the code
  ignores that error, so the model takes the parsed value.\<close>

definition deny_all_text :: string where
  "deny_all_text = ''User-agent: *'' @ [CHR 0x0A] @ ''Disallow: /'' @ [CHR 0x0A]"

definition getOrFetch ::
  "('w, 'd, 'g) robots_env \<Rightarrow> ('w, 'g Robots) ref \<Rightarrow> 'w \<Rightarrow> string \<Rightarrow> (error + 'g robotsCacheEntry) \<times> 'w" where
  "getOrFetch env r w domain =
     (let lib = rb_lib env; agent = rbc_UserAgent (rb_cfg env); cached = rb_cache (deref r w) domain
      in if cached \<noteq> None \<and> fresh_entry env w (the cached) then (Inr (the cached), w)
         else (case rb_fetcher env w (domain @ ''/robots.txt'') of
             (Inl err, w1) \<Rightarrow> (Inl err, w1)
           | (Inr (statusCode, body), w1) \<Rightarrow>
               if 500 \<le> statusCode then
                 (Inr \<lparr>rce_group = rt_FindGroup lib (projr (rt_FromBytes lib deny_all_text)) agent,
                       rce_sitemaps = [], rce_fetchedAt = rb_now env w1\<rparr>, w1)
               else (case rt_FromStatusAndBytes lib statusCode body of
                   Inl err \<Rightarrow> (Inl err, w1)
                 | Inr data \<Rightarrow>
                     let group = rt_FindGroup lib data agent;
                         host = strings_TrimPrefix (strings_TrimPrefix domain ''http://'') ''https://'';
                         w2 = (case rbc_OnCrawlDelay (rb_cfg env) of
                                 Some f \<Rightarrow> if 0 < rt_CrawlDelay lib group then f host (rt_CrawlDelay lib group) w1 else w1
                               | None \<Rightarrow> w1);
                         entry = \<lparr>rce_group = group, rce_sitemaps = rt_Sitemaps lib data, rce_fetchedAt = rb_now env w2\<rparr>
                     in (Inr entry, assign r ((deref r w2)\<lparr>rb_cache := (rb_cache (deref r w2))(domain \<mapsto> entry)\<rparr>) w2))))"

definition Robots_Sitemaps :: "'g Robots \<Rightarrow> string \<Rightarrow> string list" where
  "Robots_Sitemaps rb domain = (case rb_cache rb domain of Some entry \<Rightarrow> rce_sitemaps entry | None \<Rightarrow> [])"

section \<open>The middleware\<close>

definition mark_noindex :: "'w RobotsConfig \<Rightarrow> Response option \<Rightarrow> Response option" where
  "mark_noindex cfg resp =
     (case resp of
        None \<Rightarrow> None
      | Some rs \<Rightarrow>
          if rbc_RespectNoIndex cfg \<and> resp_Headers rs \<noteq> None \<and>
             strings_Contains (strings_ToLower (map_index (resp_Headers rs) ''X-Robots-Tag'')) ''noindex''
          then Some (rs\<lparr>resp_Meta := Some ((make_if_nil (resp_Meta rs))(''noindex'' \<mapsto> AnyBool True))\<rparr>)
          else Some rs)"

definition Robots_ProcessRequest :: "('w, 'd, 'g) robots_env \<Rightarrow> ('w, 'g Robots) ref \<Rightarrow> 'w Middleware" where
  "Robots_ProcessRequest env r w req nxt =
     (if \<not> rbc_Enabled (rb_cfg env) then nxt w req
      else (case url_Parse (req_URL req) of
          None \<Rightarrow> nxt w req
        | Some u \<Rightarrow>
            if url_Host u = [] then nxt w req
            else (case getOrFetch env r w (strings_ToLower (url_Scheme u @ ''://'' @ url_Host u)) of
                (Inl err, w1) \<Rightarrow> nxt w1 req
              | (Inr entry, w1) \<Rightarrow>
                  if \<not> rt_Test (rb_lib env) (rce_group entry) (url_RequestURI u)
                  then (w1, req, Ret None (Some (WrapError [] ErrDisallowed ('': '' @ req_URL req))))
                  else (case nxt w1 req of
                      (w2, req2, Panic p) \<Rightarrow> (w2, req2, Panic p)
                    | (w2, req2, Ret resp (Some err)) \<Rightarrow> (w2, req2, Ret None (Some err))
                    | (w2, req2, Ret resp None) \<Rightarrow> (w2, req2, Ret (mark_noindex (rb_cfg env) resp) None)))))"

section \<open>Properties\<close>

definition robots_domain :: "URL \<Rightarrow> string" where
  "robots_domain u = strings_ToLower (url_Scheme u @ ''://'' @ url_Host u)"

text \<open>What the parser's documentation promises of the built-in file: it parses, and its group
  allows no path.\<close>

definition deny_all_law :: "('d, 'g) robotstxt \<Rightarrow> bool" where
  "deny_all_law lib \<longleftrightarrow> (\<forall>agent path. \<not> rt_Test lib (rt_FindGroup lib (projr (rt_FromBytes lib deny_all_text)) agent) path)"


text \<open>
  A fetched file is cached: after a successful fetch with a status below 500, and for as long as
  it is younger than \<open>CacheExpiry\<close>, every later lookup of the domain returns the same entry without
  calling the fetcher.
\<close>

theorem robots_cached:
  assumes ref: "lawful_ref r" and miss: "rb_cache (deref r w) domain = None"
    and fetch: "rb_fetcher env w (domain @ ''/robots.txt'') = (Inr (status, body), w1)" "status < 500"
    and got: "getOrFetch env r w domain = (Inr entry, w2)"
    and later: "deref r w3 = deref r w2" "time_Sub (rb_now env w3) (rce_fetchedAt entry) < rbc_CacheExpiry (rb_cfg env)"
  shows "getOrFetch env r w3 domain = (Inr entry, w3) \<and> Robots_Sitemaps (deref r w3) domain = rce_sitemaps entry"
proof -
  have "rb_cache (deref r w2) domain = Some entry"
    using got miss fetch ref by (auto simp: getOrFetch_def Let_def split: sum.splits)
  then show ?thesis using later by (simp add: getOrFetch_def fresh_entry_def Robots_Sitemaps_def)
qed

text \<open>A parser that understands only the deny-all file.\<close>

definition sample_lib :: "(bool, bool) robotstxt" where
  "sample_lib = \<lparr>rt_FromBytes = (\<lambda>b. Inr (b \<noteq> deny_all_text)), rt_FromStatusAndBytes = (\<lambda>s b. Inr (b \<noteq> deny_all_text)),
     rt_FindGroup = (\<lambda>d a. d), rt_Test = (\<lambda>g p. g), rt_CrawlDelay = (\<lambda>g. 0), rt_Sitemaps = (\<lambda>d. [''s''])\<rparr>"

definition sample_robots :: "int \<Rightarrow> (bool Robots \<times> nat, bool, bool) robots_env \<times> bool Robots" where
  "sample_robots status = NewRobots DefaultRobotsConfig (\<lambda>w u. (Inr (status, []), (fst w, snd w + 1))) sample_lib (\<lambda>w. 0)"

lemma sample_deny: "deny_all_law sample_lib"
  by (simp add: deny_all_law_def sample_lib_def)


theorem robots_cached_witness:
  "\<exists>entry w2. getOrFetch (fst (sample_robots 200)) fst_ref (snd (sample_robots 200), 0) ''http://h'' = (Inr entry, w2) \<and>
     getOrFetch (fst (sample_robots 200)) fst_ref (fst w2, 7) ''http://h'' = (Inr entry, (fst w2, 7))"
proof -
  let ?env = "fst (sample_robots 200)" and ?w = "(snd (sample_robots 200), 0 :: nat)"
  have env: "rb_cfg ?env = DefaultRobotsConfig" "rb_lib ?env = sample_lib" "rb_cache (snd (sample_robots 200)) = Map.empty"
    "rb_fetcher ?env = (\<lambda>w u. (Inr (200, []), (fst w, snd w + 1)))" "rb_now ?env = (\<lambda>w. 0)"
    by (simp_all add: sample_robots_def NewRobots_def DefaultRobotsConfig_def Let_def)
  have miss: "rb_cache (deref fst_ref ?w) ''http://h'' = None" using env by simp
  have fetch: "rb_fetcher ?env ?w (''http://h'' @ ''/robots.txt'') = (Inr (200, []), (fst ?w, 1))" using env by simp
  have st: "(200 :: int) < 500" by simp
  obtain entry w2 where got: "getOrFetch ?env fst_ref ?w ''http://h'' = (Inr entry, w2)" and at: "rce_fetchedAt entry = 0"
    using env by (auto simp: getOrFetch_def Let_def DefaultRobotsConfig_def sample_lib_def)
  have "deref fst_ref (fst w2, 7 :: nat) = deref fst_ref w2" by (cases w2) simp
  moreover have "time_Sub (rb_now ?env (fst w2, 7)) (rce_fetchedAt entry) < rbc_CacheExpiry (rb_cfg ?env)"
    using at env by (simp add: time_Sub_def DefaultRobotsConfig_def)
  ultimately show ?thesis
    using robots_cached [OF lawful_fst_ref miss fetch st got] got by blast
qed

end
