(* ===== verification/Distributed_Task.thy ===== *)
theory Distributed_Task
  imports Crawl_Errors Net_URL
begin

text \<open>
  pkg/distributed/message.go, stats.go and producer.go: tasks, control messages, counters, and the
  Kafka producer.  JSON encoding and the Kafka writer are parameters: \<open>codec\<close> holds the encoders and
  decoders, and \<open>kafka\<close> the write call, with the topic and the keyed messages as arguments.
\<close>

section \<open>message.go\<close>

record CrawlTask =
  task_ID :: string
  task_JobID :: string
  task_URL :: string
  task_Domain :: string
  task_Depth :: int
  task_MaxDepth :: int
  task_Priority :: int
  task_Headers :: "string_map option"
  task_Meta :: "string_map option"
  task_RetryCount :: int
  task_CreatedAt :: Time

datatype ControlType = ControlPause | ControlResume | ControlStop

record ControlMessage =
  ctl_Type :: ControlType
  ctl_JobID :: string
  ctl_Timestamp :: Time

record codec =
  json_task :: "CrawlTask \<Rightarrow> error + string"
  json_untask :: "string \<Rightarrow> error + CrawlTask"
  json_control :: "ControlMessage \<Rightarrow> error + string"
  json_uncontrol :: "string \<Rightarrow> error + ControlMessage"

definition CrawlTask_Encode :: "codec \<Rightarrow> CrawlTask \<Rightarrow> error + string" where
  "CrawlTask_Encode js t = json_task js t"

definition DecodeTask :: "codec \<Rightarrow> string \<Rightarrow> error + CrawlTask" where
  "DecodeTask js data = (case json_untask js data of Inl err \<Rightarrow> Inl err | Inr task \<Rightarrow> Inr task)"

definition ControlMessage_Encode :: "codec \<Rightarrow> ControlMessage \<Rightarrow> error + string" where
  "ControlMessage_Encode js c = json_control js c"

definition DecodeControl :: "codec \<Rightarrow> string \<Rightarrow> error + ControlMessage" where
  "DecodeControl js data = (case json_uncontrol js data of Inl err \<Rightarrow> Inl err | Inr msg \<Rightarrow> Inr msg)"

text \<open>The round trip that encoding/json documents for these structs.\<close>

definition codec_law :: "codec \<Rightarrow> bool" where
  "codec_law js \<longleftrightarrow> (\<forall>t d. json_task js t = Inr d \<longrightarrow> json_untask js d = Inr t) \<and>
     (\<forall>c d. json_control js c = Inr d \<longrightarrow> json_uncontrol js d = Inr c)"

section \<open>stats.go\<close>

record Stats =
  st_processed :: int
  st_succeeded :: int
  st_failed :: int
  st_dlqCount :: int
  st_totalNanos :: int

record StatsSnapshot =
  snap_Processed :: int
  snap_Succeeded :: int
  snap_Failed :: int
  snap_DLQCount :: int
  snap_AvgDuration :: Duration

definition NewStats :: Stats where
  "NewStats = \<lparr>st_processed = 0, st_succeeded = 0, st_failed = 0, st_dlqCount = 0, st_totalNanos = 0\<rparr>"

definition RecordProcessed :: "Stats \<Rightarrow> Stats" where
  "RecordProcessed s = s\<lparr>st_processed := wrap64 (st_processed s + 1)\<rparr>"

definition RecordSuccess :: "Stats \<Rightarrow> Stats" where
  "RecordSuccess s = s\<lparr>st_succeeded := wrap64 (st_succeeded s + 1)\<rparr>"

definition RecordError :: "Stats \<Rightarrow> Stats" where
  "RecordError s = s\<lparr>st_failed := wrap64 (st_failed s + 1)\<rparr>"

definition RecordDLQ :: "Stats \<Rightarrow> Stats" where
  "RecordDLQ s = s\<lparr>st_dlqCount := wrap64 (st_dlqCount s + 1)\<rparr>"

definition RecordDuration :: "Stats \<Rightarrow> Duration \<Rightarrow> Stats" where
  "RecordDuration s d = s\<lparr>st_totalNanos := wrap64 (st_totalNanos s + d)\<rparr>"

definition Stats_Snapshot :: "Stats \<Rightarrow> StatsSnapshot" where
  "Stats_Snapshot s =
     (let processed = st_processed s;
          avg = (if 0 < processed then go_quot (st_totalNanos s) processed else 0)
      in \<lparr>snap_Processed = processed, snap_Succeeded = st_succeeded s, snap_Failed = st_failed s,
          snap_DLQCount = st_dlqCount s, snap_AvgDuration = avg\<rparr>)"

section \<open>producer.go\<close>

type_synonym kafka_message = "string \<times> string"

record 'w kafka =
  kafka_write :: "'w \<Rightarrow> string \<Rightarrow> kafka_message list \<Rightarrow> error option \<times> 'w"
  kafka_close :: "'w \<Rightarrow> error option \<times> 'w"

text \<open>The clock, and fresh identifiers (github.com/google/uuid).\<close>

record 'w task_env =
  te_json :: codec
  te_kafka :: "'w kafka"
  te_now :: "'w \<Rightarrow> Time"
  te_uuid :: "'w \<Rightarrow> string \<times> 'w"

record ProducerConfig =
  pc_Brokers :: "string list"
  pc_Topic :: string
  pc_BatchSize :: int
  pc_BatchTimeout :: Duration

definition ProducerConfig_defaults :: "ProducerConfig \<Rightarrow> ProducerConfig" where
  "ProducerConfig_defaults c0 =
     (let c1 = (if pc_Topic c0 = [] then c0\<lparr>pc_Topic := ''crawl-tasks''\<rparr> else c0);
          c2 = (if pc_BatchSize c1 \<le> 0 then c1\<lparr>pc_BatchSize := 100\<rparr> else c1)
      in if pc_BatchTimeout c2 \<le> 0 then c2\<lparr>pc_BatchTimeout := Second\<rparr> else c2)"

record Producer =
  prod_config :: ProducerConfig

definition NewProducer :: "ProducerConfig \<Rightarrow> Producer" where
  "NewProducer cfg = \<lparr>prod_config = ProducerConfig_defaults cfg\<rparr>"

definition task_extractDomain :: "string \<Rightarrow> string" where
  "task_extractDomain rawURL = (case url_Parse rawURL of None \<Rightarrow> rawURL | Some u \<Rightarrow> url_Hostname u)"

text \<open>The fields both publish functions fill in.\<close>

definition prepare_task :: "'w task_env \<Rightarrow> 'w \<Rightarrow> CrawlTask \<Rightarrow> CrawlTask \<times> 'w" where
  "prepare_task env w t0 =
     (let (t1, w1) = (if task_ID t0 = [] then (case te_uuid env w of (i, w') \<Rightarrow> (t0\<lparr>task_ID := i\<rparr>, w')) else (t0, w));
          t2 = (if task_Domain t1 = [] then t1\<lparr>task_Domain := task_extractDomain (task_URL t1)\<rparr> else t1);
          t3 = (if time_IsZero (task_CreatedAt t2) then t2\<lparr>task_CreatedAt := te_now env w1\<rparr> else t2)
      in (t3, w1))"

definition Producer_Publish ::
  "'w task_env \<Rightarrow> Producer \<Rightarrow> 'w \<Rightarrow> CrawlTask \<Rightarrow> error option \<times> 'w" where
  "Producer_Publish env p w t =
     (case prepare_task env w t of (task, w1) \<Rightarrow>
        (case CrawlTask_Encode (te_json env) task of
           Inl err \<Rightarrow> (Some (WrapError ''distributed: encode task: '' err []), w1)
         | Inr data \<Rightarrow> kafka_write (te_kafka env) w1 (pc_Topic (prod_config p)) [(task_Domain task, data)]))"

fun batch_messages ::
  "'w task_env \<Rightarrow> 'w \<Rightarrow> CrawlTask list \<Rightarrow> kafka_message list \<Rightarrow> (error + kafka_message list) \<times> 'w" where
  "batch_messages env w [] msgs = (Inr msgs, w)"
| "batch_messages env w (t # ts) msgs =
     (case prepare_task env w t of (task, w1) \<Rightarrow>
        (case CrawlTask_Encode (te_json env) task of
           Inl err \<Rightarrow> (Inl (WrapError (''distributed: encode task '' @ task_URL task @ '': '') err []), w1)
         | Inr data \<Rightarrow> batch_messages env w1 ts (msgs @ [(task_Domain task, data)])))"

definition Producer_PublishBatch ::
  "'w task_env \<Rightarrow> Producer \<Rightarrow> 'w \<Rightarrow> CrawlTask list \<Rightarrow> error option \<times> 'w" where
  "Producer_PublishBatch env p w tasks =
     (case batch_messages env w tasks [] of
        (Inl err, w1) \<Rightarrow> (Some err, w1)
      | (Inr msgs, w1) \<Rightarrow> kafka_write (te_kafka env) w1 (pc_Topic (prod_config p)) msgs)"

definition Producer_Close :: "'w task_env \<Rightarrow> 'w \<Rightarrow> error option \<times> 'w" where
  "Producer_Close env w = kafka_close (te_kafka env) w"

section \<open>What is published\<close>

lemma prepare_task_fields:
  assumes "prepare_task env w t = (t', w')"
  shows "task_URL t' = task_URL t" and "task_JobID t' = task_JobID t" and "task_RetryCount t' = task_RetryCount t"
    and "task_Domain t' = (if task_Domain t = [] then task_extractDomain (task_URL t) else task_Domain t)"
    and "task_Depth t' = task_Depth t" and "task_Priority t' = task_Priority t"
  using assms by (auto simp: prepare_task_def Let_def split: if_splits prod.splits)

lemma batch_messages_decode:
  assumes "codec_law (te_json env)" and "batch_messages env w ts msgs0 = (Inr msgs, w')"
  shows "\<exists>ts'. length ts' = length ts \<and>
     msgs = msgs0 @ map (\<lambda>t. (task_Domain t, projr (CrawlTask_Encode (te_json env) t))) ts' \<and>
     (\<forall>t\<in>set ts'. DecodeTask (te_json env) (projr (CrawlTask_Encode (te_json env) t)) = Inr t) \<and>
     map task_URL ts' = map task_URL ts \<and>
     map task_Domain ts' = map (\<lambda>t. if task_Domain t = [] then task_extractDomain (task_URL t) else task_Domain t) ts"
  using assms(2)
proof (induction ts arbitrary: w msgs0)
  case (Cons t ts)
  obtain t1 w1 where p: "prepare_task env w t = (t1, w1)" by fastforce
  obtain d where d: "CrawlTask_Encode (te_json env) t1 = Inr d"
    and rest: "batch_messages env w1 ts (msgs0 @ [(task_Domain t1, d)]) = (Inr msgs, w')"
    using Cons.prems p by (cases "CrawlTask_Encode (te_json env) t1") auto
  obtain ts' where ih: "length ts' = length ts"
     "msgs = (msgs0 @ [(task_Domain t1, d)]) @ map (\<lambda>t. (task_Domain t, projr (CrawlTask_Encode (te_json env) t))) ts'"
     "\<forall>t\<in>set ts'. DecodeTask (te_json env) (projr (CrawlTask_Encode (te_json env) t)) = Inr t"
     "map task_URL ts' = map task_URL ts"
     "map task_Domain ts' = map (\<lambda>t. if task_Domain t = [] then task_extractDomain (task_URL t) else task_Domain t) ts"
    using Cons.IH [OF rest] by blast
  have dec: "DecodeTask (te_json env) d = Inr t1"
    using assms(1) d by (simp add: codec_law_def DecodeTask_def CrawlTask_Encode_def)
  show ?case
    using ih d dec prepare_task_fields [OF p] by (intro exI [of _ "t1 # ts'"]) simp
qed simp

text \<open>
  A batch reaches Kafka in one write, or not at all when a task cannot be encoded: the messages
  decode, in order, to the tasks with their missing fields filled in, and each is keyed by its
  task's domain, which is the host of the URL unless the caller set it.
\<close>

theorem PublishBatch_messages:
  assumes "codec_law (te_json env)"
  shows "(\<exists>err w1. Producer_PublishBatch env p w ts = (Some err, w1) \<and> fst (batch_messages env w ts []) = Inl err) \<or>
    (\<exists>ts' w1. Producer_PublishBatch env p w ts =
        kafka_write (te_kafka env) w1 (pc_Topic (prod_config p))
          (map (\<lambda>t. (task_Domain t, projr (CrawlTask_Encode (te_json env) t))) ts') \<and>
      map (\<lambda>t. DecodeTask (te_json env) (projr (CrawlTask_Encode (te_json env) t))) ts' = map Inr ts' \<and>
      map task_URL ts' = map task_URL ts \<and>
      map task_Domain ts' = map (\<lambda>t. if task_Domain t = [] then task_extractDomain (task_URL t) else task_Domain t) ts)"
proof (cases "batch_messages env w ts []")
  case (Pair r w1)
  show ?thesis
  proof (cases r)
    case (Inl err)
    then show ?thesis using Pair by (simp add: Producer_PublishBatch_def)
  next
    case (Inr msgs)
    then obtain ts' where "msgs = map (\<lambda>t. (task_Domain t, projr (CrawlTask_Encode (te_json env) t))) ts'"
      "\<forall>t\<in>set ts'. DecodeTask (te_json env) (projr (CrawlTask_Encode (te_json env) t)) = Inr t"
      "map task_URL ts' = map task_URL ts"
      "map task_Domain ts' = map (\<lambda>t. if task_Domain t = [] then task_extractDomain (task_URL t) else task_Domain t) ts"
      using batch_messages_decode [OF assms, of w ts "[]" msgs w1] Pair by auto
    then show ?thesis using Pair Inr
      by (intro disjI2 exI [of _ ts'] exI [of _ w1]) (simp add: Producer_PublishBatch_def)
  qed
qed

definition sample_task :: CrawlTask where
  "sample_task = \<lparr>task_ID = ''1'', task_JobID = ''j'', task_URL = ''http://h/'', task_Domain = ''h'', task_Depth = 0,
     task_MaxDepth = 2, task_Priority = 10, task_Headers = None, task_Meta = None, task_RetryCount = 0, task_CreatedAt = 5\<rparr>"

text \<open>A codec that knows one task; its encoding is a single byte.\<close>

definition sample_codec :: codec where
  "sample_codec = \<lparr>json_task = (\<lambda>t. if t = sample_task then Inr ''t'' else Inl (ErrorString ''unknown'')),
     json_untask = (\<lambda>d. Inr sample_task), json_control = (\<lambda>c. Inl (ErrorString ''unknown'')),
     json_uncontrol = (\<lambda>d. Inl (ErrorString ''unknown''))\<rparr>"

definition sample_task_env :: "(string \<times> kafka_message) list task_env" where
  "sample_task_env = \<lparr>te_json = sample_codec,
     te_kafka = \<lparr>kafka_write = (\<lambda>w topic msgs. (None, w @ map (\<lambda>m. (topic, m)) msgs)), kafka_close = (\<lambda>w. (None, w))\<rparr>,
     te_now = (\<lambda>w. 7), te_uuid = (\<lambda>w. (''u'', w))\<rparr>"

lemma sample_codec_law: "codec_law sample_codec"
  by (simp add: codec_law_def sample_codec_def)

lemma sample_prepare: "prepare_task sample_task_env w sample_task = (sample_task, w)"
  by (simp add: prepare_task_def sample_task_def time_IsZero_def)

theorem PublishBatch_messages_witness:
  "\<exists>ts' w1. Producer_PublishBatch sample_task_env (NewProducer \<lparr>pc_Brokers = [], pc_Topic = ''t'', pc_BatchSize = 0, pc_BatchTimeout = 0\<rparr>) [] [sample_task] =
        kafka_write (te_kafka sample_task_env) w1 ''t'' (map (\<lambda>t. (task_Domain t, projr (CrawlTask_Encode sample_codec t))) ts') \<and>
      map task_URL ts' = [''http://h/'']"
proof -
  let ?p = "NewProducer \<lparr>pc_Brokers = [], pc_Topic = ''t'', pc_BatchSize = 0, pc_BatchTimeout = 0\<rparr>"
  have law: "codec_law (te_json sample_task_env)" using sample_codec_law by (simp add: sample_task_env_def)
  have js: "te_json sample_task_env = sample_codec" by (simp add: sample_task_env_def)
  have topic: "pc_Topic (prod_config ?p) = ''t''" by (simp add: NewProducer_def ProducerConfig_defaults_def Let_def)
  have ok: "fst (batch_messages sample_task_env [] [sample_task] []) \<noteq> Inl err" for err
    by (simp add: sample_prepare js CrawlTask_Encode_def) (simp add: sample_codec_def)
  have url: "map task_URL [sample_task] = [''http://h/'']" by (simp add: sample_task_def)
  from PublishBatch_messages [OF law, of ?p "[]" "[sample_task]"] ok obtain ts' w1 where
    "Producer_PublishBatch sample_task_env ?p [] [sample_task] =
        kafka_write (te_kafka sample_task_env) w1 (pc_Topic (prod_config ?p))
          (map (\<lambda>t. (task_Domain t, projr (CrawlTask_Encode (te_json sample_task_env) t))) ts')"
    "map task_URL ts' = map task_URL [sample_task]" by blast
  then show ?thesis unfolding topic js url by (intro exI [of _ ts'] exI [of _ w1] conjI)
qed

end
