(* ===== verification/Distributed_Job.thy ===== *)
theory Distributed_Job
  imports Distributed_Task
begin

text \<open>
  pkg/distributed/job.go: the lifecycle of crawl jobs.  The manager's map of jobs is a partial
  function; each operation runs under the manager's lock, so operations interleave as whole steps.
  \<open>job_step\<close> is one call of any operation, with any outcome of Kafka.
\<close>

section \<open>Jobs\<close>

datatype JobState = JobCreated | JobRunning | JobPaused | JobCompleted | JobFailed | JobCancelled

definition JobState_string :: "JobState \<Rightarrow> string" where
  "JobState_string s = (case s of JobCreated \<Rightarrow> ''created'' | JobRunning \<Rightarrow> ''running'' | JobPaused \<Rightarrow> ''paused''
     | JobCompleted \<Rightarrow> ''completed'' | JobFailed \<Rightarrow> ''failed'' | JobCancelled \<Rightarrow> ''cancelled'')"

record CrawlJob =
  job_ID :: string
  job_Name :: string
  job_SeedURLs :: "string list"
  job_MaxDepth :: int
  job_State :: JobState
  job_CreatedAt :: Time
  job_StartedAt :: "Time option"
  job_CompletedAt :: "Time option"

fun validTransitions :: "JobState \<Rightarrow> JobState list" where
  "validTransitions JobCreated = [JobRunning, JobCancelled]"
| "validTransitions JobRunning = [JobPaused, JobCompleted, JobFailed, JobCancelled]"
| "validTransitions JobPaused = [JobRunning, JobCancelled]"
| "validTransitions JobCompleted = []"
| "validTransitions JobFailed = [JobRunning]"
| "validTransitions JobCancelled = []"

definition canTransitionTo :: "CrawlJob \<Rightarrow> JobState \<Rightarrow> bool" where
  "canTransitionTo j target \<longleftrightarrow> (\<exists>allowed\<in>set (validTransitions (job_State j)). allowed = target)"

section \<open>The manager\<close>

record JobManagerConfig =
  jmc_Brokers :: "string list"
  jmc_TaskTopic :: string
  jmc_ControlTopic :: string

definition JobManagerConfig_defaults :: "JobManagerConfig \<Rightarrow> JobManagerConfig" where
  "JobManagerConfig_defaults c0 =
     (let c1 = (if jmc_TaskTopic c0 = [] then c0\<lparr>jmc_TaskTopic := ''crawl-tasks''\<rparr> else c0)
      in if jmc_ControlTopic c1 = [] then c1\<lparr>jmc_ControlTopic := ''crawl-control''\<rparr> else c1)"

record JobManager =
  jm_jobs :: "string \<rightharpoonup> CrawlJob"
  jm_producer :: Producer
  jm_controlTopic :: string
  jm_brokers :: "string list"

definition NewJobManager :: "JobManagerConfig \<Rightarrow> JobManager" where
  "NewJobManager cfg0 =
     (let cfg = JobManagerConfig_defaults cfg0
      in \<lparr>jm_jobs = Map.empty,
          jm_producer = NewProducer \<lparr>pc_Brokers = jmc_Brokers cfg, pc_Topic = jmc_TaskTopic cfg, pc_BatchSize = 0, pc_BatchTimeout = 0\<rparr>,
          jm_controlTopic = jmc_ControlTopic cfg, jm_brokers = jmc_Brokers cfg\<rparr>)"

definition CreateJob :: "Time \<Rightarrow> JobManager \<Rightarrow> CrawlJob \<Rightarrow> error option \<times> JobManager" where
  "CreateJob now m job =
     (if jm_jobs m (job_ID job) \<noteq> None
      then (Some (ErrorString (''distributed: job '' @ job_ID job @ '' already exists'')), m)
      else (None, m\<lparr>jm_jobs := (jm_jobs m)(job_ID job \<mapsto> job\<lparr>job_State := JobCreated, job_CreatedAt := now\<rparr>)\<rparr>))"

definition seed_tasks :: "string \<Rightarrow> CrawlJob \<Rightarrow> CrawlTask list" where
  "seed_tasks jobID job =
     map (\<lambda>u. \<lparr>task_ID = [], task_JobID = jobID, task_URL = u, task_Domain = [], task_Depth = 0,
        task_MaxDepth = job_MaxDepth job, task_Priority = 10, task_Headers = None, task_Meta = None,
        task_RetryCount = 0, task_CreatedAt = 0\<rparr>) (job_SeedURLs job)"

definition StartJob :: "'w task_env \<Rightarrow> JobManager \<Rightarrow> 'w \<Rightarrow> string \<Rightarrow> error option \<times> JobManager \<times> 'w" where
  "StartJob env m w jobID =
     (case jm_jobs m jobID of
        None \<Rightarrow> (Some (ErrorString (''distributed: job '' @ jobID @ '' not found'')), m, w)
      | Some job \<Rightarrow>
          if \<not> canTransitionTo job JobRunning then
            (Some (ErrorString (''distributed: cannot start job in state '' @ JobState_string (job_State job))), m, w)
          else (case Producer_PublishBatch env (jm_producer m) w (seed_tasks jobID job) of
              (Some err, w1) \<Rightarrow> (Some (WrapError ''distributed: publish seed URLs: '' err []), m, w1)
            | (None, w1) \<Rightarrow>
                (None, m\<lparr>jm_jobs := (jm_jobs m)(jobID \<mapsto> job\<lparr>job_State := JobRunning, job_StartedAt := Some (te_now env w1)\<rparr>)\<rparr>, w1)))"

definition controlTransition ::
  "'w task_env \<Rightarrow> JobManager \<Rightarrow> 'w \<Rightarrow> string \<Rightarrow> JobState \<Rightarrow> ControlType \<Rightarrow> error option \<times> JobManager \<times> 'w" where
  "controlTransition env m w jobID target ctrl =
     (case jm_jobs m jobID of
        None \<Rightarrow> (Some (ErrorString (''distributed: job '' @ jobID @ '' not found'')), m, w)
      | Some job \<Rightarrow>
          if \<not> canTransitionTo job target then
            (Some (ErrorString (''distributed: cannot transition job from '' @ JobState_string (job_State job) @
               '' to '' @ JobState_string target)), m, w)
          else (case ControlMessage_Encode (te_json env) \<lparr>ctl_Type = ctrl, ctl_JobID = jobID, ctl_Timestamp = te_now env w\<rparr> of
              Inl err \<Rightarrow> (Some (WrapError ''distributed: encode control: '' err []), m, w)
            | Inr data \<Rightarrow>
                (case kafka_write (te_kafka env) w (jm_controlTopic m) [(jobID, data)] of
                   (Some err, w1) \<Rightarrow> (Some (WrapError ''distributed: publish control: '' err []), m, w1)
                 | (None, w1) \<Rightarrow>
                     let job1 = job\<lparr>job_State := target\<rparr>;
                         job2 = (if target = JobCancelled \<or> target = JobCompleted \<or> target = JobFailed
                                 then job1\<lparr>job_CompletedAt := Some (te_now env w1)\<rparr> else job1)
                     in (None, m\<lparr>jm_jobs := (jm_jobs m)(jobID \<mapsto> job2)\<rparr>, w1))))"

definition PauseJob :: "'w task_env \<Rightarrow> JobManager \<Rightarrow> 'w \<Rightarrow> string \<Rightarrow> error option \<times> JobManager \<times> 'w" where
  "PauseJob env m w jobID = controlTransition env m w jobID JobPaused ControlPause"

definition ResumeJob :: "'w task_env \<Rightarrow> JobManager \<Rightarrow> 'w \<Rightarrow> string \<Rightarrow> error option \<times> JobManager \<times> 'w" where
  "ResumeJob env m w jobID = controlTransition env m w jobID JobRunning ControlResume"

definition StopJob :: "'w task_env \<Rightarrow> JobManager \<Rightarrow> 'w \<Rightarrow> string \<Rightarrow> error option \<times> JobManager \<times> 'w" where
  "StopJob env m w jobID = controlTransition env m w jobID JobCancelled ControlStop"

definition GetJob :: "JobManager \<Rightarrow> string \<Rightarrow> error + CrawlJob" where
  "GetJob m jobID =
     (case jm_jobs m jobID of
        None \<Rightarrow> Inl (ErrorString (''distributed: job '' @ jobID @ '' not found''))
      | Some job \<Rightarrow> Inr job)"

text \<open>The order of \<open>ListJobs\<close> is the map's iteration order: the result is modelled as a set.\<close>

definition ListJobs :: "JobManager \<Rightarrow> CrawlJob set" where
  "ListJobs m = ran (jm_jobs m)"

definition JobManager_Close :: "'w task_env \<Rightarrow> 'w \<Rightarrow> error option \<times> 'w" where
  "JobManager_Close env w = Producer_Close env w"

section \<open>Lifecycle\<close>

inductive job_step :: "'w task_env \<Rightarrow> JobManager \<Rightarrow> JobManager \<Rightarrow> bool" for env where
  create: "job_CompletedAt job = None \<Longrightarrow> CreateJob now m job = (err, m') \<Longrightarrow> job_step env m m'"
| start: "StartJob env m w i = (err, m', w') \<Longrightarrow> job_step env m m'"
| pause: "PauseJob env m w i = (err, m', w') \<Longrightarrow> job_step env m m'"
| resume: "ResumeJob env m w i = (err, m', w') \<Longrightarrow> job_step env m m'"
| stop: "StopJob env m w i = (err, m', w') \<Longrightarrow> job_step env m m'"

inductive_cases job_stepE: "job_step env m m'"

text \<open>One call changes at most one job, along an allowed transition.\<close>

definition job_moves :: "JobManager \<Rightarrow> JobManager \<Rightarrow> bool" where
  "job_moves m m' \<longleftrightarrow> (\<forall>i. case (jm_jobs m i, jm_jobs m' i) of
       (None, None) \<Rightarrow> True
     | (None, Some j) \<Rightarrow> job_State j = JobCreated
     | (Some j, Some j') \<Rightarrow> job_State j' = job_State j \<or> job_State j' \<in> set (validTransitions (job_State j))
     | (Some j, None) \<Rightarrow> False)"

definition jobs_inv :: "JobManager \<Rightarrow> bool" where
  "jobs_inv m \<longleftrightarrow> (\<forall>i j. jm_jobs m i = Some j \<longrightarrow>
     job_State j \<in> {JobCreated, JobRunning, JobPaused, JobCancelled} \<and>
     (job_CompletedAt j \<noteq> None \<longleftrightarrow> job_State j = JobCancelled))"

lemma StartJob_cases:
  assumes "StartJob env m w i = (err, m', w')"
  shows "(err \<noteq> None \<and> m' = m) \<or>
    (\<exists>job t. err = None \<and> jm_jobs m i = Some job \<and> canTransitionTo job JobRunning \<and>
       m' = m\<lparr>jm_jobs := (jm_jobs m)(i \<mapsto> job\<lparr>job_State := JobRunning, job_StartedAt := Some t\<rparr>)\<rparr>)"
  using assms by (auto simp: StartJob_def split: option.splits if_splits prod.splits)

lemma controlTransition_cases:
  assumes "controlTransition env m w i target c = (err, m', w')"
  shows "(err \<noteq> None \<and> m' = m) \<or>
    (\<exists>job t. err = None \<and> jm_jobs m i = Some job \<and> canTransitionTo job target \<and>
       m' = m\<lparr>jm_jobs := (jm_jobs m)(i \<mapsto> (if target = JobCancelled \<or> target = JobCompleted \<or> target = JobFailed
          then job\<lparr>job_State := target, job_CompletedAt := Some t\<rparr> else job\<lparr>job_State := target\<rparr>))\<rparr>)"
  using assms
  by (auto simp: controlTransition_def Let_def split: option.splits if_splits prod.splits sum.splits)

lemma job_moves_refl [simp]: "job_moves m m"
  by (auto simp: job_moves_def split: option.splits)

lemma job_moves_update:
  "jm_jobs m i = Some j \<Longrightarrow> job_State j' \<in> set (validTransitions (job_State j)) \<Longrightarrow>
   job_moves m (m\<lparr>jm_jobs := (jm_jobs m)(i \<mapsto> j')\<rparr>)"
  by (auto simp: job_moves_def split: option.splits)

lemma job_step_moves:
  assumes "job_step env m m'"
  shows "job_moves m m'"
proof -
  have control: "job_moves m m'" if "controlTransition env m w i target c = (err, m', w')" for w i target c err w'
    using controlTransition_cases [OF that] by (auto simp: canTransitionTo_def intro!: job_moves_update)
  have start: "job_moves m m'" if "StartJob env m w i = (err, m', w')" for w i err w'
    using StartJob_cases [OF that] by (auto simp: canTransitionTo_def intro!: job_moves_update)
  have create: "job_moves m m'" if "CreateJob now m job = (err, m')" for now job err
    using that by (auto simp: CreateJob_def job_moves_def split: option.splits if_splits)
  from assms show ?thesis
    by (cases rule: job_step.cases) (auto simp: PauseJob_def ResumeJob_def StopJob_def intro: control start create)
qed

lemma jobs_inv_update:
  "jobs_inv m \<Longrightarrow> job_State j \<in> {JobCreated, JobRunning, JobPaused, JobCancelled} \<Longrightarrow>
   (job_CompletedAt j \<noteq> None \<longleftrightarrow> job_State j = JobCancelled) \<Longrightarrow>
   jobs_inv (m\<lparr>jm_jobs := (jm_jobs m)(i \<mapsto> j)\<rparr>)"
  by (simp add: jobs_inv_def)

lemma jobs_inv_job:
  assumes "jobs_inv m" and "jm_jobs m i = Some j" and "canTransitionTo j target"
  shows "job_CompletedAt j = None"
proof -
  have "job_State j \<noteq> JobCancelled" using assms(3) by (auto simp: canTransitionTo_def)
  then show ?thesis using assms(1,2) unfolding jobs_inv_def by blast
qed

lemma jobs_inv_controlTransition:
  assumes inv: "jobs_inv m" and t: "target \<in> {JobRunning, JobPaused, JobCancelled}"
    and c: "controlTransition env m w i target c = (err, m', w')"
  shows "jobs_inv m'"
  using controlTransition_cases [OF c] inv t jobs_inv_job [OF inv] by (auto intro!: jobs_inv_update)

lemma jobs_inv_StartJob:
  assumes inv: "jobs_inv m" and c: "StartJob env m w i = (err, m', w')"
  shows "jobs_inv m'"
  using StartJob_cases [OF c] inv jobs_inv_job [OF inv] by (auto intro!: jobs_inv_update)

lemma jobs_inv_CreateJob:
  assumes "jobs_inv m" and "job_CompletedAt job = None" and "CreateJob now m job = (err, m')"
  shows "jobs_inv m'"
  using assms by (auto simp: CreateJob_def split: if_splits intro!: jobs_inv_update)

lemma jobs_inv_step [inv_intros]: "jobs_inv m \<Longrightarrow> job_step env m m' \<Longrightarrow> jobs_inv m'"
  by (erule job_stepE)
    (auto simp: PauseJob_def ResumeJob_def StopJob_def
      intro: jobs_inv_CreateJob jobs_inv_StartJob jobs_inv_controlTransition)

lemma jobs_inv_New: "jobs_inv (NewJobManager cfg)"
  by (simp add: jobs_inv_def NewJobManager_def Let_def)

interpretation jobs: transition_system "\<lambda>m. \<exists>cfg. m = NewJobManager cfg" "job_step env" jobs_inv for env
  by unfold_locales (auto intro: jobs_inv_New jobs_inv_step)


definition sample_job :: CrawlJob where
  "sample_job = \<lparr>job_ID = ''j'', job_Name = ''n'', job_SeedURLs = [''http://h/''], job_MaxDepth = 2, job_State = JobFailed,
     job_CreatedAt = 0, job_StartedAt = None, job_CompletedAt = None\<rparr>"

definition sample_config :: JobManagerConfig where
  "sample_config = \<lparr>jmc_Brokers = [], jmc_TaskTopic = [], jmc_ControlTopic = []\<rparr>"


text \<open>
  A call of the manager that returns an error changes no job: unknown jobs, forbidden
  transitions, encoding errors and failed Kafka writes leave the manager as it was.
\<close>

theorem job_errors_atomic:
  "(fst (CreateJob now m job) = None \<or> snd (CreateJob now m job) = m) \<and>
   (fst (StartJob env m w i) = None \<or> fst (snd (StartJob env m w i)) = m) \<and>
   (fst (PauseJob env m w i) = None \<or> fst (snd (PauseJob env m w i)) = m) \<and>
   (fst (ResumeJob env m w i) = None \<or> fst (snd (ResumeJob env m w i)) = m) \<and>
   (fst (StopJob env m w i) = None \<or> fst (snd (StopJob env m w i)) = m)"
proof -
  have start: "fst (StartJob env m w i) = None \<or> fst (snd (StartJob env m w i)) = m"
    by (cases "StartJob env m w i") (use StartJob_cases in fastforce)
  have ctl: "fst (controlTransition env m w i t c) = None \<or> fst (snd (controlTransition env m w i t c)) = m" for t c
    by (cases "controlTransition env m w i t c") (use controlTransition_cases in fastforce)
  have "fst (CreateJob now m job) = None \<or> snd (CreateJob now m job) = m" by (simp add: CreateJob_def)
  then show ?thesis using start ctl unfolding PauseJob_def ResumeJob_def StopJob_def by blast
qed

text \<open>
  \<open>ResumeJob\<close> also accepts a job that was only created: it becomes running without a start
  time, and nothing but a control message is written, so its seed URLs are never published.
\<close>

theorem Resume_skips_seeds:
  assumes "jm_jobs m i = Some job" and "job_State job = JobCreated" and "job_StartedAt job = None"
    and "ControlMessage_Encode (te_json env) \<lparr>ctl_Type = ControlResume, ctl_JobID = i, ctl_Timestamp = te_now env w\<rparr> = Inr d"
    and "kafka_write (te_kafka env) w (jm_controlTopic m) [(i, d)] = (None, w')"
  shows "ResumeJob env m w i = (None, m\<lparr>jm_jobs := (jm_jobs m)(i \<mapsto> job\<lparr>job_State := JobRunning\<rparr>)\<rparr>, w') \<and>
    job_StartedAt (job\<lparr>job_State := JobRunning\<rparr>) = None"
  using assms by (simp add: ResumeJob_def controlTransition_def canTransitionTo_def)

theorem Resume_skips_seeds_witness:
  "\<exists>m'. ResumeJob (sample_task_env\<lparr>te_json := sample_codec\<lparr>json_control := (\<lambda>c. Inr ''c'')\<rparr>\<rparr>)
     ((NewJobManager sample_config)\<lparr>jm_jobs := [''j'' \<mapsto> sample_job\<lparr>job_State := JobCreated\<rparr>]\<rparr>) [] ''j'' =
     (None, m', [(''crawl-control'', ''j'', ''c'')])"
proof -
  let ?env = "sample_task_env\<lparr>te_json := sample_codec\<lparr>json_control := (\<lambda>c. Inr ''c'')\<rparr>\<rparr>"
  let ?job = "sample_job\<lparr>job_State := JobCreated\<rparr>"
  let ?m = "(NewJobManager sample_config)\<lparr>jm_jobs := [''j'' \<mapsto> ?job]\<rparr>"
  have topic: "jm_controlTopic ?m = ''crawl-control''"
    by (simp add: NewJobManager_def sample_config_def JobManagerConfig_defaults_def Let_def)
  have enc: "ControlMessage_Encode (te_json ?env) c = Inr ''c''" for c by (simp add: ControlMessage_Encode_def)
  have sent: "kafka_write (te_kafka ?env) [] (jm_controlTopic ?m) [(''j'', ''c'')] = (None, [(''crawl-control'', ''j'', ''c'')])"
    unfolding topic by (simp add: sample_task_env_def)
  have "jm_jobs ?m ''j'' = Some ?job" "job_State ?job = JobCreated" "job_StartedAt ?job = None"
    by (simp_all add: sample_job_def)
  from Resume_skips_seeds [OF this enc sent] show ?thesis by blast
qed

end
