(* ===== verification/Distributed_Consumer.thy ===== *)
theory Distributed_Consumer
  imports Distributed_Task
begin

text \<open>
  pkg/distributed/consumer.go: the worker side.  The Kafka reader and writers, JSON, the clock, the
  sleep before a retry and the task handler are fields of the environment.  One turn of the read
  loop, the worker loop and the failure path are functions on the consumer's counters and the
  world; a Go panic is \<open>None\<close>.  The last part runs them against a broker that keeps its topics.
\<close>

section \<open>Configuration and environment\<close>

record ConsumerConfig =
  cn_Brokers :: "string list"
  cn_Topic :: string
  cn_GroupID :: string
  cn_Workers :: int
  cn_MaxRetries :: int
  cn_RetryBackoff :: Duration
  cn_DLQTopic :: string

definition ConsumerConfig_defaults :: "ConsumerConfig \<Rightarrow> ConsumerConfig" where
  "ConsumerConfig_defaults c0 =
     (let c1 = (if cn_Topic c0 = [] then c0\<lparr>cn_Topic := ''crawl-tasks''\<rparr> else c0);
          c2 = (if cn_GroupID c1 = [] then c1\<lparr>cn_GroupID := ''crawler-workers''\<rparr> else c1);
          c3 = (if cn_Workers c2 \<le> 0 then c2\<lparr>cn_Workers := 4\<rparr> else c2);
          c4 = (if cn_MaxRetries c3 \<le> 0 then c3\<lparr>cn_MaxRetries := 3\<rparr> else c3);
          c5 = (if cn_RetryBackoff c4 \<le> 0 then c4\<lparr>cn_RetryBackoff := 5 * Second\<rparr> else c4)
      in if cn_DLQTopic c5 = [] then c5\<lparr>cn_DLQTopic := cn_Topic c5 @ ''.dlq''\<rparr> else c5)"

text \<open>\<open>cv_fetch\<close> is \<^verbatim>\<open>reader.FetchMessage\<close>; \<open>cv_wait\<close> tells whether the sleep ran to its end; the handler
  returns its error and the task as it left it.\<close>

record 'w consumer_env =
  cv_json :: codec
  cv_fetch :: "'w \<Rightarrow> (error + kafka_message) \<times> 'w"
  cv_commit :: "'w \<Rightarrow> kafka_message \<Rightarrow> 'w"
  cv_write :: "'w \<Rightarrow> string \<Rightarrow> kafka_message list \<Rightarrow> error option \<times> 'w"
  cv_ctx_done :: "'w \<Rightarrow> bool"
  cv_wait :: "'w \<Rightarrow> Duration \<Rightarrow> bool \<times> 'w"
  cv_now :: "'w \<Rightarrow> Time"
  cv_handler :: "'w \<Rightarrow> CrawlTask \<Rightarrow> error option \<times> CrawlTask \<times> 'w"
  cv_close_reader :: "'w \<Rightarrow> error option \<times> 'w"
  cv_close_dlq :: "'w \<Rightarrow> error option \<times> 'w"

record Consumer =
  con_config :: ConsumerConfig
  con_stats :: Stats

definition NewConsumer :: "ConsumerConfig \<Rightarrow> Consumer" where
  "NewConsumer cfg = \<lparr>con_config = ConsumerConfig_defaults cfg, con_stats = NewStats\<rparr>"

section \<open>The failure path\<close>

text \<open>\<^verbatim>\<open>1 << k\<close> on a 64-bit integer: a negative count panics, a count from 64 on gives zero.\<close>

definition shift_one :: "int \<Rightarrow> int option" where
  "shift_one k = (if k < 0 then None else if 64 \<le> k then Some 0 else Some (wrap64 (2 ^ nat k)))"

definition handleFailure ::
  "'w consumer_env \<Rightarrow> Consumer \<Rightarrow> 'w \<Rightarrow> CrawlTask \<Rightarrow> error \<Rightarrow> (Consumer \<times> 'w) option" where
  "handleFailure env c0 w task err =
     (let c = c0\<lparr>con_stats := RecordError (con_stats c0)\<rparr>; cfg = con_config c
      in if task_RetryCount task < cn_MaxRetries cfg then
           (let task1 = task\<lparr>task_RetryCount := wrap64 (task_RetryCount task + 1)\<rparr>
            in case shift_one (task_RetryCount task1 - 1) of
                 None \<Rightarrow> None
               | Some s \<Rightarrow>
                   let backoff = wrap64 (cn_RetryBackoff cfg * s)
                   in (case cv_wait env w backoff of
                         (False, w1) \<Rightarrow> Some (c, w1)
                       | (True, w1) \<Rightarrow>
                           (case CrawlTask_Encode (cv_json env) task1 of
                              Inl e \<Rightarrow> Some (c, w1)
                            | Inr data \<Rightarrow>
                                (case cv_write env w1 (cn_Topic cfg) [(task_Domain task1, data)] of (e, w2) \<Rightarrow> Some (c, w2)))))
         else
           (let c1 = c\<lparr>con_stats := RecordDLQ (con_stats c)\<rparr>
            in case CrawlTask_Encode (cv_json env) task of
                 Inl e \<Rightarrow> Some (c1, w)
               | Inr data \<Rightarrow>
                   (case cv_write env w (cn_DLQTopic cfg) [(task_Domain task, data)] of (e, w1) \<Rightarrow> Some (c1, w1))))"

section \<open>Workers and the read loop\<close>

text \<open>The body of the worker's loop for one task, and the loop over the tasks it receives; the
  result has the tasks it returned without touching.\<close>

definition process_task :: "'w consumer_env \<Rightarrow> Consumer \<Rightarrow> 'w \<Rightarrow> CrawlTask \<Rightarrow> (Consumer \<times> 'w) option" where
  "process_task env c0 w task =
     (let c1 = c0\<lparr>con_stats := RecordProcessed (con_stats c0)\<rparr>;
          started = cv_now env w
      in case cv_handler env w task of (err, task1, w1) \<Rightarrow>
           let c2 = c1\<lparr>con_stats := RecordDuration (con_stats c1) (time_Sub (cv_now env w1) started)\<rparr>
           in (case err of
                 Some e \<Rightarrow> handleFailure env c2 w1 task1 e
               | None \<Rightarrow> Some (c2\<lparr>con_stats := RecordSuccess (con_stats c2)\<rparr>, w1)))"

fun Consumer_worker ::
  "'w consumer_env \<Rightarrow> Consumer \<Rightarrow> 'w \<Rightarrow> CrawlTask list \<Rightarrow> (Consumer \<times> 'w \<times> CrawlTask list) option" where
  "Consumer_worker env c w [] = Some (c, w, [])"
| "Consumer_worker env c w (task # tasks) =
     (if cv_ctx_done env w then Some (c, w, task # tasks)
      else (case process_task env c w task of
          None \<Rightarrow> None
        | Some (c1, w1) \<Rightarrow> Consumer_worker env c1 w1 tasks))"

datatype read_result = ReadStop | ReadSkip | ReadSent CrawlTask

text \<open>One turn of the read loop; \<open>can_send\<close> says whether the channel takes the task before the
  context ends.\<close>

definition read_turn ::
  "'w consumer_env \<Rightarrow> ('w \<Rightarrow> bool) \<Rightarrow> Consumer \<Rightarrow> 'w \<Rightarrow> read_result \<times> Consumer \<times> 'w" where
  "read_turn env can_send c w =
     (case cv_fetch env w of
        (Inl err, w1) \<Rightarrow> (if cv_ctx_done env w1 then ReadStop else ReadSkip, c, w1)
      | (Inr msg, w1) \<Rightarrow>
          (case DecodeTask (cv_json env) (snd msg) of
             Inl err \<Rightarrow> (ReadSkip, c\<lparr>con_stats := RecordError (con_stats c)\<rparr>, cv_commit env w1 msg)
           | Inr task \<Rightarrow>
               if can_send w1 then (ReadSent task, c, cv_commit env w1 msg) else (ReadStop, c, w1)))"

definition Consumer_Stop :: "'w consumer_env \<Rightarrow> 'w \<Rightarrow> error list \<times> 'w" where
  "Consumer_Stop env w =
     (case cv_close_reader env w of (e1, w1) \<Rightarrow>
        (case cv_close_dlq env w1 of (e2, w2) \<Rightarrow>
           ((case e1 of None \<Rightarrow> [] | Some e \<Rightarrow> [WrapError ''close reader: '' e []]) @
            (case e2 of None \<Rightarrow> [] | Some e \<Rightarrow> [WrapError ''close DLQ writer: '' e []]), w2)))"

definition Consumer_Stats :: "Consumer \<Rightarrow> StatsSnapshot" where
  "Consumer_Stats c = Stats_Snapshot (con_stats c)"

lemma shift_one_Some: "0 \<le> k \<Longrightarrow> \<exists>s. shift_one k = Some s"
  by (simp add: shift_one_def)

lemma retry_count_Suc: "\<lbrakk>0 \<le> n; n < m; in_int64 m\<rbrakk> \<Longrightarrow> wrap64 (n + 1) = n + 1"
  by (rule wrap64_id) (simp add: in_int64_def)

text \<open>
  Tasks can be lost on shutdown.  The read loop commits a message as soon as the task is in the
  channel, and a worker that finds the context cancelled returns without processing the tasks it
  still has: they are neither handled, nor retried, nor sent to the dead letter queue.  Likewise a
  retry whose backoff is interrupted is written nowhere.
\<close>

theorem shutdown_drops_tasks:
  assumes "cv_ctx_done env w" and "cv_wait env w = (\<lambda>d. (False, w))"
    and "0 \<le> task_RetryCount task" "task_RetryCount task < cn_MaxRetries (con_config c)" "in_int64 (cn_MaxRetries (con_config c))"
  shows "Consumer_worker env c w tasks = Some (c, w, tasks) \<and>
    handleFailure env c w task err = Some (c\<lparr>con_stats := RecordError (con_stats c)\<rparr>, w)"
proof -
  have "Consumer_worker env c w tasks = Some (c, w, tasks)" using assms(1) by (cases tasks) simp_all
  moreover obtain s where "shift_one (task_RetryCount task) = Some s" using shift_one_Some [OF assms(3)] by blast
  ultimately show ?thesis using assms retry_count_Suc [OF assms(3-5)] by (simp add: handleFailure_def Let_def)
qed

text \<open>
  A task with a negative retry count (which a message can carry) that fails makes the worker
  panic: the shift count of the backoff is negative.
\<close>

theorem negative_retry_panics:
  assumes "task_RetryCount task < 0" and "in_int64 (task_RetryCount task)" and "0 \<le> cn_MaxRetries (con_config c)"
  shows "handleFailure env c w task err = None"
proof -
  have "wrap64 (task_RetryCount task + 1) = task_RetryCount task + 1"
    using assms by (intro wrap64_id) (simp add: in_int64_def)
  then show ?thesis using assms by (simp add: handleFailure_def Let_def shift_one_def)
qed

section \<open>Running against a broker\<close>

text \<open>One worker that takes each task as it is read, and a number of its turns.\<close>

definition consume_turn :: "'w consumer_env \<Rightarrow> Consumer \<Rightarrow> 'w \<Rightarrow> (Consumer \<times> 'w) option" where
  "consume_turn env c w =
     (case read_turn env (\<lambda>w. True) c w of
        (ReadSent task, c1, w1) \<Rightarrow> process_task env c1 w1 task
      | (r, c1, w1) \<Rightarrow> Some (c1, w1))"

primrec consume_turns :: "nat \<Rightarrow> 'w consumer_env \<Rightarrow> Consumer \<Rightarrow> 'w \<Rightarrow> (Consumer \<times> 'w) option" where
  "consume_turns 0 env c w = Some (c, w)"
| "consume_turns (Suc n) env c w =
     (case consume_turn env c w of None \<Rightarrow> None | Some (c1, w1) \<Rightarrow> consume_turns n env c1 w1)"

text \<open>
  The broker while it is up: \<open>pend w\<close> are the messages of the task topic still to be read, \<open>dead w\<close>
  those of the dead letter topic, both in order; the waits run to their end.
\<close>

definition broker_law ::
  "'w consumer_env \<Rightarrow> ConsumerConfig \<Rightarrow> ('w \<Rightarrow> kafka_message list) \<Rightarrow> ('w \<Rightarrow> kafka_message list) \<Rightarrow> bool" where
  "broker_law env cfg pend dead \<longleftrightarrow>
     (\<forall>w. pend w \<noteq> [] \<longrightarrow> (\<exists>w1. cv_fetch env w = (Inr (hd (pend w)), w1) \<and> pend w1 = tl (pend w) \<and> dead w1 = dead w)) \<and>
     (\<forall>w m. pend (cv_commit env w m) = pend w \<and> dead (cv_commit env w m) = dead w) \<and>
     (\<forall>w ms. \<exists>w1. cv_write env w (cn_Topic cfg) ms = (None, w1) \<and> pend w1 = pend w @ ms \<and> dead w1 = dead w) \<and>
     (\<forall>w ms. \<exists>w1. cv_write env w (cn_DLQTopic cfg) ms = (None, w1) \<and> pend w1 = pend w \<and> dead w1 = dead w @ ms) \<and>
     (\<forall>w d. \<exists>w1. cv_wait env w d = (True, w1) \<and> pend w1 = pend w \<and> dead w1 = dead w)"

text \<open>\<open>S\<close> is the set of tasks in play: they survive encoding, the handler returns them as they were
  without writing to the broker, and a retry stays in the set.\<close>

definition task_law ::
  "'w consumer_env \<Rightarrow> ConsumerConfig \<Rightarrow> CrawlTask set \<Rightarrow> ('w \<Rightarrow> kafka_message list) \<Rightarrow> ('w \<Rightarrow> kafka_message list) \<Rightarrow> bool" where
  "task_law env cfg S pend dead \<longleftrightarrow>
     (\<forall>t\<in>S. 0 \<le> task_RetryCount t \<and>
        (\<exists>d. CrawlTask_Encode (cv_json env) t = Inr d \<and> DecodeTask (cv_json env) d = Inr t) \<and>
        (\<forall>w. \<exists>e w1. cv_handler env w t = (e, t, w1) \<and> pend w1 = pend w \<and> dead w1 = dead w) \<and>
        (task_RetryCount t < cn_MaxRetries cfg \<longrightarrow> t\<lparr>task_RetryCount := task_RetryCount t + 1\<rparr> \<in> S))"

definition task_message :: "codec \<Rightarrow> CrawlTask \<Rightarrow> kafka_message" where
  "task_message js t = (task_Domain t, projr (CrawlTask_Encode js t))"

text \<open>The attempts a task has left, and all tasks together.\<close>

definition attempts :: "ConsumerConfig \<Rightarrow> CrawlTask \<Rightarrow> nat" where
  "attempts cfg t = nat (cn_MaxRetries cfg - task_RetryCount t) + 1"

definition work :: "ConsumerConfig \<Rightarrow> CrawlTask list \<Rightarrow> nat" where
  "work cfg ts = sum_list (map (attempts cfg) ts)"

lemma attempts_retry:
  "task_RetryCount t < cn_MaxRetries cfg \<Longrightarrow>
   attempts cfg t = Suc (attempts cfg (t\<lparr>task_RetryCount := task_RetryCount t + 1\<rparr>))"
  by (simp add: attempts_def)

text \<open>A failure with a retry left appends the task, with its count raised, to the topic; one with
  none left appends it to the dead letter topic.\<close>

lemma handleFailure_broker:
  assumes b: "broker_law env (con_config c) pend dead" and t: "task_law env (con_config c) S pend dead" "t \<in> S"
    and m: "in_int64 (cn_MaxRetries (con_config c))"
  shows "\<exists>c' w'. handleFailure env c w t err = Some (c', w') \<and> con_config c' = con_config c \<and>
    st_succeeded (con_stats c') = st_succeeded (con_stats c) \<and>
    (if task_RetryCount t < cn_MaxRetries (con_config c)
     then pend w' = pend w @ [task_message (cv_json env) (t\<lparr>task_RetryCount := task_RetryCount t + 1\<rparr>)] \<and>
       dead w' = dead w \<and> st_dlqCount (con_stats c') = st_dlqCount (con_stats c)
     else pend w' = pend w \<and> dead w' = dead w @ [task_message (cv_json env) t] \<and>
       st_dlqCount (con_stats c') = wrap64 (st_dlqCount (con_stats c) + 1))"
proof (cases "task_RetryCount t < cn_MaxRetries (con_config c)")
  case True
  let ?t = "t\<lparr>task_RetryCount := task_RetryCount t + 1\<rparr>"
  have r: "0 \<le> task_RetryCount t" "?t \<in> S" using t True by (auto simp: task_law_def)
  obtain d where d: "CrawlTask_Encode (cv_json env) ?t = Inr d" using t(1) r(2) by (auto simp: task_law_def)
  obtain s where s: "shift_one (task_RetryCount t) = Some s" using shift_one_Some [OF r(1)] by blast
  obtain w1 where w1: "cv_wait env w (wrap64 (cn_RetryBackoff (con_config c) * s)) = (True, w1)" "pend w1 = pend w" "dead w1 = dead w"
    using b unfolding broker_law_def by blast
  obtain w2 where w2: "cv_write env w1 (cn_Topic (con_config c)) [(task_Domain ?t, d)] = (None, w2)"
     "pend w2 = pend w1 @ [(task_Domain ?t, d)]" "dead w2 = dead w1"
    using b unfolding broker_law_def by blast
  show ?thesis using True d s w1 w2 retry_count_Suc [OF r(1) True m]
    by (simp add: handleFailure_def Let_def RecordError_def task_message_def)
next
  case False
  obtain d where d: "CrawlTask_Encode (cv_json env) t = Inr d" using t by (auto simp: task_law_def)
  obtain w1 where w1: "cv_write env w (cn_DLQTopic (con_config c)) [(task_Domain t, d)] = (None, w1)"
     "pend w1 = pend w" "dead w1 = dead w @ [(task_Domain t, d)]"
    using b unfolding broker_law_def by blast
  show ?thesis using False d w1
    by (simp add: handleFailure_def Let_def RecordError_def RecordDLQ_def task_message_def)
qed


text \<open>One turn on a topic that starts with \<open>t\<close>: the task is done, is retried, or is dead.\<close>

lemma consume_turn_cases:
  assumes b: "broker_law env (con_config c) pend dead" and t: "task_law env (con_config c) S pend dead" "t \<in> S"
    and m: "in_int64 (cn_MaxRetries (con_config c))"
    and p: "pend w = task_message (cv_json env) t # ms"
  obtains (succeeded) c' w' where "consume_turn env c w = Some (c', w')" "con_config c' = con_config c" "pend w' = ms" "dead w' = dead w"
      "st_succeeded (con_stats c') = wrap64 (st_succeeded (con_stats c) + 1)" "st_dlqCount (con_stats c') = st_dlqCount (con_stats c)"
  | (retried) c' w' where "task_RetryCount t < cn_MaxRetries (con_config c)"
      "consume_turn env c w = Some (c', w')" "con_config c' = con_config c"
      "pend w' = ms @ [task_message (cv_json env) (t\<lparr>task_RetryCount := task_RetryCount t + 1\<rparr>)]" "dead w' = dead w"
      "st_succeeded (con_stats c') = st_succeeded (con_stats c)" "st_dlqCount (con_stats c') = st_dlqCount (con_stats c)"
  | (dead) c' w' where "cn_MaxRetries (con_config c) \<le> task_RetryCount t"
      "consume_turn env c w = Some (c', w')" "con_config c' = con_config c"
      "pend w' = ms" "dead w' = dead w @ [task_message (cv_json env) t]"
      "st_succeeded (con_stats c') = st_succeeded (con_stats c)" "st_dlqCount (con_stats c') = wrap64 (st_dlqCount (con_stats c) + 1)"
proof -
  let ?m = "task_message (cv_json env) t"
  obtain w1 where w1: "cv_fetch env w = (Inr ?m, w1)" "pend w1 = ms" "dead w1 = dead w"
    using b p unfolding broker_law_def by (metis list.distinct(1) list.sel(1,3))
  let ?w = "cv_commit env w1 ?m"
  have w2: "pend ?w = ms" "dead ?w = dead w" using b w1 unfolding broker_law_def by metis+
  have dec: "DecodeTask (cv_json env) (snd ?m) = Inr t"
    using t by (fastforce simp: task_law_def task_message_def)
  obtain e w3 where h: "cv_handler env ?w t = (e, t, w3)" "pend w3 = pend ?w" "dead w3 = dead ?w"
    using t unfolding task_law_def by blast
  define c2 where "c2 = c\<lparr>con_stats := RecordDuration (RecordProcessed (con_stats c)) (time_Sub (cv_now env w3) (cv_now env ?w))\<rparr>"
  have c2: "con_config c2 = con_config c" "st_succeeded (con_stats c2) = st_succeeded (con_stats c)"
    "st_dlqCount (con_stats c2) = st_dlqCount (con_stats c)"
    by (simp_all add: c2_def RecordDuration_def RecordProcessed_def)
  have turn: "consume_turn env c w =
     (case e of Some err \<Rightarrow> handleFailure env c2 w3 t err | None \<Rightarrow> Some (c2\<lparr>con_stats := RecordSuccess (con_stats c2)\<rparr>, w3))"
    using w1(1) dec h(1) by (cases e) (simp_all add: consume_turn_def read_turn_def process_task_def Let_def c2_def)
  show thesis
  proof (cases e)
    case None
    have "consume_turn env c w = Some (c2\<lparr>con_stats := RecordSuccess (con_stats c2)\<rparr>, w3)" using None turn by simp
    then show thesis by (rule succeeded) (use c2 w2 h in \<open>simp_all add: RecordSuccess_def\<close>)
  next
    case (Some err)
    obtain c' w' where f: "handleFailure env c2 w3 t err = Some (c', w')" "con_config c' = con_config c"
      "st_succeeded (con_stats c') = st_succeeded (con_stats c)"
      "if task_RetryCount t < cn_MaxRetries (con_config c)
       then pend w' = ms @ [task_message (cv_json env) (t\<lparr>task_RetryCount := task_RetryCount t + 1\<rparr>)] \<and>
         dead w' = dead w \<and> st_dlqCount (con_stats c') = st_dlqCount (con_stats c)
       else pend w' = ms \<and> dead w' = dead w @ [?m] \<and> st_dlqCount (con_stats c') = wrap64 (st_dlqCount (con_stats c) + 1)"
      using handleFailure_broker [of env c2 pend dead S t w3 err] b t m c2 w2 h by auto
    have ct: "consume_turn env c w = Some (c', w')" using f(1) turn Some by simp
    show thesis
    proof (cases "task_RetryCount t < cn_MaxRetries (con_config c)")
      case True
      show thesis by (rule retried [OF True ct]) (use True f in \<open>simp_all\<close>)
    next
      case False
      then have "cn_MaxRetries (con_config c) \<le> task_RetryCount t" by simp
      then show thesis by (rule dead [OF _ ct]) (use False f in \<open>simp_all\<close>)
    qed
  qed
qed

lemma wrap64_add_wrap: "wrap64 (wrap64 a + b) = wrap64 (a + b)"
proof -
  have "(wrap64 a + b + 2 ^ 63) mod 2 ^ 64 = ((a + 2 ^ 63) mod 2 ^ 64 + b) mod 2 ^ 64" by (simp add: wrap64_def)
  also have "\<dots> = (a + b + 2 ^ 63) mod 2 ^ 64" using mod_add_left_eq [of "a + 2 ^ 63" "2 ^ 64" b] by (simp only: ac_simps)
  finally show ?thesis by (simp add: wrap64_def)
qed

text \<open>What a run that empties the topic has done with the tasks \<open>ts\<close> that were on it: \<open>ds\<close> are dead
  letters, \<open>k\<close> tasks succeeded, and there is no other task.\<close>

definition drains ::
  "'w consumer_env \<Rightarrow> ConsumerConfig \<Rightarrow> CrawlTask set \<Rightarrow> ('w \<Rightarrow> kafka_message list) \<Rightarrow> ('w \<Rightarrow> kafka_message list) \<Rightarrow>
   CrawlTask list \<Rightarrow> Consumer \<Rightarrow> 'w \<Rightarrow> nat \<Rightarrow> Consumer \<Rightarrow> 'w \<Rightarrow> CrawlTask list \<Rightarrow> nat \<Rightarrow> bool" where
  "drains env cfg S pend dead ts c w n c' w' ds k \<longleftrightarrow>
     n \<le> work cfg ts \<and> consume_turns n env c w = Some (c', w') \<and> pend w' = [] \<and>
     set ds \<subseteq> {d \<in> S. cn_MaxRetries cfg \<le> task_RetryCount d} \<and> length ds + k = length ts \<and>
     dead w' = dead w @ map (task_message (cv_json env)) ds \<and>
     st_dlqCount (con_stats c') = wrap64 (st_dlqCount (con_stats c) + int (length ds)) \<and>
     st_succeeded (con_stats c') = wrap64 (st_succeeded (con_stats c) + int k)"

text \<open>The sum of the attempts left falls with every turn.\<close>

lemma consume_turns_finish:
  assumes b: "broker_law env cfg pend dead" and t: "task_law env cfg S pend dead" and m: "in_int64 (cn_MaxRetries cfg)"
    and "con_config c = cfg" and "set ts \<subseteq> S" and "pend w = map (task_message (cv_json env)) ts"
    and "in_int64 (st_succeeded (con_stats c))" "in_int64 (st_dlqCount (con_stats c))"
  shows "\<exists>n c' w' ds k. drains env cfg S pend dead ts c w n c' w' ds k"
  using assms(4-)
proof (induction "work cfg ts" arbitrary: ts c w rule: less_induct)
  case less
  show ?case
  proof (cases ts)
    case Nil
    then have "drains env cfg S pend dead ts c w 0 c w [] 0" using less.prems by (simp add: drains_def wrap64_id)
    then show ?thesis by blast
  next
    case (Cons x xs)
    let ?m = "map (task_message (cv_json env))" and ?x = "x\<lparr>task_RetryCount := task_RetryCount x + 1\<rparr>"
    have x: "x \<in> S" "set xs \<subseteq> S" "pend w = task_message (cv_json env) x # ?m xs"
      using less.prems Cons by auto
    have att: "work cfg ts = attempts cfg x + work cfg xs" "0 < attempts cfg x" by (simp_all add: work_def Cons attempts_def)
    show ?thesis
    proof (rule consume_turn_cases [of env c pend dead S x w "?m xs"])
      fix c1 w1
      assume a: "consume_turn env c w = Some (c1, w1)" "con_config c1 = con_config c" "pend w1 = ?m xs" "dead w1 = dead w"
        "st_succeeded (con_stats c1) = wrap64 (st_succeeded (con_stats c) + 1)" "st_dlqCount (con_stats c1) = st_dlqCount (con_stats c)"
      then obtain n c' w' ds k where "drains env cfg S pend dead xs c1 w1 n c' w' ds k"
        using less.hyps [of xs c1 w1] less.prems x att by auto
      then have "drains env cfg S pend dead ts c w (Suc n) c' w' ds (Suc k)"
        using a att Cons by (simp add: drains_def wrap64_add_wrap add.assoc)
      then show ?thesis by blast
    next
      fix c1 w1
      assume a: "task_RetryCount x < cn_MaxRetries (con_config c)" "consume_turn env c w = Some (c1, w1)" "con_config c1 = con_config c"
        "pend w1 = ?m xs @ [task_message (cv_json env) ?x]" "dead w1 = dead w"
        "st_succeeded (con_stats c1) = st_succeeded (con_stats c)" "st_dlqCount (con_stats c1) = st_dlqCount (con_stats c)"
      have S: "set (xs @ [?x]) \<subseteq> S" using t x a less.prems(1) by (auto simp: task_law_def)
      have wk: "Suc (work cfg (xs @ [?x])) = work cfg ts"
        using a(1) less.prems(1) attempts_retry [of x cfg] by (simp add: work_def Cons)
      then obtain n c' w' ds k where "drains env cfg S pend dead (xs @ [?x]) c1 w1 n c' w' ds k"
        using less.hyps [of "xs @ [?x]" c1 w1] less.prems a S by auto
      then have "drains env cfg S pend dead ts c w (Suc n) c' w' ds k" using a wk Cons by (simp add: drains_def)
      then show ?thesis by blast
    next
      fix c1 w1
      assume a: "cn_MaxRetries (con_config c) \<le> task_RetryCount x" "consume_turn env c w = Some (c1, w1)" "con_config c1 = con_config c"
        "pend w1 = ?m xs" "dead w1 = dead w @ [task_message (cv_json env) x]"
        "st_succeeded (con_stats c1) = st_succeeded (con_stats c)"
        "st_dlqCount (con_stats c1) = wrap64 (st_dlqCount (con_stats c) + 1)"
      then obtain n c' w' ds k where "drains env cfg S pend dead xs c1 w1 n c' w' ds k"
        using less.hyps [of xs c1 w1] less.prems x att by auto
      then have "drains env cfg S pend dead ts c w (Suc n) c' w' (x # ds) k"
        using a att Cons x(1) less.prems(1) by (simp add: drains_def wrap64_add_wrap add.assoc)
      then show ?thesis by blast
    qed (use b t m x less.prems in auto)
  qed
qed


section \<open>A concrete broker\<close>

definition retried_task :: "nat \<Rightarrow> CrawlTask" where
  "retried_task n = sample_task\<lparr>task_RetryCount := int n\<rparr>"

text \<open>The encoding of a sample task is as long as its retry count; the handler always fails.\<close>

definition unary_codec :: codec where
  "unary_codec = sample_codec\<lparr>json_task := (\<lambda>t. Inr (replicate (nat (task_RetryCount t)) (CHR ''r''))),
     json_untask := (\<lambda>d. Inr (retried_task (length d)))\<rparr>"

definition two_topics :: "(kafka_message list \<times> kafka_message list) consumer_env" where
  "two_topics = \<lparr>cv_json = unary_codec,
     cv_fetch = (\<lambda>(p, d). case p of [] \<Rightarrow> (Inl (ErrorString ''empty''), [], d) | m # ms \<Rightarrow> (Inr m, ms, d)),
     cv_commit = (\<lambda>w m. w),
     cv_write = (\<lambda>(p, d) topic ms. (None, if topic = ''t'' then (p @ ms, d) else (p, d @ ms))),
     cv_ctx_done = (\<lambda>w. False), cv_wait = (\<lambda>w d. (True, w)), cv_now = (\<lambda>w. 0),
     cv_handler = (\<lambda>w t. (Some (ErrorString ''failed''), t, w)),
     cv_close_reader = (\<lambda>w. (None, w)), cv_close_dlq = (\<lambda>w. (None, w))\<rparr>"

definition sample_consumer :: Consumer where
  "sample_consumer = NewConsumer \<lparr>cn_Brokers = [], cn_Topic = ''t'', cn_GroupID = [], cn_Workers = 0, cn_MaxRetries = 2,
     cn_RetryBackoff = 0, cn_DLQTopic = []\<rparr>"

lemma sample_consumer_config:
  "con_config sample_consumer = \<lparr>cn_Brokers = [], cn_Topic = ''t'', cn_GroupID = ''crawler-workers'', cn_Workers = 4, cn_MaxRetries = 2,
     cn_RetryBackoff = 5 * Second, cn_DLQTopic = ''t.dlq''\<rparr>" "con_stats sample_consumer = NewStats"
  by (simp_all add: sample_consumer_def NewConsumer_def ConsumerConfig_defaults_def Let_def)

lemma two_topics_laws:
  "broker_law two_topics (con_config sample_consumer) fst snd"
  "task_law two_topics (con_config sample_consumer) (range retried_task) fst snd"
  subgoal by (auto simp: broker_law_def two_topics_def sample_consumer_config split: list.splits)
  subgoal
    by (auto simp: task_law_def two_topics_def unary_codec_def CrawlTask_Encode_def DecodeTask_def sample_consumer_config
        retried_task_def sample_task_def intro: range_eqI [of _ _ "Suc n" for n])
  done


theorem shutdown_drops_tasks_witness:
  "Consumer_worker (two_topics\<lparr>cv_ctx_done := (\<lambda>w. True), cv_wait := (\<lambda>w d. (False, w))\<rparr>) sample_consumer ([], []) [retried_task 0] =
     Some (sample_consumer, ([], []), [retried_task 0]) \<and>
   handleFailure (two_topics\<lparr>cv_ctx_done := (\<lambda>w. True), cv_wait := (\<lambda>w d. (False, w))\<rparr>) sample_consumer ([], []) (retried_task 0)
     (ErrorString ''e'') = Some (sample_consumer\<lparr>con_stats := RecordError NewStats\<rparr>, ([], []))"
  using shutdown_drops_tasks [of "two_topics\<lparr>cv_ctx_done := (\<lambda>w. True), cv_wait := (\<lambda>w d. (False, w))\<rparr>" "([], [])"
      "retried_task 0" sample_consumer "[retried_task 0]" "ErrorString ''e''"]
  by (simp add: sample_consumer_config retried_task_def in_int64_def)

theorem negative_retry_panics_witness:
  "handleFailure two_topics sample_consumer ([], []) (sample_task\<lparr>task_RetryCount := -1\<rparr>) (ErrorString ''e'') = None"
  by (rule negative_retry_panics) (simp_all add: sample_consumer_config in_int64_def)

end
