(* ===== verification/Crawler_Concurrency.thy ===== *)
theory Crawler_Concurrency
  imports Crawl_Errors "HOL-Library.Multiset"
begin

text \<open>
  pkg/crawler/concurrency.go: the global and per-domain limits on concurrent requests.  The weighted
  semaphore (golang.org/x/sync/semaphore) is an argument, with what its documentation promises as
  \<open>semaphore_law\<close>.  \<open>Acquire\<close> has two blocking calls, so the step relation \<open>conc_step\<close> interleaves its
  halves with those of other goroutines.
\<close>

section \<open>Configuration\<close>

record ConcurrencyConfig =
  GlobalMaxConcurrency :: int
  PerDomainMaxConcurrency :: int
  DisablePerDomainLimits :: bool

definition ConcurrencyConfig_withDefaults :: "ConcurrencyConfig \<Rightarrow> ConcurrencyConfig" where
  "ConcurrencyConfig_withDefaults c0 =
     (let c1 = (if GlobalMaxConcurrency c0 = 0 then c0\<lparr>GlobalMaxConcurrency := 100\<rparr> else c0)
      in if PerDomainMaxConcurrency c1 = 0 then c1\<lparr>PerDomainMaxConcurrency := 5\<rparr> else c1)"

section \<open>The semaphore and the manager\<close>

text \<open>
  \<open>sem_Acquire ops err s\<close> takes one permit while the context's error is \<open>err\<close>: \<open>None\<close> says that the
  call blocks for now.  \<open>sem_Release\<close> is \<open>None\<close> when it panics.
\<close>

record 's sem_ops =
  sem_NewWeighted :: "int \<Rightarrow> 's"
  sem_Acquire :: "error option \<Rightarrow> 's \<Rightarrow> (error + 's) option"
  sem_Release :: "'s \<Rightarrow> 's option"

record 's ConcurrencyManager =
  cm_globalSem :: 's
  cm_domainSems :: "string \<rightharpoonup> 's"
  cm_cfg :: ConcurrencyConfig

definition NewConcurrencyManager :: "'s sem_ops \<Rightarrow> ConcurrencyConfig \<Rightarrow> 's ConcurrencyManager" where
  "NewConcurrencyManager ops cfg0 =
     (let cfg = ConcurrencyConfig_withDefaults cfg0
      in \<lparr>cm_globalSem = sem_NewWeighted ops (GlobalMaxConcurrency cfg), cm_domainSems = Map.empty, cm_cfg = cfg\<rparr>)"

definition getOrCreateDomainSem :: "'s sem_ops \<Rightarrow> 's ConcurrencyManager \<Rightarrow> string \<Rightarrow> 's \<times> 's ConcurrencyManager" where
  "getOrCreateDomainSem ops cm domain =
     (case cm_domainSems cm domain of
        Some sem \<Rightarrow> (sem, cm)
      | None \<Rightarrow>
          let sem = sem_NewWeighted ops (PerDomainMaxConcurrency (cm_cfg cm))
          in (sem, cm\<lparr>cm_domainSems := (cm_domainSems cm)(domain \<mapsto> sem)\<rparr>))"

text \<open>
  \<open>Acquire\<close> up to the point where it waits for the domain, and from there on.  A permit of the
  semaphore the map points to shows in the map.
\<close>

datatype acquire_result = Blocked | Failed error | Acquired | AtDomain | ReleasePanic

definition Acquire_global ::
  "'s sem_ops \<Rightarrow> error option \<Rightarrow> 's ConcurrencyManager \<Rightarrow> acquire_result \<times> 's ConcurrencyManager" where
  "Acquire_global ops ctx cm =
     (case sem_Acquire ops ctx (cm_globalSem cm) of
        None \<Rightarrow> (Blocked, cm)
      | Some (Inl err) \<Rightarrow> (Failed err, cm)
      | Some (Inr g) \<Rightarrow>
          let cm1 = cm\<lparr>cm_globalSem := g\<rparr>
          in if DisablePerDomainLimits (cm_cfg cm1) then (Acquired, cm1)
             else (AtDomain, cm1))"

definition Acquire_domain ::
  "'s sem_ops \<Rightarrow> error option \<Rightarrow> 's ConcurrencyManager \<Rightarrow> string \<Rightarrow> acquire_result \<times> 's ConcurrencyManager" where
  "Acquire_domain ops ctx cm domain =
     (case getOrCreateDomainSem ops cm domain of (sem, cm1) \<Rightarrow>
        (case sem_Acquire ops ctx sem of
           None \<Rightarrow> (Blocked, cm1)
         | Some (Inl err) \<Rightarrow>
             (case sem_Release ops (cm_globalSem cm1) of
                None \<Rightarrow> (ReleasePanic, cm1)
              | Some g \<Rightarrow> (Failed err, cm1\<lparr>cm_globalSem := g\<rparr>))
         | Some (Inr s) \<Rightarrow> (Acquired, cm1\<lparr>cm_domainSems := (cm_domainSems cm1)(domain \<mapsto> s)\<rparr>)))"

text \<open>The whole call, when nothing else runs in between.\<close>

definition Concurrency_Acquire ::
  "'s sem_ops \<Rightarrow> error option \<Rightarrow> 's ConcurrencyManager \<Rightarrow> string \<Rightarrow> acquire_result \<times> 's ConcurrencyManager" where
  "Concurrency_Acquire ops ctx cm domain =
     (case Acquire_global ops ctx cm of
        (AtDomain, cm1) \<Rightarrow> Acquire_domain ops ctx cm1 domain
      | r \<Rightarrow> r)"

definition Concurrency_Release :: "'s sem_ops \<Rightarrow> 's ConcurrencyManager \<Rightarrow> string \<Rightarrow> 's ConcurrencyManager option" where
  "Concurrency_Release ops cm domain =
     (let domain_released =
        (if DisablePerDomainLimits (cm_cfg cm) then Some cm
         else (case cm_domainSems cm domain of
             None \<Rightarrow> Some cm
           | Some sem \<Rightarrow>
               (case sem_Release ops sem of
                  None \<Rightarrow> None
                | Some s \<Rightarrow> Some (cm\<lparr>cm_domainSems := (cm_domainSems cm)(domain \<mapsto> s)\<rparr>))))
      in case domain_released of
           None \<Rightarrow> None
         | Some cm1 \<Rightarrow>
             (case sem_Release ops (cm_globalSem cm1) of
                None \<Rightarrow> None
              | Some g \<Rightarrow> Some (cm1\<lparr>cm_globalSem := g\<rparr>)))"

section \<open>Goroutines\<close>

text \<open>
  \<open>waiting\<close> are the domains of the goroutines inside \<open>Acquire\<close> that wait for their domain, \<open>holding\<close>
  those of the goroutines whose \<open>Acquire\<close> has returned nil and that have not called \<open>Release\<close> yet.
\<close>

record 's conc_state =
  cs_cm :: "'s ConcurrencyManager"
  cs_waiting :: "string multiset"
  cs_holding :: "string multiset"

inductive conc_step :: "'s sem_ops \<Rightarrow> 's conc_state \<Rightarrow> 's conc_state \<Rightarrow> bool" for ops where
  enter: "Acquire_global ops ctx cm = (AtDomain, cm') \<Longrightarrow>
     conc_step ops \<lparr>cs_cm = cm, cs_waiting = W, cs_holding = H\<rparr> \<lparr>cs_cm = cm', cs_waiting = add_mset d W, cs_holding = H\<rparr>"
| enter_done: "Acquire_global ops ctx cm = (Acquired, cm') \<Longrightarrow>
     conc_step ops \<lparr>cs_cm = cm, cs_waiting = W, cs_holding = H\<rparr> \<lparr>cs_cm = cm', cs_waiting = W, cs_holding = add_mset d H\<rparr>"
| enter_failed: "Acquire_global ops ctx cm = (Failed err, cm') \<Longrightarrow>
     conc_step ops \<lparr>cs_cm = cm, cs_waiting = W, cs_holding = H\<rparr> \<lparr>cs_cm = cm', cs_waiting = W, cs_holding = H\<rparr>"
| get: "Acquire_domain ops ctx cm d = (Acquired, cm') \<Longrightarrow>
     conc_step ops \<lparr>cs_cm = cm, cs_waiting = add_mset d W, cs_holding = H\<rparr> \<lparr>cs_cm = cm', cs_waiting = W, cs_holding = add_mset d H\<rparr>"
| get_failed: "Acquire_domain ops ctx cm d = (Failed err, cm') \<Longrightarrow>
     conc_step ops \<lparr>cs_cm = cm, cs_waiting = add_mset d W, cs_holding = H\<rparr> \<lparr>cs_cm = cm', cs_waiting = W, cs_holding = H\<rparr>"
| release: "Concurrency_Release ops cm d = Some cm' \<Longrightarrow>
     conc_step ops \<lparr>cs_cm = cm, cs_waiting = W, cs_holding = add_mset d H\<rparr> \<lparr>cs_cm = cm', cs_waiting = W, cs_holding = H\<rparr>"

inductive_cases conc_stepE: "conc_step ops s s'"

definition conc_start :: "'s sem_ops \<Rightarrow> ConcurrencyConfig \<Rightarrow> 's conc_state" where
  "conc_start ops cfg = \<lparr>cs_cm = NewConcurrencyManager ops cfg, cs_waiting = {#}, cs_holding = {#}\<rparr>"

text \<open>
  What the documentation of the semaphore says: it counts the permits taken, hands one out only
  below its size, keeps its state when the context ends the wait, and panics on a release only when
  no permit is out.
\<close>

definition semaphore_law :: "'s sem_ops \<Rightarrow> ('s \<Rightarrow> int) \<Rightarrow> ('s \<Rightarrow> nat) \<Rightarrow> bool" where
  "semaphore_law ops cap held \<longleftrightarrow>
     (\<forall>n. cap (sem_NewWeighted ops n) = n \<and> held (sem_NewWeighted ops n) = 0) \<and>
     (\<forall>ctx s s'. sem_Acquire ops ctx s = Some (Inr s') \<longrightarrow> cap s' = cap s \<and> held s' = held s + 1 \<and> int (held s') \<le> cap s') \<and>
     (\<forall>s. 0 < held s \<longrightarrow> (\<exists>s'. sem_Release ops s = Some s' \<and> cap s' = cap s \<and> held s' = held s - 1))"

definition domain_held :: "('s \<Rightarrow> nat) \<Rightarrow> 's ConcurrencyManager \<Rightarrow> string \<Rightarrow> nat" where
  "domain_held held cm d = (case cm_domainSems cm d of None \<Rightarrow> 0 | Some s \<Rightarrow> held s)"

text \<open>Permits are out exactly for the goroutines that have them.\<close>

definition conc_inv :: "('s \<Rightarrow> int) \<Rightarrow> ('s \<Rightarrow> nat) \<Rightarrow> ConcurrencyConfig \<Rightarrow> 's conc_state \<Rightarrow> bool" where
  "conc_inv cap held cfg st \<longleftrightarrow>
     (let cm = cs_cm st; W = cs_waiting st; H = cs_holding st
      in cm_cfg cm = cfg \<and>
         cap (cm_globalSem cm) = GlobalMaxConcurrency cfg \<and> held (cm_globalSem cm) = size W + size H \<and>
         (W + H \<noteq> {#} \<longrightarrow> int (size W + size H) \<le> GlobalMaxConcurrency cfg) \<and>
         (if DisablePerDomainLimits cfg then W = {#}
          else (\<forall>d. domain_held held cm d = count H d \<and> (0 < count H d \<longrightarrow> int (count H d) \<le> PerDomainMaxConcurrency cfg)) \<and>
            (\<forall>d s. cm_domainSems cm d = Some s \<longrightarrow> cap s = PerDomainMaxConcurrency cfg)))"

lemmas conc_defs = Acquire_global_def Acquire_domain_def getOrCreateDomainSem_def Concurrency_Release_def Let_def

lemma conc_inv_start:
  assumes "semaphore_law ops cap held"
  shows "conc_inv cap held (ConcurrencyConfig_withDefaults cfg) (conc_start ops cfg)"
  using assms by (simp add: conc_inv_def conc_start_def NewConcurrencyManager_def semaphore_law_def domain_held_def Let_def)

text \<open>What the laws say of the permits after each half of \<open>Acquire\<close> and after \<open>Release\<close>.\<close>

lemma semaphore_acquired:
  assumes "semaphore_law ops cap held" "sem_Acquire ops ctx s = Some (Inr s')"
  shows "cap s' = cap s" "held s' = Suc (held s)" "int (held s') \<le> cap s"
  using assms unfolding semaphore_law_def by (metis Suc_eq_plus1)+

lemma semaphore_released:
  assumes "semaphore_law ops cap held" "0 < held s"
  obtains s' where "sem_Release ops s = Some s'" "cap s' = cap s" "held s' = held s - 1"
  using assms unfolding semaphore_law_def by metis

lemma Acquire_global_permits:
  assumes law: "semaphore_law ops cap held" and a: "Acquire_global ops ctx cm = (r, cm')" and r: "r = AtDomain \<or> r = Acquired"
  shows "cm_cfg cm' = cm_cfg cm" "cm_domainSems cm' = cm_domainSems cm" "cap (cm_globalSem cm') = cap (cm_globalSem cm)"
    "held (cm_globalSem cm') = Suc (held (cm_globalSem cm))" "int (held (cm_globalSem cm')) \<le> cap (cm_globalSem cm)"
    "r = Acquired \<longleftrightarrow> DisablePerDomainLimits (cm_cfg cm)"
proof -
  obtain g where g: "sem_Acquire ops ctx (cm_globalSem cm) = Some (Inr g)"
    using a r by (auto simp: Acquire_global_def split: option.splits sum.splits)
  show "cm_cfg cm' = cm_cfg cm" "cm_domainSems cm' = cm_domainSems cm" "cap (cm_globalSem cm') = cap (cm_globalSem cm)"
    "held (cm_globalSem cm') = Suc (held (cm_globalSem cm))" "int (held (cm_globalSem cm')) \<le> cap (cm_globalSem cm)"
    "r = Acquired \<longleftrightarrow> DisablePerDomainLimits (cm_cfg cm)"
    using a r semaphore_acquired [OF law g] by (auto simp: Acquire_global_def g Let_def split: if_splits)
qed

text \<open>Every domain semaphore has the configured size; creating one takes no permit.\<close>

definition domain_caps :: "('s \<Rightarrow> int) \<Rightarrow> 's ConcurrencyManager \<Rightarrow> bool" where
  "domain_caps cap cm \<longleftrightarrow> (\<forall>d s. cm_domainSems cm d = Some s \<longrightarrow> cap s = PerDomainMaxConcurrency (cm_cfg cm))"

lemma getOrCreateDomainSem_permits:
  assumes "semaphore_law ops cap held" "domain_caps cap cm" "getOrCreateDomainSem ops cm d = (sem, cm')"
  shows "cm_cfg cm' = cm_cfg cm" "cm_globalSem cm' = cm_globalSem cm" "domain_caps cap cm'" "cm_domainSems cm' d = Some sem"
    "domain_held held cm' = domain_held held cm"
  using assms by (auto simp: getOrCreateDomainSem_def semaphore_law_def domain_caps_def domain_held_def fun_eq_iff Let_def split: option.splits if_splits)

lemma domain_caps_update:
  "\<lbrakk>domain_caps cap cm; cap s = PerDomainMaxConcurrency (cm_cfg cm)\<rbrakk> \<Longrightarrow>
   domain_caps cap (cm\<lparr>cm_domainSems := (cm_domainSems cm)(d \<mapsto> s)\<rparr>)"
  by (simp add: domain_caps_def)

lemma global_sem_frame [simp]:
  "domain_held held (cm\<lparr>cm_globalSem := g\<rparr>) = domain_held held cm" "domain_caps cap (cm\<lparr>cm_globalSem := g\<rparr>) = domain_caps cap cm"
  by (simp_all add: domain_held_def domain_caps_def fun_eq_iff)

lemma Acquire_domain_acquired:
  assumes law: "semaphore_law ops cap held" and caps: "domain_caps cap cm" and a: "Acquire_domain ops ctx cm d = (Acquired, cm')"
  shows "cm_cfg cm' = cm_cfg cm" "cm_globalSem cm' = cm_globalSem cm" "domain_caps cap cm'"
    "domain_held held cm' = (domain_held held cm)(d := Suc (domain_held held cm d))"
    "int (Suc (domain_held held cm d)) \<le> PerDomainMaxConcurrency (cm_cfg cm)"
proof -
  obtain sem cm1 where g: "getOrCreateDomainSem ops cm d = (sem, cm1)" by fastforce
  note p = getOrCreateDomainSem_permits [OF law caps g]
  obtain s where s: "sem_Acquire ops ctx sem = Some (Inr s)" "cm' = cm1\<lparr>cm_domainSems := (cm_domainSems cm1)(d \<mapsto> s)\<rparr>"
    using a g by (auto simp: Acquire_domain_def split: option.splits sum.splits)
  note q = semaphore_acquired [OF law s(1)]
  have c: "cap sem = PerDomainMaxConcurrency (cm_cfg cm)" using p(1,3,4) by (simp add: domain_caps_def)
  have h: "held sem = domain_held held cm d" using p(4,5) by (metis domain_held_def option.simps(5))
  show "cm_cfg cm' = cm_cfg cm" "cm_globalSem cm' = cm_globalSem cm" using s(2) p by simp_all
  show "domain_caps cap cm'" using s(2) domain_caps_update [OF p(3), of s d] c q p(1) by simp
  show "domain_held held cm' = (domain_held held cm)(d := Suc (domain_held held cm d))"
    using s(2) q h p(5) [symmetric] by (simp add: domain_held_def fun_eq_iff)
  show "int (Suc (domain_held held cm d)) \<le> PerDomainMaxConcurrency (cm_cfg cm)" using q h c by simp
qed

lemma Acquire_domain_failed:
  assumes law: "semaphore_law ops cap held" and caps: "domain_caps cap cm" and a: "Acquire_domain ops ctx cm d = (Failed err, cm')"
    and h: "0 < held (cm_globalSem cm)"
  shows "cm_cfg cm' = cm_cfg cm" "domain_caps cap cm'" "cap (cm_globalSem cm') = cap (cm_globalSem cm)"
    "held (cm_globalSem cm') = held (cm_globalSem cm) - 1" "domain_held held cm' = domain_held held cm"
proof -
  obtain sem cm1 where g: "getOrCreateDomainSem ops cm d = (sem, cm1)" by fastforce
  note p = getOrCreateDomainSem_permits [OF law caps g]
  obtain s' where "sem_Release ops (cm_globalSem cm) = Some s'" "cap s' = cap (cm_globalSem cm)" "held s' = held (cm_globalSem cm) - 1"
    using semaphore_released [OF law h] by blast
  then show "cm_cfg cm' = cm_cfg cm" "domain_caps cap cm'" "cap (cm_globalSem cm') = cap (cm_globalSem cm)"
    "held (cm_globalSem cm') = held (cm_globalSem cm) - 1" "domain_held held cm' = domain_held held cm"
    using a g p by (auto simp: Acquire_domain_def split: option.splits sum.splits)
qed

lemma Release_permits:
  assumes law: "semaphore_law ops cap held" and h: "0 < held (cm_globalSem cm)"
    and d: "DisablePerDomainLimits (cm_cfg cm) \<or> 0 < domain_held held cm d"
  obtains cm' where "Concurrency_Release ops cm d = Some cm'" "cm_cfg cm' = cm_cfg cm"
    "cap (cm_globalSem cm') = cap (cm_globalSem cm)" "held (cm_globalSem cm') = held (cm_globalSem cm) - 1"
    "domain_caps cap cm \<longrightarrow> domain_caps cap cm'"
    "\<not> DisablePerDomainLimits (cm_cfg cm) \<longrightarrow>
     domain_held held cm' = (domain_held held cm)(d := domain_held held cm d - 1)"
proof -
  obtain g where g: "sem_Release ops (cm_globalSem cm) = Some g" "cap g = cap (cm_globalSem cm)" "held g = held (cm_globalSem cm) - 1"
    using semaphore_released [OF law h] by blast
  show thesis
  proof (cases "DisablePerDomainLimits (cm_cfg cm)")
    case True
    have "Concurrency_Release ops cm d = Some (cm\<lparr>cm_globalSem := g\<rparr>)"
      using True g by (simp add: Concurrency_Release_def)
    then show thesis by (rule that) (use g True in \<open>simp_all add: domain_caps_def\<close>)
  next
    case False
    obtain s where s: "cm_domainSems cm d = Some s" "0 < held s"
      using d False by (auto simp: domain_held_def split: option.splits)
    obtain s' where s': "sem_Release ops s = Some s'" "cap s' = cap s" "held s' = held s - 1"
      using semaphore_released [OF law s(2)] by blast
    have "Concurrency_Release ops cm d = Some (cm\<lparr>cm_domainSems := (cm_domainSems cm)(d \<mapsto> s'), cm_globalSem := g\<rparr>)"
      using False g s s' by (simp add: Concurrency_Release_def Let_def)
    then show thesis
      by (rule that) (use g s s' in \<open>simp_all add: domain_caps_def domain_held_def fun_eq_iff\<close>)
  qed
qed

lemma conc_inv_alt:
  "conc_inv cap held cfg \<lparr>cs_cm = cm, cs_waiting = W, cs_holding = H\<rparr> \<longleftrightarrow>
     cm_cfg cm = cfg \<and> cap (cm_globalSem cm) = GlobalMaxConcurrency cfg \<and> held (cm_globalSem cm) = size W + size H \<and>
     (W + H \<noteq> {#} \<longrightarrow> int (size W + size H) \<le> GlobalMaxConcurrency cfg) \<and>
     (if DisablePerDomainLimits cfg then W = {#}
      else (\<forall>d. domain_held held cm d = count H d \<and> (0 < count H d \<longrightarrow> int (count H d) \<le> PerDomainMaxConcurrency cfg)) \<and>
        domain_caps cap cm)"
  by (auto simp: conc_inv_def domain_caps_def Let_def)

lemma conc_inv_step:
  assumes law: "semaphore_law ops cap held" and inv: "conc_inv cap held cfg s" and step: "conc_step ops s s'"
  shows "conc_inv cap held cfg s'"
  using step inv
proof cases
  case (enter ctx cm cm' W H d)
  show ?thesis using inv Acquire_global_permits [OF law enter(3)]
    unfolding enter(1,2) conc_inv_alt by (auto simp: domain_held_def domain_caps_def split: if_splits)
next
  case (enter_done ctx cm cm' W H d)
  show ?thesis using inv Acquire_global_permits [OF law enter_done(3)]
    unfolding enter_done(1,2) conc_inv_alt by (auto split: if_splits)
next
  case (enter_failed ctx cm err cm' W H)
  then have "cm' = cm" by (auto simp: Acquire_global_def Let_def split: option.splits sum.splits if_splits)
  then show ?thesis using inv enter_failed by simp
next
  case (get ctx cm d cm' W H)
  have i: "\<not> DisablePerDomainLimits cfg" "domain_caps cap cm" using inv unfolding get(1) conc_inv_alt by (auto split: if_splits)
  show ?thesis using inv i Acquire_domain_acquired [OF law i(2) get(3)]
    unfolding get(1,2) conc_inv_alt by (auto split: if_splits)
next
  case (get_failed ctx cm d err cm' W H)
  have i: "\<not> DisablePerDomainLimits cfg" "domain_caps cap cm" "0 < held (cm_globalSem cm)"
    using inv unfolding get_failed(1) conc_inv_alt by (auto split: if_splits)
  show ?thesis using inv i Acquire_domain_failed [OF law i(2) get_failed(3) i(3)]
    unfolding get_failed(1,2) conc_inv_alt by (auto split: if_splits)
next
  case (release cm d cm' W H)
  have i: "0 < held (cm_globalSem cm)" "DisablePerDomainLimits (cm_cfg cm) \<or> 0 < domain_held held cm d"
    using inv unfolding release(1) conc_inv_alt by (auto split: if_splits)
  obtain c where c: "Concurrency_Release ops cm d = Some c" "cm_cfg c = cm_cfg cm" "cap (cm_globalSem c) = cap (cm_globalSem cm)"
    "held (cm_globalSem c) = held (cm_globalSem cm) - 1" "domain_caps cap cm \<longrightarrow> domain_caps cap c"
    "\<not> DisablePerDomainLimits (cm_cfg cm) \<longrightarrow> domain_held held c = (domain_held held cm)(d := domain_held held cm d - 1)"
    by (rule Release_permits [OF law i])
  have "cm' = c" using c(1) release(3) by simp
  note I = inv [unfolded release(1) conc_inv_alt]
  have bound: "int (count H x) \<le> PerDomainMaxConcurrency cfg" if "\<not> DisablePerDomainLimits cfg" "0 < count H x" for x
  proof -
    have "int (count (add_mset d H) x) \<le> PerDomainMaxConcurrency cfg" using I that by simp
    then show ?thesis by (simp split: if_splits)
  qed
  show ?thesis using I c(2-6) bound unfolding release(2) conc_inv_alt \<open>cm' = c\<close> by simp
qed

lemma conc_inv_run:
  assumes "semaphore_law ops cap held" "(conc_step ops)\<^sup>*\<^sup>* (conc_start ops cfg) s"
  shows "conc_inv cap held (ConcurrencyConfig_withDefaults cfg) s"
  using assms(2) by induction (use assms(1) conc_inv_start conc_inv_step in blast)+


text \<open>A counting semaphore: its size and the permits that are out.\<close>

definition counting_sem :: "(int \<times> nat) sem_ops" where
  "counting_sem = \<lparr>sem_NewWeighted = (\<lambda>n. (n, 0)),
     sem_Acquire = (\<lambda>ctx (n, k). case ctx of Some e \<Rightarrow> Some (Inl e) | None \<Rightarrow> if int k + 1 \<le> n then Some (Inr (n, k + 1)) else None),
     sem_Release = (\<lambda>(n, k). if 0 < k then Some (n, k - 1) else None)\<rparr>"

lemma counting_sem_law: "semaphore_law counting_sem fst snd"
  by (auto simp: semaphore_law_def counting_sem_def split: option.splits)

definition one_per_domain :: ConcurrencyConfig where
  "one_per_domain = \<lparr>GlobalMaxConcurrency = 2, PerDomainMaxConcurrency = 1, DisablePerDomainLimits = False\<rparr>"


end
