(* ===== verification/Http_Client.thy ===== *)
theory Http_Client
  imports Net_URL Crawl_Errors
begin

text \<open>
  pkg/client: the HTTP client of the engine, its transport configuration, proxies and buffer pool.
  net/http's exchange with the server is a field of the environment; the request it is given, and
  what the client makes of the answer, are modelled.  SOCKS5 dialers (golang.org/x/net/proxy) are
  arguments.
\<close>

section \<open>http.Header\<close>

type_synonym http_Header = "string \<rightharpoonup> string list"

definition token_char :: "char \<Rightarrow> bool" where
  "token_char c \<longleftrightarrow> is_alnum c \<or> c \<in> set ''!#$%&*+-.^_`|~'' \<or> c = CHR 0x27"

fun canon_chars :: "bool \<Rightarrow> string \<Rightarrow> string" where
  "canon_chars up [] = []"
| "canon_chars up (c # cs) = (if up then upper_char c else lower_char c) # canon_chars (c = CHR ''-'') cs"

definition CanonicalHeaderKey :: "string \<Rightarrow> string" where
  "CanonicalHeaderKey s = (if list_all token_char s then canon_chars True s else s)"

definition Header_Set :: "http_Header \<Rightarrow> string \<Rightarrow> string \<Rightarrow> http_Header" where
  "Header_Set h k v = h(CanonicalHeaderKey k \<mapsto> [v])"

definition Header_Get :: "http_Header \<Rightarrow> string \<Rightarrow> string" where
  "Header_Get h k = (case h (CanonicalHeaderKey k) of Some (v # vs) \<Rightarrow> v | _ \<Rightarrow> [])"

text \<open>The error of \<^verbatim>\<open>url.Parse\<close>, without the reason it ends with.\<close>

definition url_Error :: "string \<Rightarrow> error" where
  "url_Error s = ErrorString (''parse '' @ strconv_Quote s)"

section \<open>proxy.go and transport.go\<close>

record ProxyConfig =
  proxy_URL :: string
  proxy_Username :: string
  proxy_Password :: string

record TransportConfig =
  MaxIdleConns :: int
  MaxIdleConnsPerHost :: int
  MaxConnsPerHost :: int
  DialTimeout :: Duration
  TLSHandshakeTimeout :: Duration
  ResponseHeaderTimeout :: Duration
  IdleConnTimeout :: Duration
  DisableHTTP2 :: bool
  DisableCompression :: bool
  tc_Proxy :: ProxyConfig

definition TransportConfig_withDefaults :: "TransportConfig \<Rightarrow> TransportConfig" where
  "TransportConfig_withDefaults c0 =
     (let c1 = (if MaxIdleConns c0 = 0 then c0\<lparr>MaxIdleConns := 100\<rparr> else c0);
          c2 = (if MaxIdleConnsPerHost c1 = 0 then c1\<lparr>MaxIdleConnsPerHost := 20\<rparr> else c1);
          c3 = (if DialTimeout c2 = 0 then c2\<lparr>DialTimeout := 10 * Second\<rparr> else c2);
          c4 = (if TLSHandshakeTimeout c3 = 0 then c3\<lparr>TLSHandshakeTimeout := 10 * Second\<rparr> else c3);
          c5 = (if ResponseHeaderTimeout c4 = 0 then c4\<lparr>ResponseHeaderTimeout := 15 * Second\<rparr> else c4)
      in if IdleConnTimeout c5 = 0 then c5\<lparr>IdleConnTimeout := 90 * Second\<rparr> else c5)"

text \<open>Where a transport dials: directly with a time-out and keep-alive, or through a SOCKS5 dialer,
  which honours the context or not.\<close>

datatype 'd dial = NetDialer Duration Duration | ContextDialer 'd | PlainDialer 'd

text \<open>\<open>sx_SOCKS5\<close> is \<^verbatim>\<open>proxy.SOCKS5\<close>: network, address, credentials, time-out and keep-alive.\<close>

record 'd socks_lib =
  sx_SOCKS5 :: "string \<Rightarrow> string \<Rightarrow> (string \<times> string) option \<Rightarrow> Duration \<Rightarrow> Duration \<Rightarrow> error + 'd"
  sx_is_ContextDialer :: "'d \<Rightarrow> bool"

record 'd http_Transport =
  tr_DialContext :: "'d dial"
  tr_MinVersion :: string
  tr_TLSHandshakeTimeout :: Duration
  tr_ResponseHeaderTimeout :: Duration
  tr_MaxIdleConns :: int
  tr_MaxIdleConnsPerHost :: int
  tr_MaxConnsPerHost :: int
  tr_IdleConnTimeout :: Duration
  tr_ForceAttemptHTTP2 :: bool
  tr_DisableCompression :: bool
  tr_Proxy :: "URL option"

definition newSOCKS5Dialer :: "'d socks_lib \<Rightarrow> URL \<Rightarrow> Duration \<Rightarrow> error + 'd dial" where
  "newSOCKS5Dialer lib u dialTimeout =
     (let auth = (case url_User u of None \<Rightarrow> None | Some (name, pass) \<Rightarrow> Some (name, case pass of None \<Rightarrow> [] | Some p \<Rightarrow> p))
      in case sx_SOCKS5 lib ''tcp'' (url_Host u) auth dialTimeout (30 * Second) of
           Inl err \<Rightarrow> Inl err
         | Inr d \<Rightarrow> Inr (if sx_is_ContextDialer lib d then ContextDialer d else PlainDialer d))"

definition applyProxy :: "'d socks_lib \<Rightarrow> 'd http_Transport \<Rightarrow> ProxyConfig \<Rightarrow> Duration \<Rightarrow> error + 'd http_Transport" where
  "applyProxy lib t cfg dialTimeout =
     (if proxy_URL cfg = [] then Inr t
      else (case url_Parse (proxy_URL cfg) of
          None \<Rightarrow> Inl (WrapError ''parse proxy URL: '' (url_Error (proxy_URL cfg)) [])
        | Some u0 \<Rightarrow>
            let u = (if proxy_Username cfg \<noteq> [] then u0\<lparr>url_User := Some (proxy_Username cfg, Some (proxy_Password cfg))\<rparr> else u0)
            in if url_Scheme u = ''http'' \<or> url_Scheme u = ''https'' then Inr (t\<lparr>tr_Proxy := Some u\<rparr>)
               else if url_Scheme u = ''socks5'' then
                 (case newSOCKS5Dialer lib u dialTimeout of
                    Inl err \<Rightarrow> Inl (WrapError ''create SOCKS5 dialer: '' err [])
                  | Inr d \<Rightarrow> Inr (t\<lparr>tr_DialContext := d\<rparr>))
               else Inl (ErrorString (''unsupported proxy scheme: '' @ strconv_Quote (url_Scheme u) @ '' (use http, https, or socks5)''))))"

definition buildTransport :: "'d socks_lib \<Rightarrow> TransportConfig \<Rightarrow> error + 'd http_Transport" where
  "buildTransport lib cfg =
     applyProxy lib
       \<lparr>tr_DialContext = NetDialer (DialTimeout cfg) (30 * Second), tr_MinVersion = ''TLS 1.2'',
        tr_TLSHandshakeTimeout = TLSHandshakeTimeout cfg, tr_ResponseHeaderTimeout = ResponseHeaderTimeout cfg,
        tr_MaxIdleConns = MaxIdleConns cfg, tr_MaxIdleConnsPerHost = MaxIdleConnsPerHost cfg,
        tr_MaxConnsPerHost = MaxConnsPerHost cfg, tr_IdleConnTimeout = IdleConnTimeout cfg,
        tr_ForceAttemptHTTP2 = (\<not> DisableHTTP2 cfg), tr_DisableCompression = DisableCompression cfg, tr_Proxy = None\<rparr>
       (tc_Proxy cfg) (DialTimeout cfg)"

section \<open>pool.go\<close>

record 'd Pool =
  pool_transport :: "'d http_Transport"
  pool_totalRequests :: int

definition newPool :: "'d socks_lib \<Rightarrow> TransportConfig \<Rightarrow> error + 'd Pool" where
  "newPool lib cfg = (case buildTransport lib cfg of Inl err \<Rightarrow> Inl err
     | Inr t \<Rightarrow> Inr \<lparr>pool_transport = t, pool_totalRequests = 0\<rparr>)"

definition pool_stats :: "'d Pool \<Rightarrow> int" where
  "pool_stats p = pool_totalRequests p"

definition recordRequest :: "'d Pool \<Rightarrow> 'd Pool" where
  "recordRequest p = p\<lparr>pool_totalRequests := wrap64 (pool_totalRequests p + 1)\<rparr>"

text \<open>
  A \<^verbatim>\<open>bytes.Buffer\<close> is its contents and its capacity.  \<open>Grow\<close> panics on a negative size and on a
  slice larger than the address space the runtime hands out (48 bits); what it allocates is its
  argument's size at least.
\<close>

record bytes_Buffer =
  buf_bytes :: string
  buf_cap :: int

definition maxAlloc :: int where "maxAlloc = 2 ^ 48"

definition buf_Reset :: "bytes_Buffer \<Rightarrow> bytes_Buffer" where
  "buf_Reset b = b\<lparr>buf_bytes := []\<rparr>"

definition buf_Grow :: "bytes_Buffer \<Rightarrow> int \<Rightarrow> bytes_Buffer option" where
  "buf_Grow b n =
     (let need = int (length (buf_bytes b)) + n
      in if n < 0 then None
         else if need \<le> buf_cap b then Some b
         else if maxAlloc < max need (2 * buf_cap b) then None
         else Some (b\<lparr>buf_cap := max need (2 * buf_cap b)\<rparr>))"

text \<open>The shared pool: the buffers that may be handed out again.  \<open>pick\<close> is the runtime's choice of one
  of them, or of none.\<close>

definition acquireBuf :: "(bytes_Buffer list \<Rightarrow> nat option) \<Rightarrow> bytes_Buffer list \<Rightarrow> bytes_Buffer \<times> bytes_Buffer list" where
  "acquireBuf pick pool =
     (case pick pool of
        Some i \<Rightarrow> if i < length pool then (buf_Reset (pool ! i), take i pool @ drop (Suc i) pool)
                  else (\<lparr>buf_bytes = [], buf_cap = 0\<rparr>, pool)
      | None \<Rightarrow> (\<lparr>buf_bytes = [], buf_cap = 0\<rparr>, pool))"

definition releaseBuf :: "bytes_Buffer list \<Rightarrow> bytes_Buffer \<Rightarrow> bytes_Buffer list" where
  "releaseBuf pool b = (if buf_cap b \<le> 2 ^ 20 then b # pool else pool)"

section \<open>client.go\<close>

record client_Request =
  cr_URL :: string
  cr_Method :: string
  cr_Headers :: "string_map option"
  cr_Body :: "string option"
  cr_Timeout :: Duration
  cr_Metadata :: "string_map option"

record client_Response =
  cs_StatusCode :: int
  cs_Headers :: http_Header
  cs_Body :: string
  cs_ContentType :: string
  cs_FetchTime :: Duration
  cs_FinalURL :: string

record 'j client_Config =
  cl_Timeout :: Duration
  cl_MaxRedirects :: int
  cl_UserAgent :: string
  cl_Transport :: TransportConfig
  cl_CookieJar :: "'j option"

definition client_Config_withDefaults :: "'j client_Config \<Rightarrow> 'j client_Config" where
  "client_Config_withDefaults c0 =
     (let c1 = (if cl_Timeout c0 = 0 then c0\<lparr>cl_Timeout := 30 * Second\<rparr> else c0);
          c2 = (if cl_MaxRedirects c1 = 0 then c1\<lparr>cl_MaxRedirects := 10\<rparr> else c1);
          c3 = (if cl_UserAgent c2 = [] then c2\<lparr>cl_UserAgent := ''web_crawler/0.1''\<rparr> else c2)
      in c3\<lparr>cl_Transport := TransportConfig_withDefaults (cl_Transport c3)\<rparr>)"

text \<open>\<^verbatim>\<open>http.Client\<close>; \<open>hcl_CheckRedirect\<close> gets the number of requests already made.\<close>

record ('d, 'j) http_Client =
  hcl_Transport :: "'d http_Transport"
  hcl_Timeout :: Duration
  hcl_Jar :: "'j option"
  hcl_CheckRedirect :: "int \<Rightarrow> error option"

record ('d, 'j) Client =
  client_httpClient :: "('d, 'j) http_Client"
  client_cfg :: "'j client_Config"
  client_pool :: "'d Pool"

definition CheckRedirect :: "'j client_Config \<Rightarrow> int \<Rightarrow> error option" where
  "CheckRedirect cfg via =
     (if cl_MaxRedirects cfg \<le> via
      then Some (ErrorString (''stopped after '' @ strconv_Itoa (cl_MaxRedirects cfg) @ '' redirects'')) else None)"

text \<open>\<^verbatim>\<open>http.Client\<close> is made after the options ran, so they can replace the pool and the configuration
  the client keeps, but not the configuration its \<^verbatim>\<open>http.Client\<close> is made from.\<close>

definition client_New :: "'d socks_lib \<Rightarrow> 'j client_Config \<Rightarrow> (('d, 'j) Client \<Rightarrow> ('d, 'j) Client) list \<Rightarrow> error + ('d, 'j) Client" where
  "client_New lib cfg0 opts =
     (let cfg = client_Config_withDefaults cfg0
      in case newPool lib (cl_Transport cfg) of
           Inl err \<Rightarrow> Inl (WrapError ''create connection pool: '' err [])
         | Inr pool \<Rightarrow>
             let hc = (\<lambda>p. \<lparr>hcl_Transport = pool_transport p, hcl_Timeout = cl_Timeout cfg, hcl_Jar = cl_CookieJar cfg,
                            hcl_CheckRedirect = CheckRedirect cfg\<rparr>);
                 c = foldl (\<lambda>c opt. opt c) \<lparr>client_httpClient = hc pool, client_cfg = cfg, client_pool = pool\<rparr> opts
             in Inr (c\<lparr>client_httpClient := hc (client_pool c)\<rparr>))"

record http_Request =
  hr_Method :: string
  hr_URL :: URL
  hr_Header :: http_Header
  hr_Body :: "string option"

record http_Response =
  hs_StatusCode :: int
  hs_Header :: http_Header
  hs_Body :: "error + string"
  hs_RequestURL :: URL

text \<open>
  \<open>ce_Do\<close> is \<^verbatim>\<open>http.Client.Do\<close> with the deadline of the request, if it has one of its own, \<open>ce_range\<close>
  the order in which the runtime iterates over a map, \<open>ce_pick\<close> the choice of a pooled buffer, and
  \<open>ce_bufs\<close>, \<open>ce_set_bufs\<close> the pool of buffers.
\<close>

record ('w, 'd, 'j) client_env =
  ce_Do :: "'w \<Rightarrow> ('d, 'j) http_Client \<Rightarrow> Duration option \<Rightarrow> http_Request \<Rightarrow> (error + http_Response) \<times> 'w"
  ce_now :: "'w \<Rightarrow> Time"
  ce_range :: "string_map \<Rightarrow> string list"
  ce_pick :: "bytes_Buffer list \<Rightarrow> nat option"
  ce_bufs :: "'w \<Rightarrow> bytes_Buffer list"
  ce_set_bufs :: "bytes_Buffer list \<Rightarrow> 'w \<Rightarrow> 'w"

definition NewRequest :: "string \<Rightarrow> string \<Rightarrow> string option \<Rightarrow> error + http_Request" where
  "NewRequest meth url body =
     (if meth = [] \<or> \<not> list_all token_char meth then Inl (ErrorString (''net/http: invalid method '' @ strconv_Quote meth))
      else (case url_Parse url of
          None \<Rightarrow> Inl (url_Error url)
        | Some u \<Rightarrow> Inr \<lparr>hr_Method = meth, hr_URL = u, hr_Header = Map.empty, hr_Body = body\<rparr>))"

definition set_headers :: "(string_map \<Rightarrow> string list) \<Rightarrow> string_map option \<Rightarrow> http_Header \<Rightarrow> http_Header" where
  "set_headers keys hs h =
     (case hs of None \<Rightarrow> h | Some m \<Rightarrow> foldl (\<lambda>h k. Header_Set h k (case m k of None \<Rightarrow> [] | Some v \<Rightarrow> v)) h (keys m))"

text \<open>\<open>io.Copy\<close> appends what the body delivers; \<open>None\<close> is a panic, which leaves the buffer out of the
  pool.\<close>

definition readBody :: "('w, 'd, 'j) client_env \<Rightarrow> 'w \<Rightarrow> http_Response \<Rightarrow> ((error + string) \<times> 'w) option" where
  "readBody env w resp =
     (case acquireBuf (ce_pick env) (ce_bufs env w) of (buf, rest) \<Rightarrow>
        let cl = Header_Get (hs_Header resp) ''Content-Length'';
            grown = (if cl = [] then Some buf
                     else (case strconv_Atoi cl of
                         None \<Rightarrow> Some buf
                       | Some n \<Rightarrow> if 0 < n then buf_Grow buf n else Some buf))
        in case grown of
             None \<Rightarrow> None
           | Some b \<Rightarrow>
               (case hs_Body resp of
                  Inl err \<Rightarrow> Some (Inl err, ce_set_bufs env (releaseBuf rest b) w)
                | Inr body \<Rightarrow>
                    (case buf_Grow b (int (length body)) of
                       None \<Rightarrow> None
                     | Some b2 \<Rightarrow>
                         let b3 = b2\<lparr>buf_bytes := buf_bytes b2 @ body\<rparr>
                         in Some (Inr (buf_bytes b3), ce_set_bufs env (releaseBuf rest b3) w))))"

text \<open>The request handed to \<^verbatim>\<open>http.Client\<close>.\<close>

definition build_request :: "(string_map \<Rightarrow> string list) \<Rightarrow> 'j client_Config \<Rightarrow> client_Request \<Rightarrow> error + http_Request" where
  "build_request keys cfg req =
     (let meth = (if cr_Method req = [] then ''GET'' else cr_Method req)
      in case NewRequest meth (cr_URL req) (cr_Body req) of
           Inl err \<Rightarrow> Inl (WrapError ''create request: '' err [])
         | Inr r \<Rightarrow>
             let h = set_headers keys (cr_Headers req) (hr_Header r)
             in Inr (r\<lparr>hr_Header := (if Header_Get h ''User-Agent'' = [] then Header_Set h ''User-Agent'' (cl_UserAgent cfg) else h)\<rparr>))"

definition Client_Do ::
  "('w, 'd, 'j) client_env \<Rightarrow> ('d, 'j) Client \<Rightarrow> 'w \<Rightarrow> client_Request option \<Rightarrow>
   ((error + client_Response) \<times> ('d, 'j) Client \<times> 'w) option" where
  "Client_Do env c w oreq =
     (case oreq of
        None \<Rightarrow> Some (Inl (ErrorString ''request must not be nil''), c, w)
      | Some req \<Rightarrow>
          (case build_request (ce_range env) (client_cfg c) req of
             Inl err \<Rightarrow> Some (Inl err, c, w)
           | Inr r \<Rightarrow>
               let limit = (if 0 < cr_Timeout req then Some (cr_Timeout req) else None);
                   started = ce_now env w;
                   c1 = c\<lparr>client_pool := recordRequest (client_pool c)\<rparr>
                  in (case ce_Do env w (client_httpClient c1) limit r of
                        (Inl err, w1) \<Rightarrow> Some (Inl (WrapError ''execute request: '' err []), c1, w1)
                      | (Inr hresp, w1) \<Rightarrow>
                          (case readBody env w1 hresp of
                             None \<Rightarrow> None
                           | Some (Inl err, w2) \<Rightarrow> Some (Inl (WrapError ''read response body: '' err []), c1, w2)
                           | Some (Inr body, w2) \<Rightarrow>
                               Some (Inr \<lparr>cs_StatusCode = hs_StatusCode hresp, cs_Headers = hs_Header hresp, cs_Body = body,
                                          cs_ContentType = Header_Get (hs_Header hresp) ''Content-Type'',
                                          cs_FetchTime = time_Sub (ce_now env w2) started,
                                          cs_FinalURL = url_String (hs_RequestURL hresp)\<rparr>, c1, w2)))))"

definition Client_Stats :: "('d, 'j) Client \<Rightarrow> int" where
  "Client_Stats c = pool_stats (client_pool c)"

text \<open>Idle connections are the transport's own state.\<close>

definition Client_Close :: "('w \<Rightarrow> 'd http_Transport \<Rightarrow> 'w) \<Rightarrow> ('d, 'j) Client \<Rightarrow> 'w \<Rightarrow> error option \<times> 'w" where
  "Client_Close closeIdle c w = (None, closeIdle w (pool_transport (client_pool c)))"


section \<open>What is sent and what is returned\<close>

lemma Header_Get_Set [simp]:
  "Header_Get (Header_Set h k v) k' = (if CanonicalHeaderKey k' = CanonicalHeaderKey k then v else Header_Get h k')"
  by (simp add: Header_Get_def Header_Set_def)

lemma set_headers_get:
  assumes "distinct ks" and "inj_on CanonicalHeaderKey (set ks)" and "k \<in> set ks"
  shows "Header_Get (foldl (\<lambda>h k. Header_Set h k (f k)) h ks) k = f k"
  using assms
proof (induction ks rule: rev_induct)
  case (snoc x xs)
  show ?case
  proof (cases "k = x")
    case False
    then have "CanonicalHeaderKey k \<noteq> CanonicalHeaderKey x" using snoc.prems by (auto simp: inj_on_def)
    then show ?thesis using snoc False by (auto simp: inj_on_def)
  qed simp
qed simp

lemma set_headers_other:
  assumes "CanonicalHeaderKey k \<notin> CanonicalHeaderKey ` set ks"
  shows "Header_Get (foldl (\<lambda>h k. Header_Set h k (f k)) h ks) k = Header_Get h k"
  using assms by (induction ks rule: rev_induct) auto

lemma build_request_SomeD:
  assumes "build_request keys cfg req = Inr r"
  shows "hr_Method r = (if cr_Method req = [] then ''GET'' else cr_Method req)" "url_Parse (cr_URL req) = Some (hr_URL r)"
    "hr_Body r = cr_Body req"
    "hr_Header r = (let h = set_headers keys (cr_Headers req) Map.empty in
       if Header_Get h ''User-Agent'' = [] then Header_Set h ''User-Agent'' (cl_UserAgent cfg) else h)"
  using assms by (auto simp: build_request_def NewRequest_def Let_def split: option.splits if_splits)

text \<open>
  The request that goes out has the method (GET by default), the URL, the body and every header
  of the crawler's request, provided that no two of its header names differ only in case; the
  User-Agent is the request's own when it sets one and the configured one otherwise, and there is
  no other header.
\<close>

theorem build_request_headers:
  assumes "build_request keys cfg req = Inr r" and "cr_Headers req = Some m"
    and "set (keys m) = dom m" and "distinct (keys m)" and "inj_on CanonicalHeaderKey (dom m)"
    and "m k = Some v" and "CanonicalHeaderKey k \<noteq> ''User-Agent''"
    and "CanonicalHeaderKey k' \<notin> insert ''User-Agent'' (CanonicalHeaderKey ` dom m)"
  shows "hr_Method r = (if cr_Method req = [] then ''GET'' else cr_Method req) \<and> url_Parse (cr_URL req) = Some (hr_URL r) \<and>
    hr_Body r = cr_Body req \<and> Header_Get (hr_Header r) k = v \<and> Header_Get (hr_Header r) k' = [] \<and>
    (m ua = Some x \<and> x \<noteq> [] \<and> CanonicalHeaderKey ua = ''User-Agent'' \<longrightarrow> Header_Get (hr_Header r) ''User-Agent'' = x) \<and>
    (''User-Agent'' \<notin> CanonicalHeaderKey ` dom m \<longrightarrow> Header_Get (hr_Header r) ''User-Agent'' = cl_UserAgent cfg)"
proof -
  define h where "h = set_headers keys (cr_Headers req) Map.empty"
  have h: "h = foldl (\<lambda>h k. Header_Set h k (case m k of None \<Rightarrow> [] | Some v \<Rightarrow> v)) Map.empty (keys m)"
    by (simp add: h_def set_headers_def assms(2))
  have ua: "CanonicalHeaderKey ''User-Agent'' = ''User-Agent''"
    by (simp add: CanonicalHeaderKey_def token_char_def is_alnum_def upper_char_def lower_char_def)
  have get: "Header_Get h a = b" if "m a = Some b" for a b
    using set_headers_get [of "keys m" a "\<lambda>k. case m k of None \<Rightarrow> [] | Some v \<Rightarrow> v" Map.empty] assms(3-5) that
    by (simp add: h domI)
  have none: "Header_Get h a = []" if "CanonicalHeaderKey a \<notin> CanonicalHeaderKey ` dom m" for a
    unfolding h using that assms(3) by (subst set_headers_other) (simp_all add: Header_Get_def)
  have same: "Header_Get g a = Header_Get g b" if "CanonicalHeaderKey a = CanonicalHeaderKey b" for g a b
    using that by (simp add: Header_Get_def)
  note r = build_request_SomeD [OF assms(1), folded h_def, unfolded Let_def]
  have "Header_Get (hr_Header r) k = v" using r(4) get [OF assms(6)] assms(7) ua by simp
  moreover have "Header_Get (hr_Header r) k' = []" using r(4) none [of k'] assms(8) ua by simp
  moreover have "Header_Get (hr_Header r) ''User-Agent'' = x" if "m ua = Some x" "x \<noteq> []" "CanonicalHeaderKey ua = ''User-Agent''"
    using r(4) get [OF that(1)] that(2,3) ua same [of "''User-Agent''" ua h] by simp
  moreover have "Header_Get (hr_Header r) ''User-Agent'' = cl_UserAgent cfg" if "''User-Agent'' \<notin> CanonicalHeaderKey ` dom m"
    using r(4) none [of "''User-Agent''"] that ua by simp
  ultimately show ?thesis using r(1-3) by blast
qed

text \<open>Buffers in the pool stay small, so a buffer taken from it is empty and at most a megabyte.\<close>

definition bufs_ok :: "bytes_Buffer list \<Rightarrow> bool" where
  "bufs_ok pool \<longleftrightarrow> (\<forall>b\<in>set pool. 0 \<le> buf_cap b \<and> buf_cap b \<le> 2 ^ 20)"

lemma acquireBuf_ok:
  assumes "bufs_ok pool" "acquireBuf pick pool = (b, rest)"
  shows "buf_bytes b = []" "0 \<le> buf_cap b" "buf_cap b \<le> 2 ^ 20" "bufs_ok rest"
proof -
  have "set rest \<subseteq> set pool" using assms(2) set_take_subset [of _ pool] set_drop_subset [of _ pool]
    by (fastforce simp: acquireBuf_def split: option.splits if_splits)
  then show "bufs_ok rest" using assms(1) by (auto simp: bufs_ok_def)
qed (use assms in \<open>auto simp: acquireBuf_def bufs_ok_def buf_Reset_def split: option.splits if_splits\<close>)

lemma releaseBuf_ok: "\<lbrakk>bufs_ok pool; 0 \<le> buf_cap b\<rbrakk> \<Longrightarrow> bufs_ok (releaseBuf pool b)"
  by (simp add: bufs_ok_def releaseBuf_def)

lemma buf_Grow_some:
  assumes "buf_bytes b = []" "0 \<le> buf_cap b" "2 * buf_cap b \<le> maxAlloc" "0 \<le> n" "n \<le> maxAlloc"
  obtains b' where "buf_Grow b n = Some b'" "buf_bytes b' = []" "0 \<le> buf_cap b'" "buf_cap b' \<le> max (buf_cap b) (max n (2 * buf_cap b))"
proof (cases "n \<le> buf_cap b")
  case True
  show thesis by (rule that [of b]) (use assms True in \<open>simp_all add: buf_Grow_def Let_def\<close>)
next
  case False
  show thesis by (rule that [of "b\<lparr>buf_cap := max n (2 * buf_cap b)\<rparr>"]) (use assms False in \<open>simp_all add: buf_Grow_def Let_def\<close>)
qed

text \<open>
  A body is returned byte for byte, whatever the pooled buffer held before, and the pool keeps
  only small buffers: if the server declares a length, a number up to \<open>2 ^ 46\<close>, and sends at most
  \<open>2 ^ 46\<close> bytes, \<open>readBody\<close> does not panic and returns what was sent.
\<close>

theorem readBody_exact:
  assumes "bufs_ok (ce_bufs env w)" and "hs_Body resp = Inr body" and "int (length body) \<le> 2 ^ 46"
    and "case strconv_Atoi (Header_Get (hs_Header resp) ''Content-Length'') of None \<Rightarrow> True | Some n \<Rightarrow> n \<le> 2 ^ 46"
  shows "\<exists>pool. readBody env w resp = Some (Inr body, ce_set_bufs env pool w) \<and> bufs_ok pool"
proof -
  let ?cl = "Header_Get (hs_Header resp) ''Content-Length''"
  obtain b rest where a: "acquireBuf (ce_pick env) (ce_bufs env w) = (b, rest)" by fastforce
  note b = acquireBuf_ok [OF assms(1) a]
  obtain b1 where b1: "(if ?cl = [] then Some b else (case strconv_Atoi ?cl of None \<Rightarrow> Some b
        | Some n \<Rightarrow> if 0 < n then buf_Grow b n else Some b)) = Some b1"
    "buf_bytes b1 = []" "0 \<le> buf_cap b1" "buf_cap b1 \<le> 2 ^ 46"
  proof (cases "strconv_Atoi ?cl")
    case None
    then show ?thesis using b that [of b] by (cases "?cl = []") simp_all
  next
    case (Some m)
    show ?thesis
    proof (cases "?cl = [] \<or> m \<le> 0")
      case True
      then show ?thesis using b that [of b] Some by auto
    next
      case False
      have "m \<le> 2 ^ 46" using assms(4) Some by simp
      then obtain b' where "buf_Grow b m = Some b'" "buf_bytes b' = []" "0 \<le> buf_cap b'"
          "buf_cap b' \<le> max (buf_cap b) (max m (2 * buf_cap b))"
        using buf_Grow_some [of b m] b False by (auto simp: maxAlloc_def)
      then show ?thesis using that [of b'] Some False b \<open>m \<le> 2 ^ 46\<close> by auto
    qed
  qed
  obtain b2 where b2: "buf_Grow b1 (int (length body)) = Some b2" "buf_bytes b2 = []" "0 \<le> buf_cap b2"
    using buf_Grow_some [of b1 "int (length body)"] b1 assms(3) by (auto simp: maxAlloc_def)
  have "readBody env w resp = Some (Inr body, ce_set_bufs env (releaseBuf rest (b2\<lparr>buf_bytes := body\<rparr>)) w)"
    unfolding readBody_def a prod.case Let_def b1(1) option.case assms(2) sum.case using b2 by simp
  moreover have "bufs_ok (releaseBuf rest (b2\<lparr>buf_bytes := body\<rparr>))" by (rule releaseBuf_ok) (use b b2 in simp_all)
  ultimately show ?thesis by blast
qed

text \<open>
  A server can crash the crawler: a response whose Content-Length header is a number above
  \<open>2 ^ 48\<close> makes \<open>readBody\<close> grow its buffer beyond what can be allocated, and the call panics, whatever the
  body is.
\<close>

theorem content_length_panics:
  assumes "bufs_ok (ce_bufs env w1)" and "build_request (ce_range env) (client_cfg c) req = Inr r"
    and "ce_Do env w (client_httpClient c) (if 0 < cr_Timeout req then Some (cr_Timeout req) else None) r = (Inr resp, w1)"
    and "strconv_Atoi (Header_Get (hs_Header resp) ''Content-Length'') = Some n" and "maxAlloc < n"
  shows "Client_Do env c w (Some req) = None"
proof -
  obtain b rest where a: "acquireBuf (ce_pick env) (ce_bufs env w1) = (b, rest)" by fastforce
  note b = acquireBuf_ok [OF assms(1) a]
  have cl: "Header_Get (hs_Header resp) ''Content-Length'' \<noteq> []"
  proof
    assume "Header_Get (hs_Header resp) ''Content-Length'' = []"
    then show False using assms(4) by (simp add: strconv_Atoi_def strings_HasPrefix_def Let_def)
  qed
  have "buf_Grow b n = None" using b assms(5) by (simp add: buf_Grow_def maxAlloc_def Let_def)
  moreover have "0 < n" using assms(5) by (simp add: maxAlloc_def)
  ultimately have "readBody env w1 resp = None" using a cl assms(4) by (simp add: readBody_def Let_def)
  then show ?thesis using assms(2,3) by (simp add: Client_Do_def Let_def)
qed

section \<open>A concrete exchange\<close>

text \<open>The server that answers every request with one response.\<close>

definition sample_http :: "string \<Rightarrow> string \<Rightarrow> (bytes_Buffer list, unit, unit) client_env" where
  "sample_http len body = \<lparr>ce_Do = (\<lambda>w hc limit r. (Inr \<lparr>hs_StatusCode = 200, hs_Header = [''Content-Length'' \<mapsto> [len]],
       hs_Body = Inr body, hs_RequestURL = hr_URL r\<rparr>, w)),
     ce_now = (\<lambda>w. 0), ce_range = (\<lambda>m. [''accept'']), ce_pick = (\<lambda>p. if p = [] then None else Some 0),
     ce_bufs = (\<lambda>w. w), ce_set_bufs = (\<lambda>p w. p)\<rparr>"

definition sample_get :: client_Request where
  "sample_get = \<lparr>cr_URL = ''http://h/'', cr_Method = [], cr_Headers = Some [''accept'' \<mapsto> ''*''], cr_Body = None, cr_Timeout = 0, cr_Metadata = None\<rparr>"

definition sample_client_config :: "unit client_Config" where
  "sample_client_config = client_Config_withDefaults \<lparr>cl_Timeout = 0, cl_MaxRedirects = 0, cl_UserAgent = [],
     cl_Transport = \<lparr>MaxIdleConns = 0, MaxIdleConnsPerHost = 0, MaxConnsPerHost = 0, DialTimeout = 0, TLSHandshakeTimeout = 0,
       ResponseHeaderTimeout = 0, IdleConnTimeout = 0, DisableHTTP2 = False, DisableCompression = False,
       tc_Proxy = \<lparr>proxy_URL = [], proxy_Username = [], proxy_Password = []\<rparr>\<rparr>, cl_CookieJar = None\<rparr>"

lemma sample_url: "url_Parse ''http://h/'' \<noteq> None"
  by code_simp

lemma sample_build: "\<exists>r. build_request keys cfg sample_get = Inr r"
  using sample_url by (cases "url_Parse ''http://h/''") (simp_all add: build_request_def NewRequest_def sample_get_def token_char_def is_alnum_def Let_def)

theorem build_request_headers_witness:
  "\<exists>r. build_request (\<lambda>m. [''accept'']) sample_client_config sample_get = Inr r \<and>
     Header_Get (hr_Header r) ''Accept'' = ''*'' \<and> Header_Get (hr_Header r) ''User-Agent'' = ''web_crawler/0.1''"
proof -
  have canon: "CanonicalHeaderKey ''accept'' = ''Accept''" "CanonicalHeaderKey ''x'' = ''X''" "CanonicalHeaderKey ''Accept'' = ''Accept''"
    by code_simp+
  obtain r where r: "build_request (\<lambda>m. [''accept'']) sample_client_config sample_get = Inr r" using sample_build by blast
  have m: "cr_Headers sample_get = Some [''accept'' \<mapsto> ''*'']" by (simp add: sample_get_def)
  have ua: "cl_UserAgent sample_client_config = ''web_crawler/0.1''"
    by (simp add: sample_client_config_def client_Config_withDefaults_def)
  have "Header_Get (hr_Header r) ''accept'' = ''*'' \<and> Header_Get (hr_Header r) ''User-Agent'' = ''web_crawler/0.1''"
    using build_request_headers [OF r m, of "''accept''" "''*''" "''x''"] canon ua by simp
  moreover have "Header_Get (hr_Header r) ''Accept'' = Header_Get (hr_Header r) ''accept''" by (simp add: Header_Get_def canon)
  ultimately show ?thesis using r by simp
qed

lemma sample_length_header:
  "Header_Get (hs_Header \<lparr>hs_StatusCode = 200, hs_Header = [''Content-Length'' \<mapsto> [len]], hs_Body = b, hs_RequestURL = u\<rparr>) ''Content-Length'' = len"
proof -
  have "CanonicalHeaderKey ''Content-Length'' = ''Content-Length''" by code_simp
  then show ?thesis by (simp add: Header_Get_def)
qed

theorem readBody_exact_witness:
  "\<exists>pool. readBody (sample_http [] []) [] \<lparr>hs_StatusCode = 200, hs_Header = [''Content-Length'' \<mapsto> [''3'']], hs_Body = Inr ''abc'', hs_RequestURL = new_URL\<rparr> =
     Some (Inr ''abc'', pool)"
proof -
  have "strconv_Atoi ''3'' = Some 3" by code_simp
  then show ?thesis
    using readBody_exact [of "sample_http [] []" "[]" "\<lparr>hs_StatusCode = 200, hs_Header = [''Content-Length'' \<mapsto> [''3'']], hs_Body = Inr ''abc'',
        hs_RequestURL = new_URL\<rparr>" "''abc''"]
    unfolding sample_length_header by (auto simp: sample_http_def bufs_ok_def)
qed

definition sample_client :: "(unit, unit) Client" where
  "sample_client = projr (client_New \<lparr>sx_SOCKS5 = (\<lambda>n a u t k. Inr ()), sx_is_ContextDialer = (\<lambda>d. True)\<rparr> sample_client_config [])"

theorem content_length_panics_witness:
  "Client_Do (sample_http ''999999999999999999'' []) sample_client [] (Some sample_get) = None"
proof -
  let ?env = "sample_http ''999999999999999999'' []"
  obtain r where r: "build_request (ce_range ?env) (client_cfg sample_client) sample_get = Inr r"
    using sample_build by blast
  have a: "strconv_Atoi ''999999999999999999'' = Some 999999999999999999" by code_simp
  show ?thesis
    by (rule content_length_panics [of ?env "[]" sample_client sample_get r "[]" "\<lparr>hs_StatusCode = 200,
        hs_Header = [''Content-Length'' \<mapsto> [''999999999999999999'']], hs_Body = Inr [], hs_RequestURL = hr_URL r\<rparr>"
        999999999999999999, OF _ r])
      (simp_all only: sample_length_header a, simp_all add: sample_http_def bufs_ok_def maxAlloc_def)
qed

end
