(* ===== verification/Crawler_Engine.thy ===== *)
theory Crawler_Engine
  imports Crawler_Concurrency Http_Client
begin

text \<open>
  pkg/crawler: configuration, request options, builder and the engine with its worker pool.  The
  network is a world \<open>'w\<close> under the HTTP client of \<open>Http_Client\<close>; the browser renderer is a field of the
  environment.  Callbacks are functions on a state \<open>'c\<close> of their own that receive the request or the
  response and return it as they left it (Go passes pointers); a callback that adds URLs is a step
  of its own in the step relation, since adding touches only the queue and the count of pending
  URLs, which processing a request does not.  A panic is \<open>None\<close>.
\<close>

section \<open>crawler.go, config.go and options.go\<close>

record CrawlRequest =
  crq_URL :: string
  crq_Method :: string
  crq_Headers :: "string_map option"
  crq_Depth :: int
  crq_Meta :: "string_map option"
  crq_BrowserRender :: bool

record CrawlResponse =
  crs_Request :: CrawlRequest
  crs_StatusCode :: int
  crs_Headers :: http_Header
  crs_Body :: string
  crs_ContentType :: string

record CrawlStats =
  RequestCount :: int
  SuccessCount :: int
  ErrorCount :: int
  BytesDownloaded :: int
  CrawlDuration :: Duration

type_synonym 'c RequestCallback = "'c \<Rightarrow> CrawlRequest \<Rightarrow> CrawlRequest \<times> 'c"
type_synonym 'c ResponseCallback = "'c \<Rightarrow> CrawlResponse \<Rightarrow> CrawlResponse \<times> 'c"
type_synonym 'c ErrorCallback = "'c \<Rightarrow> CrawlRequest \<Rightarrow> error \<Rightarrow> CrawlRequest \<times> 'c"

record ('j, 'b) Config =
  cfg_MaxDepth :: int
  cfg_MaxPages :: int
  cfg_Concurrency :: ConcurrencyConfig
  cfg_Client :: "'j client_Config"
  cfg_UserAgent :: string
  cfg_WorkerCount :: int
  cfg_CookieJar :: "'j option"
  cfg_BrowserPool :: "'b option"

definition Config_withDefaults :: "('j, 'b) Config \<Rightarrow> ('j, 'b) Config" where
  "Config_withDefaults c0 =
     (let c1 = (if cfg_MaxDepth c0 = 0 then c0\<lparr>cfg_MaxDepth := 3\<rparr> else c0);
          c2 = (if cfg_WorkerCount c1 = 0 then c1\<lparr>cfg_WorkerCount := 10\<rparr> else c1);
          c3 = (if cfg_UserAgent c2 = [] then c2\<lparr>cfg_UserAgent := ''web_crawler/0.1''\<rparr> else c2)
      in c3\<lparr>cfg_Concurrency := ConcurrencyConfig_withDefaults (cfg_Concurrency c3)\<rparr>)"

type_synonym RequestOption = "CrawlRequest \<Rightarrow> CrawlRequest"

definition WithMethod :: "string \<Rightarrow> RequestOption" where
  "WithMethod meth r = r\<lparr>crq_Method := meth\<rparr>"

definition WithHeaders :: "string_map option \<Rightarrow> RequestOption" where
  "WithHeaders headers r = r\<lparr>crq_Headers := headers\<rparr>"

definition WithMeta :: "string \<Rightarrow> string \<Rightarrow> RequestOption" where
  "WithMeta key v r = r\<lparr>crq_Meta := Some ((make_if_nil (crq_Meta r))(key \<mapsto> v))\<rparr>"

definition WithDepth :: "int \<Rightarrow> RequestOption" where
  "WithDepth depth r = r\<lparr>crq_Depth := depth\<rparr>"

definition WithBrowserRender :: RequestOption where
  "WithBrowserRender r = r\<lparr>crq_BrowserRender := True\<rparr>"

section \<open>engine.go\<close>

record engineStats =
  es_requestCount :: int
  es_successCount :: int
  es_errorCount :: int
  es_bytesDownloaded :: int

text \<open>\<open>en_ctx\<close> is \<open>None\<close> until the engine is started, and then the error of its context, if any;
  \<open>en_workers\<close> counts the worker goroutines, \<open>en_urlWg\<close> the pending URLs.\<close>

record ('d, 'j, 'b, 's) Engine =
  en_cfg :: "('j, 'b) Config"
  en_httpClient :: "('d, 'j) Client"
  en_renderFetcher :: "'b option"
  en_concurrency :: "'s ConcurrencyManager"
  en_urlQueue :: "CrawlRequest list"
  en_stats :: engineStats
  en_started :: bool
  en_stopped :: bool
  en_startTime :: Time
  en_ctx :: "error option option"
  en_workers :: nat
  en_urlWg :: int

definition client_config_of :: "('j, 'b) Config \<Rightarrow> 'j client_Config" where
  "client_config_of cfg = \<lparr>cl_Timeout = 0, cl_MaxRedirects = 0, cl_UserAgent = cfg_UserAgent cfg,
     cl_Transport = \<lparr>MaxIdleConns = 0, MaxIdleConnsPerHost = 0, MaxConnsPerHost = 0, DialTimeout = 0, TLSHandshakeTimeout = 0,
       ResponseHeaderTimeout = 0, IdleConnTimeout = 0, DisableHTTP2 = False, DisableCompression = False,
       tc_Proxy = \<lparr>proxy_URL = [], proxy_Username = [], proxy_Password = []\<rparr>\<rparr>,
     cl_CookieJar = cfg_CookieJar cfg\<rparr>"

definition newEngine :: "'d socks_lib \<Rightarrow> 's sem_ops \<Rightarrow> ('j, 'b) Config \<Rightarrow> error + ('d, 'j, 'b, 's) Engine" where
  "newEngine lib ops cfg0 =
     (let cfg = Config_withDefaults cfg0
      in case client_New lib (client_config_of cfg) [] of
           Inl err \<Rightarrow> Inl (WrapError ''create http client: '' err [])
         | Inr hc \<Rightarrow>
             Inr \<lparr>en_cfg = cfg, en_httpClient = hc, en_renderFetcher = cfg_BrowserPool cfg,
                  en_concurrency = NewConcurrencyManager ops (cfg_Concurrency cfg), en_urlQueue = [],
                  en_stats = \<lparr>es_requestCount = 0, es_successCount = 0, es_errorCount = 0, es_bytesDownloaded = 0\<rparr>,
                  en_started = False, en_stopped = False, en_startTime = 0, en_ctx = None, en_workers = 0, en_urlWg = 0\<rparr>)"

text \<open>\<open>parent\<close> is the error of the context given to \<open>Start\<close>.\<close>

definition Engine_Start :: "Time \<Rightarrow> error option \<Rightarrow> ('d, 'j, 'b, 's) Engine \<Rightarrow> error option \<times> ('d, 'j, 'b, 's) Engine" where
  "Engine_Start now parent e =
     (if en_started e then (Some (ErrorString ''crawler already started''), e)
      else (None, e\<lparr>en_started := True, en_ctx := Some parent, en_startTime := now,
                    en_workers := nat (cfg_WorkerCount (en_cfg e))\<rparr>))"

text \<open>Cancelling a context that has already ended keeps its error.\<close>

definition Engine_cancel :: "('d, 'j, 'b, 's) Engine \<Rightarrow> ('d, 'j, 'b, 's) Engine" where
  "Engine_cancel e = (case en_ctx e of Some None \<Rightarrow> e\<lparr>en_ctx := Some (Some ContextCanceled)\<rparr> | _ \<Rightarrow> e)"

definition Engine_Stop :: "('d, 'j, 'b, 's) Engine \<Rightarrow> error option \<times> ('d, 'j, 'b, 's) Engine" where
  "Engine_Stop e = (if en_stopped e then (None, e) else (None, Engine_cancel (e\<lparr>en_stopped := True\<rparr>)))"

definition urlQueue_cap :: nat where "urlQueue_cap = 10000"

definition Engine_AddURL ::
  "('d, 'j, 'b, 's) Engine \<Rightarrow> string \<Rightarrow> RequestOption list \<Rightarrow> error option \<times> ('d, 'j, 'b, 's) Engine" where
  "Engine_AddURL e rawURL opts =
     (if en_stopped e then (Some (ErrorString ''crawler is stopped''), e)
      else
        let req = foldl (\<lambda>r opt. opt r) \<lparr>crq_URL = rawURL, crq_Method = [], crq_Headers = None, crq_Depth = 0, crq_Meta = None,
                                         crq_BrowserRender = False\<rparr> opts;
            e1 = e\<lparr>en_urlWg := en_urlWg e + 1\<rparr>
        in if length (en_urlQueue e1) < urlQueue_cap then (None, e1\<lparr>en_urlQueue := en_urlQueue e1 @ [req]\<rparr>)
           else (Some (ErrorString ''url queue is full''), e1\<lparr>en_urlWg := en_urlWg e1 - 1\<rparr>))"

fun Engine_AddURLs ::
  "('d, 'j, 'b, 's) Engine \<Rightarrow> string list \<Rightarrow> RequestOption list \<Rightarrow> error option \<times> ('d, 'j, 'b, 's) Engine" where
  "Engine_AddURLs e [] opts = (None, e)"
| "Engine_AddURLs e (u # us) opts =
     (case Engine_AddURL e u opts of
        (Some err, e1) \<Rightarrow> (Some err, e1)
      | (None, e1) \<Rightarrow> Engine_AddURLs e1 us opts)"

definition Engine_Stats :: "Time \<Rightarrow> ('d, 'j, 'b, 's) Engine \<Rightarrow> CrawlStats" where
  "Engine_Stats now e =
     \<lparr>RequestCount = es_requestCount (en_stats e), SuccessCount = es_successCount (en_stats e),
      ErrorCount = es_errorCount (en_stats e), BytesDownloaded = es_bytesDownloaded (en_stats e),
      CrawlDuration = (if time_IsZero (en_startTime e) then 0 else time_Sub now (en_startTime e))\<rparr>"

subsection \<open>Callbacks\<close>

record 'c callbacks =
  requestCBs :: "'c RequestCallback list"
  responseCBs :: "'c ResponseCallback list"
  errorCBs :: "'c ErrorCallback list"
  htmlCBs :: "string \<rightharpoonup> 'c ResponseCallback list"

definition no_callbacks :: "'c callbacks" where
  "no_callbacks = \<lparr>requestCBs = [], responseCBs = [], errorCBs = [], htmlCBs = Map.empty\<rparr>"

definition OnRequest :: "'c callbacks \<Rightarrow> 'c RequestCallback \<Rightarrow> 'c callbacks" where
  "OnRequest cbs cb = cbs\<lparr>requestCBs := requestCBs cbs @ [cb]\<rparr>"

definition OnResponse :: "'c callbacks \<Rightarrow> 'c ResponseCallback \<Rightarrow> 'c callbacks" where
  "OnResponse cbs cb = cbs\<lparr>responseCBs := responseCBs cbs @ [cb]\<rparr>"

definition OnError :: "'c callbacks \<Rightarrow> 'c ErrorCallback \<Rightarrow> 'c callbacks" where
  "OnError cbs cb = cbs\<lparr>errorCBs := errorCBs cbs @ [cb]\<rparr>"

definition OnHTML :: "'c callbacks \<Rightarrow> string \<Rightarrow> 'c ResponseCallback \<Rightarrow> 'c callbacks" where
  "OnHTML cbs sel cb =
     cbs\<lparr>htmlCBs := (htmlCBs cbs)(sel \<mapsto> (case htmlCBs cbs sel of None \<Rightarrow> [] | Some l \<Rightarrow> l) @ [cb])\<rparr>"

fun fire :: "('c \<Rightarrow> 'x \<Rightarrow> 'x \<times> 'c) list \<Rightarrow> 'c \<Rightarrow> 'x \<Rightarrow> 'x \<times> 'c" where
  "fire [] c x = (x, c)"
| "fire (cb # cbs) c x = (case cb c x of (x1, c1) \<Rightarrow> fire cbs c1 x1)"

definition fireRequestCallbacks :: "'c callbacks \<Rightarrow> 'c \<Rightarrow> CrawlRequest \<Rightarrow> CrawlRequest \<times> 'c" where
  "fireRequestCallbacks cbs = fire (requestCBs cbs)"

definition fireResponseCallbacks :: "'c callbacks \<Rightarrow> 'c \<Rightarrow> CrawlResponse \<Rightarrow> CrawlResponse \<times> 'c" where
  "fireResponseCallbacks cbs = fire (responseCBs cbs)"

definition fireErrorCallbacks :: "'c callbacks \<Rightarrow> 'c \<Rightarrow> CrawlRequest \<Rightarrow> error \<Rightarrow> CrawlRequest \<times> 'c" where
  "fireErrorCallbacks cbs c req err = fire (map (\<lambda>cb c r. cb c r err) (errorCBs cbs)) c req"

text \<open>\<open>selectors\<close> is the order in which the runtime iterates over the map.\<close>

definition fireHTMLCallbacks ::
  "((string \<rightharpoonup> 'c ResponseCallback list) \<Rightarrow> string list) \<Rightarrow> 'c callbacks \<Rightarrow> 'c \<Rightarrow> CrawlResponse \<Rightarrow> CrawlResponse \<times> 'c" where
  "fireHTMLCallbacks selectors cbs =
     fire (concat (map (\<lambda>s. case htmlCBs cbs s of None \<Rightarrow> [] | Some l \<Rightarrow> l) (selectors (htmlCBs cbs))))"

subsection \<open>Fetching\<close>

text \<open>\<open>ee_Render\<close> is the renderer of pkg/browser on a pool: URL and time-out give the page and its final
  URL.\<close>

record ('w, 'd, 'j, 'b, 'c) engine_env =
  ee_client :: "('w, 'd, 'j) client_env"
  ee_Render :: "'w \<Rightarrow> 'b \<Rightarrow> string \<Rightarrow> Duration \<Rightarrow> (error + string \<times> string) \<times> 'w"
  ee_selectors :: "(string \<rightharpoonup> 'c ResponseCallback list) \<Rightarrow> string list"

definition RenderFetcher_Do ::
  "('w, 'd, 'j, 'b, 'c) engine_env \<Rightarrow> 'b \<Rightarrow> 'w \<Rightarrow> client_Request option \<Rightarrow> (error + client_Response) \<times> 'w" where
  "RenderFetcher_Do env pool w oreq =
     (case oreq of
        None \<Rightarrow> (Inl (ErrorString ''render fetcher: request must not be nil''), w)
      | Some req \<Rightarrow>
          if cr_Method req \<noteq> [] \<and> cr_Method req \<noteq> ''GET''
          then (Inl (ErrorString (''render fetcher: only GET is supported, got '' @ cr_Method req)), w)
          else
            let timeout = (if cr_Timeout req = 0 then 30 * Second else cr_Timeout req);
                started = ce_now (ee_client env) w
            in (case ee_Render env w pool (cr_URL req) timeout of
                  (Inl err, w1) \<Rightarrow> (Inl (WrapError ''render fetcher: '' err []), w1)
                | (Inr (html, url), w1) \<Rightarrow>
                    (Inr \<lparr>cs_StatusCode = 200, cs_Headers = Header_Set Map.empty ''Content-Type'' ''text/html; charset=utf-8'',
                          cs_Body = html, cs_ContentType = ''text/html; charset=utf-8'',
                          cs_FetchTime = time_Sub (ce_now (ee_client env) w1) started, cs_FinalURL = url\<rparr>, w1)))"

definition engine_fetch ::
  "('w, 'd, 'j, 'b, 'c) engine_env \<Rightarrow> ('d, 'j, 'b, 's) Engine \<Rightarrow> 'w \<Rightarrow> bool \<Rightarrow> client_Request \<Rightarrow>
   ((error + client_Response) \<times> ('d, 'j, 'b, 's) Engine \<times> 'w) option" where
  "engine_fetch env e w render creq =
     (case (render, en_renderFetcher e) of
        (True, Some pool) \<Rightarrow> (case RenderFetcher_Do env pool w (Some creq) of (r, w1) \<Rightarrow> Some (r, e, w1))
      | _ \<Rightarrow>
          (case Client_Do (ee_client env) (en_httpClient e) w (Some creq) of
             None \<Rightarrow> None
           | Some (r, hc, w1) \<Rightarrow> Some (r, e\<lparr>en_httpClient := hc\<rparr>, w1)))"

definition engine_extractDomain :: "string \<Rightarrow> string" where
  "engine_extractDomain rawURL = (case url_Parse rawURL of None \<Rightarrow> rawURL | Some u \<Rightarrow> url_Hostname u)"

definition isHTMLResponse :: "string \<Rightarrow> bool" where
  "isHTMLResponse contentType = strings_Contains contentType ''text/html''"

definition count_request :: "('d, 'j, 'b, 's) Engine \<Rightarrow> ('d, 'j, 'b, 's) Engine" where
  "count_request e = e\<lparr>en_stats := (en_stats e)\<lparr>es_requestCount := wrap64 (es_requestCount (en_stats e) + 1)\<rparr>\<rparr>"

definition count_error :: "('d, 'j, 'b, 's) Engine \<Rightarrow> ('d, 'j, 'b, 's) Engine" where
  "count_error e = e\<lparr>en_stats := (en_stats e)\<lparr>es_errorCount := wrap64 (es_errorCount (en_stats e) + 1)\<rparr>\<rparr>"

definition count_success :: "nat \<Rightarrow> ('d, 'j, 'b, 's) Engine \<Rightarrow> ('d, 'j, 'b, 's) Engine" where
  "count_success n e = e\<lparr>en_stats := (en_stats e)\<lparr>es_successCount := wrap64 (es_successCount (en_stats e) + 1),
     es_bytesDownloaded := wrap64 (es_bytesDownloaded (en_stats e) + int n)\<rparr>\<rparr>"

text \<open>\<open>processRequest\<close> after its permit was refused, and from the granted permit to the deferred
  release.\<close>

definition process_refused ::
  "'c callbacks \<Rightarrow> ('d, 'j, 'b, 's) Engine \<Rightarrow> 'c \<Rightarrow> CrawlRequest \<Rightarrow> error \<Rightarrow> ('d, 'j, 'b, 's) Engine \<times> 'c" where
  "process_refused cbs e c req err = (count_error e, snd (fireErrorCallbacks cbs c req err))"

definition process_acquired ::
  "('w, 'd, 'j, 'b, 'c) engine_env \<Rightarrow> 'c callbacks \<Rightarrow> ('d, 'j, 'b, 's) Engine \<Rightarrow> 'w \<Rightarrow> 'c \<Rightarrow> CrawlRequest \<Rightarrow>
   (('d, 'j, 'b, 's) Engine \<times> 'w \<times> 'c) option" where
  "process_acquired env cbs e0 w c req0 =
     (case fireRequestCallbacks cbs c req0 of (req, c1) \<Rightarrow>
        let meth = (if crq_Method req = [] then ''GET'' else crq_Method req)
        in (case engine_fetch env (count_request e0) w (crq_BrowserRender req)
                   \<lparr>cr_URL = crq_URL req, cr_Method = meth, cr_Headers = crq_Headers req, cr_Body = None, cr_Timeout = 0,
                    cr_Metadata = None\<rparr> of
              None \<Rightarrow> None
            | Some (Inl err, e, w1) \<Rightarrow> Some (count_error e, w1, snd (fireErrorCallbacks cbs c1 req err))
            | Some (Inr hresp, e, w1) \<Rightarrow>
                let e1 = count_success (length (cs_Body hresp)) e;
                    resp0 = \<lparr>crs_Request = req, crs_StatusCode = cs_StatusCode hresp, crs_Headers = cs_Headers hresp,
                             crs_Body = cs_Body hresp, crs_ContentType = cs_ContentType hresp\<rparr>
                in (case fireResponseCallbacks cbs c1 resp0 of (resp, c2) \<Rightarrow>
                      Some (e1, w1, if isHTMLResponse (crs_ContentType resp)
                                    then snd (fireHTMLCallbacks (ee_selectors env) cbs c2 resp) else c2))))"

text \<open>\<open>processRequest\<close> as one call; \<open>None\<close> when it panics or blocks.\<close>

definition ctx_err :: "('d, 'j, 'b, 's) Engine \<Rightarrow> error option" where
  "ctx_err e = (case en_ctx e of Some r \<Rightarrow> r | None \<Rightarrow> None)"

definition release_permit :: "'s sem_ops \<Rightarrow> string \<Rightarrow> ('d, 'j, 'b, 's) Engine \<Rightarrow> ('d, 'j, 'b, 's) Engine option" where
  "release_permit ops domain e =
     (case Concurrency_Release ops (en_concurrency e) domain of
        None \<Rightarrow> None
      | Some cm \<Rightarrow> Some (e\<lparr>en_concurrency := cm\<rparr>))"

definition processRequest ::
  "'s sem_ops \<Rightarrow> ('w, 'd, 'j, 'b, 'c) engine_env \<Rightarrow> 'c callbacks \<Rightarrow> ('d, 'j, 'b, 's) Engine \<Rightarrow> 'w \<Rightarrow> 'c \<Rightarrow> CrawlRequest \<Rightarrow>
   (('d, 'j, 'b, 's) Engine \<times> 'w \<times> 'c) option" where
  "processRequest ops env cbs e w c req =
     (let domain = engine_extractDomain (crq_URL req)
      in case Concurrency_Acquire ops (ctx_err e) (en_concurrency e) domain of
           (Failed err, cm) \<Rightarrow>
             (case process_refused cbs (e\<lparr>en_concurrency := cm\<rparr>) c req err of (e1, c1) \<Rightarrow> Some (e1, w, c1))
         | (Acquired, cm) \<Rightarrow>
             (case process_acquired env cbs (e\<lparr>en_concurrency := cm\<rparr>) w c req of
                None \<Rightarrow> None
              | Some (e1, w1, c1) \<Rightarrow>
                  (case release_permit ops domain e1 of None \<Rightarrow> None | Some e2 \<Rightarrow> Some (e2, w1, c1)))
         | _ \<Rightarrow> None)"

section \<open>Workers\<close>

text \<open>
  A worker takes a request from the queue, waits for its permits, and finishes; \<open>er_waiting\<close> and
  \<open>er_running\<close> are the requests in the two phases.  \<open>er_done\<close> counts the requests whose processing has
  ended.
\<close>

record ('d, 'j, 'b, 's, 'w, 'c) engine_run =
  er_engine :: "('d, 'j, 'b, 's) Engine"
  er_waiting :: "CrawlRequest multiset"
  er_running :: "CrawlRequest multiset"
  er_world :: 'w
  er_cb :: 'c
  er_done :: nat

definition url_Done :: "('d, 'j, 'b, 's) Engine \<Rightarrow> ('d, 'j, 'b, 's) Engine" where
  "url_Done e = e\<lparr>en_urlWg := en_urlWg e - 1\<rparr>"

text \<open>\<open>take\<close> may also happen when the context has ended: a select with two ready cases picks any.\<close>

inductive worker_step ::
  "'s sem_ops \<Rightarrow> ('w, 'd, 'j, 'b, 'c) engine_env \<Rightarrow> 'c callbacks \<Rightarrow>
   ('d, 'j, 'b, 's, 'w, 'c) engine_run \<Rightarrow> ('d, 'j, 'b, 's, 'w, 'c) engine_run \<Rightarrow> bool" for ops env cbs where
  take: "\<lbrakk>en_urlQueue (er_engine st) = req # q; size (er_waiting st) + size (er_running st) < en_workers (er_engine st)\<rbrakk> \<Longrightarrow>
     worker_step ops env cbs st (st\<lparr>er_engine := (er_engine st)\<lparr>en_urlQueue := q\<rparr>, er_waiting := add_mset req (er_waiting st)\<rparr>)"
| acquire: "\<lbrakk>er_waiting st = add_mset req W; e = er_engine st;
     Concurrency_Acquire ops (ctx_err e) (en_concurrency e) (engine_extractDomain (crq_URL req)) = (Acquired, cm)\<rbrakk> \<Longrightarrow>
     worker_step ops env cbs st
       (st\<lparr>er_engine := e\<lparr>en_concurrency := cm\<rparr>, er_waiting := W, er_running := add_mset req (er_running st)\<rparr>)"
| refuse: "\<lbrakk>er_waiting st = add_mset req W; e = er_engine st;
     Concurrency_Acquire ops (ctx_err e) (en_concurrency e) (engine_extractDomain (crq_URL req)) = (Failed err, cm);
     process_refused cbs (e\<lparr>en_concurrency := cm\<rparr>) (er_cb st) req err = (e1, c1)\<rbrakk> \<Longrightarrow>
     worker_step ops env cbs st (st\<lparr>er_engine := url_Done e1, er_waiting := W, er_cb := c1, er_done := Suc (er_done st)\<rparr>)"
| finish: "\<lbrakk>er_running st = add_mset req R;
     process_acquired env cbs (er_engine st) (er_world st) (er_cb st) req = Some (e1, w1, c1);
     release_permit ops (engine_extractDomain (crq_URL req)) e1 = Some e2\<rbrakk> \<Longrightarrow>
     worker_step ops env cbs st
       (st\<lparr>er_engine := url_Done e2, er_running := R, er_world := w1, er_cb := c1, er_done := Suc (er_done st)\<rparr>)"
| exit: "\<lbrakk>ctx_err (er_engine st) \<noteq> None; size (er_waiting st) + size (er_running st) < en_workers (er_engine st)\<rbrakk> \<Longrightarrow>
     worker_step ops env cbs st (st\<lparr>er_engine := (er_engine st)\<lparr>en_workers := en_workers (er_engine st) - 1\<rparr>\<rparr>)"

text \<open>Everything that can happen to an engine: its methods, its workers, the end of the parent
  context, and the two ways out of \<open>Wait\<close>.\<close>

definition Wait_finished :: "('d, 'j, 'b, 's) Engine \<Rightarrow> ('d, 'j, 'b, 's) Engine" where
  "Wait_finished e = Engine_cancel e"

definition Wait_drain :: "('d, 'j, 'b, 's) Engine \<Rightarrow> error option \<times> ('d, 'j, 'b, 's) Engine" where
  "Wait_drain e = (ctx_err e, e\<lparr>en_urlWg := en_urlWg e - int (length (en_urlQueue e)), en_urlQueue := []\<rparr>)"

inductive engine_step ::
  "'s sem_ops \<Rightarrow> ('w, 'd, 'j, 'b, 'c) engine_env \<Rightarrow> 'c callbacks \<Rightarrow>
   ('d, 'j, 'b, 's, 'w, 'c) engine_run \<Rightarrow> ('d, 'j, 'b, 's, 'w, 'c) engine_run \<Rightarrow> bool" for ops env cbs where
  work: "worker_step ops env cbs st st' \<Longrightarrow> engine_step ops env cbs st st'"
| add: "Engine_AddURL (er_engine st) u opts = (r, e') \<Longrightarrow> engine_step ops env cbs st (st\<lparr>er_engine := e'\<rparr>)"
| start: "Engine_Start now parent (er_engine st) = (r, e') \<Longrightarrow> engine_step ops env cbs st (st\<lparr>er_engine := e'\<rparr>)"
| stop: "Engine_Stop (er_engine st) = (r, e') \<Longrightarrow> engine_step ops env cbs st (st\<lparr>er_engine := e'\<rparr>)"
| parent_ends: "en_ctx (er_engine st) = Some None \<Longrightarrow>
     engine_step ops env cbs st (st\<lparr>er_engine := (er_engine st)\<lparr>en_ctx := Some (Some err)\<rparr>\<rparr>)"
| wait_finished: "\<lbrakk>en_started (er_engine st); en_urlWg (er_engine st) = 0\<rbrakk> \<Longrightarrow>
     engine_step ops env cbs st (st\<lparr>er_engine := Wait_finished (er_engine st)\<rparr>)"
| wait_drain: "\<lbrakk>en_started (er_engine st); ctx_err (er_engine st) \<noteq> None; Wait_drain (er_engine st) = (r, e')\<rbrakk> \<Longrightarrow>
     engine_step ops env cbs st (st\<lparr>er_engine := e'\<rparr>)"

inductive_cases worker_stepE: "worker_step ops env cbs st st'"
inductive_cases engine_stepE: "engine_step ops env cbs st st'"

section \<open>The engine's invariant\<close>

text \<open>The requests that hold permits are those that run.\<close>

definition permits :: "('d, 'j, 'b, 's, 'w, 'c) engine_run \<Rightarrow> 's conc_state" where
  "permits st = \<lparr>cs_cm = en_concurrency (er_engine st), cs_waiting = {#},
     cs_holding = image_mset (\<lambda>r. engine_extractDomain (crq_URL r)) (er_running st)\<rparr>"

lemma Acquire_conc_steps:
  assumes "Concurrency_Acquire ops ctx cm d = (r, cm')"
  shows "r = Acquired \<Longrightarrow> (conc_step ops)\<^sup>*\<^sup>* \<lparr>cs_cm = cm, cs_waiting = {#}, cs_holding = H\<rparr>
      \<lparr>cs_cm = cm', cs_waiting = {#}, cs_holding = add_mset d H\<rparr>"
    and "r = Failed err \<Longrightarrow> (conc_step ops)\<^sup>*\<^sup>* \<lparr>cs_cm = cm, cs_waiting = {#}, cs_holding = H\<rparr>
      \<lparr>cs_cm = cm', cs_waiting = {#}, cs_holding = H\<rparr>"
proof -
  obtain r1 cm1 where g: "Acquire_global ops ctx cm = (r1, cm1)" by fastforce
  have two: "(conc_step ops)\<^sup>*\<^sup>* a c" if "conc_step ops a b" "conc_step ops b c" for a b c using that by auto
  show "(conc_step ops)\<^sup>*\<^sup>* \<lparr>cs_cm = cm, cs_waiting = {#}, cs_holding = H\<rparr> \<lparr>cs_cm = cm', cs_waiting = {#}, cs_holding = add_mset d H\<rparr>"
    if "r = Acquired"
  proof (cases "r1 = AtDomain")
    case True
    then have "Acquire_domain ops ctx cm1 d = (Acquired, cm')" using assms g that by (simp add: Concurrency_Acquire_def)
    from enter [OF g [unfolded True]] get [OF this] show ?thesis by (rule two)
  next
    case False
    then have "r1 = Acquired" "cm1 = cm'" using assms g that by (cases r1; simp add: Concurrency_Acquire_def)+
    then show ?thesis using enter_done [of ops ctx cm cm'] g by blast
  qed
  show "(conc_step ops)\<^sup>*\<^sup>* \<lparr>cs_cm = cm, cs_waiting = {#}, cs_holding = H\<rparr> \<lparr>cs_cm = cm', cs_waiting = {#}, cs_holding = H\<rparr>"
    if "r = Failed err"
  proof (cases "r1 = AtDomain")
    case True
    then have "Acquire_domain ops ctx cm1 d = (Failed err, cm')" using assms g that by (simp add: Concurrency_Acquire_def)
    from enter [OF g [unfolded True]] get_failed [OF this] show ?thesis by (rule two)
  next
    case False
    then have "r1 = Failed err" "cm1 = cm'" using assms g that by (cases r1; simp add: Concurrency_Acquire_def)+
    then show ?thesis using enter_failed [of ops ctx cm err cm'] g by blast
  qed
qed

lemma conc_inv_steps:
  assumes "semaphore_law ops cap held" "conc_inv cap held cfg s" "(conc_step ops)\<^sup>*\<^sup>* s s'"
  shows "conc_inv cap held cfg s'"
  using assms(3,2) by induction (use conc_inv_step [OF assms(1)] in blast)+

text \<open>Requests that ended, by the counters.\<close>

definition ended :: "engineStats \<Rightarrow> int" where
  "ended s = wrap64 (es_successCount s + es_errorCount s)"

lemma wrap64_cong: "a mod 2 ^ 64 = b mod 2 ^ 64 \<Longrightarrow> wrap64 a = wrap64 b"
  unfolding wrap64_def by (metis mod_add_left_eq)

lemma wrap64_mod: "wrap64 x mod 2 ^ 64 = x mod 2 ^ 64"
  unfolding wrap64_def by (simp add: mod_diff_left_eq)

lemma wrap64_sum: "wrap64 (wrap64 a + b) = wrap64 (a + b)" "wrap64 (a + wrap64 b) = wrap64 (a + b)"
  by (rule wrap64_cong; metis wrap64_mod mod_add_left_eq mod_add_right_eq)+

lemma ended_count:
  "ended (en_stats (count_error e)) = wrap64 (ended (en_stats e) + 1)"
  "ended (en_stats (count_success n e)) = wrap64 (ended (en_stats e) + 1)"
  "ended (en_stats (count_request e)) = ended (en_stats e)"
  by (simp_all add: ended_def count_error_def count_success_def count_request_def wrap64_sum ac_simps)

text \<open>What processing leaves alone.\<close>

definition same_control :: "('d, 'j, 'b, 's) Engine \<Rightarrow> ('d, 'j, 'b, 's) Engine \<Rightarrow> bool" where
  "same_control e e' \<longleftrightarrow> en_cfg e' = en_cfg e \<and> en_concurrency e' = en_concurrency e \<and> en_urlQueue e' = en_urlQueue e \<and>
     en_started e' = en_started e \<and> en_stopped e' = en_stopped e \<and> en_ctx e' = en_ctx e \<and> en_workers e' = en_workers e \<and>
     en_urlWg e' = en_urlWg e"

lemma same_control_count [simp]:
  "same_control e (count_error e') = same_control e e'" "same_control e (count_success n e') = same_control e e'"
  "same_control e (count_request e') = same_control e e'" "same_control (count_request e) e' = same_control e e'" "same_control e e"
  by (simp_all add: same_control_def count_error_def count_success_def count_request_def)

lemma engine_fetch_frame:
  assumes "engine_fetch env e w b creq = Some (r, e', w')"
  shows "same_control e e' \<and> en_stats e' = en_stats e"
  using assms by (auto simp: engine_fetch_def same_control_def split: bool.splits option.splits prod.splits)

lemma process_acquired_frame:
  assumes "process_acquired env cbs e w c req = Some (e', w', c')"
  shows "same_control e e'" "ended (en_stats e') = wrap64 (ended (en_stats e) + 1)"
  using assms by (auto simp: process_acquired_def Let_def ended_count split: prod.splits option.splits sum.splits if_splits
      dest!: engine_fetch_frame)

lemma process_refused_frame:
  assumes "process_refused cbs e c req err = (e', c')"
  shows "same_control e e'" "ended (en_stats e') = wrap64 (ended (en_stats e) + 1)"
  using assms by (auto simp: process_refused_def ended_count)

lemma release_permit_frame:
  assumes "release_permit ops d e = Some e'"
  obtains cm where "Concurrency_Release ops (en_concurrency e) d = Some cm" "e' = e\<lparr>en_concurrency := cm\<rparr>"
  using assms by (auto simp: release_permit_def split: option.splits)

text \<open>
  Pending URLs are counted exactly, no worker holds two requests, permits match the running
  requests, and every request that ended is one success or one error.
\<close>

definition control_inv :: "('d, 'j, 'b, 's, 'w, 'c) engine_run \<Rightarrow> bool" where
  "control_inv st \<longleftrightarrow>
     (let e = er_engine st; busy = size (er_waiting st) + size (er_running st)
      in en_urlWg e = int (length (en_urlQueue e) + busy) \<and> length (en_urlQueue e) \<le> urlQueue_cap \<and>
         busy \<le> en_workers e \<and> int (en_workers e) \<le> max 0 (cfg_WorkerCount (en_cfg e)) \<and>
         (en_started e \<or> en_workers e = 0) \<and> ended (en_stats e) = wrap64 (int (er_done st)))"

definition engine_inv ::
  "('s \<Rightarrow> int) \<Rightarrow> ('s \<Rightarrow> nat) \<Rightarrow> ('j, 'b) Config \<Rightarrow> ('d, 'j, 'b, 's, 'w, 'c) engine_run \<Rightarrow> bool" where
  "engine_inv cap held cfg st \<longleftrightarrow> control_inv st \<and> en_cfg (er_engine st) = cfg \<and> conc_inv cap held (cfg_Concurrency cfg) (permits st)"

lemma ended_Suc: "ended s = wrap64 (int n) \<Longrightarrow> wrap64 (ended s + 1) = wrap64 (1 + int n)"
  by (simp add: wrap64_sum add.commute)

lemma control_inv_ended:
  assumes "control_inv st" and "same_control (er_engine st) e" and "ended (en_stats e) = wrap64 (ended (en_stats (er_engine st)) + 1)"
    and "er_engine st' = url_Done (e\<lparr>en_concurrency := cm\<rparr>)" and "er_done st' = Suc (er_done st)"
    and "Suc (size (er_waiting st') + size (er_running st')) = size (er_waiting st) + size (er_running st)"
  shows "control_inv st' \<and> en_cfg (er_engine st') = en_cfg (er_engine st)"
proof -
  note f = assms(2) [unfolded same_control_def] and i = assms(1) [unfolded control_inv_def Let_def]
  have "ended (en_stats (er_engine st')) = wrap64 (int (er_done st'))"
    using assms(3-5) i ended_Suc [of "en_stats (er_engine st)"] by (simp add: url_Done_def)
  moreover have "en_urlWg (er_engine st') = int (length (en_urlQueue (er_engine st')) + (size (er_waiting st') + size (er_running st')))"
    using assms(4,6) f i by (simp add: url_Done_def)
  moreover have "size (er_waiting st') + size (er_running st') \<le> en_workers (er_engine st')"
    using assms(4,6) f i by (simp add: url_Done_def)
  moreover have "en_cfg (er_engine st') = en_cfg (er_engine st)" "en_urlQueue (er_engine st') = en_urlQueue (er_engine st)"
    "en_workers (er_engine st') = en_workers (er_engine st)" "en_started (er_engine st') = en_started (er_engine st)"
    using assms(4) f by (simp_all add: url_Done_def)
  ultimately show ?thesis using i unfolding control_inv_def Let_def by metis
qed

lemma engine_conc_id: "e\<lparr>en_concurrency := cm, en_concurrency := en_concurrency e\<rparr> = e"
  by (cases e) simp

lemma control_inv_worker_step:
  assumes step: "worker_step ops env cbs st st'" and inv: "control_inv st"
  shows "control_inv st' \<and> en_cfg (er_engine st') = en_cfg (er_engine st)"
  using step
proof cases
  case (take req q)
  then show ?thesis using inv by (simp add: control_inv_def Let_def)
next
  case (acquire req W e cm)
  have "control_inv st'" using inv acquire(2,3) unfolding acquire(1) by (auto simp: control_inv_def Let_def)
  then show ?thesis using acquire(1,3) by simp
next
  case (refuse req W e err cm e1 c1)
  note f = process_refused_frame [OF refuse(5)]
  let ?e = "e1\<lparr>en_concurrency := en_concurrency e\<rparr>"
  have c: "same_control (er_engine st) ?e" using f(1) refuse(3) by (simp add: same_control_def)
  have "er_engine st' = url_Done (?e\<lparr>en_concurrency := en_concurrency e1\<rparr>)" using refuse(1) engine_conc_id [of e1] by simp
  then show ?thesis
    by (rule control_inv_ended [OF inv c, rotated]) (use f(2) refuse(1-3) in simp_all)
next
  case (finish req R e1 w1 c1 e2)
  note f = process_acquired_frame [OF finish(3)]
  obtain cm where "e2 = e1\<lparr>en_concurrency := cm\<rparr>" using release_permit_frame [OF finish(4)] by blast
  then show ?thesis
    by (intro control_inv_ended [OF inv f, of st' cm]) (use finish(1,2) in simp_all)
next
  case exit
  then show ?thesis using inv by (auto simp: control_inv_def Let_def)
qed

lemma permits_worker_step:
  assumes "worker_step ops env cbs st st'"
  shows "(conc_step ops)\<^sup>*\<^sup>* (permits st) (permits st')"
  using assms
proof cases
  case (acquire req W e cm)
  show ?thesis using Acquire_conc_steps(1) [OF acquire(4) refl] acquire(1,3) by (simp add: permits_def)
next
  case (refuse req W e err cm e1 c1)
  have "en_concurrency e1 = cm" using process_refused_frame(1) [OF refuse(5)] by (simp add: same_control_def)
  then show ?thesis using Acquire_conc_steps(2) [OF refuse(4) refl] refuse(1,3) by (simp add: permits_def url_Done_def)
next
  case (finish req R e1 w1 c1 e2)
  have cm1: "en_concurrency e1 = en_concurrency (er_engine st)"
    using process_acquired_frame(1) [OF finish(3)] by (simp add: same_control_def)
  obtain cm where r: "Concurrency_Release ops (en_concurrency e1) (engine_extractDomain (crq_URL req)) = Some cm"
    "e2 = e1\<lparr>en_concurrency := cm\<rparr>" using release_permit_frame [OF finish(4)] by blast
  show ?thesis using release [OF r(1)] finish(1,2) cm1 r(2) by (simp add: permits_def url_Done_def r_into_rtranclp)
qed (simp_all add: permits_def)

lemma engine_inv_step:
  assumes law: "semaphore_law ops cap held" and inv: "engine_inv cap held cfg st" and step: "engine_step ops env cbs st st'"
  shows "engine_inv cap held cfg st'"
  using step
proof cases
  case work
  show ?thesis
    using control_inv_worker_step [OF work] conc_inv_steps [OF law _ permits_worker_step [OF work]] inv
    by (simp add: engine_inv_def)
next
  case (add u opts r e')
  then show ?thesis using inv
    by (auto simp: engine_inv_def control_inv_def Engine_AddURL_def permits_def Let_def split: if_splits)
next
  case (start now parent r e')
  then show ?thesis using inv by (auto simp: engine_inv_def control_inv_def Engine_Start_def permits_def Let_def split: if_splits)
next
  case (stop r e')
  then show ?thesis using inv
    by (auto simp: engine_inv_def control_inv_def Engine_Stop_def Engine_cancel_def permits_def Let_def split: if_splits option.splits)
next
  case (parent_ends err)
  then show ?thesis using inv by (auto simp: engine_inv_def control_inv_def permits_def Let_def)
next
  case wait_finished
  then show ?thesis using inv
    by (auto simp: engine_inv_def control_inv_def Wait_finished_def Engine_cancel_def permits_def Let_def split: option.splits)
next
  case (wait_drain r e')
  then show ?thesis using inv by (auto simp: engine_inv_def control_inv_def Wait_drain_def permits_def Let_def)
qed

definition engine_start :: "('d, 'j, 'b, 's) Engine \<Rightarrow> 'w \<Rightarrow> 'c \<Rightarrow> ('d, 'j, 'b, 's, 'w, 'c) engine_run" where
  "engine_start e w c = \<lparr>er_engine = e, er_waiting = {#}, er_running = {#}, er_world = w, er_cb = c, er_done = 0\<rparr>"

lemma ConcurrencyConfig_withDefaults_idem [simp]:
  "ConcurrencyConfig_withDefaults (ConcurrencyConfig_withDefaults c) = ConcurrencyConfig_withDefaults c"
  by (simp add: ConcurrencyConfig_withDefaults_def Let_def)

lemma Config_withDefaults_Concurrency:
  "cfg_Concurrency (Config_withDefaults c) = ConcurrencyConfig_withDefaults (cfg_Concurrency c)"
  by (simp add: Config_withDefaults_def Let_def)

lemma engine_inv_start:
  assumes "semaphore_law ops cap held" "newEngine lib ops cfg = Inr e"
  shows "engine_inv cap held (Config_withDefaults cfg) (engine_start e w c)"
proof -
  have e: "en_cfg e = Config_withDefaults cfg" "en_concurrency e = NewConcurrencyManager ops (cfg_Concurrency (Config_withDefaults cfg))"
    "en_urlWg e = 0" "en_urlQueue e = []" "en_workers e = 0" "ended (en_stats e) = 0"
    using assms(2) by (auto simp: newEngine_def Let_def ended_def wrap64_def split: sum.splits)
  have "permits (engine_start e w c) = conc_start ops (cfg_Concurrency (Config_withDefaults cfg))"
    using e by (simp add: permits_def conc_start_def engine_start_def)
  then show ?thesis
    using e conc_inv_start [OF assms(1), of "cfg_Concurrency (Config_withDefaults cfg)"]
    by (simp add: engine_inv_def control_inv_def engine_start_def Config_withDefaults_Concurrency wrap64_def)
qed

lemma engine_inv_run:
  assumes "semaphore_law ops cap held" "newEngine lib ops cfg = Inr e" "(engine_step ops env cbs)\<^sup>*\<^sup>* (engine_start e w c) st"
  shows "engine_inv cap held (Config_withDefaults cfg) st"
  using assms(3)
proof induction
  case base
  show ?case by (rule engine_inv_start [OF assms(1,2)])
next
  case (step y z)
  show ?case by (rule engine_inv_step [OF assms(1) step.IH step.hyps(2)])
qed

lemma count_image_filter: "count (image_mset f M) d = size (filter_mset (\<lambda>x. f x = d) M)"
  by (induction M) auto

text \<open>
  C3. In every run of an engine, whatever is added, started, stopped or cancelled meanwhile, the
  count that \<open>Wait\<close> waits on is the number of URLs queued or in a worker (so it is never negative
  and reaches zero exactly when there is nothing left); no more requests are in progress than there
  are workers, than the global limit allows, or, in one domain, than the limit per domain; and the
  success and error counters together count the requests that ended.
\<close>

theorem engine_run_invariant:
  assumes "semaphore_law ops cap held" and "newEngine lib ops cfg0 = Inr e" and "cfg = Config_withDefaults cfg0"
    and "(engine_step ops env cbs)\<^sup>*\<^sup>* (engine_start e w c) st"
  shows "en_urlWg (er_engine st) = int (length (en_urlQueue (er_engine st)) + size (er_waiting st) + size (er_running st)) \<and>
    size (er_waiting st) + size (er_running st) \<le> nat (cfg_WorkerCount cfg) \<and>
    (er_running st = {#} \<or> int (size (er_running st)) \<le> GlobalMaxConcurrency (cfg_Concurrency cfg)) \<and>
    (DisablePerDomainLimits (cfg_Concurrency cfg) \<or> filter_mset (\<lambda>r. engine_extractDomain (crq_URL r) = d) (er_running st) = {#} \<or>
     int (size (filter_mset (\<lambda>r. engine_extractDomain (crq_URL r) = d) (er_running st))) \<le> PerDomainMaxConcurrency (cfg_Concurrency cfg)) \<and>
    wrap64 (SuccessCount (Engine_Stats now (er_engine st)) + ErrorCount (Engine_Stats now (er_engine st))) = wrap64 (int (er_done st))"
proof -
  have inv: "engine_inv cap held cfg st" using engine_inv_run [OF assms(1,2,4)] assms(3) by simp
  have conc: "conc_inv cap held (cfg_Concurrency cfg) \<lparr>cs_cm = en_concurrency (er_engine st), cs_waiting = {#},
     cs_holding = image_mset (\<lambda>r. engine_extractDomain (crq_URL r)) (er_running st)\<rparr>"
    and ctl: "control_inv st" and cfg: "en_cfg (er_engine st) = cfg"
    using inv by (simp_all add: engine_inv_def permits_def)
  have "er_running st = {#} \<or> int (size (er_running st)) \<le> GlobalMaxConcurrency (cfg_Concurrency cfg)"
    using conc unfolding conc_inv_alt by auto
  moreover have "DisablePerDomainLimits (cfg_Concurrency cfg) \<or> filter_mset (\<lambda>r. engine_extractDomain (crq_URL r) = d) (er_running st) = {#} \<or>
     int (size (filter_mset (\<lambda>r. engine_extractDomain (crq_URL r) = d) (er_running st))) \<le> PerDomainMaxConcurrency (cfg_Concurrency cfg)"
    using conc unfolding conc_inv_alt count_image_filter by (metis nonempty_has_size)
  moreover have "size (er_waiting st) + size (er_running st) \<le> nat (cfg_WorkerCount cfg)"
    using ctl cfg by (auto simp: control_inv_def Let_def)
  ultimately show ?thesis using ctl by (simp add: control_inv_def Let_def Engine_Stats_def ended_def)
qed

section \<open>A concrete engine\<close>

text \<open>The engine's own client never has a proxy, so making it cannot fail.\<close>

definition direct_transport :: "'d http_Transport" where
  "direct_transport = \<lparr>tr_DialContext = NetDialer (10 * Second) (30 * Second), tr_MinVersion = ''TLS 1.2'',
     tr_TLSHandshakeTimeout = 10 * Second, tr_ResponseHeaderTimeout = 15 * Second, tr_MaxIdleConns = 100,
     tr_MaxIdleConnsPerHost = 20, tr_MaxConnsPerHost = 0, tr_IdleConnTimeout = 90 * Second,
     tr_ForceAttemptHTTP2 = True, tr_DisableCompression = False, tr_Proxy = None\<rparr>"

lemma newPool_engine:
  "newPool lib (cl_Transport (client_Config_withDefaults (client_config_of cfg))) =
     Inr \<lparr>pool_transport = direct_transport, pool_totalRequests = 0\<rparr>"
proof -
  have "cl_Transport (client_Config_withDefaults (client_config_of cfg)) = TransportConfig_withDefaults (cl_Transport (client_config_of cfg))"
    by (simp add: client_Config_withDefaults_def Let_def)
  also have "\<dots> = \<lparr>MaxIdleConns = 100, MaxIdleConnsPerHost = 20, MaxConnsPerHost = 0, DialTimeout = 10 * Second,
      TLSHandshakeTimeout = 10 * Second, ResponseHeaderTimeout = 15 * Second, IdleConnTimeout = 90 * Second, DisableHTTP2 = False,
      DisableCompression = False, tc_Proxy = \<lparr>proxy_URL = [], proxy_Username = [], proxy_Password = []\<rparr>\<rparr>"
    by (simp add: TransportConfig_withDefaults_def client_config_of_def)
  finally show ?thesis by (simp add: newPool_def buildTransport_def applyProxy_def direct_transport_def)
qed

definition engine_client :: "('j, 'b) Config \<Rightarrow> ('d, 'j) Client" where
  "engine_client cfg =
     (let cc = client_Config_withDefaults (client_config_of cfg)
      in \<lparr>client_httpClient = \<lparr>hcl_Transport = direct_transport, hcl_Timeout = cl_Timeout cc, hcl_Jar = cl_CookieJar cc,
            hcl_CheckRedirect = CheckRedirect cc\<rparr>,
          client_cfg = cc, client_pool = \<lparr>pool_transport = direct_transport, pool_totalRequests = 0\<rparr>\<rparr>)"

lemma client_New_engine: "client_New lib (client_config_of cfg) [] = Inr (engine_client cfg)"
  by (simp add: client_New_def newPool_engine engine_client_def Let_def)

definition fresh_engine :: "'s sem_ops \<Rightarrow> ('j, 'b) Config \<Rightarrow> ('d, 'j, 'b, 's) Engine" where
  "fresh_engine ops cfg =
     \<lparr>en_cfg = cfg, en_httpClient = engine_client cfg, en_renderFetcher = cfg_BrowserPool cfg,
      en_concurrency = NewConcurrencyManager ops (cfg_Concurrency cfg), en_urlQueue = [],
      en_stats = \<lparr>es_requestCount = 0, es_successCount = 0, es_errorCount = 0, es_bytesDownloaded = 0\<rparr>,
      en_started = False, en_stopped = False, en_startTime = 0, en_ctx = None, en_workers = 0, en_urlWg = 0\<rparr>"

lemma newEngine_fresh: "newEngine lib ops cfg = Inr (fresh_engine ops (Config_withDefaults cfg))"
  by (simp add: newEngine_def client_New_engine fresh_engine_def Let_def)

definition zero_Config :: "('j, 'b) Config" where
  "zero_Config = \<lparr>cfg_MaxDepth = 0, cfg_MaxPages = 0,
     cfg_Concurrency = \<lparr>GlobalMaxConcurrency = 0, PerDomainMaxConcurrency = 0, DisablePerDomainLimits = False\<rparr>,
     cfg_Client = \<lparr>cl_Timeout = 0, cl_MaxRedirects = 0, cl_UserAgent = [],
       cl_Transport = \<lparr>MaxIdleConns = 0, MaxIdleConnsPerHost = 0, MaxConnsPerHost = 0, DialTimeout = 0, TLSHandshakeTimeout = 0,
         ResponseHeaderTimeout = 0, IdleConnTimeout = 0, DisableHTTP2 = False, DisableCompression = False,
         tc_Proxy = \<lparr>proxy_URL = [], proxy_Username = [], proxy_Password = []\<rparr>\<rparr>, cl_CookieJar = None\<rparr>,
     cfg_UserAgent = [], cfg_WorkerCount = 0, cfg_CookieJar = None, cfg_BrowserPool = None\<rparr>"

definition socks_sample :: "unit socks_lib" where
  "socks_sample = \<lparr>sx_SOCKS5 = (\<lambda>n a u t k. Inr ()), sx_is_ContextDialer = (\<lambda>d. True)\<rparr>"

definition engine_sample :: "(bytes_Buffer list, unit, unit, unit, nat) engine_env" where
  "engine_sample = \<lparr>ee_client = sample_http ''2'' ''ok'', ee_Render = (\<lambda>w b u t. (Inl (ErrorString ''no browser''), w)), ee_selectors = (\<lambda>m. [])\<rparr>"

text \<open>Add a URL, start, and let a worker take it.\<close>

theorem engine_run_invariant_witness:
  "\<exists>e st. newEngine socks_sample counting_sem (zero_Config :: (unit, unit) Config) = Inr e \<and>
     (engine_step counting_sem engine_sample no_callbacks)\<^sup>*\<^sup>* (engine_start e [] 0) st \<and>
     size (er_waiting st) = 1 \<and> en_urlWg (er_engine st) = 1 \<and> size (er_waiting st) + size (er_running st) \<le> 10"
proof -
  define e :: "(unit, unit, unit, int \<times> nat) Engine" where "e = fresh_engine counting_sem (Config_withDefaults zero_Config)"
  have e: "newEngine socks_sample counting_sem zero_Config = Inr e"
    "en_cfg e = Config_withDefaults zero_Config" "en_urlQueue e = []" "\<not> en_stopped e" "\<not> en_started e"
    unfolding newEngine_fresh e_def by (simp_all add: fresh_engine_def)
  obtain e1 where a: "Engine_AddURL e ''http://h/'' [] = (None, e1)" "en_cfg e1 = en_cfg e" "\<not> en_started e1" "length (en_urlQueue e1) = 1"
    using e by (simp add: Engine_AddURL_def urlQueue_cap_def Let_def)
  obtain e2 where b: "Engine_Start 1 None e1 = (None, e2)" "en_urlQueue e2 = en_urlQueue e1" "en_workers e2 = 10"
    using a e(2) by (simp add: Engine_Start_def Config_withDefaults_def zero_Config_def Let_def)
  obtain req where q: "en_urlQueue e2 = req # []" using a(4) b(2) by (cases "en_urlQueue e1") simp_all
  let ?s0 = "engine_start e ([] :: bytes_Buffer list) (0 :: nat)"
  let ?s1 = "?s0\<lparr>er_engine := e1\<rparr>" and ?s2 = "?s0\<lparr>er_engine := e1, er_engine := e2\<rparr>"
  let ?st = "?s2\<lparr>er_engine := (er_engine ?s2)\<lparr>en_urlQueue := []\<rparr>, er_waiting := add_mset req (er_waiting ?s2)\<rparr>"
  have "engine_step counting_sem engine_sample no_callbacks ?s0 ?s1" by (rule add [where u = "''http://h/''" and opts = "[]" and r = None]) (simp add: engine_start_def a(1))
  moreover have "engine_step counting_sem engine_sample no_callbacks ?s1 ?s2" by (rule start [where now = 1 and parent = None and r = None]) (simp add: engine_start_def b(1))
  moreover have "engine_step counting_sem engine_sample no_callbacks ?s2 ?st"
    by (rule work, rule take) (simp_all add: engine_start_def q b(3))
  ultimately have run: "(engine_step counting_sem engine_sample no_callbacks)\<^sup>*\<^sup>* ?s0 ?st" by auto
  have w: "size (er_waiting ?st) = 1" "en_urlQueue (er_engine ?st) = []" "er_running ?st = {#}" by (simp_all add: engine_start_def)
  have "cfg_WorkerCount (Config_withDefaults (zero_Config :: (unit, unit) Config)) = 10"
    by (simp add: Config_withDefaults_def zero_Config_def Let_def)
  then have "en_urlWg (er_engine ?st) = 1 \<and> size (er_waiting ?st) + size (er_running ?st) \<le> 10"
    using engine_run_invariant [OF counting_sem_law e(1) refl run, of "[]" 0] w by simp
  then show ?thesis using e(1) run w(1) by blast
qed

end
