(* ===== verification/Crawler_Service.thy ===== *)
theory Crawler_Service
  imports Crawler_Engine
begin

text \<open>
  pkg/crawler/builder.go, service.go and service_impl.go: the fluent constructor, and the service the
  gRPC server calls, which runs one-shot crawls and keeps named engines.
\<close>

section \<open>builder.go\<close>

record ('j, 'b) Builder =
  bld_cfg :: "('j, 'b) Config"

definition NewBuilder :: "('j, 'b) Builder" where
  "NewBuilder = \<lparr>bld_cfg = zero_Config\<rparr>"

definition WithConfig :: "('j, 'b) Builder \<Rightarrow> ('j, 'b) Config \<Rightarrow> ('j, 'b) Builder" where
  "WithConfig b cfg = b\<lparr>bld_cfg := cfg\<rparr>"

definition WithMaxDepth :: "('j, 'b) Builder \<Rightarrow> int \<Rightarrow> ('j, 'b) Builder" where
  "WithMaxDepth b depth = b\<lparr>bld_cfg := (bld_cfg b)\<lparr>cfg_MaxDepth := depth\<rparr>\<rparr>"

definition WithMaxPages :: "('j, 'b) Builder \<Rightarrow> int \<Rightarrow> ('j, 'b) Builder" where
  "WithMaxPages b pages = b\<lparr>bld_cfg := (bld_cfg b)\<lparr>cfg_MaxPages := pages\<rparr>\<rparr>"

definition WithWorkerCount :: "('j, 'b) Builder \<Rightarrow> int \<Rightarrow> ('j, 'b) Builder" where
  "WithWorkerCount b n = b\<lparr>bld_cfg := (bld_cfg b)\<lparr>cfg_WorkerCount := n\<rparr>\<rparr>"

definition WithUserAgent :: "('j, 'b) Builder \<Rightarrow> string \<Rightarrow> ('j, 'b) Builder" where
  "WithUserAgent b ua = b\<lparr>bld_cfg := (bld_cfg b)\<lparr>cfg_UserAgent := ua\<rparr>\<rparr>"

definition set_proxy :: "('j, 'b) Config \<Rightarrow> ProxyConfig \<Rightarrow> ('j, 'b) Config" where
  "set_proxy cfg p =
     cfg\<lparr>cfg_Client := (cfg_Client cfg)\<lparr>cl_Transport := (cl_Transport (cfg_Client cfg))\<lparr>tc_Proxy := p\<rparr>\<rparr>\<rparr>"

definition WithProxy :: "('j, 'b) Builder \<Rightarrow> string \<Rightarrow> ('j, 'b) Builder" where
  "WithProxy b url = b\<lparr>bld_cfg := set_proxy (bld_cfg b) \<lparr>proxy_URL = url, proxy_Username = [], proxy_Password = []\<rparr>\<rparr>"

definition WithProxyAuth :: "('j, 'b) Builder \<Rightarrow> string \<Rightarrow> string \<Rightarrow> string \<Rightarrow> ('j, 'b) Builder" where
  "WithProxyAuth b url user pass =
     b\<lparr>bld_cfg := set_proxy (bld_cfg b) \<lparr>proxy_URL = url, proxy_Username = user, proxy_Password = pass\<rparr>\<rparr>"

definition WithCookieJar :: "('j, 'b) Builder \<Rightarrow> 'j option \<Rightarrow> ('j, 'b) Builder" where
  "WithCookieJar b jar = b\<lparr>bld_cfg := (bld_cfg b)\<lparr>cfg_CookieJar := jar\<rparr>\<rparr>"

definition WithBrowserPool :: "('j, 'b) Builder \<Rightarrow> 'b option \<Rightarrow> ('j, 'b) Builder" where
  "WithBrowserPool b pool = b\<lparr>bld_cfg := (bld_cfg b)\<lparr>cfg_BrowserPool := pool\<rparr>\<rparr>"

definition Build :: "'d socks_lib \<Rightarrow> 's sem_ops \<Rightarrow> ('j, 'b) Builder \<Rightarrow> error + ('d, 'j, 'b, 's) Engine" where
  "Build lib ops b =
     (if cfg_WorkerCount (bld_cfg b) < 0 then Inl (ErrorString ''worker count must be non-negative'')
      else newEngine lib ops (bld_cfg b))"

text \<open>\<open>None\<close> is the nil engine.\<close>

definition NewEngine :: "'d socks_lib \<Rightarrow> 's sem_ops \<Rightarrow> ('j, 'b) Config \<Rightarrow> ('d, 'j, 'b, 's) Engine option" where
  "NewEngine lib ops cfg = (case newEngine lib ops cfg of Inl err \<Rightarrow> None | Inr e \<Rightarrow> Some e)"

lemma engine_client_cong:
  "\<lbrakk>cfg_UserAgent c = cfg_UserAgent c'; cfg_CookieJar c = cfg_CookieJar c'\<rbrakk> \<Longrightarrow> engine_client c = engine_client c'"
  by (simp add: engine_client_def client_config_of_def)

text \<open>
  The proxy settings of the builder have no effect: an engine built with a proxy, with or without
  credentials, has the same HTTP client as one built without, and that client connects directly.
  Even an unusable proxy URL is not reported.
\<close>

theorem WithProxy_ignored:
  assumes "0 \<le> cfg_WorkerCount (bld_cfg b)"
  shows "\<exists>e e1 e2. Build lib ops b = Inr e \<and> Build lib ops (WithProxy b url) = Inr e1 \<and>
    Build lib ops (WithProxyAuth b url user pass) = Inr e2 \<and>
    en_httpClient e1 = en_httpClient e \<and> en_httpClient e2 = en_httpClient e \<and>
    tr_Proxy (hcl_Transport (client_httpClient (en_httpClient e))) = None \<and>
    tr_DialContext (hcl_Transport (client_httpClient (en_httpClient e))) = NetDialer (10 * Second) (30 * Second)"
proof -
  have same: "engine_client (Config_withDefaults (set_proxy c p)) = engine_client (Config_withDefaults c)" for c :: "('a, 'b) Config" and p
    by (rule engine_client_cong) (simp_all add: Config_withDefaults_def set_proxy_def Let_def)
  have "client_httpClient (engine_client c) = (client_httpClient (engine_client c))\<lparr>hcl_Transport := direct_transport\<rparr>" for c :: "('a, 'b) Config"
    by (simp add: engine_client_def Let_def)
  then have direct: "hcl_Transport (client_httpClient (engine_client c)) = direct_transport" for c :: "('a, 'b) Config"
    by (metis http_Client.select_convs(1) http_Client.update_convs(1) http_Client.surjective)
  show ?thesis using assms
    by (simp add: Build_def WithProxy_def WithProxyAuth_def newEngine_fresh fresh_engine_def same direct)
      (simp add: set_proxy_def direct_transport_def)
qed

theorem WithProxy_ignored_witness:
  "\<exists>e e1. Build socks_sample counting_sem (NewBuilder :: (unit, unit) Builder) = Inr e \<and>
     Build socks_sample counting_sem (WithProxy (NewBuilder :: (unit, unit) Builder) ''socks5://127.0.0.1:9050'') = Inr e1 \<and> en_httpClient e1 = en_httpClient e"
proof -
  have "0 \<le> cfg_WorkerCount (bld_cfg (NewBuilder :: (unit, unit) Builder))" by (simp add: NewBuilder_def zero_Config_def)
  from WithProxy_ignored [OF this, of socks_sample counting_sem "''socks5://127.0.0.1:9050''" "[]" "[]"] show ?thesis by blast
qed

section \<open>service.go and service_impl.go\<close>

record CrawlConfig =
  cc_MaxDepth :: int
  cc_MaxPages :: int
  cc_RespectRobotsTxt :: bool
  cc_URLs :: "string list"

record Result =
  result_URL :: string
  result_Content :: string
  result_StatusCode :: int
  result_Error :: "error option"

record service_Stats =
  PagesCrawled :: int
  PagesFailed :: int
  PagesQueued :: int

text \<open>An instance is its engine; cancelling the instance's context ends the engine's.\<close>

record ('d, 'j, 'b, 's) service =
  svc_instances :: "string \<rightharpoonup> ('d, 'j, 'b, 's) Engine"

definition NewService :: "('d, 'j, 'b, 's) service" where
  "NewService = \<lparr>svc_instances = Map.empty\<rparr>"

definition engine_config :: "CrawlConfig \<Rightarrow> ('j, 'b) Config" where
  "engine_config cfg = zero_Config\<lparr>cfg_MaxDepth := cc_MaxDepth cfg, cfg_MaxPages := cc_MaxPages cfg\<rparr>"

subsection \<open>One-shot crawls\<close>

definition collect_response :: "Result list ResponseCallback" where
  "collect_response results resp =
     (resp, results @ [\<lparr>result_URL = crq_URL (crs_Request resp), result_Content = crs_Body resp,
                        result_StatusCode = crs_StatusCode resp, result_Error = None\<rparr>])"

definition collect_error :: "Result list ErrorCallback" where
  "collect_error results req err =
     (req, results @ [\<lparr>result_URL = crq_URL req, result_Content = [], result_StatusCode = 0, result_Error = Some err\<rparr>])"

definition crawl_callbacks :: "Result list callbacks" where
  "crawl_callbacks = OnError (OnResponse no_callbacks collect_response) collect_error"

text \<open>\<open>Crawl\<close> up to the call of \<open>Wait\<close>.\<close>

definition Crawl_begin ::
  "'d socks_lib \<Rightarrow> 's sem_ops \<Rightarrow> Time \<Rightarrow> error option \<Rightarrow> string list \<Rightarrow> CrawlConfig \<Rightarrow> error + ('d, 'j, 'b, 's) Engine" where
  "Crawl_begin lib ops now ctx urls cfg =
     (if length urls = 0 then Inl (ErrorString ''no URLs provided'')
      else (case newEngine lib ops (engine_config cfg) of
          Inl err \<Rightarrow> Inl (WrapError ''create engine: '' err [])
        | Inr e \<Rightarrow>
            (case Engine_AddURLs e urls [] of
               (Some err, e1) \<Rightarrow> Inl (WrapError ''add URLs: '' err [])
             | (None, e1) \<Rightarrow>
                 (case Engine_Start now ctx e1 of
                    (Some err, e2) \<Rightarrow> Inl (WrapError ''start crawl: '' err [])
                  | (None, e2) \<Rightarrow> Inr e2))))"

text \<open>
  The workers run until the pending URLs are all done; then \<open>Wait\<close> ends and the collected results are
  returned.  The caller's context does not end meanwhile.
\<close>

inductive service_Crawl ::
  "'d socks_lib \<Rightarrow> 's sem_ops \<Rightarrow> ('w, 'd, 'j, 'b, Result list) engine_env \<Rightarrow> Time \<Rightarrow> 'w \<Rightarrow> string list \<Rightarrow> CrawlConfig \<Rightarrow>
   (error + Result list) \<Rightarrow> bool" for lib ops env now w urls cfg where
  refused: "Crawl_begin lib ops now None urls cfg = (Inl err :: error + ('d, 'j, 'b, 's) Engine) \<Longrightarrow>
     service_Crawl lib ops env now w urls cfg (Inl err)"
| returns: "\<lbrakk>Crawl_begin lib ops now None urls cfg = Inr e;
     (worker_step ops env crawl_callbacks)\<^sup>*\<^sup>* (engine_start e w []) st; en_urlWg (er_engine st) = 0\<rbrakk> \<Longrightarrow>
     service_Crawl lib ops env now w urls cfg (Inr (er_cb st))"

subsection \<open>Named instances\<close>

definition service_Start ::
  "'d socks_lib \<Rightarrow> 's sem_ops \<Rightarrow> Time \<Rightarrow> error option \<Rightarrow> ('d, 'j, 'b, 's) service \<Rightarrow> string \<Rightarrow> CrawlConfig \<Rightarrow>
   error option \<times> ('d, 'j, 'b, 's) service" where
  "service_Start lib ops now ctx s cid cfg =
     (case svc_instances s cid of
        Some inst \<Rightarrow> (Some (ErrorString (''crawler '' @ strconv_Quote cid @ '' already running'')), s)
      | None \<Rightarrow>
          (case newEngine lib ops (engine_config cfg) of
             Inl err \<Rightarrow> (Some (WrapError ''create engine: '' err []), s)
           | Inr e \<Rightarrow>
               (case (if 0 < length (cc_URLs cfg) then Engine_AddURLs e (cc_URLs cfg) [] else (None, e)) of
                  (Some err, e1) \<Rightarrow> (Some (WrapError ''add URLs: '' err []), s)
                | (None, e1) \<Rightarrow>
                    (case Engine_Start now ctx e1 of
                       (Some err, e2) \<Rightarrow> (Some (WrapError ''start crawler: '' err []), s)
                     | (None, e2) \<Rightarrow> (None, s\<lparr>svc_instances := (svc_instances s)(cid \<mapsto> e2)\<rparr>)))))"

definition stats_of :: "CrawlStats \<Rightarrow> service_Stats" where
  "stats_of es = \<lparr>PagesCrawled = SuccessCount es, PagesFailed = ErrorCount es,
     PagesQueued = wrap64 (RequestCount es - SuccessCount es - ErrorCount es)\<rparr>"

definition not_found :: "string \<Rightarrow> error" where
  "not_found cid = ErrorString (''crawler '' @ strconv_Quote cid @ '' not found'')"

definition service_Stop ::
  "Time \<Rightarrow> ('d, 'j, 'b, 's) service \<Rightarrow> string \<Rightarrow> (error + service_Stats) \<times> ('d, 'j, 'b, 's) service" where
  "service_Stop now s cid =
     (case svc_instances s cid of
        None \<Rightarrow> (Inl (not_found cid), s)
      | Some e \<Rightarrow>
          let s1 = s\<lparr>svc_instances := (svc_instances s)(cid := None)\<rparr>;
              e1 = Engine_cancel (snd (Engine_Stop e))
          in (Inr (stats_of (Engine_Stats now e1)), s1))"

definition service_Stats_of :: "Time \<Rightarrow> ('d, 'j, 'b, 's) service \<Rightarrow> string \<Rightarrow> error + service_Stats" where
  "service_Stats_of now s cid =
     (case svc_instances s cid of
        None \<Rightarrow> Inl (not_found cid)
      | Some e \<Rightarrow> Inr (stats_of (Engine_Stats now e)))"

fun add_each :: "('d, 'j, 'b, 's) Engine \<Rightarrow> string list \<Rightarrow> nat \<Rightarrow> nat \<times> ('d, 'j, 'b, 's) Engine" where
  "add_each e [] added = (added, e)"
| "add_each e (u # us) added =
     (case Engine_AddURL e u [] of
        (Some err, e1) \<Rightarrow> (added, e1)
      | (None, e1) \<Rightarrow> add_each e1 us (Suc added))"

definition service_AddURLs ::
  "('d, 'j, 'b, 's) service \<Rightarrow> string \<Rightarrow> string list \<Rightarrow> (error + nat) \<times> ('d, 'j, 'b, 's) service" where
  "service_AddURLs s cid urls =
     (case svc_instances s cid of
        None \<Rightarrow> (Inl (not_found cid), s)
      | Some e \<Rightarrow> (case add_each e urls 0 of (n, e1) \<Rightarrow> (Inr n, s\<lparr>svc_instances := (svc_instances s)(cid \<mapsto> e1)\<rparr>)))"

section \<open>Every URL gets one result\<close>

lemma Engine_AddURLs_queue:
  assumes "Engine_AddURLs e us [] = (None, e')"
  shows "map crq_URL (en_urlQueue e') = map crq_URL (en_urlQueue e) @ us" "en_stopped e' = en_stopped e" "en_started e' = en_started e"
    "en_cfg e' = en_cfg e" "en_ctx e' = en_ctx e" "en_workers e' = en_workers e" "en_concurrency e' = en_concurrency e"
    "en_urlWg e' = en_urlWg e + int (length us)" "en_stats e' = en_stats e"
proof -
  show "map crq_URL (en_urlQueue e') = map crq_URL (en_urlQueue e) @ us" using assms
    by (induction us arbitrary: e) (auto simp: Engine_AddURL_def Let_def split: if_splits)
  show "en_stopped e' = en_stopped e" "en_started e' = en_started e"
    "en_cfg e' = en_cfg e" "en_ctx e' = en_ctx e" "en_workers e' = en_workers e" "en_concurrency e' = en_concurrency e"
    "en_urlWg e' = en_urlWg e + int (length us)" "en_stats e' = en_stats e"
    using assms by (induction us arbitrary: e) (auto simp: Engine_AddURL_def Let_def split: if_splits)
qed

lemma crawl_callbacks_simps [simp]:
  "requestCBs crawl_callbacks = []" "responseCBs crawl_callbacks = [collect_response]" "errorCBs crawl_callbacks = [collect_error]"
  "htmlCBs crawl_callbacks = Map.empty"
  by (simp_all add: crawl_callbacks_def OnError_def OnResponse_def no_callbacks_def)

lemma no_html_callbacks: "fireHTMLCallbacks sel crawl_callbacks c resp = (resp, c)"
proof -
  have "concat (map (\<lambda>s. [] :: Result list ResponseCallback list) l) = []" for l :: "string list" by (induction l) auto
  from this show ?thesis by (simp only: fireHTMLCallbacks_def crawl_callbacks_simps option.case fire.simps)
qed

lemma process_refused_result:
  "process_refused crawl_callbacks e rs req err = (e', rs') \<Longrightarrow> map result_URL rs' = map result_URL rs @ [crq_URL req]"
  by (auto simp: process_refused_def fireErrorCallbacks_def collect_error_def)

lemma process_acquired_result:
  "process_acquired env crawl_callbacks e w rs req = Some (e', w', rs') \<Longrightarrow> map result_URL rs' = map result_URL rs @ [crq_URL req]"
  by (auto simp: process_acquired_def fireRequestCallbacks_def fireResponseCallbacks_def fireErrorCallbacks_def no_html_callbacks
      collect_error_def collect_response_def Let_def split: option.splits sum.splits prod.splits if_splits)

text \<open>\<open>logged\<close> are the URLs in the callbacks' state; the URLs of a run are these and those still in the engine.\<close>

definition run_urls :: "('c \<Rightarrow> string multiset) \<Rightarrow> ('d, 'j, 'b, 's, 'w, 'c) engine_run \<Rightarrow> string multiset" where
  "run_urls logged st = logged (er_cb st) + mset (map crq_URL (en_urlQueue (er_engine st))) +
     image_mset crq_URL (er_waiting st) + image_mset crq_URL (er_running st)"

locale result_log =
  fixes ops :: "'s sem_ops" and env :: "('w, 'd, 'j, 'b, 'c) engine_env" and cbs :: "'c callbacks" and logged :: "'c \<Rightarrow> string multiset"
  assumes refused_logs: "process_refused cbs (e :: ('d, 'j, 'b, 's) Engine) c req err = (e', c') \<Longrightarrow> logged c' = add_mset (crq_URL req) (logged c)"
    and acquired_logs: "process_acquired env cbs (e :: ('d, 'j, 'b, 's) Engine) w c req = Some (e', w', c') \<Longrightarrow> logged c' = add_mset (crq_URL req) (logged c)"
begin

lemma worker_step_urls:
  assumes "worker_step ops env cbs st st'"
  shows "run_urls logged st' = run_urls logged st"
  using assms
proof cases
  case (refuse req W e err cm e1 c1)
  have "en_urlQueue e1 = en_urlQueue (er_engine st)" using process_refused_frame(1) [OF refuse(5)] refuse(3) by (simp add: same_control_def)
  then show ?thesis using refused_logs [OF refuse(5)] refuse(1,2) by (simp add: run_urls_def url_Done_def)
next
  case (finish req R e1 w1 c1 e2)
  obtain cm where "e2 = e1\<lparr>en_concurrency := cm\<rparr>" using release_permit_frame [OF finish(4)] by blast
  then have "en_urlQueue e2 = en_urlQueue (er_engine st)" using process_acquired_frame(1) [OF finish(3)] by (simp add: same_control_def)
  then show ?thesis using acquired_logs [OF finish(3)] finish(1,2) by (simp add: run_urls_def url_Done_def)
qed (simp_all add: run_urls_def)

lemma worker_run_urls: "(worker_step ops env cbs)\<^sup>*\<^sup>* st st' \<Longrightarrow> run_urls logged st' = run_urls logged st"
  by (induction rule: rtranclp_induct) (auto dest: worker_step_urls)

end

text \<open>The callbacks of the service's one-shot crawl.\<close>

interpretation service_log: result_log ops env crawl_callbacks "\<lambda>rs. mset (map result_URL rs)" for ops env
  by unfold_locales (simp_all add: process_refused_result process_acquired_result del: mset_map)

text \<open>The engine of a crawl when \<open>Wait\<close> is called.\<close>

lemma AddURLs_accepts:
  assumes "\<not> en_stopped e" "length (en_urlQueue e) + length us \<le> urlQueue_cap"
  shows "\<exists>e'. Engine_AddURLs e us [] = (None, e')"
  using assms
proof (induction us arbitrary: e)
  case (Cons u us)
  obtain e1 where e1: "Engine_AddURL e u [] = (None, e1)" "\<not> en_stopped e1" "length (en_urlQueue e1) = Suc (length (en_urlQueue e))"
    using Cons.prems by (simp add: Engine_AddURL_def Let_def)
  then show ?case using Cons.IH [of e1] Cons.prems by simp
qed simp

definition no_limits :: ConcurrencyConfig where
  "no_limits = \<lparr>GlobalMaxConcurrency = 0, PerDomainMaxConcurrency = 0, DisablePerDomainLimits = False\<rparr>"

lemma Crawl_begin_InrD:
  fixes e :: "('d, 'j, 'b, 's) Engine"
  assumes "Crawl_begin lib ops now ctx urls cfg = Inr e"
  shows "map crq_URL (en_urlQueue e) = urls" "length urls \<le> urlQueue_cap" "en_urlWg e = int (length urls)" "en_workers e = 10"
    "en_started e" "en_ctx e = Some ctx" "en_concurrency e = NewConcurrencyManager ops no_limits" "ended (en_stats e) = 0"
    "cfg_WorkerCount (en_cfg e) = 10"
proof -
  let ?f = "fresh_engine ops (Config_withDefaults (engine_config cfg)) :: ('d, 'j, 'b, 's) Engine"
  have f: "\<not> en_started ?f" "en_urlQueue ?f = []" "en_urlWg ?f = 0" "en_workers ?f = 0" "cfg_WorkerCount (en_cfg ?f) = 10"
    "en_concurrency ?f = NewConcurrencyManager ops no_limits" "ended (en_stats ?f) = 0"
    by (simp_all add: fresh_engine_def Config_withDefaults_def engine_config_def zero_Config_def NewConcurrencyManager_def
        no_limits_def ended_def wrap64_def Let_def)
  obtain e1 where e1: "Engine_AddURLs ?f urls [] = (None, e1)" "Engine_Start now ctx e1 = (None, e)"
    using assms by (auto simp: Crawl_begin_def newEngine_fresh split: if_splits prod.splits option.splits)
  note q = Engine_AddURLs_queue [OF e1(1)]
  have e: "e = e1\<lparr>en_started := True, en_ctx := Some ctx, en_startTime := now, en_workers := nat (cfg_WorkerCount (en_cfg e1))\<rparr>"
    using e1(2) by (auto simp: Engine_Start_def split: if_splits)
  show "map crq_URL (en_urlQueue e) = urls" "en_urlWg e = int (length urls)" "en_workers e = 10"
    "en_started e" "en_ctx e = Some ctx" "en_concurrency e = NewConcurrencyManager ops no_limits" "ended (en_stats e) = 0"
    "cfg_WorkerCount (en_cfg e) = 10"
    using q f by (simp_all add: e)
  have "length (en_urlQueue e') \<le> urlQueue_cap" if "Engine_AddURLs g us [] = (None, e')" "length (en_urlQueue g) \<le> urlQueue_cap"
    for g e' :: "('d, 'j, 'b, 's) Engine" and us
    using that by (induction us arbitrary: g) (auto simp: Engine_AddURL_def Let_def split: if_splits)
  from this [OF e1(1)] have "length (en_urlQueue e1) \<le> urlQueue_cap" using f by simp
  moreover have "length (en_urlQueue e1) = length urls" using arg_cong [OF q(1), of length] f by simp
  ultimately show "length urls \<le> urlQueue_cap" by simp
qed

lemma Crawl_begin_inv:
  assumes law: "semaphore_law ops cap held" and e: "Crawl_begin lib ops now ctx urls cfg = Inr e"
  shows "control_inv (engine_start e w c)" "conc_inv cap held (ConcurrencyConfig_withDefaults no_limits)
    (permits (engine_start e w c))"
proof -
  note b = Crawl_begin_InrD [OF e]
  have "length (en_urlQueue e) = length urls" using arg_cong [OF b(1), of length] by simp
  then show "control_inv (engine_start e w c)" using b by (simp add: control_inv_def engine_start_def wrap64_def)
  have "permits (engine_start e w c) = conc_start ops no_limits"
    using b(7) by (simp add: permits_def engine_start_def conc_start_def)
  then show "conc_inv cap held (ConcurrencyConfig_withDefaults no_limits) (permits (engine_start e w c))"
    using conc_inv_start [OF law] by simp
qed

lemma idle_no_work:
  assumes "control_inv st" "en_urlWg (er_engine st) = 0"
  shows "en_urlQueue (er_engine st) = []" "er_waiting st = {#}" "er_running st = {#}"
proof -
  have "int (length (en_urlQueue (er_engine st)) + (size (er_waiting st) + size (er_running st))) = 0"
    using assms by (simp only: control_inv_def Let_def)
  then have "length (en_urlQueue (er_engine st)) + (size (er_waiting st) + size (er_running st)) = 0" by linarith
  then show "en_urlQueue (er_engine st) = []" "er_waiting st = {#}" "er_running st = {#}" by simp_all
qed

lemma worker_run_inv:
  assumes "(worker_step ops env cbs)\<^sup>*\<^sup>* st st'" "control_inv st"
  shows "control_inv st'"
  using assms by induction (auto dest: control_inv_worker_step)

lemma worker_run_permits:
  assumes law: "semaphore_law ops cap held" and run: "(worker_step ops env cbs)\<^sup>*\<^sup>* st st'" and inv: "conc_inv cap held cfg (permits st)"
  shows "conc_inv cap held cfg (permits st')"
  using run
proof induction
  case (step y z)
  show ?case by (rule conc_inv_steps [OF law step.IH permits_worker_step [OF step.hyps(2)]])
qed (rule inv)


section \<open>A crawl ends\<close>

definition crawl_work :: "('d, 'j, 'b, 's, 'w, 'c) engine_run \<Rightarrow> nat" where
  "crawl_work st = 3 * length (en_urlQueue (er_engine st)) + 2 * size (er_waiting st) + size (er_running st)"

lemma worker_step_work:
  assumes "worker_step ops env cbs st st'" "ctx_err (er_engine st) = None"
  shows "crawl_work st' < crawl_work st \<and> ctx_err (er_engine st') = None \<and> en_workers (er_engine st') = en_workers (er_engine st)"
  using assms(1)
proof cases
  case (refuse req W e err cm e1 c1)
  then show ?thesis using process_refused_frame(1) [OF refuse(5)] assms(2)
    by (simp add: crawl_work_def same_control_def ctx_err_def url_Done_def)
next
  case (finish req R e1 w1 c1 e2)
  obtain cm where "e2 = e1\<lparr>en_concurrency := cm\<rparr>" using release_permit_frame [OF finish(4)] by blast
  then show ?thesis using process_acquired_frame(1) [OF finish(3)] assms(2) finish(1,2)
    by (simp add: crawl_work_def same_control_def ctx_err_def url_Done_def)
qed (use assms(2) in \<open>simp_all add: crawl_work_def ctx_err_def\<close>)

text \<open>A semaphore with a permit left hands it out.\<close>

definition semaphore_live :: "'s sem_ops \<Rightarrow> ('s \<Rightarrow> int) \<Rightarrow> ('s \<Rightarrow> nat) \<Rightarrow> bool" where
  "semaphore_live ops cap held \<longleftrightarrow> (\<forall>s. int (held s) < cap s \<longrightarrow> (\<exists>s'. sem_Acquire ops None s = Some (Inr s')))"

lemma Acquire_when_idle:
  assumes law: "semaphore_law ops cap held" and live: "semaphore_live ops cap held"
    and inv: "conc_inv cap held cfg \<lparr>cs_cm = cm, cs_waiting = {#}, cs_holding = {#}\<rparr>"
    and pos: "0 < GlobalMaxConcurrency cfg" "0 < PerDomainMaxConcurrency cfg"
  shows "\<exists>cm'. Concurrency_Acquire ops None cm d = (Acquired, cm')"
proof -
  note i = inv [unfolded conc_inv_alt, simplified]
  have "int (held (cm_globalSem cm)) < cap (cm_globalSem cm)" using i pos by simp
  then obtain g where g: "sem_Acquire ops None (cm_globalSem cm) = Some (Inr g)"
    using live unfolding semaphore_live_def by blast
  show ?thesis
  proof (cases "DisablePerDomainLimits cfg")
    case True
    then show ?thesis using g i by (simp add: Concurrency_Acquire_def Acquire_global_def Let_def)
  next
    case False
    let ?cm = "cm\<lparr>cm_globalSem := g\<rparr>"
    have caps: "domain_caps cap ?cm" and held: "domain_held held ?cm d = 0" using i False by simp_all
    obtain sem cm1 where d: "getOrCreateDomainSem ops ?cm d = (sem, cm1)" by fastforce
    note p = getOrCreateDomainSem_permits [OF law caps d]
    have "cap sem = PerDomainMaxConcurrency cfg" using p(1,3,4) i by (simp add: domain_caps_def)
    moreover have "held sem = 0" using p(4,5) held by (metis domain_held_def option.simps(5))
    ultimately have "int (held sem) < cap sem" using pos(2) by simp
    then obtain s where "sem_Acquire ops None sem = Some (Inr s)" using live unfolding semaphore_live_def by blast
    then show ?thesis using g i False d by (simp add: Concurrency_Acquire_def Acquire_global_def Acquire_domain_def Let_def)
  qed
qed

text \<open>While URLs are pending, some worker can go on, unless processing panics.\<close>

lemma worker_progress:
  fixes st :: "('d, 'j, 'b, 's, 'w, 'c) engine_run"
  assumes law: "semaphore_law ops cap held" and live: "semaphore_live ops cap held"
    and ctl: "control_inv st" and conc: "conc_inv cap held cfg (permits st)"
    and pos: "0 < GlobalMaxConcurrency cfg" "0 < PerDomainMaxConcurrency cfg" "0 < en_workers (er_engine st)"
    and ctx: "ctx_err (er_engine st) = None"
    and calm: "\<And>(e :: ('d, 'j, 'b, 's) Engine) w c req. process_acquired env cbs e w c req \<noteq> None"
    and pending: "en_urlWg (er_engine st) \<noteq> 0"
  shows "\<exists>st'. worker_step ops env cbs st st'"
proof (cases "er_running st = {#}")
  case False
  then obtain req R where R: "er_running st = add_mset req R" by (meson multiset_cases)
  let ?d = "engine_extractDomain (crq_URL req)"
  obtain e1 w1 c1 where p: "process_acquired env cbs (er_engine st) (er_world st) (er_cb st) req = Some (e1, w1, c1)"
    using calm [of "er_engine st" "er_world st" "er_cb st" req] by auto
  have "en_concurrency e1 = en_concurrency (er_engine st)" using process_acquired_frame(1) [OF p] by (simp add: same_control_def)
  moreover have "0 < held (cm_globalSem (en_concurrency (er_engine st)))"
    "DisablePerDomainLimits (cm_cfg (en_concurrency (er_engine st))) \<or> 0 < domain_held held (en_concurrency (er_engine st)) ?d"
    using conc R by (auto simp: permits_def conc_inv_alt split: if_splits)
  ultimately obtain cm where "Concurrency_Release ops (en_concurrency e1) ?d = Some cm" using Release_permits [OF law] by metis
  then have "release_permit ops ?d e1 = Some (e1\<lparr>en_concurrency := cm\<rparr>)" by (simp add: release_permit_def)
  from finish [OF R p this] show ?thesis by blast
next
  case R: True
  show ?thesis
  proof (cases "er_waiting st = {#}")
    case False
    then obtain req W where W: "er_waiting st = add_mset req W" by (meson multiset_cases)
    have "conc_inv cap held cfg \<lparr>cs_cm = en_concurrency (er_engine st), cs_waiting = {#}, cs_holding = {#}\<rparr>"
      using conc R by (simp add: permits_def)
    then obtain cm where "Concurrency_Acquire ops None (en_concurrency (er_engine st)) (engine_extractDomain (crq_URL req)) = (Acquired, cm)"
      using Acquire_when_idle [OF law live _ pos(1,2)] by blast
    then have "worker_step ops env cbs st (st\<lparr>er_engine := (er_engine st)\<lparr>en_concurrency := cm\<rparr>, er_waiting := W,
        er_running := add_mset req (er_running st)\<rparr>)"
      by (intro acquire [OF W refl]) (simp add: ctx)
    then show ?thesis by blast
  next
    case True
    then have "en_urlQueue (er_engine st) \<noteq> []" using ctl pending R by (auto simp: control_inv_def Let_def)
    then obtain req q where "en_urlQueue (er_engine st) = req # q" by (cases "en_urlQueue (er_engine st)") auto
    from take [OF this] show ?thesis using True R pos(3) by auto
  qed
qed

lemma worker_run_bound:
  assumes "(worker_step ops env cbs ^^ n) st st'" "ctx_err (er_engine st) = None"
  shows "n + crawl_work st' \<le> crawl_work st \<and> ctx_err (er_engine st') = None \<and> en_workers (er_engine st') = en_workers (er_engine st)"
  using assms(1)
proof (induction n arbitrary: st')
  case (Suc n)
  then obtain st1 where s: "(worker_step ops env cbs ^^ n) st st1" "worker_step ops env cbs st1 st'" by auto
  show ?case using Suc.IH [OF s(1)] worker_step_work [OF s(2)] by auto
qed (use assms(2) in simp)

lemma process_acquired_calm:
  fixes env :: "('w, 'd, 'j, 'b, 'c) engine_env" and e :: "('d, 'j, 'b, 's) Engine"
  assumes "\<And>c w r. Client_Do (ee_client env) c w (Some r) \<noteq> None"
  shows "process_acquired env cbs e w c req \<noteq> None"
proof -
  have "engine_fetch env e w b r \<noteq> None" for e :: "('d, 'j, 'b, 's) Engine" and w b r
    using assms [of "en_httpClient e" w r] by (auto simp: engine_fetch_def split: option.splits bool.splits prod.splits)
  then have "engine_fetch env (count_request e) w b r \<noteq> None" for b r by simp
  moreover obtain req1 c1 where f: "fireRequestCallbacks cbs c req = (req1, c1)" by fastforce
  ultimately obtain res e1 w1 where g: "engine_fetch env (count_request e) w (crq_BrowserRender req1)
      \<lparr>cr_URL = crq_URL req1, cr_Method = (if crq_Method req1 = [] then ''GET'' else crq_Method req1), cr_Headers = crq_Headers req1,
       cr_Body = None, cr_Timeout = 0, cr_Metadata = None\<rparr> = Some (res, e1, w1)"
    by (metis not_None_eq prod.exhaust)
  show ?thesis unfolding process_acquired_def f prod.case Let_def g by (cases res) (simp_all split: prod.splits)
qed

lemma crawl_runs:
  fixes env :: "('w, 'd, 'j, 'b, Result list) engine_env"
  assumes law: "semaphore_law ops cap held" and live: "semaphore_live ops cap held"
    and calm: "\<And>c w r. Client_Do (ee_client env) c w (Some r) \<noteq> None"
    and urls: "urls \<noteq> []" "length urls \<le> 10000"
  shows "\<exists>e :: ('d, 'j, 'b, 's) Engine. Crawl_begin lib ops now None urls cfg = Inr e \<and>
    (\<forall>n st. (worker_step ops env crawl_callbacks ^^ n) (engine_start e w []) st \<longrightarrow> n \<le> 3 * length urls \<and>
       ((\<exists>st'. worker_step ops env crawl_callbacks st st') \<or> service_Crawl lib ops env now w urls cfg (Inr (er_cb st))))"
proof -
  let ?f = "fresh_engine ops (Config_withDefaults (engine_config cfg)) :: ('d, 'j, 'b, 's) Engine"
  obtain e1 where e1: "Engine_AddURLs ?f urls [] = (None, e1)"
    using AddURLs_accepts [of ?f urls] urls by (auto simp: fresh_engine_def urlQueue_cap_def)
  have "\<not> en_started e1" using Engine_AddURLs_queue(3) [OF e1] by (simp add: fresh_engine_def)
  then obtain e :: "('d, 'j, 'b, 's) Engine" where e: "Crawl_begin lib ops now None urls cfg = Inr e"
    using e1 urls(1) by (simp add: Crawl_begin_def newEngine_fresh Engine_Start_def)
  note b = Crawl_begin_InrD [OF e]
  have ctx: "ctx_err (er_engine (engine_start e w [])) = None" using b(6) by (simp add: engine_start_def ctx_err_def)
  have len: "length (en_urlQueue e) = length urls" using arg_cong [OF b(1), of length] by simp
  have "n \<le> 3 * length urls \<and>
       ((\<exists>st'. worker_step ops env crawl_callbacks st st') \<or> service_Crawl lib ops env now w urls cfg (Inr (er_cb st)))"
    if run: "(worker_step ops env crawl_callbacks ^^ n) (engine_start e w []) st" for n st
  proof -
    note r = worker_run_bound [OF run ctx]
    have star: "(worker_step ops env crawl_callbacks)\<^sup>*\<^sup>* (engine_start e w []) st" using run by (rule relpowp_imp_rtranclp)
    have ctl: "control_inv st" by (rule worker_run_inv [OF star Crawl_begin_inv(1) [OF law e]])
    have "conc_inv cap held (ConcurrencyConfig_withDefaults no_limits) (permits st)"
      by (rule worker_run_permits [OF law star Crawl_begin_inv(2) [OF law e]])
    then have "\<exists>st'. worker_step ops env crawl_callbacks st st'" if "en_urlWg (er_engine st) \<noteq> 0"
      using worker_progress [OF law live ctl _ _ _ _ _ process_acquired_calm [OF calm] that] r b(4)
      by (simp add: no_limits_def ConcurrencyConfig_withDefaults_def engine_start_def)
    moreover have "service_Crawl lib ops env now w urls cfg (Inr (er_cb st))" if "en_urlWg (er_engine st) = 0"
      by (rule returns [OF e star that])
    moreover have "n \<le> 3 * length urls" using r len by (simp add: crawl_work_def engine_start_def)
    ultimately show ?thesis by blast
  qed
  then show ?thesis using e by blast
qed


lemma bounded_run_stops:
  assumes "\<And>n t. (R ^^ n) s t \<Longrightarrow> n \<le> (B :: nat)"
  shows "\<exists>n t. (R ^^ n) s t \<and> (\<nexists>u. R t u)"
proof (rule ccontr)
  assume a: "\<not> ?thesis"
  have "\<exists>t. (R ^^ k) s t" for k
  proof (induction k)
    case (Suc k)
    then obtain t u where "(R ^^ k) s t" "R t u" using a by blast
    then show ?case by auto
  qed auto
  from this [of "Suc B"] obtain t where "(R ^^ Suc B) s t" by blast
  from assms [OF this] show False by simp
qed

lemma crawl_returns:
  fixes env :: "('w, 'd, 'j, 'b, Result list) engine_env"
  assumes law: "semaphore_law ops cap held" and live: "semaphore_live ops cap held"
    and calm: "\<And>c w r. Client_Do (ee_client env) c w (Some r) \<noteq> None"
    and urls: "urls \<noteq> []" "length urls \<le> 10000"
  shows "\<exists>e :: ('d, 'j, 'b, 's) Engine. Crawl_begin lib ops now None urls cfg = Inr e \<and>
    (\<forall>n st. (worker_step ops env crawl_callbacks ^^ n) (engine_start e w []) st \<longrightarrow> n \<le> 3 * length urls \<and>
       ((\<exists>st'. worker_step ops env crawl_callbacks st st') \<or> service_Crawl lib ops env now w urls cfg (Inr (er_cb st)))) \<and>
    (\<exists>results. service_Crawl lib ops env now w urls cfg (Inr results))"
proof -
  obtain e :: "('d, 'j, 'b, 's) Engine" where e: "Crawl_begin lib ops now None urls cfg = Inr e"
    "\<And>n st. (worker_step ops env crawl_callbacks ^^ n) (engine_start e w []) st \<Longrightarrow> n \<le> 3 * length urls \<and>
       ((\<exists>st'. worker_step ops env crawl_callbacks st st') \<or> service_Crawl lib ops env now w urls cfg (Inr (er_cb st)))"
    using crawl_runs [OF law live calm urls, of lib now cfg w] by blast
  obtain n st where "(worker_step ops env crawl_callbacks ^^ n) (engine_start e w []) st" "\<nexists>st'. worker_step ops env crawl_callbacks st st'"
    using bounded_run_stops [of "worker_step ops env crawl_callbacks" "engine_start e w []" "3 * length urls"] e(2) by blast
  then have "service_Crawl lib ops env now w urls cfg (Inr (er_cb st))" using e(2) by blast
  then show ?thesis using e by blast
qed


section \<open>Statistics\<close>

text \<open>
  \<open>PagesQueued\<close> does not count queued pages: a request that is refused its permit, because the crawl
  was cancelled, is counted as failed but never as sent, and the reported number falls below zero.
\<close>

theorem PagesQueued_negative:
  assumes "ctx_err e = Some err" and "sem_Acquire ops (Some err) (cm_globalSem (en_concurrency e)) = Some (Inl err)"
    and "en_stats e = \<lparr>es_requestCount = 0, es_successCount = 0, es_errorCount = 0, es_bytesDownloaded = 0\<rparr>"
  shows "\<exists>e' c'. processRequest ops env cbs e w c req = Some (e', w, c') \<and>
    service_Stats_of now (s\<lparr>svc_instances := (svc_instances s)(cid \<mapsto> e')\<rparr>) cid = Inr \<lparr>PagesCrawled = 0, PagesFailed = 1, PagesQueued = -1\<rparr>"
proof -
  have "wrap64 1 = 1" "wrap64 (- 1) = - 1" by (simp_all add: wrap64_def)
  then show ?thesis using assms
    by (simp add: processRequest_def Concurrency_Acquire_def Acquire_global_def process_refused_def count_error_def
        service_Stats_of_def stats_of_def Engine_Stats_def Let_def)
qed

section \<open>A concrete crawl\<close>

definition crawl_sample :: "(bytes_Buffer list, unit, unit, unit, Result list) engine_env" where
  "crawl_sample = \<lparr>ee_client = sample_http ''2'' ''ok'', ee_Render = (\<lambda>w b u t. (Inl (ErrorString ''no browser''), w)), ee_selectors = (\<lambda>m. [])\<rparr>"

definition crawl_config :: CrawlConfig where
  "crawl_config = \<lparr>cc_MaxDepth = 1, cc_MaxPages = 0, cc_RespectRobotsTxt = True, cc_URLs = []\<rparr>"

lemma counting_sem_live: "semaphore_live counting_sem fst snd"
  by (auto simp: semaphore_live_def counting_sem_def)

lemma buf_Grow_two: "buf_bytes b = [] \<Longrightarrow> \<exists>b'. buf_Grow b 2 = Some b' \<and> buf_bytes b' = []"
  by (auto simp: buf_Grow_def maxAlloc_def Let_def)

lemma crawl_sample_calm: "Client_Do (ee_client crawl_sample) c w (Some r) \<noteq> None"
proof -
  have "strconv_Atoi ''2'' = Some 2" by code_simp
  obtain b rest where a: "acquireBuf (\<lambda>p. if p = [] then None else Some 0) w = (b, rest)" by fastforce
  have "buf_bytes b = []" using a by (auto simp: acquireBuf_def buf_Reset_def split: if_splits)
  obtain b1 where b1: "buf_Grow b 2 = Some b1" "buf_bytes b1 = []" using buf_Grow_two [OF \<open>buf_bytes b = []\<close>] by blast
  obtain b2 where b2: "buf_Grow b1 2 = Some b2" using buf_Grow_two [OF b1(2)] by blast
  have "readBody (sample_http ''2'' ''ok'') w \<lparr>hs_StatusCode = 200, hs_Header = [''Content-Length'' \<mapsto> [''2'']], hs_Body = Inr ''ok'', hs_RequestURL = u\<rparr> \<noteq> None" for u
    unfolding readBody_def sample_length_header using \<open>strconv_Atoi ''2'' = Some 2\<close> a b1 b2
    by (simp add: sample_http_def Let_def)
  note calm = this
  have doit: "ce_Do (sample_http ''2'' ''ok'') w hc lim q = (Inr \<lparr>hs_StatusCode = 200, hs_Header = [''Content-Length'' \<mapsto> [''2'']],
      hs_Body = Inr ''ok'', hs_RequestURL = hr_URL q\<rparr>, w)" for hc lim q by (simp add: sample_http_def)
  have env: "ee_client crawl_sample = sample_http ''2'' ''ok''" by (simp add: crawl_sample_def)
  show ?thesis
  proof (cases "build_request (ce_range (sample_http ''2'' ''ok'')) (client_cfg c) r")
    case (Inr q)
    obtain res w1 where x: "readBody (sample_http ''2'' ''ok'') w \<lparr>hs_StatusCode = 200, hs_Header = [''Content-Length'' \<mapsto> [''2'']],
        hs_Body = Inr ''ok'', hs_RequestURL = hr_URL q\<rparr> = Some (res, w1)"
      using calm [of "hr_URL q"] by auto
    then show ?thesis using Inr by (cases res) (simp_all add: env Client_Do_def doit Let_def)
  qed (simp add: env Client_Do_def)
qed



theorem PagesQueued_negative_witness:
  "\<exists>e' c'. processRequest counting_sem crawl_sample crawl_callbacks
       ((fresh_engine counting_sem (Config_withDefaults zero_Config))\<lparr>en_ctx := Some (Some ContextCanceled)\<rparr>) [] []
       \<lparr>crq_URL = ''http://h/'', crq_Method = [], crq_Headers = None, crq_Depth = 0, crq_Meta = None, crq_BrowserRender = False\<rparr> = Some (e', [], c') \<and>
     service_Stats_of 0 (NewService\<lparr>svc_instances := (svc_instances NewService)(''a'' \<mapsto> e')\<rparr>) ''a'' =
       Inr \<lparr>PagesCrawled = 0, PagesFailed = 1, PagesQueued = -1\<rparr>"
  by (rule PagesQueued_negative [where err = ContextCanceled])
    (simp_all add: ctx_err_def fresh_engine_def NewConcurrencyManager_def counting_sem_def Let_def)

end
