(* ===== verification/Frontier_Redis.thy ===== *)
theory Frontier_Redis
  imports Frontier_Memory Crawl_Errors "HOL-Library.Log_Nat" "HOL-Library.AList"
begin

text \<open>
  pkg/frontier/redis.go and redis_dedup.go: the frontier and the deduplicator kept in Redis.  The
  server (through github.com/redis/go-redis) and JSON are fields of the environment; \<open>redis_law\<close> says
  what the commands do to the sorted set and the set, which other processes may share.
\<close>

section \<open>Scores\<close>

text \<open>The conversion of an \<open>int64\<close> to a \<open>float64\<close>: exact up to 53 bits, to the nearest even beyond.\<close>

definition float64_of_int :: "int \<Rightarrow> int" where
  "float64_of_int x =
     (let n = \<bar>x\<bar>; k = nat (bitlen n - 53); q = n div 2 ^ k; r = n mod 2 ^ k;
          up = (0 < k \<and> (2 ^ (k - 1) < r \<or> r = 2 ^ (k - 1) \<and> odd q))
      in sgn x * (if up then q + 1 else q) * 2 ^ k)"

lemma float64_exact: "\<bar>x\<bar> < 2 ^ 53 \<Longrightarrow> float64_of_int x = x"
proof -
  assume "\<bar>x\<bar> < 2 ^ 53"
  then have "bitlen \<bar>x\<bar> \<le> 53" using bitlen_le_iff_power [of "\<bar>x\<bar>" 53] by simp
  then show ?thesis by (simp add: float64_of_int_def mult_sgn_abs)
qed

definition scoreFor :: "Priority \<Rightarrow> Time \<Rightarrow> int" where
  "scoreFor p t = float64_of_int (wrap64 (wrap64 (p * 10 ^ 13) + time_UnixMilli t))"

section \<open>redis.go\<close>

record RedisConfig =
  rc_Addr :: string
  rc_Password :: string
  rc_DB :: int
  rc_KeyPrefix :: string

definition RedisConfig_withDefaults :: "RedisConfig \<Rightarrow> RedisConfig" where
  "RedisConfig_withDefaults c0 =
     (let c1 = (if rc_Addr c0 = [] then c0\<lparr>rc_Addr := ''localhost:6379''\<rparr> else c0)
      in if rc_KeyPrefix c1 = [] then c1\<lparr>rc_KeyPrefix := ''frontier''\<rparr> else c1)"

text \<open>\<open>RedisNil\<close> is the reply of a pop that timed out; a member that is not a string is \<open>None\<close>.\<close>

datatype pop_reply = RedisNil | PopError error | Popped "string option"

record 'w redis_env =
  rd_Ping :: "'w \<Rightarrow> RedisConfig \<Rightarrow> error option \<times> 'w"
  rd_ZCard :: "'w \<Rightarrow> string \<Rightarrow> error + int"
  rd_ZAddNX :: "'w \<Rightarrow> string \<Rightarrow> int \<Rightarrow> string \<Rightarrow> (error + int) \<times> 'w"
  rd_BZPopMin :: "'w \<Rightarrow> string \<Rightarrow> pop_reply \<times> 'w"
  rd_SIsMember :: "'w \<Rightarrow> string \<Rightarrow> string \<Rightarrow> error + bool"
  rd_SAdd :: "'w \<Rightarrow> string \<Rightarrow> string \<Rightarrow> (error + int) \<times> 'w"
  rd_SCard :: "'w \<Rightarrow> string \<Rightarrow> error + int"
  rd_Del :: "'w \<Rightarrow> string \<Rightarrow> 'w"
  rd_Close :: "'w \<Rightarrow> error option \<times> 'w"
  rd_marshal :: "URLEntry \<Rightarrow> error + string"
  rd_unmarshal :: "string \<Rightarrow> error + URLEntry"
  rd_now :: "'w \<Rightarrow> Time"
  rd_ctx :: "'w \<Rightarrow> error option"

record RedisFrontier =
  rf_cfg :: RedisConfig
  rf_key :: string
  rf_size :: int
  rf_closed :: bool

datatype redis_error = Sentinel frontier_error | RedisErr error

definition NewRedisFrontier :: "'w redis_env \<Rightarrow> 'w \<Rightarrow> RedisConfig \<Rightarrow> (error + RedisFrontier) \<times> 'w" where
  "NewRedisFrontier env w cfg0 =
     (let cfg = RedisConfig_withDefaults cfg0
      in case rd_Ping env w cfg of
           (Some err, w1) \<Rightarrow> (Inl (WrapError (''redis frontier: ping '' @ rc_Addr cfg @ '': '') err []), snd (rd_Close env w1))
         | (None, w1) \<Rightarrow>
             let key = rc_KeyPrefix cfg @ '':urls''
             in (Inr \<lparr>rf_cfg = cfg, rf_key = key, rf_size = (case rd_ZCard env w1 key of Inr n \<Rightarrow> n | Inl e \<Rightarrow> 0), rf_closed = False\<rparr>, w1))"

text \<open>\<open>Add\<close> from the encoding of the entry on, and the whole of it; as for the in-memory frontier, the
  entry is returned as \<open>Add\<close> leaves it.\<close>

definition redis_put :: "'w redis_env \<Rightarrow> RedisFrontier \<Rightarrow> 'w \<Rightarrow> URLEntry \<Rightarrow> redis_error option \<times> RedisFrontier \<times> 'w" where
  "redis_put env f w e =
     (case rd_marshal env e of
        Inl err \<Rightarrow> (Some (RedisErr (WrapError ''redis frontier: marshal entry: '' err [])), f, w)
      | Inr payload \<Rightarrow>
          (case rd_ZAddNX env w (rf_key f) (scoreFor (entry_Priority e) (entry_DiscoveredAt e)) payload of
             (Inl err, w1) \<Rightarrow> (Some (RedisErr (WrapError ''redis frontier: ZADD: '' err [])), f, w1)
           | (Inr added, w1) \<Rightarrow>
               if added = 0 then (Some (Sentinel ErrDuplicate), f, w1)
               else (None, f\<lparr>rf_size := wrap64 (rf_size f + 1)\<rparr>, w1)))"

definition RedisFrontier_Add ::
  "'w redis_env \<Rightarrow> RedisFrontier \<Rightarrow> 'w \<Rightarrow> URLEntry option \<Rightarrow> redis_error option \<times> URLEntry option \<times> RedisFrontier \<times> 'w" where
  "RedisFrontier_Add env f w entry =
     (case entry of
        None \<Rightarrow> (Some (Sentinel ErrNilEntry), None, f, w)
      | Some e \<Rightarrow>
          if entry_URL e = [] then (Some (Sentinel ErrEmptyURL), Some e, f, w)
          else if rf_closed f then (Some (Sentinel ErrClosed), Some e, f, w)
          else
            let e1 = e\<lparr>entry_URL := Canonicalize (entry_URL e)\<rparr>;
                e2 = (if time_IsZero (entry_DiscoveredAt e1) then e1\<lparr>entry_DiscoveredAt := rd_now env w\<rparr> else e1)
            in (case redis_put env f w e2 of (r, f1, w1) \<Rightarrow> (r, Some e2, f1, w1)))"

datatype next_result = NextAgain | NextFailed redis_error | NextEntry URLEntry

text \<open>One turn of the loop in \<open>Next\<close>.\<close>

definition RedisFrontier_Next_iter :: "'w redis_env \<Rightarrow> RedisFrontier \<Rightarrow> 'w \<Rightarrow> next_result \<times> RedisFrontier \<times> 'w" where
  "RedisFrontier_Next_iter env f w =
     (if rf_closed f then (NextFailed (Sentinel ErrClosed), f, w)
      else (case rd_ctx env w of
          Some err \<Rightarrow> (NextFailed (RedisErr err), f, w)
        | None \<Rightarrow>
            (case rd_BZPopMin env w (rf_key f) of
               (RedisNil, w1) \<Rightarrow> (NextAgain, f, w1)
             | (PopError err, w1) \<Rightarrow>
                 (case rd_ctx env w1 of
                    Some e \<Rightarrow> (NextFailed (RedisErr e), f, w1)
                  | None \<Rightarrow> (NextFailed (RedisErr (WrapError ''redis frontier: BZPOPMIN: '' err [])), f, w1))
             | (Popped None, w1) \<Rightarrow> (NextAgain, f, w1)
             | (Popped (Some member), w1) \<Rightarrow>
                 (case rd_unmarshal env member of
                    Inl err \<Rightarrow> (NextAgain, f, w1)
                  | Inr entry \<Rightarrow> (NextEntry entry, f\<lparr>rf_size := wrap64 (rf_size f - 1)\<rparr>, w1)))))"

text \<open>The loop with a bound on its turns; \<open>None\<close> when the bound is reached.\<close>

primrec RedisFrontier_Next :: "nat \<Rightarrow> 'w redis_env \<Rightarrow> RedisFrontier \<Rightarrow> 'w \<Rightarrow> ((redis_error + URLEntry) \<times> RedisFrontier \<times> 'w) option" where
  "RedisFrontier_Next 0 env f w = None"
| "RedisFrontier_Next (Suc n) env f w =
     (case RedisFrontier_Next_iter env f w of
        (NextAgain, f1, w1) \<Rightarrow> RedisFrontier_Next n env f1 w1
      | (NextFailed err, f1, w1) \<Rightarrow> Some (Inl err, f1, w1)
      | (NextEntry e, f1, w1) \<Rightarrow> Some (Inr e, f1, w1))"

definition RedisFrontier_Size :: "RedisFrontier \<Rightarrow> int" where
  "RedisFrontier_Size f = rf_size f"

definition RedisFrontier_Close :: "'w redis_env \<Rightarrow> RedisFrontier \<Rightarrow> 'w \<Rightarrow> error option \<times> RedisFrontier \<times> 'w" where
  "RedisFrontier_Close env f w = (case rd_Close env w of (err, w1) \<Rightarrow> (err, f\<lparr>rf_closed := True\<rparr>, w1))"

section \<open>redis\_dedup.go\<close>

record RedisDeduplicator =
  rdd_key :: string

definition NewRedisDeduplicator :: "'w redis_env \<Rightarrow> 'w \<Rightarrow> RedisConfig \<Rightarrow> (error + RedisDeduplicator) \<times> 'w" where
  "NewRedisDeduplicator env w cfg0 =
     (let cfg = RedisConfig_withDefaults cfg0
      in case rd_Ping env w cfg of
           (Some err, w1) \<Rightarrow> (Inl (WrapError (''redis deduplicator: ping '' @ rc_Addr cfg @ '': '') err []), snd (rd_Close env w1))
         | (None, w1) \<Rightarrow> (Inr \<lparr>rdd_key = rc_KeyPrefix cfg @ '':seen''\<rparr>, w1))"

definition RedisDeduplicator_IsSeen :: "'w redis_env \<Rightarrow> RedisDeduplicator \<Rightarrow> 'w \<Rightarrow> string \<Rightarrow> bool" where
  "RedisDeduplicator_IsSeen env d w url = (case rd_SIsMember env w (rdd_key d) url of Inl err \<Rightarrow> False | Inr b \<Rightarrow> b)"

definition RedisDeduplicator_MarkSeen :: "'w redis_env \<Rightarrow> RedisDeduplicator \<Rightarrow> 'w \<Rightarrow> string \<Rightarrow> bool \<times> 'w" where
  "RedisDeduplicator_MarkSeen env d w url =
     (case rd_SAdd env w (rdd_key d) url of (Inl err, w1) \<Rightarrow> (False, w1) | (Inr n, w1) \<Rightarrow> (n = 1, w1))"

definition RedisDeduplicator_Size :: "'w redis_env \<Rightarrow> RedisDeduplicator \<Rightarrow> 'w \<Rightarrow> int" where
  "RedisDeduplicator_Size env d w = (case rd_SCard env w (rdd_key d) of Inl err \<Rightarrow> 0 | Inr n \<Rightarrow> n)"

definition RedisDeduplicator_Reset :: "'w redis_env \<Rightarrow> RedisDeduplicator \<Rightarrow> 'w \<Rightarrow> 'w" where
  "RedisDeduplicator_Reset env d w = rd_Del env w (rdd_key d)"

definition RedisDeduplicator_Close :: "'w redis_env \<Rightarrow> 'w \<Rightarrow> error option \<times> 'w" where
  "RedisDeduplicator_Close env w = rd_Close env w"

section \<open>The order of delivery\<close>

text \<open>Times from 1970 to the year 2286, and priorities that keep the score within 53 bits.\<close>

definition score_range :: "Priority \<Rightarrow> Time \<Rightarrow> bool" where
  "score_range p t \<longleftrightarrow> 0 \<le> p \<and> p < 900 \<and> 0 \<le> time_UnixMilli t \<and> time_UnixMilli t < 10 ^ 13"

lemma scoreFor_value:
  assumes "score_range p t"
  shows "scoreFor p t = p * 10 ^ 13 + time_UnixMilli t"
proof -
  have b: "0 \<le> p * 10 ^ 13" "p * 10 ^ 13 + time_UnixMilli t < 9007199254740992" "0 \<le> time_UnixMilli t" "p * 10 ^ 13 < 9007199254740992"
    using assms by (simp_all add: score_range_def)
  then have "wrap64 (p * 10 ^ 13) = p * 10 ^ 13" "wrap64 (p * 10 ^ 13 + time_UnixMilli t) = p * 10 ^ 13 + time_UnixMilli t"
    by (simp_all add: wrap64_id in_int64_def)
  then show ?thesis using b by (simp add: scoreFor_def float64_exact)
qed

lemma score_first:
  assumes "score_range (entry_Priority a) (entry_DiscoveredAt a)" and "score_range (entry_Priority b) (entry_DiscoveredAt b)"
  shows "(scoreFor (entry_Priority a) (entry_DiscoveredAt a) < scoreFor (entry_Priority b) (entry_DiscoveredAt b) \<longrightarrow> pq_less a b) \<and>
    (pq_less a b \<longrightarrow> scoreFor (entry_Priority a) (entry_DiscoveredAt a) \<le> scoreFor (entry_Priority b) (entry_DiscoveredAt b)) \<and>
    (pq_less a b \<and> (entry_Priority a \<noteq> entry_Priority b \<or> entry_DiscoveredAt a + Millisecond \<le> entry_DiscoveredAt b) \<longrightarrow>
     scoreFor (entry_Priority a) (entry_DiscoveredAt a) < scoreFor (entry_Priority b) (entry_DiscoveredAt b))"
proof -
  let ?p = "entry_Priority a" and ?q = "entry_Priority b" and ?s = "entry_DiscoveredAt a" and ?t = "entry_DiscoveredAt b"
  have b: "0 \<le> time_UnixMilli ?s" "time_UnixMilli ?s < 10 ^ 13" "0 \<le> time_UnixMilli ?t" "time_UnixMilli ?t < 10 ^ 13"
    using assms by (simp_all add: score_range_def)
  note v = scoreFor_value [OF assms(1)] scoreFor_value [OF assms(2)]
  show ?thesis
  proof (cases "?p = ?q")
    case True
    have "time_UnixMilli ?s < time_UnixMilli ?t \<Longrightarrow> ?s < ?t" using time_UnixMilli_mono [of ?t ?s] by linarith
    moreover have "?s < ?t \<Longrightarrow> time_UnixMilli ?s \<le> time_UnixMilli ?t" by (rule time_UnixMilli_mono) simp
    moreover have "time_UnixMilli ?s < time_UnixMilli ?t" if "?s + Millisecond \<le> ?t"
    proof -
      have "time_UnixMilli (?s + Millisecond) = time_UnixMilli ?s + 1" by (simp add: time_UnixMilli_def)
      then show ?thesis using time_UnixMilli_mono [OF that] by simp
    qed
    ultimately show ?thesis using True unfolding v by (simp add: pq_less_def time_Before_def)
  next
    case False
    have "?p * 10 ^ 13 + time_UnixMilli ?s < ?q * 10 ^ 13 + time_UnixMilli ?t" if "?p < ?q"
    proof -
      have "(?p + 1) * 10 ^ 13 \<le> ?q * 10 ^ 13" using that by simp
      then show ?thesis using b unfolding distrib_right by linarith
    qed
    moreover have "?q * 10 ^ 13 + time_UnixMilli ?t < ?p * 10 ^ 13 + time_UnixMilli ?s" if "?q < ?p"
    proof -
      have "(?q + 1) * 10 ^ 13 \<le> ?p * 10 ^ 13" using that by simp
      then show ?thesis using b unfolding distrib_right by linarith
    qed
    ultimately show ?thesis using False unfolding v pq_less_def by (smt (verit))
  qed
qed

lemma score_le_order:
  fixes a b :: URLEntry
  assumes "score_range (entry_Priority a) (entry_DiscoveredAt a)" and "score_range (entry_Priority b) (entry_DiscoveredAt b)"
    and "scoreFor (entry_Priority b) (entry_DiscoveredAt b) \<le> scoreFor (entry_Priority a) (entry_DiscoveredAt a)"
  shows "entry_Priority b \<le> entry_Priority a \<and>
    (entry_Priority a = entry_Priority b \<longrightarrow> entry_DiscoveredAt b < entry_DiscoveredAt a + Millisecond)"
proof -
  have "\<not> (pq_less a b \<and> (entry_Priority a \<noteq> entry_Priority b \<or> entry_DiscoveredAt a + Millisecond \<le> entry_DiscoveredAt b))"
    using score_first [OF assms(1,2)] assms(3) by linarith
  then show ?thesis unfolding pq_less_def time_Before_def by (smt (verit))
qed

text \<open>
  The scores order entries as the in-memory queue does, to the millisecond: an entry with a lower
  score comes before the other in the priority queue or is its equal there, and an entry the queue
  puts first by priority, or by a difference of at least a millisecond, has the lower score.
\<close>

theorem score_order:
  assumes "score_range (entry_Priority a) (entry_DiscoveredAt a)" and "score_range (entry_Priority b) (entry_DiscoveredAt b)"
  shows "(scoreFor (entry_Priority a) (entry_DiscoveredAt a) < scoreFor (entry_Priority b) (entry_DiscoveredAt b) \<longrightarrow> pq_less a b) \<and>
    (pq_less a b \<longrightarrow> scoreFor (entry_Priority a) (entry_DiscoveredAt a) \<le> scoreFor (entry_Priority b) (entry_DiscoveredAt b)) \<and>
    (pq_less a b \<and> (entry_Priority a \<noteq> entry_Priority b \<or> entry_DiscoveredAt a + Millisecond \<le> entry_DiscoveredAt b) \<longrightarrow>
     scoreFor (entry_Priority a) (entry_DiscoveredAt a) < scoreFor (entry_Priority b) (entry_DiscoveredAt b))"
  by (rule score_first [OF assms])

section \<open>The frontier on a Redis server\<close>

text \<open>
  \<open>zs w\<close> is the sorted set under the frontier's key: its members with their scores.  While the server
  answers, \<open>ZADD NX\<close> adds a member that is not there and replies with the number added, and \<open>BZPOPMIN\<close>
  removes a member of least score, or times out on an empty set.  Decoding an encoded entry gives back
  its numbers and its time (a string that is not valid UTF-8 is replaced).
\<close>

definition redis_law :: "'w redis_env \<Rightarrow> string \<Rightarrow> ('w \<Rightarrow> (string \<rightharpoonup> int)) \<Rightarrow> bool" where
  "redis_law env key zs \<longleftrightarrow>
     (\<forall>w s m. \<exists>w'. rd_ZAddNX env w key s m = (Inr (if m \<in> dom (zs w) then 0 else 1), w') \<and>
        zs w' = (if m \<in> dom (zs w) then zs w else (zs w)(m \<mapsto> s))) \<and>
     (\<forall>w. zs w = Map.empty \<longrightarrow> (\<exists>w'. rd_BZPopMin env w key = (RedisNil, w') \<and> zs w' = zs w)) \<and>
     (\<forall>w. zs w \<noteq> Map.empty \<longrightarrow> (\<exists>w' m s. rd_BZPopMin env w key = (Popped (Some m), w') \<and> zs w m = Some s \<and>
        (\<forall>x\<in>ran (zs w). s \<le> x) \<and> zs w' = (zs w)(m := None))) \<and>
     (\<forall>w. rd_ctx env w = None) \<and>
     (\<forall>e d. rd_marshal env e = Inr d \<longrightarrow> (\<exists>x. rd_unmarshal env d = Inr x \<and>
        entry_Priority x = entry_Priority e \<and> entry_DiscoveredAt x = entry_DiscoveredAt e))"

text \<open>Every member is an encoded entry under its own score, and the local counter is their number.\<close>

definition redis_ok :: "'w redis_env \<Rightarrow> ('w \<Rightarrow> (string \<rightharpoonup> int)) \<Rightarrow> RedisFrontier \<Rightarrow> 'w \<Rightarrow> bool" where
  "redis_ok env zs f w \<longleftrightarrow> finite (dom (zs w)) \<and> \<not> rf_closed f \<and> rf_size f = wrap64 (int (card (dom (zs w)))) \<and>
     (\<forall>m s. zs w m = Some s \<longrightarrow> (\<exists>e. rd_unmarshal env m = Inr e \<and> s = scoreFor (entry_Priority e) (entry_DiscoveredAt e)))"

lemma wrap64_plus: "wrap64 (wrap64 a + b) = wrap64 (a + b)"
proof -
  have "(wrap64 a + b + 2 ^ 63) mod 2 ^ 64 = ((a + 2 ^ 63) mod 2 ^ 64 + b) mod 2 ^ 64" by (simp add: wrap64_def)
  also have "\<dots> = (a + b + 2 ^ 63) mod 2 ^ 64" using mod_add_left_eq [of "a + 2 ^ 63" "2 ^ 64" b] by (simp only: ac_simps)
  finally show ?thesis by (simp add: wrap64_def)
qed

lemma redis_okD:
  "redis_ok env zs f w \<Longrightarrow> zs w m = Some s \<Longrightarrow> \<exists>e. rd_unmarshal env m = Inr e \<and> s = scoreFor (entry_Priority e) (entry_DiscoveredAt e)"
  by (simp add: redis_ok_def)

lemma redis_law_decode:
  "redis_law env key zs \<Longrightarrow> rd_marshal env e = Inr d \<Longrightarrow>
   \<exists>x. rd_unmarshal env d = Inr x \<and> entry_Priority x = entry_Priority e \<and> entry_DiscoveredAt x = entry_DiscoveredAt e"
  by (simp add: redis_law_def)

text \<open>What \<open>Add\<close> does to the sorted set.\<close>

lemma redis_put_effect:
  assumes law: "redis_law env (rf_key f) zs" and m: "rd_marshal env e = Inr payload"
  obtains (dup) w' where "payload \<in> dom (zs w)" "redis_put env f w e = (Some (Sentinel ErrDuplicate), f, w')" "zs w' = zs w"
  | (put) w' where "payload \<notin> dom (zs w)" "redis_put env f w e = (None, f\<lparr>rf_size := wrap64 (rf_size f + 1)\<rparr>, w')"
      "zs w' = (zs w)(payload \<mapsto> scoreFor (entry_Priority e) (entry_DiscoveredAt e))"
proof -
  obtain w1 where w1: "rd_ZAddNX env w (rf_key f) (scoreFor (entry_Priority e) (entry_DiscoveredAt e)) payload =
      (Inr (if payload \<in> dom (zs w) then 0 else 1), w1)"
    "zs w1 = (if payload \<in> dom (zs w) then zs w else (zs w)(payload \<mapsto> scoreFor (entry_Priority e) (entry_DiscoveredAt e)))"
    using law unfolding redis_law_def by blast
  show thesis
  proof (cases "payload \<in> dom (zs w)")
    case True
    show thesis by (rule dup [OF True, of w1]) (use True w1 m in \<open>simp_all add: redis_put_def\<close>)
  next
    case False
    show thesis by (rule put [OF False, of w1]) (use False w1 m in \<open>simp_all add: redis_put_def\<close>)
  qed
qed

lemma redis_ok_put:
  assumes law: "redis_law env (rf_key f) zs" and ok: "redis_ok env zs f w" and a: "redis_put env f w e = (r, f', w')"
  shows "redis_ok env zs f' w' \<and> rf_key f' = rf_key f"
proof (cases "rd_marshal env e")
  case (Inl err)
  then show ?thesis using a ok by (auto simp: redis_put_def)
next
  case (Inr payload)
  then obtain x where un: "rd_unmarshal env payload = Inr x" "entry_Priority x = entry_Priority e" "entry_DiscoveredAt x = entry_DiscoveredAt e"
    using redis_law_decode [OF law] by blast
  show ?thesis
  proof (cases rule: redis_put_effect [OF law Inr, of w])
    case (1 w1)
    then show ?thesis using a ok by (auto simp: redis_ok_def)
  next
    case (2 w1)
    then have "int (card (dom (zs w1))) = int (card (dom (zs w))) + 1" using ok by (simp add: redis_ok_def)
    then have "redis_ok env zs (f\<lparr>rf_size := wrap64 (rf_size f + 1)\<rparr>) w1"
      using 2(3) ok un by (simp add: redis_ok_def wrap64_plus)
    then show ?thesis using 2(2) a by auto
  qed
qed

lemma redis_ok_Add:
  assumes law: "redis_law env (rf_key f) zs" and ok: "redis_ok env zs f w" and a: "RedisFrontier_Add env f w entry = (r, x, f', w')"
  shows "redis_ok env zs f' w' \<and> rf_key f' = rf_key f"
  using a ok redis_ok_put [OF law ok]
  by (auto simp: RedisFrontier_Add_def Let_def split: option.splits if_splits prod.splits)

text \<open>
  C13. On a server that answers, the Redis frontier delivers by priority.  Starting from a set of
  entries it wrote itself, \<open>Next\<close> returns in one turn an entry of the set that no other entry precedes
  by priority or by a millisecond, removes exactly that entry, and keeps the size counter equal to
  the number of members; on an empty set it goes on polling.  \<open>Add\<close> keeps the set so, too.
\<close>

theorem redis_frontier_order:
  assumes law: "redis_law env (rf_key f) zs" and ok: "redis_ok env zs f w"
    and scores: "\<forall>m\<in>dom (zs w). \<forall>e. rd_unmarshal env m = Inr e \<longrightarrow> score_range (entry_Priority e) (entry_DiscoveredAt e)"
  shows "(zs w = Map.empty \<and> (\<exists>w'. RedisFrontier_Next_iter env f w = (NextAgain, f, w') \<and> redis_ok env zs f w') \<or>
      (\<exists>m e f' w'. RedisFrontier_Next (Suc 0) env f w = Some (Inr e, f', w') \<and> m \<in> dom (zs w) \<and> rd_unmarshal env m = Inr e \<and>
        zs w' = (zs w)(m := None) \<and> redis_ok env zs f' w' \<and> RedisFrontier_Size f' = wrap64 (int (card (dom (zs w))) - 1) \<and>
        (\<forall>m'\<in>dom (zs w). \<forall>x. rd_unmarshal env m' = Inr x \<longrightarrow>
           entry_Priority e \<le> entry_Priority x \<and>
           (entry_Priority x = entry_Priority e \<longrightarrow> entry_DiscoveredAt e < entry_DiscoveredAt x + Millisecond)))) \<and>
    (\<forall>entry r x f1 w1. RedisFrontier_Add env f w entry = (r, x, f1, w1) \<longrightarrow> redis_ok env zs f1 w1)"
proof -
  have add: "\<forall>entry r x f1 w1. RedisFrontier_Add env f w entry = (r, x, f1, w1) \<longrightarrow> redis_ok env zs f1 w1"
    using redis_ok_Add [OF law ok] by blast
  have open_: "\<not> rf_closed f" "rd_ctx env w = None" using law ok by (simp_all add: redis_law_def redis_ok_def)
  show ?thesis
  proof (cases "zs w = Map.empty")
    case True
    then obtain w' where "rd_BZPopMin env w (rf_key f) = (RedisNil, w')" "zs w' = zs w" using law by (auto simp: redis_law_def)
    then show ?thesis using open_ ok add True by (simp add: RedisFrontier_Next_iter_def redis_ok_def)
  next
    case False
    obtain w' m s where p: "rd_BZPopMin env w (rf_key f) = (Popped (Some m), w')" "zs w m = Some s" "\<forall>x\<in>ran (zs w). s \<le> x"
      "zs w' = (zs w)(m := None)"
      using law False unfolding redis_law_def by blast
    obtain e where e: "rd_unmarshal env m = Inr e" "s = scoreFor (entry_Priority e) (entry_DiscoveredAt e)"
      using ok p(2) by (auto simp: redis_ok_def)
    define f' where "f' = f\<lparr>rf_size := wrap64 (rf_size f - 1)\<rparr>"
    have run: "RedisFrontier_Next (Suc 0) env f w = Some (Inr e, f', w')"
      using open_ p(1) e(1) by (simp add: RedisFrontier_Next_iter_def f'_def)
    have fin: "finite (dom (zs w))" and sz: "rf_size f = wrap64 (int (card (dom (zs w))))" using ok by (simp_all add: redis_ok_def)
    have "m \<in> dom (zs w)" using p(2) by auto
    then have "card (dom (zs w)) = Suc (card (dom (zs w) - {m}))" using card.remove [OF fin] by simp
    then have card: "int (card (dom (zs w) - {m})) = int (card (dom (zs w))) - 1" by simp
    have size: "rf_size f' = wrap64 (int (card (dom (zs w))) - 1)"
      using sz wrap64_plus [of "int (card (dom (zs w)))" "-1"] by (simp add: f'_def)
    have okw: "redis_ok env zs f' w'"
      unfolding redis_ok_def
    proof (intro conjI)
      show "finite (dom (zs w'))" "\<not> rf_closed f'" using fin open_ p(4) by (simp_all add: f'_def)
      show "rf_size f' = wrap64 (int (card (dom (zs w'))))" using size card p(4) by simp
      show "\<forall>m s. zs w' m = Some s \<longrightarrow> (\<exists>e. rd_unmarshal env m = Inr e \<and> s = scoreFor (entry_Priority e) (entry_DiscoveredAt e))"
        using ok p(4) by (simp add: redis_ok_def)
    qed
    have best: "entry_Priority e \<le> entry_Priority x \<and>
           (entry_Priority x = entry_Priority e \<longrightarrow> entry_DiscoveredAt e < entry_DiscoveredAt x + Millisecond)"
      if x: "m' \<in> dom (zs w)" "rd_unmarshal env m' = Inr x" for m' x
    proof -
      obtain t where t: "zs w m' = Some t" using x(1) by auto
      then have "t = scoreFor (entry_Priority x) (entry_DiscoveredAt x)" using redis_okD [OF ok t] x(2) by auto
      moreover have "s \<le> t" using p(3) t by (auto simp: ran_def)
      ultimately have le: "scoreFor (entry_Priority e) (entry_DiscoveredAt e) \<le> scoreFor (entry_Priority x) (entry_DiscoveredAt x)" using e(2) by simp
      have rx: "score_range (entry_Priority x) (entry_DiscoveredAt x)" and re: "score_range (entry_Priority e) (entry_DiscoveredAt e)"
        using scores x e(1) \<open>m \<in> dom (zs w)\<close> by blast+
      show ?thesis using score_le_order [OF rx re le] .
    qed
    have "m \<in> dom (zs w) \<and> rd_unmarshal env m = Inr e \<and> zs w' = (zs w)(m := None) \<and> redis_ok env zs f' w' \<and>
        RedisFrontier_Size f' = wrap64 (int (card (dom (zs w))) - 1)"
      using okw size e(1) p(4) \<open>m \<in> dom (zs w)\<close> by (simp add: RedisFrontier_Size_def)
    then show ?thesis using run add best by blast
  qed
qed

text \<open>
  A URL that waits in the queue is accepted again when it was discovered at another time: the
  member of the sorted set is the whole encoded entry, so \<^verbatim>\<open>ZADD NX\<close> finds no duplicate, and the queue
  then holds two entries that are equal but for the time.
\<close>

theorem redis_accepts_queued_url:
  assumes law: "redis_law env (rf_key f) zs" and ok: "redis_ok env zs f w"
    and e: "entry_URL e \<noteq> []" "\<not> time_IsZero (entry_DiscoveredAt e)" "\<not> time_IsZero t" "t \<noteq> entry_DiscoveredAt e"
    and first: "RedisFrontier_Add env f w (Some e) = (None, x, f1, w1)"
    and enc: "rd_marshal env (e\<lparr>entry_DiscoveredAt := t, entry_URL := Canonicalize (entry_URL e)\<rparr>) = Inr d" "d \<notin> dom (zs w)"
  shows "\<exists>y f2 w2. RedisFrontier_Add env f1 w1 (Some (e\<lparr>entry_DiscoveredAt := t\<rparr>)) = (None, Some y, f2, w2) \<and>
    x = Some (e\<lparr>entry_URL := entry_URL y\<rparr>) \<and>
    RedisFrontier_Size f2 = wrap64 (RedisFrontier_Size f + 2) \<and> card (dom (zs w2)) = card (dom (zs w)) + 2"
proof -
  let ?e1 = "e\<lparr>entry_URL := Canonicalize (entry_URL e)\<rparr>"
  let ?e2 = "e\<lparr>entry_DiscoveredAt := t, entry_URL := Canonicalize (entry_URL e)\<rparr>"
  have fin: "finite (dom (zs w))" and op: "\<not> rf_closed f" using ok by (simp_all add: redis_ok_def)
  have put1: "redis_put env f w ?e1 = (None, f1, w1)" and x: "x = Some ?e1"
    using first e op by (auto simp: RedisFrontier_Add_def Let_def split: prod.splits)
  then obtain c where c: "rd_marshal env ?e1 = Inr c" by (cases "rd_marshal env ?e1") (auto simp: redis_put_def)
  obtain "c \<notin> dom (zs w)" "f1 = f\<lparr>rf_size := wrap64 (rf_size f + 1)\<rparr>" "zs w1 = (zs w)(c \<mapsto> scoreFor (entry_Priority e) (entry_DiscoveredAt e))"
    using put1 by (cases rule: redis_put_effect [OF law c, of w]) simp_all
  note one = this
  have "c \<noteq> d"
  proof
    assume "c = d"
    then show False using redis_law_decode [OF law c] redis_law_decode [OF law enc(1)] e(4) by auto
  qed
  then have d: "d \<notin> dom (zs w1)" using one(3) enc(2) by simp
  have law1: "redis_law env (rf_key f1) zs" using law one(2) by simp
  obtain w2 where two: "redis_put env f1 w1 ?e2 = (None, f1\<lparr>rf_size := wrap64 (rf_size f1 + 1)\<rparr>, w2)" "zs w2 = (zs w1)(d \<mapsto> scoreFor (entry_Priority e) t)"
    using d by (cases rule: redis_put_effect [OF law1 enc(1), of w1]) simp_all
  have "RedisFrontier_Add env f1 w1 (Some (e\<lparr>entry_DiscoveredAt := t\<rparr>)) = (None, Some ?e2, f1\<lparr>rf_size := wrap64 (rf_size f1 + 1)\<rparr>, w2)"
    using e two(1) op one(2) by (simp add: RedisFrontier_Add_def Let_def)
  moreover have "card (dom (zs w2)) = card (dom (zs w)) + 2" using d two(2) one(1,3) fin by simp
  moreover have "wrap64 (rf_size f1 + 1) = wrap64 (rf_size f + 2)" using one(2) wrap64_plus [of "rf_size f + 1" 1] by (simp add: add.commute)
  ultimately show ?thesis using x by (simp add: RedisFrontier_Size_def)
qed

section \<open>A server in memory\<close>

text \<open>
  A sorted set as a list of members and scores, with an encoding of the entries found within 256
  milliseconds of a fixed moment; it obeys the law, and the theorems above apply to it.
\<close>

definition sample_epoch :: Time where "sample_epoch = 62135596800 * Second + 1700000000000 * Millisecond"

definition sample_marshal :: "URLEntry \<Rightarrow> error + string" where
  "sample_marshal e =
     (let k = entry_DiscoveredAt e - sample_epoch
      in if 0 \<le> entry_Priority e \<and> entry_Priority e < 256 \<and> k mod Millisecond = 0 \<and> 0 \<le> k \<and> k div Millisecond < 256
         then Inr (char_of (entry_Priority e) # char_of (k div Millisecond) # entry_URL e)
         else Inl (ErrorString ''unsupported''))"

fun sample_unmarshal :: "string \<Rightarrow> error + URLEntry" where
  "sample_unmarshal (p # k # url) =
     Inr \<lparr>entry_URL = url, entry_Priority = of_char p, entry_Depth = 0, entry_Metadata = None, entry_DiscoveredAt = sample_epoch + of_char k * Millisecond\<rparr>"
| "sample_unmarshal d = Inl (ErrorString ''unexpected end of input'')"

fun zmin :: "(string \<times> int) list \<Rightarrow> string \<times> int" where
  "zmin [] = ([], 0)"
| "zmin [x] = x"
| "zmin (x # xs) = (if snd x \<le> snd (zmin xs) then x else zmin xs)"

definition sample_server :: "(string \<times> int) list redis_env" where
  "sample_server =
     \<lparr>rd_Ping = (\<lambda>w cfg. (None, w)), rd_ZCard = (\<lambda>w key. Inr (int (length w))),
      rd_ZAddNX = (\<lambda>w key s m. if m \<in> fst ` set w then (Inr 0, w) else (Inr 1, (m, s) # w)),
      rd_BZPopMin = (\<lambda>w key. let v = AList.clearjunk w in if v = [] then (RedisNil, w) else (Popped (Some (fst (zmin v))), AList.delete (fst (zmin v)) v)),
      rd_SIsMember = (\<lambda>w key m. Inr (m \<in> fst ` set w)),
      rd_SAdd = (\<lambda>w key m. if m \<in> fst ` set w then (Inr 0, w) else (Inr 1, (m, 0) # w)),
      rd_SCard = (\<lambda>w key. Inr (int (length w))), rd_Del = (\<lambda>w key. []), rd_Close = (\<lambda>w. (None, w)),
      rd_marshal = sample_marshal, rd_unmarshal = sample_unmarshal, rd_now = (\<lambda>w. sample_epoch), rd_ctx = (\<lambda>w. None)\<rparr>"

lemma zmin_least: "xs \<noteq> [] \<Longrightarrow> zmin xs \<in> set xs \<and> (\<forall>x\<in>set xs. snd (zmin xs) \<le> snd x)"
  by (induction xs rule: zmin.induct) force+

lemma sample_decode:
  "sample_marshal e = Inr d \<Longrightarrow>
   \<exists>x. sample_unmarshal d = Inr x \<and> entry_Priority x = entry_Priority e \<and> entry_DiscoveredAt x = entry_DiscoveredAt e"
proof -
  let ?k = "entry_DiscoveredAt e - sample_epoch"
  assume "sample_marshal e = Inr d"
  then have b: "0 \<le> entry_Priority e" "entry_Priority e < 256" "?k mod Millisecond = 0" "0 \<le> ?k" "?k div Millisecond < 256"
    and d: "d = char_of (entry_Priority e) # char_of (?k div Millisecond) # entry_URL e"
    by (auto simp: sample_marshal_def Let_def split: if_splits)
  have "0 \<le> ?k div Millisecond" using b(4) by (simp add: pos_imp_zdiv_nonneg_iff)
  moreover have "?k div Millisecond * Millisecond = ?k" using b(3) by (metis add.right_neutral div_mult_mod_eq)
  ultimately show ?thesis using b(1,2,5) d by simp
qed

lemma sample_pop:
  assumes "map_of w \<noteq> Map.empty"
  shows "\<exists>w' m s. rd_BZPopMin sample_server w key = (Popped (Some m), w') \<and> map_of w m = Some s \<and>
    (\<forall>x\<in>ran (map_of w). s \<le> x) \<and> map_of w' = (map_of w)(m := None)"
proof -
  let ?v = "AList.clearjunk w"
  have v: "map_of ?v = map_of w" "distinct (map fst ?v)" by (simp_all add: map_of_clearjunk distinct_clearjunk)
  then have "?v \<noteq> []" using assms by (metis map_of.simps(1))
  then have z: "zmin ?v \<in> set ?v" "\<forall>x\<in>set ?v. snd (zmin ?v) \<le> snd x" using zmin_least by blast+
  have "map_of w (fst (zmin ?v)) = Some (snd (zmin ?v))" using z(1) v by (metis map_of_is_SomeI prod.collapse)
  moreover have "\<forall>x\<in>ran (map_of w). snd (zmin ?v) \<le> x"
  proof
    fix x
    assume "x \<in> ran (map_of w)"
    then obtain m where "map_of ?v m = Some x" using v(1) by (auto simp: ran_def)
    then show "snd (zmin ?v) \<le> x" using z(2) map_of_SomeD by force
  qed
  moreover have "map_of (AList.delete (fst (zmin ?v)) ?v) = (map_of w)(fst (zmin ?v) := None)" by (simp only: delete_conv' v(1))
  ultimately show ?thesis using \<open>?v \<noteq> []\<close> by (simp add: sample_server_def Let_def)
qed

lemma sample_law: "redis_law sample_server key map_of"
  unfolding redis_law_def
proof (intro conjI allI impI)
  fix w s m
  show "\<exists>w'. rd_ZAddNX sample_server w key s m = (Inr (if m \<in> dom (map_of w) then 0 else 1), w') \<and>
        map_of w' = (if m \<in> dom (map_of w) then map_of w else (map_of w)(m \<mapsto> s))"
    by (simp add: sample_server_def dom_map_of_conv_image_fst)
next
  fix w :: "(string \<times> int) list"
  assume "map_of w = Map.empty"
  then show "\<exists>w'. rd_BZPopMin sample_server w key = (RedisNil, w') \<and> map_of w' = map_of w"
    by (simp add: sample_server_def)
next
  fix w :: "(string \<times> int) list"
  assume "map_of w \<noteq> Map.empty"
  then show "\<exists>w' m s. rd_BZPopMin sample_server w key = (Popped (Some m), w') \<and> map_of w m = Some s \<and>
    (\<forall>x\<in>ran (map_of w). s \<le> x) \<and> map_of w' = (map_of w)(m := None)" by (rule sample_pop)
next
  fix w show "rd_ctx sample_server w = None" by (simp add: sample_server_def)
next
  fix e d
  assume "rd_marshal sample_server e = Inr d"
  then show "\<exists>x. rd_unmarshal sample_server d = Inr x \<and> entry_Priority x = entry_Priority e \<and> entry_DiscoveredAt x = entry_DiscoveredAt e"
    using sample_decode by (simp add: sample_server_def)
qed

definition sample_redis :: RedisFrontier where
  "sample_redis = \<lparr>rf_cfg = \<lparr>rc_Addr = ''localhost:6379'', rc_Password = [], rc_DB = 0, rc_KeyPrefix = ''frontier''\<rparr>, rf_key = ''frontier:urls'', rf_size = 0, rf_closed = False\<rparr>"

definition sample_entry :: "Priority \<Rightarrow> Time \<Rightarrow> URLEntry" where
  "sample_entry p t = \<lparr>entry_URL = ''http://a.b/'', entry_Priority = p, entry_Depth = 0, entry_Metadata = None, entry_DiscoveredAt = t\<rparr>"

definition sample_zset :: "(string \<times> int) list" where
  "sample_zset = [([char_of (2::int), char_of (0::int)], 21700000000000), ([char_of (1::int), char_of (7::int)], 11700000000007)]"

lemma sample_range: "score_range 1 (sample_epoch + 7 * Millisecond)" "score_range 2 sample_epoch"
  by (simp_all add: score_range_def time_UnixMilli_def sample_epoch_def)

theorem score_order_witness:
  "pq_less (sample_entry 1 (sample_epoch + 7 * Millisecond)) (sample_entry 2 sample_epoch) \<and>
   scoreFor 1 (sample_epoch + 7 * Millisecond) < scoreFor 2 sample_epoch"
  using score_order [of "sample_entry 1 (sample_epoch + 7 * Millisecond)" "sample_entry 2 sample_epoch"] sample_range
  by (simp add: sample_entry_def pq_less_def)

lemma sample_redis_ok: "redis_ok sample_server map_of sample_redis []" "redis_ok sample_server map_of (sample_redis\<lparr>rf_size := 2\<rparr>) sample_zset"
  using scoreFor_value [OF sample_range(1)] scoreFor_value [OF sample_range(2)]
  by (simp_all add: redis_ok_def sample_redis_def sample_zset_def sample_server_def time_UnixMilli_def sample_epoch_def wrap64_def)

theorem redis_frontier_order_witness:
  "\<exists>m e f' w'. RedisFrontier_Next (Suc 0) sample_server (sample_redis\<lparr>rf_size := 2\<rparr>) sample_zset = Some (Inr e, f', w') \<and> entry_Priority e \<le> 1 \<and>
     map_of w' = (map_of sample_zset)(m := None) \<and> RedisFrontier_Size f' = 1"
proof -
  have r: "\<forall>m\<in>dom (map_of sample_zset). \<forall>e. rd_unmarshal sample_server m = Inr e \<longrightarrow> score_range (entry_Priority e) (entry_DiscoveredAt e)"
    using sample_range by (auto simp: sample_zset_def sample_server_def split: if_splits)
  have m: "[char_of (1::int), char_of (7::int)] \<in> dom (map_of sample_zset)" by (simp add: sample_zset_def)
  have "wrap64 (int (card (dom (map_of sample_zset))) - 1) = 1" by (simp add: sample_zset_def wrap64_def)
  moreover obtain x where x: "rd_unmarshal sample_server [char_of (1::int), char_of (7::int)] = Inr x" "entry_Priority x = 1" by (simp add: sample_server_def)
  moreover have "map_of sample_zset \<noteq> Map.empty" using m by auto
  ultimately obtain k e f' w' where "RedisFrontier_Next (Suc 0) sample_server (sample_redis\<lparr>rf_size := 2\<rparr>) sample_zset = Some (Inr e, f', w')"
    "map_of w' = (map_of sample_zset)(k := None)" "RedisFrontier_Size f' = 1"
    "\<forall>m'\<in>dom (map_of sample_zset). \<forall>x. rd_unmarshal sample_server m' = Inr x \<longrightarrow> entry_Priority e \<le> entry_Priority x"
    using redis_frontier_order [OF sample_law sample_redis_ok(2) r] by (elim conjE disjE exE) simp_all
  moreover have "entry_Priority e \<le> 1" using calculation(4) m x by force
  ultimately show ?thesis by blast
qed

lemma sample_first_Add:
  "RedisFrontier_Add sample_server sample_redis [] (Some (sample_entry 2 sample_epoch)) =
   (None, Some (sample_entry 2 sample_epoch), sample_redis\<lparr>rf_size := 1\<rparr>, [(char_of (2::int) # char_of (0::int) # ''http://a.b/'', scoreFor 2 sample_epoch)])"
proof -
  have "Canonicalize ''http://a.b/'' = ''http://a.b/''" by code_simp
  then show ?thesis
    by (simp add: RedisFrontier_Add_def redis_put_def sample_entry_def sample_redis_def sample_server_def sample_marshal_def time_IsZero_def sample_epoch_def wrap64_def)
qed

theorem redis_accepts_queued_url_witness:
  "\<exists>y f2 w2. RedisFrontier_Add sample_server (sample_redis\<lparr>rf_size := 1\<rparr>) [(char_of (2::int) # char_of (0::int) # ''http://a.b/'', scoreFor 2 sample_epoch)]
       (Some (sample_entry 2 (sample_epoch + Millisecond))) = (None, Some y, f2, w2) \<and> entry_URL y = ''http://a.b/'' \<and> RedisFrontier_Size f2 = 2"
proof -
  let ?e = "sample_entry 2 sample_epoch"
  have c: "Canonicalize ''http://a.b/'' = ''http://a.b/''" by code_simp
  have h: "entry_URL ?e \<noteq> []" "\<not> time_IsZero (entry_DiscoveredAt ?e)" "\<not> time_IsZero (sample_epoch + Millisecond)" "sample_epoch + Millisecond \<noteq> entry_DiscoveredAt ?e"
    by (simp_all add: sample_entry_def time_IsZero_def sample_epoch_def)
  have d: "rd_marshal sample_server (?e\<lparr>entry_DiscoveredAt := sample_epoch + Millisecond, entry_URL := Canonicalize (entry_URL ?e)\<rparr>) =
      Inr (char_of (2::int) # char_of (1::int) # ''http://a.b/'')"
    using c by (simp add: sample_entry_def sample_server_def sample_marshal_def)
  have "?e\<lparr>entry_DiscoveredAt := sample_epoch + Millisecond\<rparr> = sample_entry 2 (sample_epoch + Millisecond)" by (simp add: sample_entry_def)
  moreover have "wrap64 (RedisFrontier_Size sample_redis + 2) = 2" by code_simp
  ultimately show ?thesis
    using redis_accepts_queued_url [OF sample_law sample_redis_ok(1) h sample_first_Add d] by (auto simp: sample_entry_def)
qed

end
