(* ===== verification/Operator_Reconciler.thy ===== *)
theory Operator_Reconciler
  imports Crawl_Errors
begin

text \<open>
  pkg/operator: the custom resource types and the reconciler that moves crawl jobs towards their
  specification.  A phase is a string, as in the code; the step relation \<open>reconcile_step\<close> collects the
  operations that change the reconciler.
\<close>

section \<open>types.go\<close>

record ResourceValues =
  rv_CPU :: string
  rv_Memory :: string

record ResourceSpec =
  rs_Limits :: ResourceValues
  rs_Requests :: ResourceValues

record KafkaSpec =
  ks_Brokers :: "string list"
  ks_TaskTopic :: string

record CrawlJobSpec =
  spec_SeedURLs :: "string list"
  spec_MaxDepth :: int
  spec_Workers :: int
  spec_ConcurrencyPerWorker :: int
  spec_MaxRetries :: int
  spec_Image :: string
  spec_Resources :: ResourceSpec
  spec_Kafka :: KafkaSpec
  spec_Schedule :: string
  spec_Suspend :: bool

type_synonym JobPhase = string

definition JobPhasePending :: JobPhase where "JobPhasePending = ''Pending''"
definition JobPhaseRunning :: JobPhase where "JobPhaseRunning = ''Running''"
definition JobPhasePaused :: JobPhase where "JobPhasePaused = ''Paused''"
definition JobPhaseCompleted :: JobPhase where "JobPhaseCompleted = ''Completed''"
definition JobPhaseFailed :: JobPhase where "JobPhaseFailed = ''Failed''"

lemmas phase_defs = JobPhasePending_def JobPhaseRunning_def JobPhasePaused_def JobPhaseCompleted_def JobPhaseFailed_def

lemma phase_neq [simp]:
  "JobPhasePending \<noteq> JobPhaseRunning" "JobPhasePending \<noteq> JobPhasePaused" "JobPhasePending \<noteq> JobPhaseCompleted" "JobPhasePending \<noteq> JobPhaseFailed" "JobPhaseRunning \<noteq> JobPhasePending"
   "JobPhaseRunning \<noteq> JobPhasePaused" "JobPhaseRunning \<noteq> JobPhaseCompleted" "JobPhaseRunning \<noteq> JobPhaseFailed" "JobPhasePaused \<noteq> JobPhasePending" "JobPhasePaused \<noteq> JobPhaseRunning"
   "JobPhasePaused \<noteq> JobPhaseCompleted" "JobPhasePaused \<noteq> JobPhaseFailed" "JobPhaseCompleted \<noteq> JobPhasePending" "JobPhaseCompleted \<noteq> JobPhaseRunning" "JobPhaseCompleted \<noteq> JobPhasePaused"
   "JobPhaseCompleted \<noteq> JobPhaseFailed" "JobPhaseFailed \<noteq> JobPhasePending" "JobPhaseFailed \<noteq> JobPhaseRunning" "JobPhaseFailed \<noteq> JobPhasePaused" "JobPhaseFailed \<noteq> JobPhaseCompleted"
  by (simp_all add: phase_defs)

record Condition =
  cond_Type :: string
  cond_Status :: string
  cond_LastTransitionTime :: Time
  cond_Reason :: string
  cond_Message :: string

record CrawlJobStatus =
  js_Phase :: JobPhase
  js_ActiveWorkers :: int
  js_URLsProcessed :: int
  js_URLsFailed :: int
  js_StartTime :: "Time option"
  js_CompletionTime :: "Time option"
  js_Conditions :: "Condition list"

record CrawlClusterKafka =
  cck_Brokers :: "string list"
  cck_TaskTopic :: string
  cck_DLQTopic :: string
  cck_ControlTopic :: string

record AutoscalingSpec =
  as_Enabled :: bool
  as_MinWorkers :: int
  as_MaxWorkers :: int
  as_TargetQueueDepth :: int

record MonitoringSpec =
  mon_Enabled :: bool
  mon_MetricsPort :: int
  mon_ServiceMonitor :: bool

record CrawlClusterSpec =
  ccs_Kafka :: CrawlClusterKafka
  ccs_DefaultWorkerImage :: string
  ccs_Autoscaling :: AutoscalingSpec
  ccs_Monitoring :: MonitoringSpec

record CrawlClusterStatus =
  cct_Phase :: string
  cct_ActiveJobs :: int
  cct_TotalWorkers :: int
  cct_KafkaConnected :: bool

section \<open>reconciler.go\<close>

record ReconcileState =
  rst_Spec :: CrawlJobSpec
  rst_Status :: CrawlJobStatus
  rst_DesiredWorkers :: int
  rst_ActualWorkers :: int
  rst_LastReconcile :: Time

record Reconciler =
  rec_jobs :: "string \<rightharpoonup> ReconcileState"

definition NewReconciler :: Reconciler where
  "NewReconciler = \<lparr>rec_jobs = Map.empty\<rparr>"

record ReconcileResult =
  rr_Requeue :: bool
  rr_RequeueAfter :: Duration
  rr_Actions :: "string list"

definition set_phase :: "JobPhase \<Rightarrow> ReconcileState \<Rightarrow> ReconcileState" where
  "set_phase p st = st\<lparr>rst_Status := (rst_Status st)\<lparr>js_Phase := p\<rparr>\<rparr>"

definition wanted_workers :: "CrawlJobSpec \<Rightarrow> int" where
  "wanted_workers spec = (if spec_Workers spec \<le> 0 then 3 else spec_Workers spec)"

definition reconcilePending :: "Time \<Rightarrow> ReconcileState \<Rightarrow> ReconcileResult \<Rightarrow> ReconcileResult \<times> ReconcileState" where
  "reconcilePending now st r =
     (let workers = wanted_workers (rst_Spec st);
          cond = \<lparr>cond_Type = ''Ready'', cond_Status = ''True'', cond_LastTransitionTime = now, cond_Reason = ''JobStarted'',
                  cond_Message = ''Starting '' @ strconv_Itoa workers @ '' workers''\<rparr>
      in (r\<lparr>rr_Actions := rr_Actions r @ [''create-workers:'' @ strconv_Itoa workers, ''publish-seed-urls''],
            rr_Requeue := True, rr_RequeueAfter := 10 * Second\<rparr>,
          st\<lparr>rst_DesiredWorkers := workers,
             rst_Status := (rst_Status st)\<lparr>js_Phase := JobPhaseRunning, js_StartTime := Some now,
                              js_Conditions := js_Conditions (rst_Status st) @ [cond]\<rparr>\<rparr>))"

definition scale_action :: "string \<Rightarrow> int \<Rightarrow> int \<Rightarrow> string" where
  "scale_action what actual desired = what @ '':'' @ strconv_Itoa actual @ ''->'' @ strconv_Itoa desired"

definition reconcileRunning :: "ReconcileState \<Rightarrow> ReconcileResult \<Rightarrow> ReconcileResult \<times> ReconcileState" where
  "reconcileRunning st r =
     (let desired = wanted_workers (rst_Spec st); actual = rst_ActualWorkers st;
          actions = (if actual < desired then [scale_action ''scale-up'' actual desired]
                     else if desired < actual then [scale_action ''scale-down'' actual desired] else [])
      in (r\<lparr>rr_Actions := rr_Actions r @ actions, rr_Requeue := True, rr_RequeueAfter := 30 * Second\<rparr>,
          st\<lparr>rst_DesiredWorkers := desired, rst_Status := (rst_Status st)\<lparr>js_ActiveWorkers := desired\<rparr>\<rparr>))"

definition reconcilePaused :: "ReconcileState \<Rightarrow> ReconcileResult \<Rightarrow> ReconcileResult \<times> ReconcileState" where
  "reconcilePaused st r =
     (if \<not> spec_Suspend (rst_Spec st)
      then (r\<lparr>rr_Actions := rr_Actions r @ [''resume''], rr_Requeue := True\<rparr>, set_phase JobPhaseRunning st)
      else (r, st))"

definition Reconcile ::
  "Time \<Rightarrow> Reconciler \<Rightarrow> string \<Rightarrow> CrawlJobSpec \<Rightarrow> int \<Rightarrow> (error + ReconcileResult) \<times> Reconciler" where
  "Reconcile now rc jobID spec currentWorkers =
     (let st0 = (case rec_jobs rc jobID of
                   Some st \<Rightarrow> st
                 | None \<Rightarrow> \<lparr>rst_Spec = spec,
                     rst_Status = \<lparr>js_Phase = JobPhasePending, js_ActiveWorkers = 0, js_URLsProcessed = 0, js_URLsFailed = 0,
                                   js_StartTime = None, js_CompletionTime = None, js_Conditions = []\<rparr>,
                     rst_DesiredWorkers = 0, rst_ActualWorkers = 0, rst_LastReconcile = 0\<rparr>);
          st = st0\<lparr>rst_Spec := spec, rst_ActualWorkers := currentWorkers, rst_LastReconcile := now\<rparr>;
          r = \<lparr>rr_Requeue = False, rr_RequeueAfter = 0, rr_Actions = []\<rparr>;
          phase = js_Phase (rst_Status st);
          store = (\<lambda>st. rc\<lparr>rec_jobs := (rec_jobs rc)(jobID \<mapsto> st)\<rparr>);
          finish = (\<lambda>(r, st). (Inr r, store st))
      in if spec_Suspend spec then
           (if phase = JobPhaseRunning
            then finish (r\<lparr>rr_Actions := [''scale-down-to-zero'']\<rparr>, (set_phase JobPhasePaused st)\<lparr>rst_DesiredWorkers := 0\<rparr>)
            else finish (r, st))
         else if phase = JobPhasePending then finish (reconcilePending now st r)
         else if phase = JobPhaseRunning then finish (reconcileRunning st r)
         else if phase = JobPhasePaused then finish (reconcilePaused st r)
         else if phase = JobPhaseCompleted \<or> phase = JobPhaseFailed then finish (r, st)
         else (Inl (ErrorString (''operator: unknown phase '' @ phase @ '' for job '' @ jobID)), store st))"

definition GetState :: "Reconciler \<Rightarrow> string \<Rightarrow> ReconcileState option" where
  "GetState rc jobID = rec_jobs rc jobID"

definition MarkCompleted :: "Time \<Rightarrow> Reconciler \<Rightarrow> string \<Rightarrow> Reconciler" where
  "MarkCompleted now rc jobID =
     (case rec_jobs rc jobID of
        None \<Rightarrow> rc
      | Some st \<Rightarrow>
          rc\<lparr>rec_jobs := (rec_jobs rc)(jobID \<mapsto> st\<lparr>rst_DesiredWorkers := 0,
            rst_Status := (rst_Status st)\<lparr>js_Phase := JobPhaseCompleted, js_CompletionTime := Some now\<rparr>\<rparr>)\<rparr>)"

definition MarkFailed :: "Time \<Rightarrow> Reconciler \<Rightarrow> string \<Rightarrow> string \<Rightarrow> Reconciler" where
  "MarkFailed now rc jobID reason =
     (case rec_jobs rc jobID of
        None \<Rightarrow> rc
      | Some st \<Rightarrow>
          let cond = \<lparr>cond_Type = ''Failed'', cond_Status = ''True'', cond_LastTransitionTime = now, cond_Reason = ''JobFailed'',
                      cond_Message = reason\<rparr>
          in rc\<lparr>rec_jobs := (rec_jobs rc)(jobID \<mapsto> st\<lparr>rst_DesiredWorkers := 0,
               rst_Status := (rst_Status st)\<lparr>js_Phase := JobPhaseFailed, js_CompletionTime := Some now,
                                js_Conditions := js_Conditions (rst_Status st) @ [cond]\<rparr>\<rparr>)\<rparr>)"

inductive reconcile_step :: "Reconciler \<Rightarrow> Reconciler \<Rightarrow> bool" where
  reconcile: "Reconcile now rc jobID spec n = (r, rc') \<Longrightarrow> reconcile_step rc rc'"
| completed: "reconcile_step rc (MarkCompleted now rc jobID)"
| failed: "reconcile_step rc (MarkFailed now rc jobID reason)"

inductive_cases reconcile_stepE: "reconcile_step rc rc'"

section \<open>Phases\<close>

definition phase_of :: "Reconciler \<Rightarrow> string \<Rightarrow> JobPhase option" where
  "phase_of rc j = map_option (\<lambda>st. js_Phase (rst_Status st)) (rec_jobs rc j)"

text \<open>Every job has a known phase; a job that is not running wants no workers and, once it has ended,
  has a completion time; a job that left the pending phase has a start time unless it ended first.\<close>

definition job_ok :: "ReconcileState \<Rightarrow> bool" where
  "job_ok st \<longleftrightarrow>
     (let p = js_Phase (rst_Status st)
      in p \<in> {JobPhasePending, JobPhaseRunning, JobPhasePaused, JobPhaseCompleted, JobPhaseFailed} \<and>
         (p \<noteq> JobPhaseRunning \<longrightarrow> rst_DesiredWorkers st = 0) \<and> 0 \<le> rst_DesiredWorkers st \<and>
         (p \<in> {JobPhaseCompleted, JobPhaseFailed} \<longrightarrow> js_CompletionTime (rst_Status st) \<noteq> None) \<and>
         (p \<in> {JobPhaseRunning, JobPhasePaused} \<longrightarrow> js_StartTime (rst_Status st) \<noteq> None))"

definition reconciler_ok :: "Reconciler \<Rightarrow> bool" where
  "reconciler_ok rc \<longleftrightarrow> (\<forall>j st. rec_jobs rc j = Some st \<longrightarrow> job_ok st)"

lemma phase_after:
  "js_Phase (rst_Status (snd (reconcilePending now st r))) = JobPhaseRunning"
  "js_Phase (rst_Status (snd (reconcileRunning st r))) = js_Phase (rst_Status st)"
  "\<not> spec_Suspend (rst_Spec st) \<Longrightarrow> js_Phase (rst_Status (snd (reconcilePaused st r))) = JobPhaseRunning"
  by (simp_all add: reconcilePending_def reconcileRunning_def reconcilePaused_def set_phase_def Let_def)

text \<open>What one call of \<open>Reconcile\<close> stores, by the phase the job had.\<close>

lemma Reconcile_keeps_ok:
  assumes "reconciler_ok rc" "Reconcile now rc j spec n = (r, rc')"
  shows "reconciler_ok rc'" "\<exists>x. r = Inr x"
proof -
  have "\<exists>st x. rc' = rc\<lparr>rec_jobs := (rec_jobs rc)(j \<mapsto> st)\<rparr> \<and> r = Inr x \<and> job_ok st"
  proof (cases "rec_jobs rc j")
    case None
    then show ?thesis using assms(2)
      by (auto simp: Reconcile_def reconcilePending_def wanted_workers_def job_ok_def Let_def split: if_splits)
  next
    case (Some st)
    then have "job_ok st" using assms(1) by (simp add: reconciler_ok_def)
    then show ?thesis using assms(2) Some
      by (auto simp: Reconcile_def reconcilePending_def reconcileRunning_def reconcilePaused_def wanted_workers_def set_phase_def
          job_ok_def Let_def split: if_splits)
  qed
  then show "reconciler_ok rc'" "\<exists>x. r = Inr x" using assms(1) by (auto simp: reconciler_ok_def split: if_splits)
qed

lemma Mark_keeps_ok:
  assumes "reconciler_ok rc"
  shows "reconciler_ok (MarkCompleted now rc j)" "reconciler_ok (MarkFailed now rc j reason)"
proof -
  have "job_ok (st\<lparr>rst_DesiredWorkers := 0, rst_Status := (rst_Status st)\<lparr>js_Phase := JobPhaseCompleted, js_CompletionTime := Some now\<rparr>\<rparr>)"
    "job_ok (st\<lparr>rst_DesiredWorkers := 0, rst_Status := (rst_Status st)\<lparr>js_Phase := JobPhaseFailed, js_CompletionTime := Some now,
       js_Conditions := cs\<rparr>\<rparr>)" for st cs
    by (simp_all add: job_ok_def Let_def)
  then show "reconciler_ok (MarkCompleted now rc j)" "reconciler_ok (MarkFailed now rc j reason)"
    using assms by (auto simp: reconciler_ok_def MarkCompleted_def MarkFailed_def Let_def split: option.splits if_splits)
qed

lemma reconciler_ok_run: "reconcile_step\<^sup>*\<^sup>* NewReconciler rc \<Longrightarrow> reconciler_ok rc"
proof (induction rule: rtranclp_induct)
  case base
  show ?case by (simp add: reconciler_ok_def NewReconciler_def)
next
  case (step y z)
  from step.hyps(2) show ?case by cases (use step.IH Reconcile_keeps_ok(1) Mark_keeps_ok in auto)
qed


text \<open>
  C36. Reconciling converges.  For a job that has not ended and is not suspended, two calls with the
  same specification leave it running with the specified number of workers (three if none is given)
  as the desired and reported number; a further call that finds this many workers keeps it so and asks
  for no action, and suspending it then pauses it with no workers desired.
\<close>

theorem Reconcile_converges:
  assumes ok: "reconciler_ok rc" and live: "\<not> spec_Suspend spec" "phase_of rc j \<notin> {Some JobPhaseCompleted, Some JobPhaseFailed}"
    and one: "Reconcile t1 rc j spec n1 = (r1, rc1)" and two: "Reconcile t2 rc1 j spec n2 = (r2, rc2)"
    and three: "Reconcile t3 rc2 j spec (wanted_workers spec) = (r3, rc3)"
    and four: "Reconcile t4 rc2 j (spec\<lparr>spec_Suspend := True\<rparr>) n4 = (r4, rc4)"
  shows "\<exists>st2 st3 st4 x. GetState rc2 j = Some st2 \<and> js_Phase (rst_Status st2) = JobPhaseRunning \<and>
      rst_DesiredWorkers st2 = wanted_workers spec \<and> js_ActiveWorkers (rst_Status st2) = wanted_workers spec \<and>
      r3 = Inr x \<and> rr_Actions x = [] \<and> GetState rc3 j = Some st3 \<and> js_Phase (rst_Status st3) = JobPhaseRunning \<and>
      rst_DesiredWorkers st3 = wanted_workers spec \<and>
      GetState rc4 j = Some st4 \<and> js_Phase (rst_Status st4) = JobPhasePaused \<and> rst_DesiredWorkers st4 = 0"
proof -
  have running: "\<exists>st'. rec_jobs rc' j = Some st' \<and> js_Phase (rst_Status st') = JobPhaseRunning \<and>
      rst_DesiredWorkers st' = wanted_workers spec \<and> js_ActiveWorkers (rst_Status st') = wanted_workers spec \<and>
      (n = wanted_workers spec \<longrightarrow> (\<exists>x. r = Inr x \<and> rr_Actions x = []))"
    if "Reconcile t rc0 j spec n = (r, rc')" "rec_jobs rc0 j = Some st" "js_Phase (rst_Status st) = JobPhaseRunning" for t rc0 n r rc' st
    using that live(1) by (auto simp: Reconcile_def reconcileRunning_def Let_def)
  have "\<exists>st. rec_jobs rc1 j = Some st \<and> js_Phase (rst_Status st) = JobPhaseRunning"
  proof (cases "rec_jobs rc j")
    case None
    then show ?thesis using one live(1) by (auto simp: Reconcile_def reconcilePending_def Let_def)
  next
    case (Some st)
    then have "js_Phase (rst_Status st) \<in> {JobPhasePending, JobPhaseRunning, JobPhasePaused}"
      using ok live(2) by (auto simp: reconciler_ok_def job_ok_def phase_of_def Let_def)
    then consider "js_Phase (rst_Status st) = JobPhasePending" | "js_Phase (rst_Status st) = JobPhaseRunning" | "js_Phase (rst_Status st) = JobPhasePaused"
      by blast
    moreover have "rc1 = snd (Reconcile t1 rc j spec n1)" using one by simp
    ultimately show ?thesis
      by cases (simp_all add: Reconcile_def case_prod_beta live(1) Some phase_after Let_def)
  qed
  then obtain st1 where st1: "rec_jobs rc1 j = Some st1" "js_Phase (rst_Status st1) = JobPhaseRunning" by blast
  obtain st2 where st2: "rec_jobs rc2 j = Some st2" "js_Phase (rst_Status st2) = JobPhaseRunning"
      "rst_DesiredWorkers st2 = wanted_workers spec" "js_ActiveWorkers (rst_Status st2) = wanted_workers spec"
    using running [OF two st1] by (elim exE conjE) (rule that)
  obtain st3 where st3: "rec_jobs rc3 j = Some st3" "js_Phase (rst_Status st3) = JobPhaseRunning"
      "rst_DesiredWorkers st3 = wanted_workers spec" "\<exists>x. r3 = Inr x \<and> rr_Actions x = []"
    using running [OF three st2(1,2)] by (elim exE conjE) (rule that, simp_all)
  then obtain x where "r3 = Inr x" "rr_Actions x = []" by blast
  moreover have "\<exists>st4. rec_jobs rc4 j = Some st4 \<and> js_Phase (rst_Status st4) = JobPhasePaused \<and> rst_DesiredWorkers st4 = 0"
    using four st2(1,2) by (auto simp: Reconcile_def set_phase_def Let_def)
  ultimately show ?thesis using st2 st3(1-3) by (auto simp: GetState_def)
qed

text \<open>Resuming alone does not restore the workers: after one call the job runs with none desired.\<close>

lemma resume_without_workers:
  assumes "reconciler_ok rc" "phase_of rc j = Some JobPhasePaused" "\<not> spec_Suspend spec" "Reconcile now rc j spec n = (r, rc')"
  shows "\<exists>st. GetState rc' j = Some st \<and> js_Phase (rst_Status st) = JobPhaseRunning \<and> rst_DesiredWorkers st = 0"
  using assms by (auto simp: Reconcile_def reconcilePaused_def set_phase_def phase_of_def GetState_def reconciler_ok_def job_ok_def
      Let_def)

definition sample_spec :: CrawlJobSpec where
  "sample_spec = \<lparr>spec_SeedURLs = [''http://h/''], spec_MaxDepth = 1, spec_Workers = 5, spec_ConcurrencyPerWorker = 1, spec_MaxRetries = 1,
     spec_Image = [], spec_Resources = \<lparr>rs_Limits = \<lparr>rv_CPU = [], rv_Memory = []\<rparr>, rs_Requests = \<lparr>rv_CPU = [], rv_Memory = []\<rparr>\<rparr>,
     spec_Kafka = \<lparr>ks_Brokers = [], ks_TaskTopic = []\<rparr>, spec_Schedule = [], spec_Suspend = False\<rparr>"


theorem Reconcile_converges_witness:
  "\<exists>st. GetState (snd (Reconcile 2 (snd (Reconcile 1 NewReconciler ''j'' sample_spec 0)) ''j'' sample_spec 5)) ''j'' = Some st \<and>
     rst_DesiredWorkers st = 5"
proof -
  have ok: "reconciler_ok NewReconciler" "\<not> spec_Suspend sample_spec" "phase_of NewReconciler ''j'' \<notin> {Some JobPhaseCompleted, Some JobPhaseFailed}"
    by (simp_all add: reconciler_ok_def NewReconciler_def sample_spec_def phase_of_def)
  have "wanted_workers sample_spec = 5" by (simp add: wanted_workers_def sample_spec_def)
  then show ?thesis using Reconcile_converges [OF ok prod.collapse [symmetric] prod.collapse [symmetric] prod.collapse [symmetric] prod.collapse [symmetric]]
    by metis
qed

end
