(* ===== verification/Cookie_Jar.thy ===== *)
theory Cookie_Jar
  imports Net_URL Crawl_Errors
begin

text \<open>
  pkg/cookie/jar.go: the cookie jar with persistence.  The jar of net/http/cookiejar it wraps is
  modelled first, as far as this package uses it, with the public suffix list
  (golang.org/x/net/publicsuffix) as an argument; its partition of the cookies by registered domain
  is left out, since a cookie is only ever sent within its own part.  JSON and the file system are
  fields of the environment.
\<close>

section \<open>net/http/cookiejar\<close>

datatype SameSite = SameSiteDefault | SameSiteLaxMode | SameSiteStrictMode | SameSiteNoneMode | SameSiteUnset

record http_Cookie =
  ck_Name :: string
  ck_Value :: string
  ck_Domain :: string
  ck_Path :: string
  ck_Expires :: Time
  ck_MaxAge :: int
  ck_Secure :: bool
  ck_HttpOnly :: bool
  ck_SameSite :: SameSite

record jar_entry =
  je_Name :: string
  je_Value :: string
  je_Domain :: string
  je_Path :: string
  je_SameSite :: SameSite
  je_Secure :: bool
  je_HttpOnly :: bool
  je_Persistent :: bool
  je_HostOnly :: bool
  je_Expires :: Time

type_synonym cookiejar = "jar_entry list"

definition hasDotSuffix :: "string \<Rightarrow> string \<Rightarrow> bool" where
  "hasDotSuffix s suf \<longleftrightarrow> length suf < length s \<and> s ! (length s - length suf - 1) = CHR ''.'' \<and> drop (length s - length suf) s = suf"

text \<open>Host names only: the port and one trailing dot are dropped and letters lowered.\<close>

definition canonicalHost :: "URL \<Rightarrow> string" where
  "canonicalHost u =
     (let h = fst (splitHostPort (url_Host u))
      in strings_ToLower (if h \<noteq> [] \<and> last h = CHR ''.'' then butlast h else h))"

definition defaultPath :: "string \<Rightarrow> string" where
  "defaultPath path =
     (if path = [] \<or> hd path \<noteq> CHR ''/'' then ''/''
      else (case strings_LastIndex path ''/'' of None \<Rightarrow> ''/'' | Some 0 \<Rightarrow> ''/'' | Some i \<Rightarrow> take i path))"

definition is_ip_host :: "string \<Rightarrow> bool" where
  "is_ip_host h \<longleftrightarrow> valid_ip4 h \<or> CHR '':'' \<in> set h"

text \<open>The domain of a cookie and whether it is for the host alone; \<open>None\<close> rejects the cookie.\<close>

definition domainAndType :: "(string \<Rightarrow> string) \<Rightarrow> string \<Rightarrow> string \<Rightarrow> (string \<times> bool) option" where
  "domainAndType psl host domain =
     (if domain = [] then Some (host, True)
      else if is_ip_host host then (if host = domain then Some (host, True) else None)
      else
        let d0 = (if hd domain = CHR ''.'' then tl domain else domain)
        in if d0 = [] \<or> hd d0 = CHR ''.'' then None
           else
             let d = strings_ToLower d0
             in if last d = CHR ''.'' then None
                else if psl d \<noteq> [] \<and> \<not> hasDotSuffix d (psl d) then (if host = d then Some (host, True) else None)
                else if host \<noteq> d \<and> \<not> hasDotSuffix host d then None
                else Some (d, False))"

definition same_id :: "jar_entry \<Rightarrow> jar_entry \<Rightarrow> bool" where
  "same_id a b \<longleftrightarrow> je_Domain a = je_Domain b \<and> je_Path a = je_Path b \<and> je_Name a = je_Name b"

definition set_cookie :: "(string \<Rightarrow> string) \<Rightarrow> Time \<Rightarrow> string \<Rightarrow> string \<Rightarrow> cookiejar \<Rightarrow> http_Cookie \<Rightarrow> cookiejar" where
  "set_cookie psl now defPath host jar c =
     (case domainAndType psl host (ck_Domain c) of
        None \<Rightarrow> jar
      | Some (domain, hostOnly) \<Rightarrow>
          let e = \<lparr>je_Name = ck_Name c, je_Value = ck_Value c, je_Domain = domain,
                   je_Path = (if ck_Path c = [] \<or> hd (ck_Path c) \<noteq> CHR ''/'' then defPath else ck_Path c),
                   je_SameSite = ck_SameSite c, je_Secure = ck_Secure c, je_HttpOnly = ck_HttpOnly c,
                   je_Persistent = (ck_MaxAge c \<noteq> 0 \<or> \<not> time_IsZero (ck_Expires c)), je_HostOnly = hostOnly,
                   je_Expires = (if 0 < ck_MaxAge c then now + ck_MaxAge c * Second else ck_Expires c)\<rparr>;
              remove = (ck_MaxAge c < 0 \<or> (ck_MaxAge c = 0 \<and> \<not> time_IsZero (ck_Expires c) \<and> \<not> time_After (ck_Expires c) now));
              others = filter (\<lambda>x. \<not> same_id x e) jar
          in if remove then others else others @ [e])"

definition jar_SetCookies :: "(string \<Rightarrow> string) \<Rightarrow> Time \<Rightarrow> cookiejar \<Rightarrow> URL \<Rightarrow> http_Cookie list \<Rightarrow> cookiejar" where
  "jar_SetCookies psl now jar u cs =
     (if url_Scheme u \<noteq> ''http'' \<and> url_Scheme u \<noteq> ''https'' then jar
      else foldl (set_cookie psl now (defaultPath (url_Path u)) (canonicalHost u)) jar cs)"

definition pathMatch :: "jar_entry \<Rightarrow> string \<Rightarrow> bool" where
  "pathMatch e path \<longleftrightarrow> path = je_Path e \<or>
     strings_HasPrefix path (je_Path e) \<and>
       (last (je_Path e) = CHR ''/'' \<or> path ! length (je_Path e) = CHR ''/'')"

definition shouldSend :: "jar_entry \<Rightarrow> bool \<Rightarrow> string \<Rightarrow> string \<Rightarrow> bool" where
  "shouldSend e https host path \<longleftrightarrow>
     (je_Domain e = host \<or> \<not> je_HostOnly e \<and> hasDotSuffix host (je_Domain e)) \<and> pathMatch e path \<and> (https \<or> \<not> je_Secure e)"

text \<open>The names and values sent; the order by path length is left out.\<close>

definition jar_Cookies :: "Time \<Rightarrow> cookiejar \<Rightarrow> URL \<Rightarrow> (string \<times> string) list" where
  "jar_Cookies now jar u =
     (if url_Scheme u \<noteq> ''http'' \<and> url_Scheme u \<noteq> ''https'' then []
      else map (\<lambda>e. (je_Name e, je_Value e))
             (filter (\<lambda>e. \<not> (je_Persistent e \<and> \<not> time_After (je_Expires e) now) \<and>
                shouldSend e (url_Scheme u = ''https'') (canonicalHost u) (if url_Path u = [] then ''/'' else url_Path u)) jar))"

section \<open>jar.go\<close>

record entry =
  en_Name :: string
  en_Value :: string
  en_Domain :: string
  en_Path :: string
  en_Expires :: Time
  en_Secure :: bool
  en_HttpOnly :: bool
  en_SameSite :: string
  en_RawURL :: string

record cookieFile =
  cf_Version :: int
  cf_Cookies :: "entry list"

record jar =
  jar_inner :: cookiejar
  jar_entries :: "entry list"

definition cookie_New :: jar where
  "cookie_New = \<lparr>jar_inner = [], jar_entries = []\<rparr>"

fun removeCookieEntry :: "entry list \<Rightarrow> string \<Rightarrow> string \<Rightarrow> string \<Rightarrow> entry list" where
  "removeCookieEntry [] domain path name = []"
| "removeCookieEntry (e # es) domain path name =
     (if en_Domain e = domain \<and> en_Path e = path \<and> en_Name e = name then removeCookieEntry es domain path name
      else e # removeCookieEntry es domain path name)"

definition cookieToEntry :: "URL \<Rightarrow> http_Cookie \<Rightarrow> entry" where
  "cookieToEntry u c =
     (let domain = (if ck_Domain c = [] then url_Hostname u else ck_Domain c);
          path = (if ck_Path c = [] then ''/'' else ck_Path c);
          sameSite = (case ck_SameSite c of SameSiteStrictMode \<Rightarrow> ''Strict'' | SameSiteLaxMode \<Rightarrow> ''Lax'' | SameSiteNoneMode \<Rightarrow> ''None'' | _ \<Rightarrow> [])
      in \<lparr>en_Name = ck_Name c, en_Value = ck_Value c, en_Domain = domain, en_Path = path, en_Expires = ck_Expires c,
          en_Secure = ck_Secure c, en_HttpOnly = ck_HttpOnly c, en_SameSite = sameSite,
          en_RawURL = url_Scheme u @ ''://'' @ url_Host u @ path\<rparr>)"

definition entryToCookie :: "entry \<Rightarrow> http_Cookie" where
  "entryToCookie e =
     (let sameSite = (if en_SameSite e = ''Strict'' then SameSiteStrictMode else if en_SameSite e = ''Lax'' then SameSiteLaxMode
                      else if en_SameSite e = ''None'' then SameSiteNoneMode else SameSiteUnset)
      in \<lparr>ck_Name = en_Name e, ck_Value = en_Value e, ck_Domain = en_Domain e, ck_Path = en_Path e, ck_Expires = en_Expires e,
          ck_MaxAge = 0, ck_Secure = en_Secure e, ck_HttpOnly = en_HttpOnly e, ck_SameSite = sameSite\<rparr>)"

fun trackCookies :: "entry list \<Rightarrow> URL \<Rightarrow> http_Cookie list \<Rightarrow> entry list" where
  "trackCookies es u [] = es"
| "trackCookies es u (c # cs) =
     (let e = cookieToEntry u c
      in trackCookies (removeCookieEntry es (en_Domain e) (en_Path e) (en_Name e) @ [e]) u cs)"

definition Jar_SetCookies :: "(string \<Rightarrow> string) \<Rightarrow> Time \<Rightarrow> jar \<Rightarrow> URL \<Rightarrow> http_Cookie list \<Rightarrow> jar" where
  "Jar_SetCookies psl now j u cs =
     \<lparr>jar_inner = jar_SetCookies psl now (jar_inner j) u cs, jar_entries = trackCookies (jar_entries j) u cs\<rparr>"

definition Jar_Cookies :: "Time \<Rightarrow> jar \<Rightarrow> URL \<Rightarrow> (string \<times> string) list" where
  "Jar_Cookies now j u = jar_Cookies now (jar_inner j) u"

definition Jar_Clear :: "jar \<Rightarrow> jar" where
  "Jar_Clear j = \<lparr>jar_inner = [], jar_entries = []\<rparr>"

definition expired :: "Time \<Rightarrow> entry \<Rightarrow> bool" where
  "expired now e \<longleftrightarrow> \<not> time_IsZero (en_Expires e) \<and> time_Before (en_Expires e) now"

definition activeEntries :: "Time \<Rightarrow> jar \<Rightarrow> entry list" where
  "activeEntries now j = filter (\<lambda>e. \<not> expired now e) (jar_entries j)"

text \<open>\<open>je_dir\<close> is \<^verbatim>\<open>filepath.Dir\<close>.\<close>

record 'w jar_env =
  je_marshal :: "cookieFile \<Rightarrow> error + string"
  je_unmarshal :: "string \<Rightarrow> error + cookieFile"
  je_dir :: "string \<Rightarrow> string"
  je_MkdirAll :: "'w \<Rightarrow> string \<Rightarrow> error option \<times> 'w"
  je_WriteFile :: "'w \<Rightarrow> string \<Rightarrow> string \<Rightarrow> error option \<times> 'w"
  je_ReadFile :: "'w \<Rightarrow> string \<Rightarrow> error + string"
  je_now :: "'w \<Rightarrow> Time"

definition Jar_Save :: "'w jar_env \<Rightarrow> jar \<Rightarrow> 'w \<Rightarrow> string \<Rightarrow> error option \<times> 'w" where
  "Jar_Save env j w path =
     (let data = \<lparr>cf_Version = 1, cf_Cookies = activeEntries (je_now env w) j\<rparr>
      in case je_marshal env data of
           Inl err \<Rightarrow> (Some (WrapError ''marshal cookies: '' err []), w)
         | Inr b \<Rightarrow>
             (case je_MkdirAll env w (je_dir env path) of
                (Some err, w1) \<Rightarrow> (Some (WrapError ''create directory: '' err []), w1)
              | (None, w1) \<Rightarrow>
                  (case je_WriteFile env w1 path b of
                     (Some err, w2) \<Rightarrow> (Some (WrapError ''write cookie file: '' err []), w2)
                   | (None, w2) \<Rightarrow> (None, w2))))"

fun load_entries :: "(string \<Rightarrow> string) \<Rightarrow> Time \<Rightarrow> entry list \<Rightarrow> jar \<Rightarrow> jar" where
  "load_entries psl now [] j = j"
| "load_entries psl now (e # es) j =
     (if expired now e then load_entries psl now es j
      else (case url_Parse (en_RawURL e) of
          None \<Rightarrow> load_entries psl now es j
        | Some u \<Rightarrow>
            load_entries psl now es
              \<lparr>jar_inner = jar_SetCookies psl now (jar_inner j) u [entryToCookie e], jar_entries = jar_entries j @ [e]\<rparr>))"

definition Jar_Load :: "'w jar_env \<Rightarrow> (string \<Rightarrow> string) \<Rightarrow> jar \<Rightarrow> 'w \<Rightarrow> string \<Rightarrow> error option \<times> jar" where
  "Jar_Load env psl j w path =
     (case je_ReadFile env w path of
        Inl err \<Rightarrow> (Some (WrapError ''read cookie file: '' err []), j)
      | Inr b \<Rightarrow>
          (case je_unmarshal env b of
             Inl err \<Rightarrow> (Some (WrapError ''unmarshal cookies: '' err []), j)
           | Inr data \<Rightarrow> (None, load_entries psl (je_now env w) (cf_Cookies data) (Jar_Clear j))))"

section \<open>What is kept\<close>

definition ident :: "entry \<Rightarrow> string \<times> string \<times> string" where
  "ident e = (en_Domain e, en_Path e, en_Name e)"

lemma removeCookieEntry_filter:
  "removeCookieEntry es d p n = filter (\<lambda>e. ident e \<noteq> (d, p, n)) es"
  by (induction es) (auto simp: ident_def)

lemma track_step:
  assumes "distinct (map ident es)"
  shows "distinct (map ident (removeCookieEntry es (en_Domain e) (en_Path e) (en_Name e) @ [e]))"
  using assms by (induction es) (auto simp: removeCookieEntry_filter ident_def)

text \<open>The last cookie set for an identity is the one that is kept.\<close>

fun last_set :: "URL \<Rightarrow> http_Cookie list \<Rightarrow> string \<times> string \<times> string \<Rightarrow> entry option" where
  "last_set u [] i = None"
| "last_set u (c # cs) i =
     (case last_set u cs i of Some e \<Rightarrow> Some e | None \<Rightarrow> if ident (cookieToEntry u c) = i then Some (cookieToEntry u c) else None)"

lemma trackCookies_spec:
  assumes "distinct (map ident es)"
  shows "distinct (map ident (trackCookies es u cs)) \<and>
    (e \<in> set (trackCookies es u cs) \<longleftrightarrow>
       (case last_set u cs (ident e) of Some x \<Rightarrow> e = x | None \<Rightarrow> e \<in> set es))"
  using assms
proof (induction cs arbitrary: es)
  case (Cons c cs)
  let ?e = "cookieToEntry u c"
  let ?es = "removeCookieEntry es (en_Domain ?e) (en_Path ?e) (en_Name ?e) @ [?e]"
  have "e \<in> set ?es \<longleftrightarrow> (if ident ?e = ident e then e = ?e else e \<in> set es)"
    by (auto simp: removeCookieEntry_filter) (auto simp: ident_def)
  then show ?case using Cons.IH [of ?es] track_step [OF Cons.prems, of ?e] by (auto simp: Let_def split: option.splits)
qed simp

inductive jar_step :: "(string \<Rightarrow> string) \<Rightarrow> jar \<Rightarrow> jar \<Rightarrow> bool" for psl where
  set: "jar_step psl j (Jar_SetCookies psl now j u cs)"
| clear: "jar_step psl j (Jar_Clear j)"

text \<open>
  A jar that is only set and cleared keeps at most one entry for each domain, path and name; after
  \<open>SetCookies\<close> it is the entry of the last cookie given with that identity, and entries of other
  identities stay as they were.
\<close>

theorem jar_entries_unique:
  assumes "(jar_step psl)\<^sup>*\<^sup>* cookie_New j"
  shows "distinct (map ident (jar_entries j)) \<and>
    (e \<in> set (jar_entries (Jar_SetCookies psl now j u cs)) \<longleftrightarrow>
       (case last_set u cs (ident e) of Some x \<Rightarrow> e = x | None \<Rightarrow> e \<in> set (jar_entries j)))"
proof -
  have "distinct (map ident (jar_entries j))" using assms
  proof (induction rule: rtranclp_induct)
    case (step y z)
    from step.hyps(2) show ?case
      by cases (use step.IH trackCookies_spec in \<open>auto simp: Jar_SetCookies_def Jar_Clear_def\<close>)
  qed (simp add: cookie_New_def)
  then show ?thesis using trackCookies_spec [of "jar_entries j" u cs e] by (simp add: Jar_SetCookies_def)
qed

text \<open>What the file and the encoding promise: entries of plain text come back as they were (JSON replaces
  bytes that are not valid UTF-8), and a file that was written is read.\<close>

definition plain :: "entry \<Rightarrow> bool" where
  "plain e \<longleftrightarrow> (\<forall>c\<in>set (en_Name e @ en_Value e @ en_Domain e @ en_Path e @ en_SameSite e @ en_RawURL e). of_char c < (128 :: nat))"

definition file_law :: "'w jar_env \<Rightarrow> bool" where
  "file_law env \<longleftrightarrow> (\<forall>d b. je_marshal env d = Inr b \<and> list_all plain (cf_Cookies d) \<longrightarrow> je_unmarshal env b = Inr d) \<and>
     (\<forall>w p b w'. je_WriteFile env w p b = (None, w') \<longrightarrow> je_ReadFile env w' p = Inr b)"

lemma Save_then_read:
  assumes "file_law env" "Jar_Save env j w path = (None, w')" "list_all plain (jar_entries j)"
  shows "\<exists>b. je_ReadFile env w' path = Inr b \<and> je_unmarshal env b = Inr \<lparr>cf_Version = 1, cf_Cookies = activeEntries (je_now env w) j\<rparr>"
proof -
  have "list_all plain (activeEntries (je_now env w) j)" using assms(3) by (auto simp: activeEntries_def list_all_iff)
  then show ?thesis using assms(1,2)
    by (fastforce simp: Jar_Save_def file_law_def Let_def split: sum.splits prod.splits option.splits)
qed

lemma load_entries_entries:
  "jar_entries (load_entries psl now es j) =
     jar_entries j @ filter (\<lambda>e. \<not> expired now e \<and> url_Parse (en_RawURL e) \<noteq> None) es"
  by (induction es arbitrary: j) (auto split: option.splits)

text \<open>
  C33. Saving a jar and loading the file, into any jar and at any later time, gives exactly the entries
  (of plain text) that were not expired at either time and whose URL can be parsed, in order; a file that cannot be
  read or decoded leaves the jar as it was.
\<close>

theorem Save_Load_entries:
  assumes "file_law env" and "Jar_Save env j w path = (None, w')" and "list_all plain (jar_entries j)"
  shows "\<exists>j'. Jar_Load env psl k w' path = (None, j') \<and>
    jar_entries j' = filter (\<lambda>e. \<not> expired (je_now env w) e \<and> \<not> expired (je_now env w') e \<and> url_Parse (en_RawURL e) \<noteq> None) (jar_entries j) \<and>
    (fst (Jar_Load env psl k w2 path2) = None \<or> snd (Jar_Load env psl k w2 path2) = k)"
proof -
  obtain b where b: "je_ReadFile env w' path = Inr b"
    "je_unmarshal env b = Inr \<lparr>cf_Version = 1, cf_Cookies = activeEntries (je_now env w) j\<rparr>"
    using Save_then_read [OF assms] by blast
  have "fst (Jar_Load env psl k w2 path2) = None \<or> snd (Jar_Load env psl k w2 path2) = k"
    by (auto simp: Jar_Load_def split: sum.splits)
  then show ?thesis using b
    by (simp add: Jar_Load_def load_entries_entries Jar_Clear_def activeEntries_def conj_assoc)
qed

section \<open>What is lost\<close>

definition site :: "string \<Rightarrow> URL" where
  "site host = new_URL\<lparr>url_Scheme := ''https'', url_Host := host, url_Path := ''/''\<rparr>"

definition session_cookie :: "string \<Rightarrow> http_Cookie" where
  "session_cookie v = \<lparr>ck_Name = ''sid'', ck_Value = v, ck_Domain = [], ck_Path = [], ck_Expires = 0, ck_MaxAge = 0, ck_Secure = True,
     ck_HttpOnly = True, ck_SameSite = SameSiteLaxMode\<rparr>"

lemma site_parses: "url_Parse ''https://example.com/'' = Some (site ''example.com'')"
  by code_simp

lemma com_suffix: "psl ''example.com'' = ''com'' \<Longrightarrow> domainAndType psl ''example.com'' ''example.com'' = Some (''example.com'', False)"
  by (simp add: domainAndType_def is_ip_host_def hasDotSuffix_def valid_ip4_def strings_ToLower_def lower_char_def Let_def)

definition held_cookie :: "string \<Rightarrow> bool \<Rightarrow> jar_entry" where
  "held_cookie v hostOnly = \<lparr>je_Name = ''sid'', je_Value = v, je_Domain = ''example.com'', je_Path = ''/'', je_SameSite = SameSiteLaxMode,
     je_Secure = True, je_HttpOnly = True, je_Persistent = False, je_HostOnly = hostOnly, je_Expires = 0\<rparr>"

lemma canonical_site: "canonicalHost (site ''example.com'') = ''example.com''" "canonicalHost (site ''www.example.com'') = ''www.example.com''"
  by code_simp+

lemma default_root [simp]: "defaultPath ''/'' = ''/''"
  by code_simp

lemma site_fields [simp]: "url_Scheme (site h) = ''https''" "url_Path (site h) = ''/''"
  by (simp_all add: site_def)

lemma set_session:
  "jar_SetCookies psl t [] (site ''example.com'') [session_cookie v] = [held_cookie v True]"
  "jar_SetCookies psl t [held_cookie v True] (site ''example.com'') [(session_cookie w)\<lparr>ck_MaxAge := -1\<rparr>] = []"
  by (simp_all add: jar_SetCookies_def canonical_site set_cookie_def session_cookie_def domainAndType_def held_cookie_def
      same_id_def time_IsZero_def Let_def)

lemma track_session:
  "trackCookies [] (site ''example.com'') [session_cookie v] = [cookieToEntry (site ''example.com'') (session_cookie v)]"
  "trackCookies [cookieToEntry (site ''example.com'') (session_cookie v)] (site ''example.com'') [(session_cookie w)\<lparr>ck_MaxAge := -1\<rparr>] =
     [cookieToEntry (site ''example.com'') (session_cookie w)]"
  by (simp_all add: cookieToEntry_def session_cookie_def Let_def)

lemma plain_session: "list_all plain [cookieToEntry (site ''example.com'') (session_cookie ''1'')]"
  "list_all plain [cookieToEntry (site ''example.com'') (session_cookie ''2'')]"
  by code_simp+

lemma load_session:
  assumes "psl ''example.com'' = ''com''"
  shows "jar_inner (load_entries psl t [cookieToEntry (site ''example.com'') (session_cookie v)] cookie_New) = [held_cookie v False]"
proof -
  have h: "url_Hostname (site ''example.com'') = ''example.com''" "url_Host (site ''example.com'') = ''example.com''" by code_simp+
  show ?thesis
    by (simp add: cookieToEntry_def session_cookie_def expired_def time_IsZero_def h site_parses entryToCookie_def cookie_New_def
        jar_SetCookies_def canonical_site set_cookie_def com_suffix [of psl, OF assms] held_cookie_def Let_def)
qed

lemma send_session:
  "jar_Cookies t [held_cookie v True] (site ''www.example.com'') = []" "jar_Cookies t [held_cookie v b] (site ''example.com'') = [(''sid'', v)]"
  "jar_Cookies t [held_cookie v False] (site ''www.example.com'') = [(''sid'', v)]" "jar_Cookies t [] u = []"
  by (simp_all add: jar_Cookies_def canonical_site held_cookie_def shouldSend_def pathMatch_def hasDotSuffix_def)

text \<open>
  Two properties of a cookie do not survive a file.  A cookie set without a domain belongs to its
  host alone, but it is stored with the host as its domain, so after loading it is sent to every
  subdomain as well.  And a cookie that the server deletes with a negative Max-Age is tracked like a
  session cookie, so it is back after loading.
\<close>

theorem persistence_widens_and_revives:
  assumes "file_law env" and "psl ''example.com'' = ''com''" and "\<And>w. je_now env w = t"
    and "j = Jar_SetCookies psl t cookie_New (site ''example.com'') [session_cookie ''1'']"
    and "d = Jar_SetCookies psl t j (site ''example.com'') [(session_cookie ''2'')\<lparr>ck_MaxAge := -1\<rparr>]"
    and "Jar_Save env j w p = (None, w1)" and "Jar_Save env d w q = (None, w2)"
  shows "Jar_Cookies t j (site ''www.example.com'') = [] \<and>
    Jar_Cookies t (snd (Jar_Load env psl cookie_New w1 p)) (site ''www.example.com'') = [(''sid'', ''1'')] \<and>
    Jar_Cookies t d (site ''example.com'') = [] \<and>
    Jar_Cookies t (snd (Jar_Load env psl cookie_New w2 q)) (site ''example.com'') = [(''sid'', ''2'')]"
proof -
  let ?e = "\<lambda>v. cookieToEntry (site ''example.com'') (session_cookie v)"
  have new: "Jar_Clear cookie_New = cookie_New" by (simp add: Jar_Clear_def cookie_New_def)
  have j: "j = \<lparr>jar_inner = [held_cookie ''1'' True], jar_entries = [?e ''1'']\<rparr>"
    using assms(4) by (simp add: Jar_SetCookies_def cookie_New_def set_session track_session del: trackCookies.simps)
  have d: "d = \<lparr>jar_inner = [], jar_entries = [?e ''2'']\<rparr>"
    using assms(5) by (simp add: Jar_SetCookies_def j set_session track_session del: trackCookies.simps)
  have live: "\<not> expired t (?e v)" for v by (simp add: cookieToEntry_def session_cookie_def expired_def time_IsZero_def Let_def)
  have "jar_inner (snd (Jar_Load env psl cookie_New w1 p)) = [held_cookie ''1'' False]"
    using Save_then_read [OF assms(1,6)] plain_session(1) load_session [of psl t "''1''", OF assms(2)] live
    by (auto simp: Jar_Load_def j activeEntries_def assms(3) new simp del: load_entries.simps)
  moreover have "jar_inner (snd (Jar_Load env psl cookie_New w2 q)) = [held_cookie ''2'' False]"
    using Save_then_read [OF assms(1,7)] plain_session(2) load_session [of psl t "''2''", OF assms(2)] live
    by (auto simp: Jar_Load_def d activeEntries_def assms(3) new simp del: load_entries.simps)
  ultimately show ?thesis by (simp add: Jar_Cookies_def j d send_session)
qed

section \<open>A concrete file system\<close>

text \<open>Files are a map; the encoder knows the two jars of the example.\<close>

definition saved :: "string \<Rightarrow> cookieFile" where
  "saved v = \<lparr>cf_Version = 1, cf_Cookies = [cookieToEntry (site ''example.com'') (session_cookie v)]\<rparr>"

definition sample_files :: "(string \<rightharpoonup> string) jar_env" where
  "sample_files = \<lparr>je_marshal = (\<lambda>d. if d = saved ''1'' then Inr ''1'' else if d = saved ''2'' then Inr ''2'' else Inl (ErrorString ''unknown'')),
     je_unmarshal = (\<lambda>b. Inr (saved b)), je_dir = (\<lambda>p. p), je_MkdirAll = (\<lambda>w p. (None, w)), je_WriteFile = (\<lambda>w p b. (None, w(p \<mapsto> b))),
     je_ReadFile = (\<lambda>w p. case w p of None \<Rightarrow> Inl (ErrorString ''no file'') | Some b \<Rightarrow> Inr b), je_now = (\<lambda>w. 7)\<rparr>"

lemma sample_files_law: "file_law sample_files"
  by (auto simp: file_law_def sample_files_def)

definition session_jar :: jar where
  "session_jar = Jar_SetCookies (\<lambda>d. ''com'') 7 cookie_New (site ''example.com'') [session_cookie ''1'']"

lemma session_jar_save: "Jar_Save sample_files session_jar Map.empty ''f'' = (None, [''f'' \<mapsto> ''1''])"
proof -
  have "activeEntries 7 session_jar = cf_Cookies (saved ''1'')"
    by (simp add: activeEntries_def session_jar_def Jar_SetCookies_def cookie_New_def track_session saved_def expired_def
        cookieToEntry_def session_cookie_def time_IsZero_def Let_def)
  then show ?thesis by (simp add: Jar_Save_def sample_files_def saved_def)
qed

lemma session_jar_plain: "list_all plain (jar_entries session_jar)"
  using plain_session(1) by (simp add: session_jar_def Jar_SetCookies_def cookie_New_def track_session del: trackCookies.simps)

theorem jar_entries_unique_witness:
  "(jar_step (\<lambda>d. ''com''))\<^sup>*\<^sup>* cookie_New session_jar \<and> distinct (map ident (jar_entries session_jar))"
proof -
  have "jar_step (\<lambda>d. ''com'') cookie_New session_jar" unfolding session_jar_def by (rule set)
  then have run: "(jar_step (\<lambda>d. ''com''))\<^sup>*\<^sup>* cookie_New session_jar" by blast
  from jar_entries_unique [OF this] run show ?thesis by blast
qed

theorem Save_Load_entries_witness:
  "\<exists>j'. Jar_Load sample_files (\<lambda>d. ''com'') cookie_New [''f'' \<mapsto> ''1''] ''f'' = (None, j') \<and>
     jar_entries j' = filter (\<lambda>e. \<not> expired 7 e \<and> url_Parse (en_RawURL e) \<noteq> None) (jar_entries session_jar)"
proof -
  have "je_now sample_files w = 7" for w by (simp add: sample_files_def)
  then show ?thesis
    using Save_Load_entries [OF sample_files_law session_jar_save session_jar_plain, of "\<lambda>d. ''com''" cookie_New Map.empty "[]"] by auto
qed

theorem persistence_widens_and_revives_witness:
  "Jar_Cookies 7 session_jar (site ''www.example.com'') = [] \<and>
   Jar_Cookies 7 (snd (Jar_Load sample_files (\<lambda>d. ''com'') cookie_New [''f'' \<mapsto> ''1''] ''f'')) (site ''www.example.com'') = [(''sid'', ''1'')]"
proof -
  let ?d = "Jar_SetCookies (\<lambda>d. ''com'') 7 session_jar (site ''example.com'') [(session_cookie ''2'')\<lparr>ck_MaxAge := -1\<rparr>]"
  have "jar_entries session_jar = [cookieToEntry (site ''example.com'') (session_cookie ''1'')]"
    by (simp add: session_jar_def Jar_SetCookies_def cookie_New_def track_session del: trackCookies.simps)
  then have "jar_entries ?d = [cookieToEntry (site ''example.com'') (session_cookie ''2'')]"
    by (simp add: Jar_SetCookies_def track_session del: trackCookies.simps)
  then have "activeEntries 7 ?d = cf_Cookies (saved ''2'')"
    by (simp add: activeEntries_def saved_def expired_def) (simp add: cookieToEntry_def session_cookie_def time_IsZero_def Let_def)
  moreover have "saved ''2'' \<noteq> saved ''1''" by (simp add: saved_def cookieToEntry_def session_cookie_def Let_def)
  ultimately have save: "Jar_Save sample_files ?d Map.empty ''g'' = (None, [''g'' \<mapsto> ''2''])"
    by (simp add: Jar_Save_def sample_files_def saved_def)
  have "je_now sample_files w = 7" for w by (simp add: sample_files_def)
  from persistence_widens_and_revives [OF sample_files_law _ this session_jar_def refl session_jar_save save]
  show ?thesis by simp
qed

end
