(* ===== verification/Plugin_Registry.thy ===== *)
theory Plugin_Registry
  imports Crawler_Engine
begin

text \<open>
  pkg/plugin: the interfaces of the four plugin categories, the registry, the loader that fills it from
  a configuration, and the parser router.  A plugin is a record of its methods over a world \<open>'w\<close>, which
  holds whatever the plugins keep; a nil plugin or factory is \<open>None\<close>.  A Go map is an association list
  with distinct keys, and \<open>perm\<close>, an argument, is the order in which the runtime walks its keys.
\<close>

section \<open>plugin.go and errors.go\<close>

record ('w, 'c) Plugin =
  pl_Name :: string
  pl_Init :: "'w \<Rightarrow> 'c \<Rightarrow> error option \<times> 'w"
  pl_Close :: "'w \<Rightarrow> error option \<times> 'w"

type_synonym 'i items = "'i list"

record ('w, 'c, 'i) StoragePlugin = "('w, 'c) Plugin" +
  sp_Store :: "'w \<Rightarrow> 'i items \<Rightarrow> error option \<times> 'w"

record 'd ParseResult =
  pr_Data :: "string \<rightharpoonup> 'd"
  pr_Links :: "string list"

record ('w, 'c, 'd) ParserPlugin = "('w, 'c) Plugin" +
  pp_CanParse :: "string \<Rightarrow> bool"
  pp_Parse :: "'w \<Rightarrow> CrawlResponse \<Rightarrow> (error + 'd ParseResult) \<times> 'w"

type_synonym EventType = string

definition EventStarted :: EventType where "EventStarted = ''started''"
definition EventCompleted :: EventType where "EventCompleted = ''completed''"
definition EventError :: EventType where "EventError = ''error''"
definition EventThreshold :: EventType where "EventThreshold = ''threshold''"

record 'd CrawlEvent =
  ev_Type :: EventType
  ev_Message :: string
  ev_Data :: "string \<rightharpoonup> 'd"

record ('w, 'c, 'd) NotifierPlugin = "('w, 'c) Plugin" +
  np_Notify :: "'w \<Rightarrow> 'd CrawlEvent \<Rightarrow> error option \<times> 'w"

record ('w, 'c, 'i) ExporterPlugin = "('w, 'c) Plugin" +
  ep_Export :: "'w \<Rightarrow> 'i items \<Rightarrow> string \<Rightarrow> error option \<times> 'w"

datatype plugin_error = ErrDuplicatePlugin string string | ErrPluginNotFound string string | ErrNilPlugin string

section \<open>registry.go\<close>

record ('w, 'c, 'i, 'd) Registry =
  reg_storage :: "(string \<times> ('w, 'c, 'i) StoragePlugin) list"
  reg_parsers :: "(string \<times> ('w, 'c, 'd) ParserPlugin) list"
  reg_notifiers :: "(string \<times> ('w, 'c, 'd) NotifierPlugin) list"
  reg_exporters :: "(string \<times> ('w, 'c, 'i) ExporterPlugin) list"

definition NewRegistry :: "('w, 'c, 'i, 'd) Registry" where
  "NewRegistry = \<lparr>reg_storage = [], reg_parsers = [], reg_notifiers = [], reg_exporters = []\<rparr>"

definition mapKeys :: "(string list \<Rightarrow> string list) \<Rightarrow> (string \<times> 'v) list \<Rightarrow> string list" where
  "mapKeys perm m = perm (map fst m)"

definition RegisterStorage :: "('w, 'c, 'i, 'd) Registry \<Rightarrow> string \<Rightarrow> ('w, 'c, 'i) StoragePlugin option \<Rightarrow> plugin_error option \<times> ('w, 'c, 'i, 'd) Registry" where
  "RegisterStorage r name p =
     (case p of
        None \<Rightarrow> (Some (ErrNilPlugin ''storage''), r)
      | Some pl \<Rightarrow>
          if map_of (reg_storage r) name \<noteq> None then (Some (ErrDuplicatePlugin ''storage'' name), r)
          else (None, r\<lparr>reg_storage := (name, pl) # reg_storage r\<rparr>))"

definition GetStorage :: "('w, 'c, 'i, 'd) Registry \<Rightarrow> string \<Rightarrow> plugin_error + ('w, 'c, 'i) StoragePlugin" where
  "GetStorage r name = (case map_of (reg_storage r) name of None \<Rightarrow> Inl (ErrPluginNotFound ''storage'' name) | Some p \<Rightarrow> Inr p)"

definition ListStorage :: "(string list \<Rightarrow> string list) \<Rightarrow> ('w, 'c, 'i, 'd) Registry \<Rightarrow> string list" where
  "ListStorage perm r = mapKeys perm (reg_storage r)"

definition RegisterParser :: "('w, 'c, 'i, 'd) Registry \<Rightarrow> string \<Rightarrow> ('w, 'c, 'd) ParserPlugin option \<Rightarrow> plugin_error option \<times> ('w, 'c, 'i, 'd) Registry" where
  "RegisterParser r name p =
     (case p of
        None \<Rightarrow> (Some (ErrNilPlugin ''parser''), r)
      | Some pl \<Rightarrow>
          if map_of (reg_parsers r) name \<noteq> None then (Some (ErrDuplicatePlugin ''parser'' name), r)
          else (None, r\<lparr>reg_parsers := (name, pl) # reg_parsers r\<rparr>))"

definition GetParser :: "('w, 'c, 'i, 'd) Registry \<Rightarrow> string \<Rightarrow> plugin_error + ('w, 'c, 'd) ParserPlugin" where
  "GetParser r name = (case map_of (reg_parsers r) name of None \<Rightarrow> Inl (ErrPluginNotFound ''parser'' name) | Some p \<Rightarrow> Inr p)"

definition ListParsers :: "(string list \<Rightarrow> string list) \<Rightarrow> ('w, 'c, 'i, 'd) Registry \<Rightarrow> string list" where
  "ListParsers perm r = mapKeys perm (reg_parsers r)"

definition RegisterNotifier :: "('w, 'c, 'i, 'd) Registry \<Rightarrow> string \<Rightarrow> ('w, 'c, 'd) NotifierPlugin option \<Rightarrow> plugin_error option \<times> ('w, 'c, 'i, 'd) Registry" where
  "RegisterNotifier r name p =
     (case p of
        None \<Rightarrow> (Some (ErrNilPlugin ''notifier''), r)
      | Some pl \<Rightarrow>
          if map_of (reg_notifiers r) name \<noteq> None then (Some (ErrDuplicatePlugin ''notifier'' name), r)
          else (None, r\<lparr>reg_notifiers := (name, pl) # reg_notifiers r\<rparr>))"

definition GetNotifier :: "('w, 'c, 'i, 'd) Registry \<Rightarrow> string \<Rightarrow> plugin_error + ('w, 'c, 'd) NotifierPlugin" where
  "GetNotifier r name = (case map_of (reg_notifiers r) name of None \<Rightarrow> Inl (ErrPluginNotFound ''notifier'' name) | Some p \<Rightarrow> Inr p)"

definition ListNotifiers :: "(string list \<Rightarrow> string list) \<Rightarrow> ('w, 'c, 'i, 'd) Registry \<Rightarrow> string list" where
  "ListNotifiers perm r = mapKeys perm (reg_notifiers r)"

definition RegisterExporter :: "('w, 'c, 'i, 'd) Registry \<Rightarrow> string \<Rightarrow> ('w, 'c, 'i) ExporterPlugin option \<Rightarrow> plugin_error option \<times> ('w, 'c, 'i, 'd) Registry" where
  "RegisterExporter r name p =
     (case p of
        None \<Rightarrow> (Some (ErrNilPlugin ''exporter''), r)
      | Some pl \<Rightarrow>
          if map_of (reg_exporters r) name \<noteq> None then (Some (ErrDuplicatePlugin ''exporter'' name), r)
          else (None, r\<lparr>reg_exporters := (name, pl) # reg_exporters r\<rparr>))"

definition GetExporter :: "('w, 'c, 'i, 'd) Registry \<Rightarrow> string \<Rightarrow> plugin_error + ('w, 'c, 'i) ExporterPlugin" where
  "GetExporter r name = (case map_of (reg_exporters r) name of None \<Rightarrow> Inl (ErrPluginNotFound ''exporter'' name) | Some p \<Rightarrow> Inr p)"

definition ListExporters :: "(string list \<Rightarrow> string list) \<Rightarrow> ('w, 'c, 'i, 'd) Registry \<Rightarrow> string list" where
  "ListExporters perm r = mapKeys perm (reg_exporters r)"

text \<open>\<open>CloseAll\<close>: the plugins of a category in the order of its keys, each closed once, the errors appended.\<close>

fun close_each :: "(string \<rightharpoonup> ('w, 'c, 'p) Plugin_scheme) \<Rightarrow> string list \<Rightarrow> error list \<times> 'w \<Rightarrow> error list \<times> 'w" where
  "close_each m [] st = st"
| "close_each m (k # ks) (errs, w) =
     (case m k of
        None \<Rightarrow> close_each m ks (errs, w)
      | Some p \<Rightarrow>
          (case pl_Close p w of
             (None, w1) \<Rightarrow> close_each m ks (errs, w1)
           | (Some err, w1) \<Rightarrow> close_each m ks (errs @ [err], w1)))"

definition CloseAll :: "(string list \<Rightarrow> string list) \<Rightarrow> ('w, 'c, 'i, 'd) Registry \<Rightarrow> 'w \<Rightarrow> error list \<times> 'w" where
  "CloseAll perm r w =
     (let s1 = close_each (map_of (reg_storage r)) (mapKeys perm (reg_storage r)) ([], w);
          s2 = close_each (map_of (reg_parsers r)) (mapKeys perm (reg_parsers r)) s1;
          s3 = close_each (map_of (reg_notifiers r)) (mapKeys perm (reg_notifiers r)) s2
      in close_each (map_of (reg_exporters r)) (mapKeys perm (reg_exporters r)) s3)"

section \<open>builtin.go\<close>

fun RegisterBuiltinStorage :: "('w, 'c, 'i, 'd) Registry \<Rightarrow> ('w, 'c, 'i) StoragePlugin list \<Rightarrow> plugin_error option \<times> ('w, 'c, 'i, 'd) Registry" where
  "RegisterBuiltinStorage r [] = (None, r)"
| "RegisterBuiltinStorage r (p # ps) =
     (case RegisterStorage r (pl_Name p) (Some p) of
        (Some err, r1) \<Rightarrow> (Some err, r1)
      | (None, r1) \<Rightarrow> RegisterBuiltinStorage r1 ps)"

section \<open>router.go\<close>

datatype 'd parse_outcome = Parsed "error + 'd ParseResult" | NoParser string | ParsePanic

fun route :: "('w, 'c, 'i, 'd) Registry \<Rightarrow> string list \<Rightarrow> 'w \<Rightarrow> CrawlResponse \<Rightarrow> 'd parse_outcome \<times> 'w" where
  "route r [] w resp = (NoParser (crs_ContentType resp), w)"
| "route r (name # names) w resp =
     (case GetParser r name of
        Inl err \<Rightarrow> route r names w resp
      | Inr p \<Rightarrow>
          if pp_CanParse p (crs_ContentType resp) then (case pp_Parse p w resp of (x, w1) \<Rightarrow> (Parsed x, w1))
          else route r names w resp)"

text \<open>\<^verbatim>\<open>ParserRouter.Parse\<close>: reading the content type of a nil response panics.\<close>

definition ParserRouter_Parse :: "(string list \<Rightarrow> string list) \<Rightarrow> ('w, 'c, 'i, 'd) Registry \<Rightarrow> 'w \<Rightarrow> CrawlResponse option \<Rightarrow> 'd parse_outcome \<times> 'w" where
  "ParserRouter_Parse perm r w resp =
     (case resp of None \<Rightarrow> (ParsePanic, w) | Some rs \<Rightarrow> route r (ListParsers perm r) w rs)"

section \<open>config.go\<close>

record 'c Entry =
  pe_Name :: string
  pe_Config :: 'c

record 'c PluginsConfig =
  pc_Storage :: "'c Entry list"
  pc_Parsers :: "'c Entry list"
  pc_Notifiers :: "'c Entry list"
  pc_Exporters :: "'c Entry list"

record 'c plugin_Config =
  cfg_Plugins :: "'c PluginsConfig"

definition LoadConfig :: "(string \<Rightarrow> error + 'c plugin_Config) \<Rightarrow> string \<Rightarrow> error + 'c plugin_Config" where
  "LoadConfig yaml_Unmarshal data =
     (case yaml_Unmarshal data of Inl err \<Rightarrow> Inl (WrapError ''plugin config: parse: '' err []) | Inr cfg \<Rightarrow> Inr cfg)"

definition LoadConfigFile :: "(string \<Rightarrow> error + string) \<Rightarrow> (string \<Rightarrow> error + 'c plugin_Config) \<Rightarrow> string \<Rightarrow> error + 'c plugin_Config" where
  "LoadConfigFile os_ReadFile yaml_Unmarshal path =
     (case os_ReadFile path of
        Inl err \<Rightarrow> Inl (WrapError (''plugin config: read '' @ path @ '': '') err [])
      | Inr data \<Rightarrow> LoadConfig yaml_Unmarshal data)"

text \<open>A factory returns an error, or a plugin that may be nil.\<close>

type_synonym ('w, 'c, 'p) factory = "'w \<Rightarrow> 'c \<Rightarrow> (error + 'p option) \<times> 'w"

record ('w, 'c, 'i, 'd) Loader =
  ld_registry :: "('w, 'c, 'i, 'd) Registry"
  ld_storage :: "string \<rightharpoonup> ('w, 'c, ('w, 'c, 'i) StoragePlugin) factory option"
  ld_parsers :: "string \<rightharpoonup> ('w, 'c, ('w, 'c, 'd) ParserPlugin) factory option"
  ld_notifiers :: "string \<rightharpoonup> ('w, 'c, ('w, 'c, 'd) NotifierPlugin) factory option"
  ld_exporters :: "string \<rightharpoonup> ('w, 'c, ('w, 'c, 'i) ExporterPlugin) factory option"

definition NewLoader :: "('w, 'c, 'i, 'd) Registry \<Rightarrow> ('w, 'c, 'i, 'd) Loader" where
  "NewLoader r = \<lparr>ld_registry = r, ld_storage = Map.empty, ld_parsers = Map.empty, ld_notifiers = Map.empty, ld_exporters = Map.empty\<rparr>"

definition RegisterStorageFactory :: "('w, 'c, 'i, 'd) Loader \<Rightarrow> string \<Rightarrow> ('w, 'c, ('w, 'c, 'i) StoragePlugin) factory option \<Rightarrow> ('w, 'c, 'i, 'd) Loader" where
  "RegisterStorageFactory l name f = l\<lparr>ld_storage := (ld_storage l)(name \<mapsto> f)\<rparr>"

definition RegisterParserFactory :: "('w, 'c, 'i, 'd) Loader \<Rightarrow> string \<Rightarrow> ('w, 'c, ('w, 'c, 'd) ParserPlugin) factory option \<Rightarrow> ('w, 'c, 'i, 'd) Loader" where
  "RegisterParserFactory l name f = l\<lparr>ld_parsers := (ld_parsers l)(name \<mapsto> f)\<rparr>"

definition RegisterNotifierFactory :: "('w, 'c, 'i, 'd) Loader \<Rightarrow> string \<Rightarrow> ('w, 'c, ('w, 'c, 'd) NotifierPlugin) factory option \<Rightarrow> ('w, 'c, 'i, 'd) Loader" where
  "RegisterNotifierFactory l name f = l\<lparr>ld_notifiers := (ld_notifiers l)(name \<mapsto> f)\<rparr>"

definition RegisterExporterFactory :: "('w, 'c, 'i, 'd) Loader \<Rightarrow> string \<Rightarrow> ('w, 'c, ('w, 'c, 'i) ExporterPlugin) factory option \<Rightarrow> ('w, 'c, 'i, 'd) Loader" where
  "RegisterExporterFactory l name f = l\<lparr>ld_exporters := (ld_exporters l)(name \<mapsto> f)\<rparr>"

text \<open>The errors of \<open>Load\<close>, with the category and the name they mention; a nil factory or plugin panics.\<close>

datatype load_error =
    UnknownPlugin string string
  | CreateFailed string string error
  | InitFailed string string error
  | RegisterFailed string string plugin_error

datatype load_outcome = Loaded | LoadFailed load_error | LoadPanic

text \<open>One turn of a loop of \<open>Load\<close>, for the category named \<open>cat\<close> with its factories and its registration.\<close>

definition load_entry ::
  "string \<Rightarrow> (string \<rightharpoonup> ('w, 'c, ('w, 'c, 'p) Plugin_scheme) factory option) \<Rightarrow>
   ('r \<Rightarrow> string \<Rightarrow> ('w, 'c, 'p) Plugin_scheme option \<Rightarrow> plugin_error option \<times> 'r) \<Rightarrow> 'r \<Rightarrow> 'w \<Rightarrow> 'c Entry \<Rightarrow> load_outcome \<times> 'r \<times> 'w" where
  "load_entry cat fs register r w e =
     (case fs (pe_Name e) of
        None \<Rightarrow> (LoadFailed (UnknownPlugin cat (pe_Name e)), r, w)
      | Some None \<Rightarrow> (LoadPanic, r, w)
      | Some (Some f) \<Rightarrow>
          (case f w (pe_Config e) of
             (Inl err, w1) \<Rightarrow> (LoadFailed (CreateFailed cat (pe_Name e) err), r, w1)
           | (Inr None, w1) \<Rightarrow> (LoadPanic, r, w1)
           | (Inr (Some p), w1) \<Rightarrow>
               (case pl_Init p w1 (pe_Config e) of
                  (Some err, w2) \<Rightarrow> (LoadFailed (InitFailed cat (pe_Name e) err), r, w2)
                | (None, w2) \<Rightarrow>
                    (case register r (pe_Name e) (Some p) of
                       (Some err, r1) \<Rightarrow> (LoadFailed (RegisterFailed cat (pe_Name e) err), r1, w2)
                     | (None, r1) \<Rightarrow> (Loaded, r1, w2)))))"

fun load_category ::
  "string \<Rightarrow> (string \<rightharpoonup> ('w, 'c, ('w, 'c, 'p) Plugin_scheme) factory option) \<Rightarrow>
   ('r \<Rightarrow> string \<Rightarrow> ('w, 'c, 'p) Plugin_scheme option \<Rightarrow> plugin_error option \<times> 'r) \<Rightarrow> 'r \<Rightarrow> 'w \<Rightarrow> 'c Entry list \<Rightarrow> load_outcome \<times> 'r \<times> 'w" where
  "load_category cat fs register r w [] = (Loaded, r, w)"
| "load_category cat fs register r w (e # es) =
     (case load_entry cat fs register r w e of
        (Loaded, r1, w1) \<Rightarrow> load_category cat fs register r1 w1 es
      | (out, r1, w1) \<Rightarrow> (out, r1, w1))"

definition Loader_Load :: "('w, 'c, 'i, 'd) Loader \<Rightarrow> 'w \<Rightarrow> 'c plugin_Config \<Rightarrow> load_outcome \<times> ('w, 'c, 'i, 'd) Loader \<times> 'w" where
  "Loader_Load l w cfg =
     (case load_category ''storage'' (ld_storage l) RegisterStorage (ld_registry l) w (pc_Storage (cfg_Plugins cfg)) of
        (Loaded, r1, w1) \<Rightarrow>
          (case load_category ''parser'' (ld_parsers l) RegisterParser r1 w1 (pc_Parsers (cfg_Plugins cfg)) of
             (Loaded, r2, w2) \<Rightarrow>
               (case load_category ''notifier'' (ld_notifiers l) RegisterNotifier r2 w2 (pc_Notifiers (cfg_Plugins cfg)) of
                  (Loaded, r3, w3) \<Rightarrow>
                    (case load_category ''exporter'' (ld_exporters l) RegisterExporter r3 w3 (pc_Exporters (cfg_Plugins cfg)) of
                       (out, r4, w4) \<Rightarrow> (out, l\<lparr>ld_registry := r4\<rparr>, w4))
                | (out, r3, w3) \<Rightarrow> (out, l\<lparr>ld_registry := r3\<rparr>, w3))
           | (out, r2, w2) \<Rightarrow> (out, l\<lparr>ld_registry := r2\<rparr>, w2))
      | (out, r1, w1) \<Rightarrow> (out, l\<lparr>ld_registry := r1\<rparr>, w1))"

section \<open>The contract of a category\<close>

text \<open>What \<open>Load\<close> blames for a failure: the category and the name in the error.\<close>

fun blamed :: "load_error \<Rightarrow> string \<times> string" where
  "blamed (UnknownPlugin c n) = (c, n)"
| "blamed (CreateFailed c n err) = (c, n)"
| "blamed (InitFailed c n err) = (c, n)"
| "blamed (RegisterFailed c n err) = (c, n)"

fun blames :: "string \<Rightarrow> string \<Rightarrow> load_outcome \<Rightarrow> bool" where
  "blames c n Loaded = False"
| "blames c n LoadPanic = True"
| "blames c n (LoadFailed err) = (blamed err = (c, n))"

text \<open>A plugin that a factory made from the entry's configuration and whose \<open>Init\<close> accepted it.\<close>

definition initialised :: "(string \<rightharpoonup> ('w, 'c, ('w, 'c, 'p) Plugin_scheme) factory option) \<Rightarrow> 'c Entry \<Rightarrow> ('w, 'c, 'p) Plugin_scheme \<Rightarrow> bool" where
  "initialised fs e p \<longleftrightarrow> (\<exists>f w w1. fs (pe_Name e) = Some (Some f) \<and> f w (pe_Config e) = (Inr (Some p), w1) \<and> fst (pl_Init p w1 (pe_Config e)) = None)"

locale plugin_category =
  fixes register :: "'r \<Rightarrow> string \<Rightarrow> ('w, 'c, 'p) Plugin_scheme option \<Rightarrow> plugin_error option \<times> 'r"
    and get :: "'r \<Rightarrow> string \<Rightarrow> plugin_error + ('w, 'c, 'p) Plugin_scheme"
    and names :: "'r \<Rightarrow> string list"
    and cat :: string
  assumes register_nil: "register r n None = (Some (ErrNilPlugin cat), r)"
    and register_dup: "n \<in> set (names r) \<Longrightarrow> register r n (Some p) = (Some (ErrDuplicatePlugin cat n), r)"
    and register_new: "n \<notin> set (names r) \<Longrightarrow> fst (register r n (Some p)) = None"
    and names_new: "n \<notin> set (names r) \<Longrightarrow> names (snd (register r n (Some p))) = n # names r"
    and get_new: "n \<notin> set (names r) \<Longrightarrow> get (snd (register r n (Some p))) k = (if k = n then Inr p else get r k)"
    and get_names: "n \<in> set (names r) \<longleftrightarrow> (\<exists>p. get r n = Inr p)"
    and get_missing: "n \<notin> set (names r) \<Longrightarrow> get r n = Inl (ErrPluginNotFound cat n)"
begin

lemma register_keeps:
  "get r k = Inr q \<Longrightarrow> get (snd (register r n p)) k = Inr q"
  by (cases p; cases "n \<in> set (names r)") (auto simp: register_nil register_dup get_new get_names)

lemma register_distinct: "distinct (names r) \<Longrightarrow> distinct (names (snd (register r n p)))"
  by (cases p; cases "n \<in> set (names r)") (auto simp: register_nil register_dup names_new)

lemma load_entry_cases:
  assumes "load_entry cat fs register r w e = (out, r1, w1)"
  shows "(out = Loaded \<and> (\<exists>p. initialised fs e p \<and> pe_Name e \<notin> set (names r) \<and> r1 = snd (register r (pe_Name e) (Some p)))) \<or>
    (out \<noteq> Loaded \<and> r1 = r \<and> blames cat (pe_Name e) out)"
proof (cases "pe_Name e \<in> set (names r)")
  case True
  then show ?thesis using assms
    by (auto simp: load_entry_def register_dup split: option.splits prod.splits sum.splits)
next
  case False
  have reg: "register r (pe_Name e) (Some p) \<noteq> (Some err, r')" for p err r' using register_new [OF False, of p] by auto
  show ?thesis
  proof (cases "out = Loaded")
    case True
    then obtain f p w2 w3 where "fs (pe_Name e) = Some (Some f)" "f w (pe_Config e) = (Inr (Some p), w2)" "pl_Init p w2 (pe_Config e) = (None, w3)"
        "register r (pe_Name e) (Some p) = (None, r1)"
      using assms by (auto simp: load_entry_def split: option.splits prod.splits sum.splits)
    then show ?thesis using True False unfolding initialised_def by (metis fst_conv snd_conv)
  next
    case False
    then show ?thesis using assms reg
      by (auto simp: load_entry_def split: option.splits prod.splits sum.splits)
  qed
qed

text \<open>\<open>Load\<close> on one category: the entries before the first failure are registered, and no other.\<close>

lemma load_category_prefix:
  "load_category cat fs register r w es = (out, r1, w1) \<Longrightarrow>
   \<exists>loaded rest. es = loaded @ rest \<and> (out = Loaded \<longleftrightarrow> rest = []) \<and>
     names r1 = rev (map pe_Name loaded) @ names r \<and> (distinct (names r) \<longrightarrow> distinct (names r1)) \<and>
     (\<forall>n p. get r n = Inr p \<longrightarrow> get r1 n = Inr p) \<and>
     (\<forall>e\<in>set loaded. \<exists>p. get r1 (pe_Name e) = Inr p \<and> initialised fs e p) \<and>
     (\<forall>e es'. rest = e # es' \<longrightarrow> blames cat (pe_Name e) out)"
proof (induction es arbitrary: r w)
  case Nil
  then show ?case by simp
next
  case (Cons e es)
  obtain o1 r2 w2 where l: "load_entry cat fs register r w e = (o1, r2, w2)" by (metis prod_cases3)
  show ?case
  proof (cases "o1 = Loaded")
    case False
    then have "out = o1" "r1 = r2" using Cons.prems l by (cases o1; simp)+
    then show ?thesis using load_entry_cases [OF l] False by (intro exI [of _ "[]"] exI [of _ "e # es"]) simp
  next
    case True
    then obtain p where p: "initialised fs e p" "pe_Name e \<notin> set (names r)" "r2 = snd (register r (pe_Name e) (Some p))"
      using load_entry_cases [OF l] by blast
    have run: "load_category cat fs register r2 w2 es = (out, r1, w1)" using Cons.prems l True by simp
    obtain loaded rest where ih: "es = loaded @ rest" "out = Loaded \<longleftrightarrow> rest = []" "names r1 = rev (map pe_Name loaded) @ names r2"
      "distinct (names r2) \<longrightarrow> distinct (names r1)" "\<forall>n p. get r2 n = Inr p \<longrightarrow> get r1 n = Inr p"
      "\<forall>e\<in>set loaded. \<exists>p. get r1 (pe_Name e) = Inr p \<and> initialised fs e p" "\<forall>e es'. rest = e # es' \<longrightarrow> blames cat (pe_Name e) out"
      using Cons.IH [OF run] by (elim exE conjE) (rule that; assumption)
    have n: "names r2 = pe_Name e # names r" "get r2 (pe_Name e) = Inr p" using p by (simp_all add: names_new get_new)
    have k: "\<forall>n q. get r n = Inr q \<longrightarrow> get r2 n = Inr q" using register_keeps p(3) by blast
    show ?thesis
    proof (rule exI [of _ "e # loaded"], rule exI [of _ rest], intro conjI)
      show "distinct (names r) \<longrightarrow> distinct (names r1)" using ih(4) register_distinct p(3) by blast
      show "\<forall>x\<in>set (e # loaded). \<exists>p. get r1 (pe_Name x) = Inr p \<and> initialised fs x p" using ih(5,6) n(2) p(1) by auto
      show "\<forall>n p. get r n = Inr p \<longrightarrow> get r1 n = Inr p" using ih(5) k by blast
      show "names r1 = rev (map pe_Name (e # loaded)) @ names r" using ih(3) n(1) by simp
    qed (use ih(1,2,7) in \<open>simp_all\<close>)
  qed
qed

end

lemma map_of_mem: "map_of xs n = Some x \<Longrightarrow> n \<in> fst ` set xs"
  by (metis map_of_eq_None_iff option.distinct(1))

interpretation storage_category: plugin_category RegisterStorage GetStorage "\<lambda>r. map fst (reg_storage r)" "''storage''"
  by unfold_locales (auto simp: RegisterStorage_def GetStorage_def map_of_eq_None_iff split: option.splits dest: map_of_mem)

interpretation parser_category: plugin_category RegisterParser GetParser "\<lambda>r. map fst (reg_parsers r)" "''parser''"
  by unfold_locales (auto simp: RegisterParser_def GetParser_def map_of_eq_None_iff split: option.splits dest: map_of_mem)

interpretation notifier_category: plugin_category RegisterNotifier GetNotifier "\<lambda>r. map fst (reg_notifiers r)" "''notifier''"
  by unfold_locales (auto simp: RegisterNotifier_def GetNotifier_def map_of_eq_None_iff split: option.splits dest: map_of_mem)

interpretation exporter_category: plugin_category RegisterExporter GetExporter "\<lambda>r. map fst (reg_exporters r)" "''exporter''"
  by unfold_locales (auto simp: RegisterExporter_def GetExporter_def map_of_eq_None_iff split: option.splits dest: map_of_mem)

section \<open>The registry\<close>

text \<open>A registration in any category, and a sequence of them.\<close>

datatype ('w, 'c, 'i, 'd) registration =
    RegStorage string "('w, 'c, 'i) StoragePlugin option"
  | RegParser string "('w, 'c, 'd) ParserPlugin option"
  | RegNotifier string "('w, 'c, 'd) NotifierPlugin option"
  | RegExporter string "('w, 'c, 'i) ExporterPlugin option"

fun registry_step :: "('w, 'c, 'i, 'd) registration \<Rightarrow> ('w, 'c, 'i, 'd) Registry \<Rightarrow> ('w, 'c, 'i, 'd) Registry" where
  "registry_step (RegStorage n p) r = snd (RegisterStorage r n p)"
| "registry_step (RegParser n p) r = snd (RegisterParser r n p)"
| "registry_step (RegNotifier n p) r = snd (RegisterNotifier r n p)"
| "registry_step (RegExporter n p) r = snd (RegisterExporter r n p)"

text \<open>The names and plugins registered in one category, in the order of the calls; nil plugins are refused.\<close>

definition storage_calls :: "('w, 'c, 'i, 'd) registration list \<Rightarrow> (string \<times> ('w, 'c, 'i) StoragePlugin) list" where
  "storage_calls xs = List.map_filter (\<lambda>x. case x of RegStorage n (Some p) \<Rightarrow> Some (n, p) | _ \<Rightarrow> None) xs"
definition parser_calls :: "('w, 'c, 'i, 'd) registration list \<Rightarrow> (string \<times> ('w, 'c, 'd) ParserPlugin) list" where
  "parser_calls xs = List.map_filter (\<lambda>x. case x of RegParser n (Some p) \<Rightarrow> Some (n, p) | _ \<Rightarrow> None) xs"
definition notifier_calls :: "('w, 'c, 'i, 'd) registration list \<Rightarrow> (string \<times> ('w, 'c, 'd) NotifierPlugin) list" where
  "notifier_calls xs = List.map_filter (\<lambda>x. case x of RegNotifier n (Some p) \<Rightarrow> Some (n, p) | _ \<Rightarrow> None) xs"
definition exporter_calls :: "('w, 'c, 'i, 'd) registration list \<Rightarrow> (string \<times> ('w, 'c, 'i) ExporterPlugin) list" where
  "exporter_calls xs = List.map_filter (\<lambda>x. case x of RegExporter n (Some p) \<Rightarrow> Some (n, p) | _ \<Rightarrow> None) xs"

lemmas calls_defs = storage_calls_def parser_calls_def notifier_calls_def exporter_calls_def List.map_filter_simps
lemmas register_defs = RegisterStorage_def RegisterParser_def RegisterNotifier_def RegisterExporter_def

definition add_first :: "(string \<times> 'p) list \<Rightarrow> (string \<times> 'p) list \<Rightarrow> (string \<times> 'p) list" where
  "add_first calls m = fold (\<lambda>(n, p) s. if map_of s n \<noteq> None then s else (n, p) # s) calls m"

lemma add_first_facts:
  "map_of (add_first calls m) = map_of calls ++ map_of m"
  "distinct (map fst m) \<Longrightarrow> distinct (map fst (add_first calls m))"
proof -
  show "map_of (add_first calls m) = map_of calls ++ map_of m"
    unfolding add_first_def
    by (induction calls arbitrary: m) (auto simp: map_add_def fun_eq_iff split: option.splits if_splits)
  show "distinct (map fst m) \<Longrightarrow> distinct (map fst (add_first calls m))"
    unfolding add_first_def
    by (induction calls arbitrary: m) (auto simp: map_of_eq_None_iff)
qed

text \<open>The four categories do not interfere.\<close>

lemma registry_run:
  "fold registry_step xs r =
   r\<lparr>reg_storage := add_first (storage_calls xs) (reg_storage r), reg_parsers := add_first (parser_calls xs) (reg_parsers r),
     reg_notifiers := add_first (notifier_calls xs) (reg_notifiers r), reg_exporters := add_first (exporter_calls xs) (reg_exporters r)\<rparr>"
proof (induction xs arbitrary: r)
  case Nil
  then show ?case by (simp add: calls_defs add_first_def)
next
  case (Cons x xs)
  show ?case
    unfolding fold_Cons comp_apply Cons.IH
    by (cases x) (auto simp: calls_defs add_first_def register_defs split: option.splits)
qed

text \<open>
  After any sequence of registrations on a new registry, each category maps a name to the first
  non-nil plugin that was registered under it there, whatever happened in the other categories, says
  \<open>ErrPluginNotFound\<close> for every other name, and lists its names once each.
\<close>

theorem registry_first_wins:
  assumes "\<And>ks. mset (perm ks) = mset ks" and "r = fold registry_step xs NewRegistry"
  shows "GetStorage r n = (case map_of (storage_calls xs) n of Some p \<Rightarrow> Inr p | None \<Rightarrow> Inl (ErrPluginNotFound ''storage'' n)) \<and>
    GetParser r n = (case map_of (parser_calls xs) n of Some p \<Rightarrow> Inr p | None \<Rightarrow> Inl (ErrPluginNotFound ''parser'' n)) \<and>
    GetNotifier r n = (case map_of (notifier_calls xs) n of Some p \<Rightarrow> Inr p | None \<Rightarrow> Inl (ErrPluginNotFound ''notifier'' n)) \<and>
    GetExporter r n = (case map_of (exporter_calls xs) n of Some p \<Rightarrow> Inr p | None \<Rightarrow> Inl (ErrPluginNotFound ''exporter'' n)) \<and>
    distinct (ListStorage perm r) \<and> set (ListStorage perm r) = fst ` set (storage_calls xs) \<and>
    distinct (ListParsers perm r) \<and> set (ListParsers perm r) = fst ` set (parser_calls xs) \<and>
    distinct (ListNotifiers perm r) \<and> set (ListNotifiers perm r) = fst ` set (notifier_calls xs) \<and>
    distinct (ListExporters perm r) \<and> set (ListExporters perm r) = fst ` set (exporter_calls xs)"
proof -
  have perm: "distinct (perm ks) = distinct ks" "set (perm ks) = set ks" for ks
    using mset_eq_imp_distinct_iff [OF assms(1)] mset_eq_setD [OF assms(1)] by blast+
  have keys: "fst ` set (add_first calls []) = fst ` set calls" for calls :: "(string \<times> 'p) list"
    using arg_cong [OF add_first_facts(1) [of calls "[]"], of dom] by (simp add: dom_map_of_conv_image_fst)
  have dist: "distinct (map fst (add_first calls []))" for calls :: "(string \<times> 'p) list" by (rule add_first_facts(2)) simp
  show ?thesis
    unfolding assms(2) registry_run NewRegistry_def
    by (simp add: GetStorage_def GetParser_def GetNotifier_def GetExporter_def ListStorage_def ListParsers_def ListNotifiers_def
        ListExporters_def mapKeys_def perm keys dist add_first_facts(1) option.case_eq_if)
qed

section \<open>The router\<close>

definition parser_accepts :: "('w, 'c, 'i, 'd) Registry \<Rightarrow> string \<Rightarrow> string \<Rightarrow> bool" where
  "parser_accepts r ct n = (case GetParser r n of Inl err \<Rightarrow> False | Inr p \<Rightarrow> pp_CanParse p ct)"

definition parse_with :: "('w, 'c, 'd) ParserPlugin \<Rightarrow> 'w \<Rightarrow> CrawlResponse \<Rightarrow> 'd parse_outcome \<times> 'w" where
  "parse_with p w resp = (case pp_Parse p w resp of (x, w1) \<Rightarrow> (Parsed x, w1))"

lemma route_find:
  "route r ns w resp =
   (case find (parser_accepts r (crs_ContentType resp)) ns of
      None \<Rightarrow> (NoParser (crs_ContentType resp), w)
    | Some n \<Rightarrow> (case GetParser r n of Inr p \<Rightarrow> parse_with p w resp | Inl err \<Rightarrow> (ParsePanic, w)))"
  by (induction ns) (auto simp: parser_accepts_def parse_with_def split: sum.splits)

text \<open>
  A response goes to a registered parser that accepts its content type, and to the error when
  none does.  When several accept it, every one of them is chosen in some order of the map, so which
  one parses the response is not determined by the order of registration.
\<close>

theorem Parse_choice:
  assumes perm: "\<And>ks. mset (perm ks) = mset ks" and ct: "ct = crs_ContentType resp"
  shows "((\<forall>n p. GetParser r n = Inr p \<longrightarrow> \<not> pp_CanParse p ct) \<longrightarrow> ParserRouter_Parse perm r w (Some resp) = (NoParser ct, w)) \<and>
    (\<forall>n p. GetParser r n = Inr p \<and> pp_CanParse p ct \<longrightarrow>
       (\<exists>m q. GetParser r m = Inr q \<and> pp_CanParse q ct \<and> ParserRouter_Parse perm r w (Some resp) = parse_with q w resp) \<and>
       (\<exists>perm'. (\<forall>ks. mset (perm' ks) = mset ks) \<and> ParserRouter_Parse perm' r w (Some resp) = parse_with p w resp))"
proof (intro conjI allI impI)
  assume "\<forall>n p. GetParser r n = Inr p \<longrightarrow> \<not> pp_CanParse p ct"
  then have "find (parser_accepts r ct) ns = None" for ns by (auto simp: find_None_iff parser_accepts_def split: sum.splits)
  then show "ParserRouter_Parse perm r w (Some resp) = (NoParser ct, w)" by (simp add: ParserRouter_Parse_def route_find ct)
next
  fix n p
  assume p: "GetParser r n = Inr p \<and> pp_CanParse p ct"
  then have n: "n \<in> set (map fst (reg_parsers r))" "parser_accepts r ct n"
    using parser_category.get_names [of n r] by (auto simp: parser_accepts_def)
  then have "n \<in> set (ListParsers perm r)" using mset_eq_setD [OF perm] by (simp add: ListParsers_def mapKeys_def)
  then obtain m where m: "find (parser_accepts r ct) (ListParsers perm r) = Some m"
    using n(2) by (metis find_None_iff not_None_eq)
  then have "parser_accepts r ct m" by (auto simp: find_Some_iff)
  then show "\<exists>m q. GetParser r m = Inr q \<and> pp_CanParse q ct \<and> ParserRouter_Parse perm r w (Some resp) = parse_with q w resp"
    using m by (auto simp: ParserRouter_Parse_def route_find ct parser_accepts_def split: sum.splits)
  let ?front = "\<lambda>ks. if n \<in> set ks then n # remove1 n ks else ks"
  have "\<forall>ks. mset (?front ks) = mset ks" by simp
  moreover have "ParserRouter_Parse ?front r w (Some resp) = parse_with p w resp"
    using n p by (simp add: ParserRouter_Parse_def route_find ListParsers_def mapKeys_def ct)
  ultimately show "\<exists>perm'. (\<forall>ks. mset (perm' ks) = mset ks) \<and> ParserRouter_Parse perm' r w (Some resp) = parse_with p w resp"
    by (rule_tac x = ?front in exI) simp
qed

section \<open>The loader\<close>

text \<open>Registering a plugin changes nothing but its own category.\<close>

lemma load_category_frame:
  assumes reg: "\<And>s n p. g (snd (register s n p)) = g s" and "load_category cat fs register r w es = (out, r1, w1)"
  shows "g r1 = g r"
  using assms(2)
proof (induction es arbitrary: r w)
  case (Cons e es)
  obtain o1 r2 w2 where l: "load_entry cat fs register r w e = (o1, r2, w2)" by (metis prod_cases3)
  then have "r2 = r \<or> (\<exists>p. r2 = snd (register r (pe_Name e) (Some p)))"
    by (auto simp: load_entry_def split: option.splits prod.splits sum.splits) (metis snd_conv)+
  then have "g r2 = g r" using reg by metis
  then show ?case using Cons l by (cases o1) auto
qed simp

text \<open>The declarations of a configuration and the names of a registry, with their categories.\<close>

definition config_names :: "'c plugin_Config \<Rightarrow> (string \<times> string) list" where
  "config_names cfg =
     map (\<lambda>e. (''storage'', pe_Name e)) (pc_Storage (cfg_Plugins cfg)) @ map (\<lambda>e. (''parser'', pe_Name e)) (pc_Parsers (cfg_Plugins cfg)) @
     map (\<lambda>e. (''notifier'', pe_Name e)) (pc_Notifiers (cfg_Plugins cfg)) @ map (\<lambda>e. (''exporter'', pe_Name e)) (pc_Exporters (cfg_Plugins cfg))"

definition registry_names :: "('w, 'c, 'i, 'd) Registry \<Rightarrow> (string \<times> string) list" where
  "registry_names r =
     map (\<lambda>x. (''storage'', fst x)) (reg_storage r) @ map (\<lambda>x. (''parser'', fst x)) (reg_parsers r) @
     map (\<lambda>x. (''notifier'', fst x)) (reg_notifiers r) @ map (\<lambda>x. (''exporter'', fst x)) (reg_exporters r)"

definition registry_keeps :: "('w, 'c, 'i, 'd) Registry \<Rightarrow> ('w, 'c, 'i, 'd) Registry \<Rightarrow> bool" where
  "registry_keeps r r1 \<longleftrightarrow> map_of (reg_storage r) \<subseteq>\<^sub>m map_of (reg_storage r1) \<and> map_of (reg_parsers r) \<subseteq>\<^sub>m map_of (reg_parsers r1) \<and>
     map_of (reg_notifiers r) \<subseteq>\<^sub>m map_of (reg_notifiers r1) \<and> map_of (reg_exporters r) \<subseteq>\<^sub>m map_of (reg_exporters r1)"

text \<open>A stretch of \<open>Load\<close> over the declarations \<open>decls\<close>.\<close>

definition load_stretch :: "(string \<times> string) list \<Rightarrow> load_outcome \<Rightarrow> ('w, 'c, 'i, 'd) Registry \<Rightarrow> ('w, 'c, 'i, 'd) Registry \<Rightarrow> bool" where
  "load_stretch decls out r r1 \<longleftrightarrow>
     (\<exists>loaded rest. decls = loaded @ rest \<and> (out = Loaded \<longleftrightarrow> rest = []) \<and> mset (registry_names r1) = mset loaded + mset (registry_names r) \<and>
        (distinct (registry_names r) \<longrightarrow> distinct (registry_names r1)) \<and> registry_keeps r r1 \<and>
        (\<forall>c n ds. rest = (c, n) # ds \<longrightarrow> blames c n out))"

lemma registry_keeps_trans: "registry_keeps r r1 \<Longrightarrow> registry_keeps r1 r2 \<Longrightarrow> registry_keeps r r2"
  unfolding registry_keeps_def by (blast intro: map_le_trans)

lemma load_stretch_append:
  assumes "load_stretch xs Loaded r r1" and "load_stretch ys out r1 r2"
  shows "load_stretch (xs @ ys) out r r2"
proof -
  have x: "mset (registry_names r1) = mset xs + mset (registry_names r)" "distinct (registry_names r) \<longrightarrow> distinct (registry_names r1)" "registry_keeps r r1"
    using assms(1) unfolding load_stretch_def by auto
  obtain loaded rest where y: "ys = loaded @ rest" "out = Loaded \<longleftrightarrow> rest = []" "mset (registry_names r2) = mset loaded + mset (registry_names r1)"
      "distinct (registry_names r1) \<longrightarrow> distinct (registry_names r2)" "registry_keeps r1 r2" "\<forall>c n ds. rest = (c, n) # ds \<longrightarrow> blames c n out"
    using assms(2) unfolding load_stretch_def by (elim exE conjE) (rule that; assumption)
  show ?thesis
    unfolding load_stretch_def
    by (rule exI [of _ "xs @ loaded"], rule exI [of _ rest]) (use x y registry_keeps_trans [OF x(3) y(5)] in \<open>simp add: ac_simps\<close>)
qed

lemma load_stretch_stop: "load_stretch xs out r r1 \<Longrightarrow> out \<noteq> Loaded \<Longrightarrow> load_stretch (xs @ ys) out r r1"
  unfolding load_stretch_def
  by (elim exE conjE, rule_tac x = loaded in exI, rule_tac x = "rest @ ys" in exI) (auto simp: neq_Nil_conv Cons_eq_append_conv)

lemma category_stretch:
  assumes prefix: "\<exists>loaded rest. es = loaded @ rest \<and> (out = Loaded \<longleftrightarrow> rest = []) \<and> ns1 = rev (map pe_Name loaded) @ ns \<and>
      (distinct ns \<longrightarrow> distinct ns1) \<and> K \<and> D loaded \<and> (\<forall>e es'. rest = e # es' \<longrightarrow> blames c (pe_Name e) out)"
    and names: "registry_names r = A @ map (Pair c) ns @ B" "registry_names r1 = A @ map (Pair c) ns1 @ B"
    and other: "\<And>n. (c, n) \<notin> set A \<union> set B" and keeps: "K \<Longrightarrow> registry_keeps r r1"
  shows "load_stretch (map (\<lambda>e. (c, pe_Name e)) es) out r r1"
proof -
  obtain loaded rest where p: "es = loaded @ rest" "out = Loaded \<longleftrightarrow> rest = []" "ns1 = rev (map pe_Name loaded) @ ns"
      "distinct ns \<longrightarrow> distinct ns1" K "\<forall>e es'. rest = e # es' \<longrightarrow> blames c (pe_Name e) out"
    using prefix by (elim exE conjE) (rule that; assumption)
  have "mset (registry_names r1) = mset (map (\<lambda>e. (c, pe_Name e)) loaded) + mset (registry_names r)"
    unfolding names p(3) by (simp add: comp_def flip: rev_map)
  moreover have "distinct (registry_names r) \<longrightarrow> distinct (registry_names r1)"
    using p(4) other unfolding names by (auto simp: distinct_map inj_on_def)
  ultimately show ?thesis
    unfolding load_stretch_def
    by (intro exI [of _ "map (\<lambda>e. (c, pe_Name e)) loaded"] exI [of _ "map (\<lambda>e. (c, pe_Name e)) rest"])
      (use p keeps in \<open>auto simp: Cons_eq_map_conv\<close>)
qed

lemma storage_stretch:
  assumes l: "load_category ''storage'' fs RegisterStorage r w es = (out, r1, w1)"
  shows "load_stretch (map (\<lambda>e. (''storage'', pe_Name e)) es) out r r1"
proof -
  have o: "reg_parsers r1 = reg_parsers r" "reg_notifiers r1 = reg_notifiers r" "reg_exporters r1 = reg_exporters r"
    by (rule load_category_frame [OF _ l]; simp add: register_defs split: option.splits)+
  show ?thesis
  proof (rule category_stretch [OF storage_category.load_category_prefix [OF l]])
    show "registry_names r = ([]) @ map (Pair ''storage'') (map fst (reg_storage r)) @ map (\<lambda>x. (''parser'', fst x)) (reg_parsers r) @ map (\<lambda>x. (''notifier'', fst x)) (reg_notifiers r) @ map (\<lambda>x. (''exporter'', fst x)) (reg_exporters r)"
      "registry_names r1 = ([]) @ map (Pair ''storage'') (map fst (reg_storage r1)) @ map (\<lambda>x. (''parser'', fst x)) (reg_parsers r) @ map (\<lambda>x. (''notifier'', fst x)) (reg_notifiers r) @ map (\<lambda>x. (''exporter'', fst x)) (reg_exporters r)"
      by (simp_all add: registry_names_def o comp_def)
  qed (use o in \<open>fastforce simp: registry_keeps_def map_le_def GetStorage_def split: option.splits\<close>)+
qed

lemma parser_stretch:
  assumes l: "load_category ''parser'' fs RegisterParser r w es = (out, r1, w1)"
  shows "load_stretch (map (\<lambda>e. (''parser'', pe_Name e)) es) out r r1"
proof -
  have o: "reg_storage r1 = reg_storage r" "reg_notifiers r1 = reg_notifiers r" "reg_exporters r1 = reg_exporters r"
    by (rule load_category_frame [OF _ l]; simp add: register_defs split: option.splits)+
  show ?thesis
  proof (rule category_stretch [OF parser_category.load_category_prefix [OF l]])
    show "registry_names r = (map (\<lambda>x. (''storage'', fst x)) (reg_storage r)) @ map (Pair ''parser'') (map fst (reg_parsers r)) @ map (\<lambda>x. (''notifier'', fst x)) (reg_notifiers r) @ map (\<lambda>x. (''exporter'', fst x)) (reg_exporters r)"
      "registry_names r1 = (map (\<lambda>x. (''storage'', fst x)) (reg_storage r)) @ map (Pair ''parser'') (map fst (reg_parsers r1)) @ map (\<lambda>x. (''notifier'', fst x)) (reg_notifiers r) @ map (\<lambda>x. (''exporter'', fst x)) (reg_exporters r)"
      by (simp_all add: registry_names_def o comp_def)
  qed (use o in \<open>fastforce simp: registry_keeps_def map_le_def GetParser_def split: option.splits\<close>)+
qed

lemma notifier_stretch:
  assumes l: "load_category ''notifier'' fs RegisterNotifier r w es = (out, r1, w1)"
  shows "load_stretch (map (\<lambda>e. (''notifier'', pe_Name e)) es) out r r1"
proof -
  have o: "reg_storage r1 = reg_storage r" "reg_parsers r1 = reg_parsers r" "reg_exporters r1 = reg_exporters r"
    by (rule load_category_frame [OF _ l]; simp add: register_defs split: option.splits)+
  show ?thesis
  proof (rule category_stretch [OF notifier_category.load_category_prefix [OF l]])
    show "registry_names r = (map (\<lambda>x. (''storage'', fst x)) (reg_storage r) @ map (\<lambda>x. (''parser'', fst x)) (reg_parsers r)) @ map (Pair ''notifier'') (map fst (reg_notifiers r)) @ map (\<lambda>x. (''exporter'', fst x)) (reg_exporters r)"
      "registry_names r1 = (map (\<lambda>x. (''storage'', fst x)) (reg_storage r) @ map (\<lambda>x. (''parser'', fst x)) (reg_parsers r)) @ map (Pair ''notifier'') (map fst (reg_notifiers r1)) @ map (\<lambda>x. (''exporter'', fst x)) (reg_exporters r)"
      by (simp_all add: registry_names_def o comp_def)
  qed (use o in \<open>fastforce simp: registry_keeps_def map_le_def GetNotifier_def split: option.splits\<close>)+
qed

lemma exporter_stretch:
  assumes l: "load_category ''exporter'' fs RegisterExporter r w es = (out, r1, w1)"
  shows "load_stretch (map (\<lambda>e. (''exporter'', pe_Name e)) es) out r r1"
proof -
  have o: "reg_storage r1 = reg_storage r" "reg_parsers r1 = reg_parsers r" "reg_notifiers r1 = reg_notifiers r"
    by (rule load_category_frame [OF _ l]; simp add: register_defs split: option.splits)+
  show ?thesis
  proof (rule category_stretch [OF exporter_category.load_category_prefix [OF l]])
    show "registry_names r = (map (\<lambda>x. (''storage'', fst x)) (reg_storage r) @ map (\<lambda>x. (''parser'', fst x)) (reg_parsers r) @ map (\<lambda>x. (''notifier'', fst x)) (reg_notifiers r)) @ map (Pair ''exporter'') (map fst (reg_exporters r)) @ []"
      "registry_names r1 = (map (\<lambda>x. (''storage'', fst x)) (reg_storage r) @ map (\<lambda>x. (''parser'', fst x)) (reg_parsers r) @ map (\<lambda>x. (''notifier'', fst x)) (reg_notifiers r)) @ map (Pair ''exporter'') (map fst (reg_exporters r1)) @ []"
      by (simp_all add: registry_names_def o comp_def)
  qed (use o in \<open>fastforce simp: registry_keeps_def map_le_def GetExporter_def split: option.splits\<close>)+
qed

text \<open>
  C28. \<open>Load\<close> goes through the declarations in the order storage, parsers, notifiers, exporters and
  registers each of them until the first that fails, which the error names (a nil factory or plugin
  panics there).  It succeeds exactly when all are registered; otherwise those before the failure stay
  registered, and no plugin that was in the registry is replaced.
\<close>

theorem Load_prefix:
  assumes "Loader_Load l w cfg = (out, l', w')"
  shows "\<exists>loaded rest. config_names cfg = loaded @ rest \<and> (out = Loaded \<longleftrightarrow> rest = []) \<and>
    mset (registry_names (ld_registry l')) = mset loaded + mset (registry_names (ld_registry l)) \<and>
    (distinct (registry_names (ld_registry l)) \<longrightarrow> distinct (registry_names (ld_registry l'))) \<and>
    registry_keeps (ld_registry l) (ld_registry l') \<and> (\<forall>c n ds. rest = (c, n) # ds \<longrightarrow> blames c n out)"
proof -
  obtain o1 r1 w1 where s1: "load_category ''storage'' (ld_storage l) RegisterStorage (ld_registry l) w (pc_Storage (cfg_Plugins cfg)) = (o1, r1, w1)" by (metis prod_cases3)
  obtain o2 r2 w2 where s2: "load_category ''parser'' (ld_parsers l) RegisterParser r1 w1 (pc_Parsers (cfg_Plugins cfg)) = (o2, r2, w2)" by (metis prod_cases3)
  obtain o3 r3 w3 where s3: "load_category ''notifier'' (ld_notifiers l) RegisterNotifier r2 w2 (pc_Notifiers (cfg_Plugins cfg)) = (o3, r3, w3)" by (metis prod_cases3)
  obtain o4 r4 w4 where s4: "load_category ''exporter'' (ld_exporters l) RegisterExporter r3 w3 (pc_Exporters (cfg_Plugins cfg)) = (o4, r4, w4)" by (metis prod_cases3)
  note t1 = storage_stretch [OF s1] and t2 = parser_stretch [OF s2] and t3 = notifier_stretch [OF s3] and t4 = exporter_stretch [OF s4]
  consider "o1 \<noteq> Loaded" "out = o1" "ld_registry l' = r1"
    | "o1 = Loaded" "o2 \<noteq> Loaded" "out = o2" "ld_registry l' = r2"
    | "o1 = Loaded" "o2 = Loaded" "o3 \<noteq> Loaded" "out = o3" "ld_registry l' = r3"
    | "o1 = Loaded" "o2 = Loaded" "o3 = Loaded" "out = o4" "ld_registry l' = r4"
    using assms s1 s2 s3 s4 by (cases o1; cases o2; cases o3) (auto simp: Loader_Load_def)
  then have "load_stretch (config_names cfg) out (ld_registry l) (ld_registry l')"
  proof cases
    case 1
    then show ?thesis unfolding config_names_def using load_stretch_stop [OF t1] by simp
  next
    case 2
    then show ?thesis unfolding config_names_def using load_stretch_append [OF _ load_stretch_stop [OF t2]] t1 by simp
  next
    case 3
    then show ?thesis unfolding config_names_def
      using load_stretch_append [OF _ load_stretch_append [OF _ load_stretch_stop [OF t3]]] t1 t2 by simp
  next
    case 4
    then show ?thesis unfolding config_names_def
      using load_stretch_append [OF _ load_stretch_append [OF _ load_stretch_append [OF _ t4]]] t1 t2 t3 by simp
  qed
  then show ?thesis unfolding load_stretch_def .
qed

section \<open>Closing\<close>

text \<open>A record \<open>log\<close> of the calls to \<open>Close\<close>: category, name and result, each call adding its own line.\<close>

definition closes_logged :: "('w \<Rightarrow> (string \<times> string \<times> error option) multiset) \<Rightarrow> string \<Rightarrow> (string \<rightharpoonup> ('w, 'c, 'p) Plugin_scheme) \<Rightarrow> bool" where
  "closes_logged log c m \<longleftrightarrow> (\<forall>k p w. m k = Some p \<longrightarrow> log (snd (pl_Close p w)) = add_mset (c, k, fst (pl_Close p w)) (log w))"

definition logged_errors :: "(string \<times> string \<times> error option) multiset \<Rightarrow> error multiset" where
  "logged_errors L = image_mset (\<lambda>x. the (snd (snd x))) (filter_mset (\<lambda>x. snd (snd x) \<noteq> None) L)"

definition logged_names :: "(string \<times> string \<times> error option) multiset \<Rightarrow> (string \<times> string) multiset" where
  "logged_names L = image_mset (\<lambda>x. (fst x, fst (snd x))) L"

lemma close_each_log:
  "closes_logged log c m \<Longrightarrow> set ks \<subseteq> dom m \<Longrightarrow> close_each m ks (errs, w) = (errs', w') \<Longrightarrow>
   \<exists>L. log w' = L + log w \<and> logged_names L = image_mset (Pair c) (mset ks) \<and> mset errs' = mset errs + logged_errors L"
proof (induction m ks "(errs, w)" arbitrary: errs w rule: close_each.induct)
  case (1 m)
  then show ?case by (auto simp: logged_names_def logged_errors_def)
next
  case (2 m k ks errs w)
  obtain p where p: "m k = Some p" using 2(5) by auto
  obtain x w1 where x: "pl_Close p w = (x, w1)" by force
  have l: "log w1 = add_mset (c, k, x) (log w)" using 2(4) p x unfolding closes_logged_def by (metis fst_conv snd_conv)
  let ?errs = "case x of None \<Rightarrow> errs | Some err \<Rightarrow> errs @ [err]"
  have "\<exists>L. log w' = L + log w1 \<and> logged_names L = image_mset (Pair c) (mset ks) \<and> mset errs' = mset ?errs + logged_errors L"
    using 2 p x by (cases x) auto
  then obtain L where "log w' = L + log w1" "logged_names L = image_mset (Pair c) (mset ks)" "mset errs' = mset ?errs + logged_errors L" by blast
  then show ?case using l
    by (intro exI [of _ "add_mset (c, k, x) L"]) (auto simp: logged_names_def logged_errors_def split: option.splits)
qed

text \<open>
  \<open>CloseAll\<close> closes every registered plugin exactly once, and the errors it returns are exactly
  those that the calls to \<open>Close\<close> returned.
\<close>

theorem CloseAll_each_once:
  assumes perm: "\<And>ks. mset (perm ks) = mset ks"
    and logged: "closes_logged log ''storage'' (map_of (reg_storage r))" "closes_logged log ''parser'' (map_of (reg_parsers r))"
      "closes_logged log ''notifier'' (map_of (reg_notifiers r))" "closes_logged log ''exporter'' (map_of (reg_exporters r))"
    and run: "CloseAll perm r w = (errs, w')"
  shows "\<exists>L. log w' = L + log w \<and> logged_names L = mset (registry_names r) \<and> mset errs = logged_errors L"
proof -
  have keys: "set (mapKeys perm m) \<subseteq> dom (map_of m)" "mset (mapKeys perm m) = mset (map fst m)" for m :: "(string \<times> 'p) list"
    using mset_eq_setD [OF perm] perm by (simp_all add: mapKeys_def dom_map_of_conv_image_fst)
  obtain e1 w1 where s1: "close_each (map_of (reg_storage r)) (mapKeys perm (reg_storage r)) ([], w) = (e1, w1)" by force
  obtain e2 w2 where s2: "close_each (map_of (reg_parsers r)) (mapKeys perm (reg_parsers r)) (e1, w1) = (e2, w2)" by force
  obtain e3 w3 where s3: "close_each (map_of (reg_notifiers r)) (mapKeys perm (reg_notifiers r)) (e2, w2) = (e3, w3)" by force
  have s4: "close_each (map_of (reg_exporters r)) (mapKeys perm (reg_exporters r)) (e3, w3) = (errs, w')"
    using run s1 s2 s3 by (simp add: CloseAll_def)
  obtain L1 L2 L3 L4 where L: "log w1 = L1 + log w" "logged_names L1 = image_mset (Pair ''storage'') (mset (map fst (reg_storage r)))" "mset e1 = mset [] + logged_errors L1"
      "log w2 = L2 + log w1" "logged_names L2 = image_mset (Pair ''parser'') (mset (map fst (reg_parsers r)))" "mset e2 = mset e1 + logged_errors L2"
      "log w3 = L3 + log w2" "logged_names L3 = image_mset (Pair ''notifier'') (mset (map fst (reg_notifiers r)))" "mset e3 = mset e2 + logged_errors L3"
      "log w' = L4 + log w3" "logged_names L4 = image_mset (Pair ''exporter'') (mset (map fst (reg_exporters r)))" "mset errs = mset e3 + logged_errors L4"
    using close_each_log [OF logged(1) keys(1) s1] close_each_log [OF logged(2) keys(1) s2]
      close_each_log [OF logged(3) keys(1) s3] close_each_log [OF logged(4) keys(1) s4]
    unfolding keys(2) by blast
  show ?thesis
  proof (intro exI [of _ "L4 + L3 + L2 + L1"] conjI)
    show "log w' = L4 + L3 + L2 + L1 + log w" using L by (simp add: ac_simps)
    have "logged_names (L4 + L3 + L2 + L1) = logged_names L4 + logged_names L3 + logged_names L2 + logged_names L1" by (simp add: logged_names_def)
    then show "logged_names (L4 + L3 + L2 + L1) = mset (registry_names r)"
      unfolding L(2,5,8,11) registry_names_def by (simp add: image_mset.compositionality comp_def)
    show "mset errs = logged_errors (L4 + L3 + L2 + L1)" using L(3,6,9,12) by (simp add: logged_errors_def ac_simps)
  qed
qed

section \<open>Two parsers and a storage\<close>

text \<open>The world is the list of the calls to \<open>Close\<close>.\<close>

type_synonym sample_world = "(string \<times> string \<times> error option) list"

definition sample_storage :: "(sample_world, unit, unit) StoragePlugin" where
  "sample_storage = \<lparr>pl_Name = ''file'', pl_Init = (\<lambda>w c. (None, w)), pl_Close = (\<lambda>w. (Some (ErrorString ''disk full''), (''storage'', ''file'', Some (ErrorString ''disk full'')) # w)),
     sp_Store = (\<lambda>w items. (None, w))\<rparr>"

definition sample_parser :: "string \<Rightarrow> (sample_world, unit, unit) ParserPlugin" where
  "sample_parser n = \<lparr>pl_Name = n, pl_Init = (\<lambda>w c. (None, w)), pl_Close = (\<lambda>w. (None, (''parser'', n, None) # w)),
     pp_CanParse = (\<lambda>ct. ct = ''text/html''), pp_Parse = (\<lambda>w resp. (Inr \<lparr>pr_Data = Map.empty, pr_Links = [n]\<rparr>, w))\<rparr>"

definition sample_registrations :: "(sample_world, unit, unit, unit) registration list" where
  "sample_registrations =
     [RegStorage ''file'' (Some sample_storage), RegParser ''a'' (Some (sample_parser ''a'')), RegStorage ''b'' None,
      RegParser ''b'' (Some (sample_parser ''b'')), RegParser ''a'' (Some (sample_parser ''c''))]"

definition sample_registry :: "(sample_world, unit, unit, unit) Registry" where
  "sample_registry = fold registry_step sample_registrations NewRegistry"

lemma sample_registry_value:
  "sample_registry = \<lparr>reg_storage = [(''file'', sample_storage)], reg_parsers = [(''b'', sample_parser ''b''), (''a'', sample_parser ''a'')],
     reg_notifiers = [], reg_exporters = []\<rparr>"
  by (simp add: sample_registry_def sample_registrations_def NewRegistry_def register_defs)

theorem registry_first_wins_witness:
  "GetParser sample_registry ''a'' = Inr (sample_parser ''a'') \<and> GetStorage sample_registry ''b'' = Inl (ErrPluginNotFound ''storage'' ''b'') \<and>
   distinct (ListParsers rev sample_registry) \<and> set (ListParsers rev sample_registry) = {''a'', ''b''}"
  using registry_first_wins [of rev sample_registry sample_registrations "''a''"]
    registry_first_wins [of rev sample_registry sample_registrations "''b''"]
  by (auto simp: sample_registry_def sample_registrations_def calls_defs)

definition sample_response :: CrawlResponse where
  "sample_response = \<lparr>crs_Request = \<lparr>crq_URL = ''http://h/'', crq_Method = ''GET'', crq_Headers = None, crq_Depth = 0, crq_Meta = None, crq_BrowserRender = False\<rparr>, crs_StatusCode = 200, crs_Headers = Map.empty, crs_Body = [], crs_ContentType = ''text/html''\<rparr>"

lemma sample_parse: "parse_with (sample_parser n) w resp = (Parsed (Inr \<lparr>pr_Data = Map.empty, pr_Links = [n]\<rparr>), w)"
  by (simp add: parse_with_def sample_parser_def)

theorem Parse_choice_witness:
  "(\<exists>perm. (\<forall>ks. mset (perm ks) = mset ks) \<and>
       ParserRouter_Parse perm sample_registry [] (Some sample_response) = (Parsed (Inr \<lparr>pr_Data = Map.empty, pr_Links = [''a'']\<rparr>), [])) \<and>
     (\<exists>perm. (\<forall>ks. mset (perm ks) = mset ks) \<and>
       ParserRouter_Parse perm sample_registry [] (Some sample_response) = (Parsed (Inr \<lparr>pr_Data = Map.empty, pr_Links = [''b'']\<rparr>), []))"
proof -
  have g: "GetParser sample_registry ''a'' = Inr (sample_parser ''a'') \<and> pp_CanParse (sample_parser ''a'') ''text/html''"
    "GetParser sample_registry ''b'' = Inr (sample_parser ''b'') \<and> pp_CanParse (sample_parser ''b'') ''text/html''"
    by (simp_all add: GetParser_def sample_registry_value sample_parser_def)
  have ct: "''text/html'' = crs_ContentType sample_response" by (simp add: sample_response_def)
  note choice = Parse_choice [of "\<lambda>ks. ks", OF refl ct, THEN conjunct2, rule_format, THEN conjunct2]
  show ?thesis using choice [OF g(1)] choice [OF g(2)] by (simp add: sample_parse)
qed

definition sample_loader :: "(sample_world, unit, unit, unit) Loader" where
  "sample_loader = RegisterParserFactory (NewLoader NewRegistry) ''html'' (Some (\<lambda>w c. (Inr (Some (sample_parser ''html'')), w)))"

definition sample_config :: "unit plugin_Config" where
  "sample_config = \<lparr>cfg_Plugins = \<lparr>pc_Storage = [], pc_Parsers = [\<lparr>pe_Name = ''html'', pe_Config = ()\<rparr>, \<lparr>pe_Name = ''xml'', pe_Config = ()\<rparr>], pc_Notifiers = [], pc_Exporters = []\<rparr>\<rparr>"

theorem Load_prefix_witness:
  "\<exists>l'. Loader_Load sample_loader [] sample_config = (LoadFailed (UnknownPlugin ''parser'' ''xml''), l', []) \<and>
     mset (registry_names (ld_registry l')) = {#(''parser'', ''html'')#} \<and> blames ''parser'' ''xml'' (LoadFailed (UnknownPlugin ''parser'' ''xml''))"
proof -
  obtain l' where run: "Loader_Load sample_loader [] sample_config = (LoadFailed (UnknownPlugin ''parser'' ''xml''), l', [])"
    and names: "registry_names (ld_registry l') = [(''parser'', ''html'')]"
    by (simp add: Loader_Load_def sample_loader_def sample_config_def NewLoader_def NewRegistry_def RegisterParserFactory_def load_entry_def
        sample_parser_def RegisterParser_def registry_names_def)
  have "config_names sample_config = [(''parser'', ''html''), (''parser'', ''xml'')]" by (simp add: config_names_def sample_config_def)
  then show ?thesis using Load_prefix [OF run] run names by auto
qed

theorem CloseAll_each_once_witness:
  "\<exists>errs w'. CloseAll rev sample_registry [] = (errs, w') \<and> mset errs = {#ErrorString ''disk full''#} \<and>
     (\<exists>L. mset w' = L + mset [] \<and> logged_names L = {#(''storage'', ''file''), (''parser'', ''a''), (''parser'', ''b'')#})"
proof -
  have logged: "closes_logged mset ''storage'' (map_of (reg_storage sample_registry))" "closes_logged mset ''parser'' (map_of (reg_parsers sample_registry))"
      "closes_logged mset ''notifier'' (map_of (reg_notifiers sample_registry))" "closes_logged mset ''exporter'' (map_of (reg_exporters sample_registry))"
    by (simp_all add: closes_logged_def sample_registry_value sample_storage_def sample_parser_def)
  have run: "CloseAll rev sample_registry [] = ([ErrorString ''disk full''], [(''parser'', ''b'', None), (''parser'', ''a'', None), (''storage'', ''file'', Some (ErrorString ''disk full''))])"
    by (simp add: CloseAll_def mapKeys_def sample_registry_value sample_storage_def sample_parser_def)
  have "mset (registry_names sample_registry) = {#(''storage'', ''file''), (''parser'', ''a''), (''parser'', ''b'')#}"
    by (simp add: registry_names_def sample_registry_value)
  then show ?thesis using CloseAll_each_once [OF _ logged run] run by auto
qed

end
