(* ===== verification/Browser_Pool.thy ===== *)
theory Browser_Pool
  imports Crawler_Concurrency
begin

text \<open>
  pkg/browser: the pool of Chrome instances, tabs and rendering.  A \<^verbatim>\<open>*Browser\<close> is an address in a store,
  since the pool's idle list, the callers and the health check share the objects.  Chrome itself
  (github.com/chromedp/chromedp) is an argument \<open>chrome\<close> over a world \<open>'w\<close>, and the semaphore is that of
  \<open>Crawler_Concurrency\<close>.
\<close>

section \<open>config.go and builder.go\<close>

record browser_Config =
  bc_MaxBrowsers :: int
  bc_MaxTabsPerBrowser :: int
  bc_Headless :: bool
  bc_UserAgent :: string
  bc_ChromeFlags :: "string list"
  bc_HealthCheckInterval :: Duration
  bc_HealthCheckTimeout :: Duration

definition browser_Config_withDefaults :: "browser_Config \<Rightarrow> browser_Config" where
  "browser_Config_withDefaults c0 =
     (let c1 = (if bc_MaxBrowsers c0 \<le> 0 then c0\<lparr>bc_MaxBrowsers := 3\<rparr> else c0);
          c2 = (if bc_MaxTabsPerBrowser c1 \<le> 0 then c1\<lparr>bc_MaxTabsPerBrowser := 50\<rparr> else c1);
          c3 = (if bc_HealthCheckInterval c2 \<le> 0 then c2\<lparr>bc_HealthCheckInterval := 30 * Second\<rparr> else c2)
      in if bc_HealthCheckTimeout c3 \<le> 0 then c3\<lparr>bc_HealthCheckTimeout := 5 * Second\<rparr> else c3)"

record browser_Builder =
  bb_cfg :: browser_Config

definition browser_NewBuilder :: browser_Builder where
  "browser_NewBuilder = \<lparr>bb_cfg = \<lparr>bc_MaxBrowsers = 0, bc_MaxTabsPerBrowser = 0, bc_Headless = False, bc_UserAgent = [],
     bc_ChromeFlags = [], bc_HealthCheckInterval = 0, bc_HealthCheckTimeout = 0\<rparr>\<rparr>"

definition WithMaxBrowsers :: "browser_Builder \<Rightarrow> int \<Rightarrow> browser_Builder" where
  "WithMaxBrowsers b n = b\<lparr>bb_cfg := (bb_cfg b)\<lparr>bc_MaxBrowsers := n\<rparr>\<rparr>"

definition WithMaxTabsPerBrowser :: "browser_Builder \<Rightarrow> int \<Rightarrow> browser_Builder" where
  "WithMaxTabsPerBrowser b n = b\<lparr>bb_cfg := (bb_cfg b)\<lparr>bc_MaxTabsPerBrowser := n\<rparr>\<rparr>"

definition WithHeadless :: "browser_Builder \<Rightarrow> bool \<Rightarrow> browser_Builder" where
  "WithHeadless b headless = b\<lparr>bb_cfg := (bb_cfg b)\<lparr>bc_Headless := headless\<rparr>\<rparr>"

definition browser_WithUserAgent :: "browser_Builder \<Rightarrow> string \<Rightarrow> browser_Builder" where
  "browser_WithUserAgent b ua = b\<lparr>bb_cfg := (bb_cfg b)\<lparr>bc_UserAgent := ua\<rparr>\<rparr>"

definition WithChromeFlag :: "browser_Builder \<Rightarrow> string \<Rightarrow> browser_Builder" where
  "WithChromeFlag b flag = b\<lparr>bb_cfg := (bb_cfg b)\<lparr>bc_ChromeFlags := bc_ChromeFlags (bb_cfg b) @ [flag]\<rparr>\<rparr>"

definition WithHealthCheckInterval :: "browser_Builder \<Rightarrow> Duration \<Rightarrow> browser_Builder" where
  "WithHealthCheckInterval b d = b\<lparr>bb_cfg := (bb_cfg b)\<lparr>bc_HealthCheckInterval := d\<rparr>\<rparr>"

section \<open>wait.go and resource.go: the actions of a page\<close>

datatype chrome_action =
    NetworkEnable
  | SetBlockedURLs "string list"
  | Navigate string
  | WaitReady string
  | WaitVisible string
  | WaitForIdle Duration Duration
  | Sleep Duration
  | Location
  | OuterHTML string
  | FullScreenshot int
  | Evaluate string

datatype WaitCondition = WaitNetworkIdle Duration Duration | WaitSelector string | WaitDelay Duration | WaitDOMContentLoaded

fun wait_actions :: "WaitCondition \<Rightarrow> chrome_action list" where
  "wait_actions (WaitNetworkIdle quiet timeout) = [WaitForIdle (if quiet = 0 then 500 * Millisecond else quiet) timeout]"
| "wait_actions (WaitSelector selector) = [WaitVisible selector]"
| "wait_actions (WaitDelay d) = [Sleep d]"
| "wait_actions WaitDOMContentLoaded = [WaitReady ''body'']"

datatype ResourceType = ResourceImage | ResourceStylesheet | ResourceFont | ResourceMedia

fun resourcePatterns :: "ResourceType \<Rightarrow> string list" where
  "resourcePatterns ResourceImage =
     [''*.jpg'', ''*.jpeg'', ''*.png'', ''*.gif'', ''*.webp'', ''*.svg'', ''*.ico'', ''*.bmp'', ''*.tiff'']"
| "resourcePatterns ResourceStylesheet = [''*.css'']"
| "resourcePatterns ResourceFont = [''*.woff'', ''*.woff2'', ''*.ttf'', ''*.otf'', ''*.eot'']"
| "resourcePatterns ResourceMedia =
     [''*.mp4'', ''*.webm'', ''*.ogg'', ''*.mp3'', ''*.wav'', ''*.avi'', ''*.mov'', ''*.m4v'', ''*.m4a'']"

record ResourceFilter =
  BlockImages :: bool
  BlockStylesheets :: bool
  BlockFonts :: bool
  BlockMedia :: bool
  ExtraPatterns :: "string list"

definition BlockAll :: ResourceFilter where
  "BlockAll = \<lparr>BlockImages = True, BlockStylesheets = True, BlockFonts = True, BlockMedia = True, ExtraPatterns = []\<rparr>"

definition filter_patterns :: "ResourceFilter \<Rightarrow> string list" where
  "filter_patterns f =
     (if BlockImages f then resourcePatterns ResourceImage else []) @
     (if BlockStylesheets f then resourcePatterns ResourceStylesheet else []) @
     (if BlockFonts f then resourcePatterns ResourceFont else []) @
     (if BlockMedia f then resourcePatterns ResourceMedia else []) @ ExtraPatterns f"

definition filter_apply :: "ResourceFilter \<Rightarrow> chrome_action list" where
  "filter_apply f = (let ps = filter_patterns f in if ps = [] then [] else [NetworkEnable, SetBlockedURLs ps])"

subsection \<open>Waiting for an idle network\<close>

record idle_watch =
  iw_inFlight :: int
  iw_lastActive :: Time

datatype network_event = EventRequestWillBeSent | EventLoadingFinished | EventLoadingFailed

text \<open>The listener, called at time \<open>now\<close>.\<close>

fun on_network_event :: "Time \<Rightarrow> network_event \<Rightarrow> idle_watch \<Rightarrow> idle_watch" where
  "on_network_event now EventRequestWillBeSent w = w\<lparr>iw_inFlight := wrap64 (iw_inFlight w + 1), iw_lastActive := now\<rparr>"
| "on_network_event now ev w =
     (let v = wrap64 (iw_inFlight w - 1) in w\<lparr>iw_inFlight := (if v < 0 then 0 else v)\<rparr>)"

text \<open>
  The polling loop.  A poll sees the state of the context, the clock, and the watch after the events
  since the poll before; \<open>None\<close> when the polls given are used up.
\<close>

record poll =
  poll_ctx :: "error option"
  poll_now :: Time
  poll_events :: "(Time \<times> network_event) list"

definition watch_events :: "(Time \<times> network_event) list \<Rightarrow> idle_watch \<Rightarrow> idle_watch" where
  "watch_events evs w = fold (\<lambda>(t, ev). on_network_event t ev) evs w"

fun waitNetworkIdle_loop :: "Duration \<Rightarrow> Time \<Rightarrow> idle_watch \<Rightarrow> poll list \<Rightarrow> error option option" where
  "waitNetworkIdle_loop quiet deadline w [] = None"
| "waitNetworkIdle_loop quiet deadline w (p # ps) =
     (let w1 = watch_events (poll_events p) w
      in case poll_ctx p of
           Some err \<Rightarrow> Some (Some err)
         | None \<Rightarrow>
             if time_After (poll_now p) deadline then Some None
             else if iw_inFlight w1 = 0 \<and> quiet \<le> time_Sub (poll_now p) (iw_lastActive w1) then Some None
             else waitNetworkIdle_loop quiet deadline w1 ps)"

definition waitNetworkIdle :: "Duration \<Rightarrow> Duration \<Rightarrow> Time \<Rightarrow> error option \<Rightarrow> Time \<Rightarrow> poll list \<Rightarrow> error option option" where
  "waitNetworkIdle quiet maxWait started enable now polls =
     (case enable of
        Some err \<Rightarrow> Some (Some err)
      | None \<Rightarrow>
          waitNetworkIdle_loop quiet (if maxWait = 0 then now + 30 * Second else now + maxWait)
            \<lparr>iw_inFlight = 0, iw_lastActive = started\<rparr> polls)"

section \<open>browser.go\<close>

record Browser =
  br_tabsUsed :: int
  br_maxTabs :: int
  br_closed :: bool

datatype chrome_option = ChromeFlag string bool | ChromeUserAgent string

record RenderResult =
  rr_HTML :: string
  rr_Screenshot :: string
  rr_ScriptResult :: string
  rr_URL :: string

text \<open>\<open>ch_alloc\<close> adds the options to the default ones of the allocator; \<open>ch_Start\<close> launches a browser;
  \<open>ch_Ping\<close> evaluates the trivial expression in a tab of a browser; \<open>ch_Run\<close> runs actions in a new tab.\<close>

record 'w chrome =
  ch_alloc :: "'w \<Rightarrow> chrome_option list \<Rightarrow> 'w"
  ch_alloc_cancel :: "'w \<Rightarrow> 'w"
  ch_Start :: "'w \<Rightarrow> error option \<times> 'w"
  ch_cancel :: "'w \<Rightarrow> nat \<Rightarrow> 'w"
  ch_Ping :: "'w \<Rightarrow> nat \<Rightarrow> error option \<times> 'w"
  ch_Run :: "'w \<Rightarrow> nat \<Rightarrow> Duration \<Rightarrow> chrome_action list \<Rightarrow> (error + RenderResult) \<times> 'w"

text \<open>The pool with the store of the browsers, the next free address and the world.\<close>

record ('s, 'w) browser_Pool =
  bp_cfg :: browser_Config
  bp_sem :: 's
  bp_browsers :: "nat list"
  bp_closed :: bool
  bp_store :: "nat \<Rightarrow> Browser"
  bp_next :: nat
  bp_world :: 'w

definition newBrowser :: "'w chrome \<Rightarrow> ('s, 'w) browser_Pool \<Rightarrow> int \<Rightarrow> (error + nat) \<times> ('s, 'w) browser_Pool" where
  "newBrowser ch p maxTabs =
     (case ch_Start ch (bp_world p) of
        (Some err, w) \<Rightarrow> (Inl (WrapError ''start browser: '' err []), p\<lparr>bp_world := w\<rparr>)
      | (None, w) \<Rightarrow>
          (Inr (bp_next p),
           p\<lparr>bp_world := w, bp_store := (bp_store p)(bp_next p := \<lparr>br_tabsUsed = 0, br_maxTabs = maxTabs, br_closed = False\<rparr>),
             bp_next := bp_next p + 1\<rparr>))"

definition NewTab :: "('s, 'w) browser_Pool \<Rightarrow> nat \<Rightarrow> error option \<times> ('s, 'w) browser_Pool" where
  "NewTab p b =
     (if br_closed (bp_store p b) then (Some (ErrorString ''browser is closed''), p)
      else (None, p\<lparr>bp_store := (bp_store p)(b := (bp_store p b)\<lparr>br_tabsUsed := wrap64 (br_tabsUsed (bp_store p b) + 1)\<rparr>)\<rparr>))"

definition Exhausted :: "Browser \<Rightarrow> bool" where
  "Exhausted b \<longleftrightarrow> br_maxTabs b \<le> br_tabsUsed b"

definition Browser_Ping :: "'w chrome \<Rightarrow> ('s, 'w) browser_Pool \<Rightarrow> nat \<Rightarrow> error option \<times> ('s, 'w) browser_Pool" where
  "Browser_Ping ch p b =
     (if br_closed (bp_store p b) then (Some (ErrorString ''browser is closed''), p)
      else (case ch_Ping ch (bp_world p) b of (err, w) \<Rightarrow> (err, p\<lparr>bp_world := w\<rparr>)))"

definition Browser_Close :: "'w chrome \<Rightarrow> ('s, 'w) browser_Pool \<Rightarrow> nat \<Rightarrow> ('s, 'w) browser_Pool" where
  "Browser_Close ch p b =
     (if br_closed (bp_store p b) then p
      else p\<lparr>bp_store := (bp_store p)(b := (bp_store p b)\<lparr>br_closed := True\<rparr>), bp_world := ch_cancel ch (bp_world p) b\<rparr>)"

section \<open>pool.go\<close>

definition exec_options :: "browser_Config \<Rightarrow> chrome_option list" where
  "exec_options cfg =
     (if bc_Headless cfg then [] else [ChromeFlag ''headless'' False]) @
     (if bc_UserAgent cfg = [] then [] else [ChromeUserAgent (bc_UserAgent cfg)]) @
     map (\<lambda>flag. ChromeFlag flag True) (bc_ChromeFlags cfg)"

definition closeAll :: "'w chrome \<Rightarrow> ('s, 'w) browser_Pool \<Rightarrow> ('s, 'w) browser_Pool" where
  "closeAll ch p = (fold (\<lambda>b q. Browser_Close ch q b) (bp_browsers p) p)\<lparr>bp_browsers := []\<rparr>"

text \<open>The loop that pre-warms the browsers \<open>i\<close>, \<open>i + 1\<close>, \<dots> of which \<open>n\<close> are left.\<close>

fun prewarm :: "'w chrome \<Rightarrow> nat \<Rightarrow> nat \<Rightarrow> ('s, 'w) browser_Pool \<Rightarrow> error option \<times> ('s, 'w) browser_Pool" where
  "prewarm ch i 0 p = (None, p)"
| "prewarm ch i (Suc n) p =
     (case newBrowser ch p (bc_MaxTabsPerBrowser (bp_cfg p)) of
        (Inl err, p1) \<Rightarrow>
          let p2 = closeAll ch p1
          in (Some (WrapError (''pre-warm browser '' @ strconv_Itoa (int i) @ '': '') err []), p2\<lparr>bp_world := ch_alloc_cancel ch (bp_world p2)\<rparr>)
      | (Inr b, p1) \<Rightarrow> prewarm ch (Suc i) n (p1\<lparr>bp_browsers := bp_browsers p1 @ [b]\<rparr>))"

definition NewPool :: "'s sem_ops \<Rightarrow> 'w chrome \<Rightarrow> 'w \<Rightarrow> browser_Config \<Rightarrow> error option \<times> ('s, 'w) browser_Pool" where
  "NewPool ops ch w cfg0 =
     (let cfg = browser_Config_withDefaults cfg0
      in prewarm ch 0 (nat (bc_MaxBrowsers cfg))
           \<lparr>bp_cfg = cfg, bp_sem = sem_NewWeighted ops (bc_MaxBrowsers cfg), bp_browsers = [], bp_closed = False,
            bp_store = (\<lambda>b. \<lparr>br_tabsUsed = 0, br_maxTabs = 0, br_closed = True\<rparr>), bp_next = 0, bp_world = ch_alloc ch w (exec_options cfg)\<rparr>)"

definition browser_Build :: "'s sem_ops \<Rightarrow> 'w chrome \<Rightarrow> 'w \<Rightarrow> browser_Builder \<Rightarrow> error option \<times> ('s, 'w) browser_Pool" where
  "browser_Build ops ch w b = NewPool ops ch w (bb_cfg b)"

definition pick :: "'w chrome \<Rightarrow> ('s, 'w) browser_Pool \<Rightarrow> (error + nat) \<times> ('s, 'w) browser_Pool" where
  "pick ch p =
     (if bp_browsers p = [] then
        (case newBrowser ch p (bc_MaxTabsPerBrowser (bp_cfg p)) of
           (Inl err, p1) \<Rightarrow> (Inl (WrapError ''launch browser: '' err []), p1)
         | (Inr b, p1) \<Rightarrow> (Inr b, p1))
      else (Inr (last (bp_browsers p)), p\<lparr>bp_browsers := butlast (bp_browsers p)\<rparr>))"

text \<open>\<open>Acquire\<close>: \<open>None\<close> while the semaphore blocks or when its release panics.\<close>

definition Pool_Acquire :: "'s sem_ops \<Rightarrow> 'w chrome \<Rightarrow> error option \<Rightarrow> ('s, 'w) browser_Pool \<Rightarrow> ((error + nat) \<times> ('s, 'w) browser_Pool) option" where
  "Pool_Acquire ops ch ctx p =
     (case sem_Acquire ops ctx (bp_sem p) of
        None \<Rightarrow> None
      | Some (Inl err) \<Rightarrow> Some (Inl (WrapError ''acquire browser slot: '' err []), p)
      | Some (Inr s) \<Rightarrow>
          (case pick ch (p\<lparr>bp_sem := s\<rparr>) of
             (Inl err, p1) \<Rightarrow>
               (case sem_Release ops (bp_sem p1) of
                  None \<Rightarrow> None
                | Some s1 \<Rightarrow> Some (Inl err, p1\<lparr>bp_sem := s1\<rparr>))
           | (Inr b, p1) \<Rightarrow> Some (Inr b, p1)))"

text \<open>The release function that \<open>Acquire\<close> returns with browser \<open>b\<close>: under the lock, and the whole of it.\<close>

definition put_back :: "'w chrome \<Rightarrow> ('s, 'w) browser_Pool \<Rightarrow> nat \<Rightarrow> ('s, 'w) browser_Pool" where
  "put_back ch p b =
     (if Exhausted (bp_store p b) \<or> br_closed (bp_store p b) then
        (let p1 = Browser_Close ch p b
         in case newBrowser ch p1 (bc_MaxTabsPerBrowser (bp_cfg p1)) of
              (Inl err, q) \<Rightarrow> q
            | (Inr r, q) \<Rightarrow> q\<lparr>bp_browsers := bp_browsers q @ [r]\<rparr>)
      else p\<lparr>bp_browsers := bp_browsers p @ [b]\<rparr>)"

definition pool_release :: "'s sem_ops \<Rightarrow> 'w chrome \<Rightarrow> ('s, 'w) browser_Pool \<Rightarrow> nat \<Rightarrow> ('s, 'w) browser_Pool option" where
  "pool_release ops ch p b =
     (let p2 = put_back ch p b
      in case sem_Release ops (bp_sem p2) of None \<Rightarrow> None | Some s \<Rightarrow> Some (p2\<lparr>bp_sem := s\<rparr>))"

text \<open>The health check: the pings, the closing of the dead, and the replacements.\<close>

fun ping_each :: "'w chrome \<Rightarrow> ('s, 'w) browser_Pool \<Rightarrow> nat list \<Rightarrow> nat list \<times> nat list \<times> ('s, 'w) browser_Pool" where
  "ping_each ch p [] = ([], [], p)"
| "ping_each ch p (b # bs) =
     (case Browser_Ping ch p b of
        (None, p1) \<Rightarrow> (case ping_each ch p1 bs of (healthy, dead, q) \<Rightarrow> (b # healthy, dead, q))
      | (Some err, p1) \<Rightarrow> (case ping_each ch p1 bs of (healthy, dead, q) \<Rightarrow> (healthy, b # dead, q)))"

fun spawn :: "'w chrome \<Rightarrow> nat \<Rightarrow> ('s, 'w) browser_Pool \<Rightarrow> ('s, 'w) browser_Pool" where
  "spawn ch 0 p = p"
| "spawn ch (Suc n) p =
     (case newBrowser ch p (bc_MaxTabsPerBrowser (bp_cfg p)) of
        (Inl err, p1) \<Rightarrow> spawn ch n p1
      | (Inr b, p1) \<Rightarrow> spawn ch n (p1\<lparr>bp_browsers := bp_browsers p1 @ [b]\<rparr>))"

definition checkHealth :: "'w chrome \<Rightarrow> ('s, 'w) browser_Pool \<Rightarrow> ('s, 'w) browser_Pool" where
  "checkHealth ch p =
     (let unusable = (\<lambda>b. br_closed (bp_store p b) \<or> Exhausted (bp_store p b));
          dead0 = filter unusable (bp_browsers p);
          live = filter (\<lambda>b. \<not> unusable b) (bp_browsers p)
      in case ping_each ch p live of
           (healthy, dead1, p1) \<Rightarrow>
             let dead = dead0 @ dead1;
                 p2 = fold (\<lambda>b q. Browser_Close ch q b) dead p1;
                 p3 = p2\<lparr>bp_browsers := healthy @ bp_browsers p2\<rparr>
             in spawn ch (length dead) p3)"

definition Pool_Close :: "'w chrome \<Rightarrow> ('s, 'w) browser_Pool \<Rightarrow> ('s, 'w) browser_Pool" where
  "Pool_Close ch p =
     (if bp_closed p then p
      else
        let p1 = closeAll ch (p\<lparr>bp_closed := True\<rparr>)
        in p1\<lparr>bp_world := ch_alloc_cancel ch (bp_world p1)\<rparr>)"

section \<open>renderer.go\<close>

record RenderRequest =
  rq_URL :: string
  rq_Wait :: "WaitCondition option"
  rq_Resources :: ResourceFilter
  rq_Screenshot :: bool
  rq_ScreenshotQuality :: int
  rq_Timeout :: Duration
  rq_JavaScript :: string

definition render_actions :: "RenderRequest \<Rightarrow> chrome_action list" where
  "render_actions req =
     filter_apply (rq_Resources req) @ [Navigate (rq_URL req)] @
     wait_actions (case rq_Wait req of None \<Rightarrow> WaitDOMContentLoaded | Some wc \<Rightarrow> wc) @
     [Location, OuterHTML ''html''] @
     (if rq_Screenshot req then [FullScreenshot 100] else []) @
     (if rq_JavaScript req \<noteq> [] then [Evaluate (rq_JavaScript req)] else [])"

text \<open>\<open>Render\<close>, with the release of the browser on every way out; \<open>None\<close> as for \<open>Acquire\<close>.\<close>

definition Render :: "'s sem_ops \<Rightarrow> 'w chrome \<Rightarrow> error option \<Rightarrow> ('s, 'w) browser_Pool \<Rightarrow> RenderRequest \<Rightarrow> ((error + RenderResult) \<times> ('s, 'w) browser_Pool) option" where
  "Render ops ch ctx p req =
     (if rq_URL req = [] then Some (Inl (ErrorString ''render: URL is required''), p)
      else
        let timeout = (if rq_Timeout req = 0 then 30 * Second else rq_Timeout req)
        in (case Pool_Acquire ops ch ctx p of
              None \<Rightarrow> None
            | Some (Inl err, p1) \<Rightarrow> Some (Inl (WrapError ''render: acquire browser: '' err []), p1)
            | Some (Inr b, p1) \<Rightarrow>
                (case (case NewTab p1 b of
                         (Some err, p2) \<Rightarrow> (Inl (WrapError ''render: new tab: '' err []), p2)
                       | (None, p2) \<Rightarrow>
                           (case ch_Run ch (bp_world p2) b timeout (render_actions req) of
                              (Inl err, w) \<Rightarrow> (Inl (WrapError (''render '' @ rq_URL req @ '': '') err []), p2\<lparr>bp_world := w\<rparr>)
                            | (Inr res, w) \<Rightarrow> (Inr res, p2\<lparr>bp_world := w\<rparr>))) of
                   (r, p3) \<Rightarrow> (case pool_release ops ch p3 b of None \<Rightarrow> None | Some p4 \<Rightarrow> Some (r, p4)))))"

section \<open>The pool under concurrent use\<close>

text \<open>
  The callers of \<open>Acquire\<close>: \<open>pr_picking\<close> of them have a permit and no browser yet, \<open>pr_held\<close> are the
  browsers that were handed out and not released.  A holder may open tabs or close its browser.
  The steps are the critical sections of the code; the health check is not one of them.
\<close>

record ('s, 'w) pool_run =
  pr_pool :: "('s, 'w) browser_Pool"
  pr_picking :: nat
  pr_held :: "nat multiset"

inductive pool_step :: "'s sem_ops \<Rightarrow> 'w chrome \<Rightarrow> ('s, 'w) pool_run \<Rightarrow> ('s, 'w) pool_run \<Rightarrow> bool" for ops ch where
  permit: "sem_Acquire ops ctx (bp_sem p) = Some (Inr s) \<Longrightarrow>
     pool_step ops ch \<lparr>pr_pool = p, pr_picking = n, pr_held = H\<rparr> \<lparr>pr_pool = p\<lparr>bp_sem := s\<rparr>, pr_picking = Suc n, pr_held = H\<rparr>"
| picked: "pick ch p = (Inr b, p') \<Longrightarrow>
     pool_step ops ch \<lparr>pr_pool = p, pr_picking = Suc n, pr_held = H\<rparr> \<lparr>pr_pool = p', pr_picking = n, pr_held = add_mset b H\<rparr>"
| pick_failed: "pick ch p = (Inl err, p') \<Longrightarrow> sem_Release ops (bp_sem p') = Some s \<Longrightarrow>
     pool_step ops ch \<lparr>pr_pool = p, pr_picking = Suc n, pr_held = H\<rparr> \<lparr>pr_pool = p'\<lparr>bp_sem := s\<rparr>, pr_picking = n, pr_held = H\<rparr>"
| tab: "NewTab p b = (r, p') \<Longrightarrow>
     pool_step ops ch \<lparr>pr_pool = p, pr_picking = n, pr_held = add_mset b H\<rparr> \<lparr>pr_pool = p', pr_picking = n, pr_held = add_mset b H\<rparr>"
| kill: "pool_step ops ch \<lparr>pr_pool = p, pr_picking = n, pr_held = add_mset b H\<rparr> \<lparr>pr_pool = Browser_Close ch p b, pr_picking = n, pr_held = add_mset b H\<rparr>"
| released: "pool_release ops ch p b = Some p' \<Longrightarrow>
     pool_step ops ch \<lparr>pr_pool = p, pr_picking = n, pr_held = add_mset b H\<rparr> \<lparr>pr_pool = p', pr_picking = n, pr_held = H\<rparr>"
| closed: "pool_step ops ch \<lparr>pr_pool = p, pr_picking = n, pr_held = H\<rparr> \<lparr>pr_pool = Pool_Close ch p, pr_picking = n, pr_held = H\<rparr>"

definition usable :: "Browser \<Rightarrow> bool" where
  "usable b \<longleftrightarrow> \<not> br_closed b \<and> \<not> Exhausted b"

text \<open>The part of the invariant about the browsers, and the one about the permits.\<close>

definition owned :: "('s, 'w) browser_Pool \<Rightarrow> nat multiset \<Rightarrow> bool" where
  "owned p H \<longleftrightarrow> 0 < bc_MaxTabsPerBrowser (bp_cfg p) \<and> (\<forall>b. count (mset (bp_browsers p) + H) b \<le> 1) \<and>
     (\<forall>b\<in>#mset (bp_browsers p) + H. b < bp_next p) \<and> int (length (bp_browsers p) + size H) \<le> bc_MaxBrowsers (bp_cfg p) \<and>
     (\<forall>b\<in>set (bp_browsers p). usable (bp_store p b))"

definition pool_inv :: "('s \<Rightarrow> int) \<Rightarrow> ('s \<Rightarrow> nat) \<Rightarrow> ('s, 'w) pool_run \<Rightarrow> bool" where
  "pool_inv cap held r \<longleftrightarrow> owned (pr_pool r) (pr_held r) \<and> cap (bp_sem (pr_pool r)) = bc_MaxBrowsers (bp_cfg (pr_pool r)) \<and>
     held (bp_sem (pr_pool r)) = pr_picking r + size (pr_held r) \<and> int (held (bp_sem (pr_pool r))) \<le> cap (bp_sem (pr_pool r))"

text \<open>The pool but for its idle list, its store and the world.\<close>

definition same_pool :: "('s, 'w) browser_Pool \<Rightarrow> ('s, 'w) browser_Pool \<Rightarrow> bool" where
  "same_pool p q \<longleftrightarrow> bp_cfg q = bp_cfg p \<and> bp_sem q = bp_sem p"

lemma newBrowser_Inl: "newBrowser ch p m = (Inl err, q) \<Longrightarrow> same_pool p q \<and> bp_browsers q = bp_browsers p \<and> bp_store q = bp_store p \<and> bp_next q = bp_next p"
  by (auto simp: newBrowser_def same_pool_def split: prod.splits option.splits)

lemma newBrowser_Inr:
  "newBrowser ch p m = (Inr b, q) \<Longrightarrow> same_pool p q \<and> bp_browsers q = bp_browsers p \<and> b = bp_next p \<and> bp_next q = Suc b \<and>
   bp_store q = (bp_store p)(b := \<lparr>br_tabsUsed = 0, br_maxTabs = m, br_closed = False\<rparr>)"
  by (auto simp: newBrowser_def same_pool_def split: prod.splits option.splits)

lemma Browser_Close_facts:
  "same_pool p (Browser_Close ch p b)" "bp_browsers (Browser_Close ch p b) = bp_browsers p" "bp_next (Browser_Close ch p b) = bp_next p"
  "x \<noteq> b \<Longrightarrow> bp_store (Browser_Close ch p b) x = bp_store p x" "br_closed (bp_store (Browser_Close ch p b) b)"
  by (auto simp: Browser_Close_def same_pool_def)

lemma NewTab_facts:
  "NewTab p b = (r, q) \<Longrightarrow> same_pool p q \<and> bp_browsers q = bp_browsers p \<and> bp_next q = bp_next p \<and> (\<forall>x. x \<noteq> b \<longrightarrow> bp_store q x = bp_store p x)"
  by (auto simp: NewTab_def same_pool_def split: if_splits)

lemma close_fold_facts:
  "same_pool p (fold (\<lambda>b q. Browser_Close ch q b) bs p) \<and> bp_next (fold (\<lambda>b q. Browser_Close ch q b) bs p) = bp_next p \<and>
   bp_browsers (fold (\<lambda>b q. Browser_Close ch q b) bs p) = bp_browsers p \<and>
   (\<forall>x. br_closed (bp_store (fold (\<lambda>b q. Browser_Close ch q b) bs p) x) = (br_closed (bp_store p x) \<or> x \<in> set bs)) \<and>
   (\<forall>x. x \<notin> set bs \<longrightarrow> bp_store (fold (\<lambda>b q. Browser_Close ch q b) bs p) x = bp_store p x)"
proof (induction bs arbitrary: p)
  case Nil
  then show ?case by (simp add: same_pool_def)
next
  case (Cons b bs)
  have "br_closed (bp_store (Browser_Close ch p b) x) = (br_closed (bp_store p x) \<or> x = b)" for x
    by (simp add: Browser_Close_def)
  then show ?case using Cons [of "Browser_Close ch p b"] Browser_Close_facts [where p = p and ch = ch and b = b] by (auto simp: same_pool_def)
qed

text \<open>A browser in use may change; a new one may join the idle list in place of a permit.\<close>

lemma owned_held_change:
  assumes "owned p (add_mset b H)" "same_pool p q" "bp_browsers q = bp_browsers p" "bp_next q = bp_next p" "\<And>x. x \<noteq> b \<Longrightarrow> bp_store q x = bp_store p x"
  shows "owned q (add_mset b H)"
proof -
  have "count (mset (bp_browsers p) + add_mset b H) b \<le> 1" using assms(1) unfolding owned_def by blast
  then have "b \<notin> set (bp_browsers p)" by (simp add: count_mset_0_iff)
  then have "\<forall>x\<in>set (bp_browsers p). bp_store q x = bp_store p x" using assms(5) by metis
  then show ?thesis using assms by (simp add: owned_def same_pool_def)
qed

lemma owned_fresh:
  assumes "owned p H" "newBrowser ch p (bc_MaxTabsPerBrowser (bp_cfg p)) = (Inr b, q)" "int (length (bp_browsers p) + size H) < bc_MaxBrowsers (bp_cfg p)"
  shows "owned q (add_mset b H)" "owned (q\<lparr>bp_browsers := bp_browsers q @ [b]\<rparr>) H"
proof -
  note n = newBrowser_Inr [OF assms(2)]
  have new: "b \<notin> set (bp_browsers p)" "b \<notin># H" using n assms(1) by (auto simp: owned_def)
  then have c: "count (mset (bp_browsers p)) b = 0" "count H b = 0" by (simp_all add: not_in_iff flip: count_greater_zero_iff)
  show "owned q (add_mset b H)" "owned (q\<lparr>bp_browsers := bp_browsers q @ [b]\<rparr>) H"
    using n assms(1,3) new c unfolding owned_def same_pool_def by (auto simp: usable_def Exhausted_def less_Suc_eq)
qed

lemma owned_drop:
  assumes o: "owned p (add_mset b H)"
  shows "owned p H \<and> int (length (bp_browsers p) + size H) < bc_MaxBrowsers (bp_cfg p)"
proof -
  have "count (mset (bp_browsers p) + H) x \<le> 1" for x
  proof -
    have "count (mset (bp_browsers p) + add_mset b H) x \<le> 1" using o unfolding owned_def by blast
    moreover have "count (mset (bp_browsers p) + H) x \<le> count (mset (bp_browsers p) + add_mset b H) x" by auto
    ultimately show ?thesis by linarith
  qed
  then show ?thesis using o by (simp add: owned_def)
qed

lemma owned_return: "owned p (add_mset b H) \<Longrightarrow> usable (bp_store p b) \<Longrightarrow> owned (p\<lparr>bp_browsers := bp_browsers p @ [b]\<rparr>) H"
  unfolding owned_def by auto

lemma owned_take: "owned p H \<Longrightarrow> bp_browsers p \<noteq> [] \<Longrightarrow> owned (p\<lparr>bp_browsers := butlast (bp_browsers p)\<rparr>) (add_mset (last (bp_browsers p)) H)"
proof -
  assume a: "owned p H" "bp_browsers p \<noteq> []"
  then obtain bs b where b: "bp_browsers p = bs @ [b]" by (metis append_butlast_last_id)
  show ?thesis using a(1) unfolding owned_def b by auto
qed

lemma owned_closeAll: "owned p H \<Longrightarrow> owned (closeAll ch p) H"
proof -
  assume o: "owned p H"
  have "count H b \<le> 1" for b using o unfolding owned_def by (metis add_leD2 count_union)
  then show ?thesis using o close_fold_facts [of p ch "bp_browsers p"] by (auto simp: owned_def closeAll_def same_pool_def)
qed

lemma owned_sem [simp]: "owned (p\<lparr>bp_sem := s\<rparr>) H = owned p H" "owned (p\<lparr>bp_world := w\<rparr>) H = owned p H" "owned (p\<lparr>bp_closed := c\<rparr>) H = owned p H"
  by (simp_all add: owned_def)

lemma pick_owned:
  assumes "owned p H" "int (size H) < bc_MaxBrowsers (bp_cfg p)" "pick ch p = (r, q)"
  shows "same_pool p q \<and> (case r of Inl err \<Rightarrow> owned q H | Inr b \<Rightarrow> owned q (add_mset b H) \<and> usable (bp_store q b))"
proof (cases "bp_browsers p = []")
  case True
  show ?thesis
  proof (cases "newBrowser ch p (bc_MaxTabsPerBrowser (bp_cfg p))")
    case (Pair x p1)
    show ?thesis
    proof (cases x)
      case (Inl err)
      then show ?thesis using True assms Pair newBrowser_Inl [of ch p _ err p1] by (auto simp: pick_def owned_def same_pool_def)
    next
      case (Inr b)
      then have q: "r = Inr b" "q = p1" using True assms(3) Pair by (auto simp: pick_def)
      have n: "newBrowser ch p (bc_MaxTabsPerBrowser (bp_cfg p)) = (Inr b, p1)" using Pair Inr by simp
      have "usable (bp_store p1 b)" using newBrowser_Inr [OF n] assms(1) by (simp add: usable_def Exhausted_def owned_def)
      then show ?thesis using q owned_fresh(1) [OF assms(1) n] assms(2) True newBrowser_Inr [OF n] by simp
    qed
  qed
next
  case False
  then have "usable (bp_store p (last (bp_browsers p)))" using assms(1) by (simp add: owned_def)
  then show ?thesis using False assms(3) owned_take [OF assms(1) False] by (auto simp: pick_def same_pool_def)
qed

lemma put_back_owned:
  assumes "owned p (add_mset b H)"
  shows "owned (put_back ch p b) H \<and> same_pool p (put_back ch p b)"
proof (cases "Exhausted (bp_store p b) \<or> br_closed (bp_store p b)")
  case False
  then show ?thesis using owned_return [OF assms] by (auto simp: put_back_def usable_def same_pool_def)
next
  case True
  let ?p = "Browser_Close ch p b"
  note c = Browser_Close_facts [where p = p and ch = ch and b = b]
  have o: "owned ?p H" "int (length (bp_browsers ?p) + size H) < bc_MaxBrowsers (bp_cfg ?p)"
    using owned_drop [OF owned_held_change [OF assms c(1-3)]] c(4) by auto
  obtain x q where n: "newBrowser ch ?p (bc_MaxTabsPerBrowser (bp_cfg ?p)) = (x, q)" by force
  show ?thesis
  proof (cases x)
    case (Inl err)
    then have "put_back ch p b = q" using True n by (simp add: put_back_def Let_def)
    moreover have "owned q H" using newBrowser_Inl n Inl o(1) by (fastforce simp: owned_def same_pool_def)
    ultimately show ?thesis using newBrowser_Inl [of ch ?p _ err q] n Inl c(1) by (simp add: same_pool_def)
  next
    case (Inr r)
    then have "put_back ch p b = q\<lparr>bp_browsers := bp_browsers q @ [r]\<rparr>" using True n by (simp add: put_back_def Let_def)
    moreover have "newBrowser ch ?p (bc_MaxTabsPerBrowser (bp_cfg ?p)) = (Inr r, q)" using n Inr by simp
    ultimately show ?thesis using owned_fresh(2) [OF o(1) _ o(2)] newBrowser_Inr c(1) by (fastforce simp: same_pool_def)
  qed
qed

lemma pool_inv_step:
  assumes law: "semaphore_law ops cap held" and step: "pool_step ops ch r r'" and inv: "pool_inv cap held r"
  shows "pool_inv cap held r'"
  using step
proof cases
  case (permit ctx p s n H)
  then show ?thesis using inv semaphore_acquired [OF law permit(3)] by (simp add: pool_inv_def)
next
  case (picked p b p' n H)
  have "int (size H) < bc_MaxBrowsers (bp_cfg p)" using inv picked(1) by (simp add: pool_inv_def)
  then have "same_pool p p'" "owned p' (add_mset b H)" using inv picked(1) pick_owned [OF _ _ picked(3), of H] by (simp_all add: pool_inv_def)
  then show ?thesis using inv picked(1,2) by (simp add: pool_inv_def same_pool_def)
next
  case (pick_failed p err p' s n H)
  have "int (size H) < bc_MaxBrowsers (bp_cfg p)" using inv pick_failed(1) by (simp add: pool_inv_def)
  then have q: "same_pool p p'" "owned p' H" using inv pick_failed(1) pick_owned [OF _ _ pick_failed(3), of H] by (simp_all add: pool_inv_def)
  then have "held (bp_sem p') = Suc n + size H" using inv pick_failed(1) by (simp add: pool_inv_def same_pool_def)
  then obtain s' where "sem_Release ops (bp_sem p') = Some s'" "cap s' = cap (bp_sem p')" "held s' = held (bp_sem p') - 1"
    using semaphore_released [OF law, of "bp_sem p'"] by auto
  then show ?thesis using inv pick_failed q by (simp add: pool_inv_def same_pool_def)
next
  case (tab p b x p' n H)
  then show ?thesis using inv NewTab_facts [OF tab(3)] owned_held_change [of p b H p'] by (simp add: pool_inv_def same_pool_def)
next
  case (kill p n b H)
  note c = Browser_Close_facts [where p = p and ch = ch and b = b]
  have "owned (Browser_Close ch p b) (add_mset b H)"
    using inv kill(1) owned_held_change [OF _ c(1-3), where H = H] c(4) by (simp add: pool_inv_def)
  then show ?thesis using inv kill c(1) by (simp add: pool_inv_def same_pool_def)
next
  case (released p b p' n H)
  have o: "owned (put_back ch p b) H" "same_pool p (put_back ch p b)" using put_back_owned [of p b H ch] inv released(1) by (simp_all add: pool_inv_def)
  then have "held (bp_sem (put_back ch p b)) = n + Suc (size H)" using inv released(1) by (simp add: pool_inv_def same_pool_def)
  then obtain s' where "sem_Release ops (bp_sem (put_back ch p b)) = Some s'" "cap s' = cap (bp_sem (put_back ch p b))" "held s' = n + size H"
    using semaphore_released [OF law, of "bp_sem (put_back ch p b)"] by auto
  then show ?thesis using inv released o by (auto simp: pool_inv_def same_pool_def pool_release_def)
next
  case (closed p n H)
  have "same_pool p (Pool_Close ch p) \<and> owned (Pool_Close ch p) H"
    using inv closed(1) owned_closeAll [of "p\<lparr>bp_closed := True\<rparr>" H ch] close_fold_facts [of "p\<lparr>bp_closed := True\<rparr>" ch "bp_browsers p"]
    by (auto simp: Pool_Close_def pool_inv_def Let_def same_pool_def closeAll_def)
  then show ?thesis using inv closed by (simp add: pool_inv_def same_pool_def)
qed

text \<open>The pool as \<open>NewPool\<close> leaves it.\<close>

lemma prewarm_owned:
  "owned p {#} \<Longrightarrow> int (length (bp_browsers p) + n) \<le> bc_MaxBrowsers (bp_cfg p) \<Longrightarrow> prewarm ch i n p = (err, q) \<Longrightarrow> owned q {#} \<and> same_pool p q"
proof (induction n arbitrary: i p)
  case 0
  then show ?case by (auto simp: same_pool_def)
next
  case (Suc n)
  obtain x p1 where b: "newBrowser ch p (bc_MaxTabsPerBrowser (bp_cfg p)) = (x, p1)" by force
  show ?case
  proof (cases x)
    case (Inl e)
    have p1: "owned p1 {#}" "same_pool p p1" using newBrowser_Inl [of ch p _ e p1] b Inl Suc.prems(1) by (simp_all add: owned_def same_pool_def)
    have "same_pool p1 (closeAll ch p1)" using close_fold_facts [of p1 ch "bp_browsers p1"] by (simp add: closeAll_def same_pool_def)
    then show ?thesis using Suc.prems(3) b Inl p1 owned_closeAll [OF p1(1), of ch] by (auto simp: same_pool_def Let_def)
  next
    case (Inr a)
    have nb: "newBrowser ch p (bc_MaxTabsPerBrowser (bp_cfg p)) = (Inr a, p1)" using b Inr by simp
    have o: "owned (p1\<lparr>bp_browsers := bp_browsers p1 @ [a]\<rparr>) {#}" using owned_fresh(2) [OF Suc.prems(1) nb] Suc.prems(2) by simp
    have "owned q {#} \<and> same_pool (p1\<lparr>bp_browsers := bp_browsers p1 @ [a]\<rparr>) q"
      by (rule Suc.IH [OF o]) (use newBrowser_Inr [OF nb] Suc.prems(2,3) nb in \<open>auto simp: same_pool_def\<close>)
    then show ?thesis using newBrowser_Inr [OF nb] by (simp add: same_pool_def)
  qed
qed

lemma browser_defaults_pos: "0 < bc_MaxBrowsers (browser_Config_withDefaults c)" "0 < bc_MaxTabsPerBrowser (browser_Config_withDefaults c)"
  by (simp_all add: browser_Config_withDefaults_def Let_def)

lemma NewPool_inv:
  assumes law: "semaphore_law ops cap held" and new: "NewPool ops ch w cfg = (err, p)"
  shows "pool_inv cap held \<lparr>pr_pool = p, pr_picking = 0, pr_held = {#}\<rparr> \<and> bp_cfg p = browser_Config_withDefaults cfg"
proof -
  note pos = browser_defaults_pos [of cfg]
  let ?cfg = "browser_Config_withDefaults cfg"
  let ?p0 = "\<lparr>bp_cfg = ?cfg, bp_sem = sem_NewWeighted ops (bc_MaxBrowsers ?cfg), bp_browsers = [], bp_closed = False,
      bp_store = (\<lambda>b. \<lparr>br_tabsUsed = 0, br_maxTabs = 0, br_closed = True\<rparr>), bp_next = 0, bp_world = ch_alloc ch w (exec_options ?cfg)\<rparr>"
  have o: "owned ?p0 {#}" using pos by (simp add: owned_def)
  have "owned p {#} \<and> same_pool ?p0 p"
    by (rule prewarm_owned [OF o, where n = "nat (bc_MaxBrowsers ?cfg)"]) (use new pos in \<open>simp_all add: NewPool_def Let_def\<close>)
  then have "owned p {#} \<and> bp_cfg p = ?cfg \<and> bp_sem p = sem_NewWeighted ops (bc_MaxBrowsers ?cfg)" by (simp add: same_pool_def)
  then show ?thesis using law pos by (auto simp: pool_inv_def semaphore_law_def)
qed

lemma pool_inv_run:
  assumes "semaphore_law ops cap held" and "(pool_step ops ch)\<^sup>*\<^sup>* r r'" and "pool_inv cap held r"
  shows "pool_inv cap held r'"
  using assms(2,3) by induction (use pool_inv_step [OF assms(1)] in blast)+

lemma release_total:
  assumes law: "semaphore_law ops cap held" and inv: "pool_inv cap held \<lparr>pr_pool = p, pr_picking = n, pr_held = add_mset b H\<rparr>"
  shows "\<exists>p'. pool_release ops ch p b = Some p'"
proof -
  have "bp_sem (put_back ch p b) = bp_sem p" using put_back_owned [of p b H ch] inv by (simp add: same_pool_def pool_inv_def)
  moreover obtain s where "sem_Release ops (bp_sem p) = Some s"
    using semaphore_released [OF law, of "bp_sem p"] inv by (auto simp: pool_inv_def)
  ultimately show ?thesis by (simp add: pool_release_def)
qed

lemma pool_inv_world [simp]: "pool_inv cap held \<lparr>pr_pool = p\<lparr>bp_world := w\<rparr>, pr_picking = n, pr_held = H\<rparr> = pool_inv cap held \<lparr>pr_pool = p, pr_picking = n, pr_held = H\<rparr>"
  by (simp add: pool_inv_def)

text \<open>
  C16. However the callers of \<open>Acquire\<close> and the release functions interleave, also with \<open>Close\<close> and with
  holders that close their browser, and as long as no health check runs: no browser is handed out
  twice or kept in the idle list while it is in use; the idle browsers and those in use are never
  more than \<open>MaxBrowsers\<close>; a browser that is handed out is open and has tabs left; and giving it
  back does not panic.
\<close>

theorem pool_exclusive:
  assumes law: "semaphore_law ops cap held" and new: "NewPool ops ch w cfg = (err, p0)"
    and run: "(pool_step ops ch)\<^sup>*\<^sup>* \<lparr>pr_pool = p0, pr_picking = 0, pr_held = {#}\<rparr> \<lparr>pr_pool = p, pr_picking = n, pr_held = H\<rparr>"
  shows "distinct (bp_browsers p) \<and> (\<forall>b. count H b \<le> 1) \<and> set_mset H \<inter> set (bp_browsers p) = {} \<and>
    int (length (bp_browsers p) + size H) \<le> bc_MaxBrowsers (bp_cfg p) \<and>
    (\<forall>b q. 0 < n \<and> pick ch p = (Inr b, q) \<longrightarrow> b \<notin># H \<and> usable (bp_store q b)) \<and>
    (\<forall>b. b \<in># H \<longrightarrow> pool_release ops ch p b \<noteq> None)"
proof -
  have inv: "pool_inv cap held \<lparr>pr_pool = p, pr_picking = n, pr_held = H\<rparr>"
    using pool_inv_run [OF law run] NewPool_inv [OF law new] by simp
  then have o: "owned p H" "held (bp_sem p) = n + size H" "int (held (bp_sem p)) \<le> bc_MaxBrowsers (bp_cfg p)" by (simp_all add: pool_inv_def)
  have c: "count (mset (bp_browsers p)) b + count H b \<le> 1" for b using o(1) unfolding owned_def by (metis count_union)
  have "distinct (bp_browsers p)"
    unfolding distinct_count_atmost_1 by (metis c add_leD1 count_mset_0_iff le_SucE le_zero_eq One_nat_def)
  moreover have "set_mset H \<inter> set (bp_browsers p) = {}"
  proof (rule ccontr)
    assume "set_mset H \<inter> set (bp_browsers p) \<noteq> {}"
    then obtain b where "0 < count H b" "0 < count (mset (bp_browsers p)) b" by auto
    then show False using c [of b] by linarith
  qed
  moreover have "b \<notin># H \<and> usable (bp_store q b)" if "0 < n \<and> pick ch p = (Inr b, q)" for b q
  proof -
    have q: "owned q (add_mset b H)" "usable (bp_store q b)" using pick_owned [OF o(1), of ch "Inr b" q] that o by auto
    have "count (mset (bp_browsers q) + add_mset b H) b \<le> 1" using q(1) unfolding owned_def by blast
    then show ?thesis using q(2) by (simp add: not_in_iff)
  qed
  moreover have "pool_release ops ch p b \<noteq> None" if "b \<in># H" for b
    using release_total [OF law] inv that by (metis insert_DiffM option.distinct(1))
  ultimately show ?thesis using o(1) c by (auto simp: owned_def) (metis add_leD2)
qed


section \<open>The health check\<close>

lemma ping_each_ok:
  assumes "\<And>w b. fst (ch_Ping ch w b) = None" "\<forall>b\<in>set bs. \<not> br_closed (bp_store p b)"
  shows "\<exists>w. ping_each ch p bs = (bs, [], p\<lparr>bp_world := w\<rparr>)"
  using assms(2)
proof (induction bs arbitrary: p)
  case Nil
  then show ?case by (auto intro: exI [of _ "bp_world p"])
next
  case (Cons b bs)
  obtain w where "ch_Ping ch (bp_world p) b = (None, w)" using assms(1) by (metis prod.collapse)
  then have "Browser_Ping ch p b = (None, p\<lparr>bp_world := w\<rparr>)" using Cons.prems by (simp add: Browser_Ping_def)
  then show ?case using Cons.IH [of "p\<lparr>bp_world := w\<rparr>"] Cons.prems by auto
qed

lemma spawn_ok:
  assumes "\<And>w. fst (ch_Start ch w) = None"
  shows "bp_browsers (spawn ch n p) = bp_browsers p @ [bp_next p..<bp_next p + n] \<and> bp_next (spawn ch n p) = bp_next p + n \<and>
    bp_cfg (spawn ch n p) = bp_cfg p \<and> (\<forall>x < bp_next p. bp_store (spawn ch n p) x = bp_store p x) \<and>
    (\<forall>x. bp_next p \<le> x \<and> x < bp_next p + n \<longrightarrow>
       bp_store (spawn ch n p) x = \<lparr>br_tabsUsed = 0, br_maxTabs = bc_MaxTabsPerBrowser (bp_cfg p), br_closed = False\<rparr>)"
proof (induction n arbitrary: p)
  case 0
  then show ?case by auto
next
  case (Suc n)
  obtain b p1 where b: "newBrowser ch p (bc_MaxTabsPerBrowser (bp_cfg p)) = (Inr b, p1)"
    using assms [of "bp_world p"] by (cases "ch_Start ch (bp_world p)") (auto simp: newBrowser_def)
  let ?q = "p1\<lparr>bp_browsers := bp_browsers p1 @ [b]\<rparr>"
  have q: "bp_browsers ?q = bp_browsers p @ [bp_next p]" "bp_next ?q = Suc (bp_next p)" "bp_cfg ?q = bp_cfg p"
    "bp_store ?q = (bp_store p)(bp_next p := \<lparr>br_tabsUsed = 0, br_maxTabs = bc_MaxTabsPerBrowser (bp_cfg p), br_closed = False\<rparr>)"
    using newBrowser_Inr [OF b] by (simp_all add: same_pool_def)
  have sp: "spawn ch (Suc n) p = spawn ch n ?q" using b by simp
  note ih = Suc [of ?q, unfolded q]
  have up: "[bp_next p..<bp_next p + Suc n] = bp_next p # [Suc (bp_next p)..<Suc (bp_next p) + n]" by (simp add: upt_conv_Cons)
  have "bp_store (spawn ch n ?q) (bp_next p) = \<lparr>br_tabsUsed = 0, br_maxTabs = bc_MaxTabsPerBrowser (bp_cfg p), br_closed = False\<rparr>"
    using ih by simp
  then have "bp_store (spawn ch n ?q) x = \<lparr>br_tabsUsed = 0, br_maxTabs = bc_MaxTabsPerBrowser (bp_cfg p), br_closed = False\<rparr>"
    if "bp_next p \<le> x" "x < bp_next p + Suc n" for x
    using ih that by (cases "x = bp_next p") auto
  then show ?case unfolding sp up using ih by simp
qed

lemma checkHealth_effect:
  assumes pings: "\<And>w b. fst (ch_Ping ch w b) = None" and starts: "\<And>w. fst (ch_Start ch w) = None"
    and bound: "\<forall>b\<in>set (bp_browsers p). b < bp_next p" and tabs: "0 < bc_MaxTabsPerBrowser (bp_cfg p)"
  defines "live \<equiv> filter (\<lambda>b. usable (bp_store p b)) (bp_browsers p)" and "dead \<equiv> filter (\<lambda>b. \<not> usable (bp_store p b)) (bp_browsers p)"
  shows "bp_browsers (checkHealth ch p) = live @ bp_browsers p @ [bp_next p..<bp_next p + length dead] \<and>
    bp_next (checkHealth ch p) = bp_next p + length dead \<and> bp_cfg (checkHealth ch p) = bp_cfg p \<and>
    (\<forall>b\<in>set live. bp_store (checkHealth ch p) b = bp_store p b) \<and> (\<forall>b\<in>set dead. br_closed (bp_store (checkHealth ch p) b)) \<and>
    (\<forall>b. bp_next p \<le> b \<and> b < bp_next p + length dead \<longrightarrow> usable (bp_store (checkHealth ch p) b))"
proof -
  have l: "filter (\<lambda>b. \<not> (br_closed (bp_store p b) \<or> Exhausted (bp_store p b))) (bp_browsers p) = live"
    and d: "filter (\<lambda>b. br_closed (bp_store p b) \<or> Exhausted (bp_store p b)) (bp_browsers p) = dead"
    unfolding live_def dead_def usable_def by simp_all
  obtain w where "ping_each ch p live = (live, [], p\<lparr>bp_world := w\<rparr>)"
    using ping_each_ok [OF pings, where bs = live and p = p] by (auto simp: live_def usable_def)
  then have c: "checkHealth ch p = spawn ch (length dead)
      ((fold (\<lambda>b q. Browser_Close ch q b) dead (p\<lparr>bp_world := w\<rparr>))\<lparr>bp_browsers := live @ bp_browsers (fold (\<lambda>b q. Browser_Close ch q b) dead (p\<lparr>bp_world := w\<rparr>))\<rparr>)"
    by (simp only: checkHealth_def l d Let_def append_Nil2 prod.case)
  have disj: "set live \<inter> set dead = {}" by (auto simp: live_def dead_def)
  have small: "\<forall>b\<in>set live \<union> set dead. b < bp_next p" using bound by (auto simp: live_def dead_def)
  show ?thesis
    using close_fold_facts [of "p\<lparr>bp_world := w\<rparr>" ch dead] tabs disj small
      spawn_ok [OF starts, of "length dead" "(fold (\<lambda>b q. Browser_Close ch q b) dead (p\<lparr>bp_world := w\<rparr>))\<lparr>bp_browsers := live @ bp_browsers (fold (\<lambda>b q. Browser_Close ch q b) dead (p\<lparr>bp_world := w\<rparr>))\<rparr>"]
    unfolding c by (auto simp: same_pool_def usable_def Exhausted_def)
qed

text \<open>
  The health check never takes anything out of the idle list: the healthy browsers are put into it
  a second time, and those it closed stay in it.  A closed browser in the list is found dead by every
  later check, which launches yet another browser for it, so after \<open>k\<close> checks the idle list holds
  at least \<open>k\<close> open browsers, whatever \<open>MaxBrowsers\<close> is.
\<close>

theorem checkHealth_leaks:
  assumes pings: "\<And>w b. fst (ch_Ping ch w b) = None" and starts: "\<And>w. fst (ch_Start ch w) = None"
    and bound: "\<forall>b\<in>set (bp_browsers p). b < bp_next p" and tabs: "0 < bc_MaxTabsPerBrowser (bp_cfg p)"
    and dead: "d \<in> set (bp_browsers p)" "br_closed (bp_store p d)"
  shows "(\<exists>fresh. bp_browsers (checkHealth ch p) = filter (\<lambda>b. usable (bp_store p b)) (bp_browsers p) @ bp_browsers p @ fresh) \<and>
    d \<in> set (bp_browsers (checkHealth ch p)) \<and>
    (\<exists>F. F \<subseteq> set (bp_browsers ((checkHealth ch ^^ k) p)) \<and> card F = k \<and> (\<forall>b\<in>F. usable (bp_store ((checkHealth ch ^^ k) p) b)))"
proof -
  let ?q = "\<lambda>n. (checkHealth ch ^^ n) p"
  have "(\<forall>b\<in>set (bp_browsers (?q n)). b < bp_next (?q n)) \<and> 0 < bc_MaxTabsPerBrowser (bp_cfg (?q n)) \<and>
      d \<in> set (bp_browsers (?q n)) \<and> br_closed (bp_store (?q n) d) \<and>
      (\<exists>F. F \<subseteq> set (bp_browsers (?q n)) \<and> card F = n \<and> (\<forall>b\<in>F. usable (bp_store (?q n) b)))" for n
  proof (induction n)
    case 0
    then show ?case using bound tabs dead by auto
  next
    case (Suc n)
    let ?p = "?q n"
    let ?dead = "filter (\<lambda>b. \<not> usable (bp_store ?p b)) (bp_browsers ?p)"
    obtain F where F: "F \<subseteq> set (bp_browsers ?p)" "card F = n" "\<forall>b\<in>F. usable (bp_store ?p b)" using Suc by blast
    have e: "bp_browsers (checkHealth ch ?p) = filter (\<lambda>b. usable (bp_store ?p b)) (bp_browsers ?p) @ bp_browsers ?p @ [bp_next ?p..<bp_next ?p + length ?dead]"
      "bp_next (checkHealth ch ?p) = bp_next ?p + length ?dead" "bp_cfg (checkHealth ch ?p) = bp_cfg ?p"
      "\<And>b. b \<in> set (bp_browsers ?p) \<Longrightarrow> usable (bp_store ?p b) \<Longrightarrow> bp_store (checkHealth ch ?p) b = bp_store ?p b"
      "\<And>b. b \<in> set ?dead \<Longrightarrow> br_closed (bp_store (checkHealth ch ?p) b)"
      "\<And>b. bp_next ?p \<le> b \<Longrightarrow> b < bp_next ?p + length ?dead \<Longrightarrow> usable (bp_store (checkHealth ch ?p) b)"
      using checkHealth_effect [OF pings starts, of ?p] Suc by auto
    have d: "d \<in> set ?dead" using Suc by (simp add: usable_def)
    then have len: "0 < length ?dead" by (rule length_pos_if_in_set)
    have "finite F" using F(1) by (rule finite_subset) simp
    moreover have "bp_next ?p \<notin> F" using F(1) Suc by auto
    ultimately have "card (insert (bp_next ?p) F) = Suc n" using F(2) by simp
    moreover have "insert (bp_next ?p) F \<subseteq> set (bp_browsers (checkHealth ch ?p))" using F(1) e(1) len by auto
    moreover have "\<forall>b\<in>insert (bp_next ?p) F. usable (bp_store (checkHealth ch ?p) b)" using F e(4,6) len by auto
    moreover have "\<forall>b\<in>set (bp_browsers (checkHealth ch ?p)). b < bp_next (checkHealth ch ?p)" using e(1,2) Suc by auto
    moreover have "br_closed (bp_store (checkHealth ch ?p) d)" using e(5) d by blast
    moreover have "d \<in> set (bp_browsers (checkHealth ch ?p))" "0 < bc_MaxTabsPerBrowser (bp_cfg (checkHealth ch ?p))" using Suc e(1,3) by simp_all
    ultimately show ?case unfolding funpow.simps comp_apply by blast
  qed
  moreover have "\<exists>fresh. bp_browsers (checkHealth ch p) = filter (\<lambda>b. usable (bp_store p b)) (bp_browsers p) @ bp_browsers p @ fresh"
    using checkHealth_effect [OF pings starts bound tabs] by blast
  ultimately show ?thesis using dead(1) by auto
qed

text \<open>
  Waiting for an idle network can end with no idle period at all.  The clock of the quiet period
  runs from the start of the last request and not from its end, so a request that takes at least
  \<open>QuietPeriod\<close> lets the wait return in the very moment it finishes.
\<close>

theorem waitNetworkIdle_early:
  assumes "poll_ctx p = None" and "poll_events p = [(done_at, EventLoadingFinished)]" and "poll_now p = done_at"
    and "done_at \<le> deadline" and "in_int64 (done_at - sent)" and "quiet \<le> done_at - sent"
  shows "waitNetworkIdle_loop quiet deadline \<lparr>iw_inFlight = 1, iw_lastActive = sent\<rparr> (p # ps) = Some None"
  using assms by (simp add: watch_events_def time_After_def time_Sub_exact wrap64_def)

text \<open>
  A pool built with the builder and no further settings runs Chrome with visible windows: the zero
  value of \<open>Headless\<close> is false and no default replaces it, unlike the other settings.
\<close>

theorem builder_default_headful:
  "exec_options (browser_Config_withDefaults (bb_cfg browser_NewBuilder)) = [ChromeFlag ''headless'' False] \<and>
   exec_options (browser_Config_withDefaults (bb_cfg (WithHeadless browser_NewBuilder True))) = []"
  by (simp add: exec_options_def browser_Config_withDefaults_def browser_NewBuilder_def WithHeadless_def)

section \<open>A pool of one browser\<close>

definition calm_chrome :: "unit chrome" where
  "calm_chrome = \<lparr>ch_alloc = (\<lambda>w opts. w), ch_alloc_cancel = (\<lambda>w. w), ch_Start = (\<lambda>w. (None, w)), ch_cancel = (\<lambda>w b. w),
     ch_Ping = (\<lambda>w b. (None, w)), ch_Run = (\<lambda>w b t acts. (Inr \<lparr>rr_HTML = ''<html>'', rr_Screenshot = [], rr_ScriptResult = [], rr_URL = ''http://h/''\<rparr>, w))\<rparr>"

definition one_browser :: browser_Config where
  "one_browser = \<lparr>bc_MaxBrowsers = 1, bc_MaxTabsPerBrowser = 1, bc_Headless = True, bc_UserAgent = [], bc_ChromeFlags = [],
     bc_HealthCheckInterval = 1, bc_HealthCheckTimeout = 1\<rparr>"

definition one_pool :: "(int \<times> nat, unit) browser_Pool" where
  "one_pool = snd (NewPool counting_sem calm_chrome () one_browser)"

lemma one_pool_new: "NewPool counting_sem calm_chrome () one_browser = (None, one_pool)"
  by (simp add: one_pool_def NewPool_def browser_Config_withDefaults_def one_browser_def calm_chrome_def newBrowser_def numeral_eq_Suc Let_def)

lemma one_pool_fields:
  "bp_browsers one_pool = [0]" "bp_cfg one_pool = one_browser" "bp_sem one_pool = (1, 0)" "bp_next one_pool = 1"
  "bp_store one_pool 0 = \<lparr>br_tabsUsed = 0, br_maxTabs = 1, br_closed = False\<rparr>"
  by (simp_all add: one_pool_def NewPool_def browser_Config_withDefaults_def one_browser_def calm_chrome_def newBrowser_def counting_sem_def numeral_eq_Suc Let_def)

theorem pool_exclusive_witness:
  "\<exists>p. (pool_step counting_sem calm_chrome)\<^sup>*\<^sup>* \<lparr>pr_pool = one_pool, pr_picking = 0, pr_held = {#}\<rparr> \<lparr>pr_pool = p, pr_picking = 0, pr_held = {#0#}\<rparr> \<and>
     bp_browsers p = [] \<and> pool_release counting_sem calm_chrome p 0 \<noteq> None"
proof -
  let ?p1 = "one_pool\<lparr>bp_sem := (1, 1)\<rparr>" and ?p2 = "one_pool\<lparr>bp_sem := (1, 1), bp_browsers := []\<rparr>"
  have "sem_Acquire counting_sem None (bp_sem one_pool) = Some (Inr (1, 1))" by (simp add: counting_sem_def one_pool_fields)
  from permit [OF this] have 1: "pool_step counting_sem calm_chrome \<lparr>pr_pool = one_pool, pr_picking = 0, pr_held = {#}\<rparr> \<lparr>pr_pool = ?p1, pr_picking = Suc 0, pr_held = {#}\<rparr>" .
  have "pick calm_chrome ?p1 = (Inr 0, ?p2)" by (simp add: pick_def one_pool_fields)
  from picked [OF this] have 2: "pool_step counting_sem calm_chrome \<lparr>pr_pool = ?p1, pr_picking = Suc 0, pr_held = {#}\<rparr> \<lparr>pr_pool = ?p2, pr_picking = 0, pr_held = {#0#}\<rparr>" .
  have run: "(pool_step counting_sem calm_chrome)\<^sup>*\<^sup>* \<lparr>pr_pool = one_pool, pr_picking = 0, pr_held = {#}\<rparr> \<lparr>pr_pool = ?p2, pr_picking = 0, pr_held = {#0#}\<rparr>"
    using 1 2 by (meson rtranclp.rtrancl_refl rtranclp.rtrancl_into_rtrancl)
  show ?thesis
    by (rule exI [of _ ?p2]) (use pool_exclusive [OF counting_sem_law one_pool_new run] run in simp)
qed

definition sample_render :: RenderRequest where
  "sample_render = \<lparr>rq_URL = ''http://h/'', rq_Wait = None, rq_Resources = BlockAll, rq_Screenshot = False, rq_ScreenshotQuality = 0, rq_Timeout = 0, rq_JavaScript = []\<rparr>"


theorem checkHealth_leaks_witness:
  "\<exists>F. F \<subseteq> set (bp_browsers ((checkHealth calm_chrome ^^ 5) (Browser_Close calm_chrome one_pool 0))) \<and> card F = 5 \<and> bc_MaxBrowsers (bp_cfg one_pool) = 1"
proof -
  let ?p = "Browser_Close calm_chrome one_pool 0"
  have f: "bp_browsers ?p = [0]" "bp_next ?p = 1" "bp_cfg ?p = one_browser" "br_closed (bp_store ?p 0)"
    by (simp_all add: Browser_Close_def one_pool_fields)
  have "fst (ch_Ping calm_chrome w b) = None" "fst (ch_Start calm_chrome w) = None" for w b by (simp_all add: calm_chrome_def)
  from checkHealth_leaks [OF this, of ?p 0 5] f show ?thesis by (auto simp: one_browser_def one_pool_fields)
qed

theorem waitNetworkIdle_early_witness:
  "waitNetworkIdle_loop (500 * Millisecond) (30 * Second) \<lparr>iw_inFlight = 1, iw_lastActive = 0\<rparr>
     [\<lparr>poll_ctx = None, poll_now = 2 * Second, poll_events = [(2 * Second, EventLoadingFinished)]\<rparr>] = Some None"
  using waitNetworkIdle_early [of "\<lparr>poll_ctx = None, poll_now = 2 * Second, poll_events = [(2 * Second, EventLoadingFinished)]\<rparr>"
      "2 * Second" "30 * Second" 0 "500 * Millisecond" "[]"]
  by (simp add: in_int64_def)

end
