(* ===== verification/Server_Handlers.thy ===== *)
theory Server_Handlers
  imports Crawler_Service
begin

text \<open>
  pkg/server: the gRPC server over the crawler service.  The handlers are written against the
  interface \<^verbatim>\<open>crawler.Service\<close>, the record \<open>crawler_Service\<close> of its methods over a state \<open>'v\<close>; the locale
  \<open>crawl_backend\<close> says what they rely on, and is interpreted on the service of pkg/crawler.  The
  generated protobuf types are records with the fields the handlers use, and gRPC itself (transport,
  health service, reflection) is outside.
\<close>

section \<open>Messages\<close>

datatype ErrorCode_pb = ERROR_CODE_UNSPECIFIED | ERROR_CODE_INTERNAL

datatype CrawlerStatus = CRAWLER_STATUS_RUNNING | CRAWLER_STATUS_STOPPED

record pb_CrawlOptions =
  pbo_max_depth :: int
  pbo_max_pages :: int
  pbo_respect_robots_txt :: bool

record pb_CrawlConfig =
  pbc_urls :: "string list"
  pbc_options :: "pb_CrawlOptions option"

record pb_CrawlRequest =
  pbr_urls :: "string list"
  pbr_config :: "pb_CrawlConfig option"

record pb_ErrorInfo =
  pbe_code :: ErrorCode_pb
  pbe_message :: string
  pbe_url :: string

record pb_CrawlResponse =
  pbp_url :: string
  pbp_status_code :: int
  pbp_content :: string
  pbp_error :: "pb_ErrorInfo option"
  pbp_crawled_at :: "Time option"
  pbp_duration :: "Duration option"

record pb_CrawlStats =
  pbs_pages_crawled :: int
  pbs_pages_failed :: int
  pbs_pages_queued :: int
  pbs_status :: CrawlerStatus

text \<open>The codes of \<^verbatim>\<open>google.golang.org/grpc/codes\<close> that the handlers use, and a status error.\<close>

datatype grpc_code = InvalidArgument | NotFound | Internal

datatype grpc_error = StatusError grpc_code string | StreamError error

section \<open>handlers.go\<close>

record 'v crawler_Service =
  sv_Crawl :: "'v \<Rightarrow> string list \<Rightarrow> CrawlConfig \<Rightarrow> (error + Result list) \<times> 'v"
  sv_Start :: "'v \<Rightarrow> string \<Rightarrow> CrawlConfig \<Rightarrow> error option \<times> 'v"
  sv_Stop :: "'v \<Rightarrow> string \<Rightarrow> (error + service_Stats) \<times> 'v"
  sv_Stats :: "'v \<Rightarrow> string \<Rightarrow> error + service_Stats"
  sv_AddURLs :: "'v \<Rightarrow> string \<Rightarrow> string list \<Rightarrow> (error + nat) \<times> 'v"

record crawlerInstance =
  ci_status :: CrawlerStatus
  ci_config :: CrawlConfig

record server_Config =
  sc_Port :: int
  sc_DrainTimeout :: Duration

text \<open>\<open>srv_grpc\<close> tells whether the gRPC server exists, \<open>srv_health\<close> the serving status it reports.\<close>

record 'v Server =
  srv_crawler :: 'v
  srv_cfg :: server_Config
  srv_grpc :: bool
  srv_health :: "bool option"
  srv_listener :: "string option"
  srv_instances :: "string \<rightharpoonup> crawlerInstance"

definition clampInt32 :: "int \<Rightarrow> int" where
  "clampInt32 v = (if v > 2147483647 then 2147483647 else if v < - 2147483648 then - 2147483648 else wrap32 v)"

definition protoConfigToCrawlConfig :: "pb_CrawlConfig option \<Rightarrow> CrawlConfig" where
  "protoConfigToCrawlConfig pc =
     (case pc of
        None \<Rightarrow> \<lparr>cc_MaxDepth = 0, cc_MaxPages = 0, cc_RespectRobotsTxt = False, cc_URLs = []\<rparr>
      | Some c \<Rightarrow>
          let cfg = \<lparr>cc_MaxDepth = 0, cc_MaxPages = 0, cc_RespectRobotsTxt = False, cc_URLs = pbc_urls c\<rparr>
          in (case pbc_options c of
                None \<Rightarrow> cfg
              | Some o' \<Rightarrow> cfg\<lparr>cc_MaxDepth := pbo_max_depth o', cc_MaxPages := pbo_max_pages o', cc_RespectRobotsTxt := pbo_respect_robots_txt o'\<rparr>))"

text \<open>\<open>hex.EncodeToString\<close>, and \<open>generateID\<close> on the bytes that the random source gave.\<close>

definition hex_digit :: "nat \<Rightarrow> char" where
  "hex_digit n = (if n < 10 then char_of (48 + n) else char_of (87 + n))"

definition hex_byte :: "char \<Rightarrow> string" where
  "hex_byte c = [hex_digit (of_char c div 16), hex_digit (of_char c mod 16)]"

definition generateID :: "error + string \<Rightarrow> error + string" where
  "generateID rand = (case rand of Inl err \<Rightarrow> Inl err | Inr b \<Rightarrow> Inr (concat (map hex_byte b)))"

text \<open>The response for one result of a crawl.\<close>

definition result_response :: "Time \<Rightarrow> Duration \<Rightarrow> Result \<Rightarrow> pb_CrawlResponse" where
  "result_response now duration r =
     \<lparr>pbp_url = result_URL r, pbp_status_code = clampInt32 (result_StatusCode r), pbp_content = result_Content r,
      pbp_error = (case result_Error r of
          None \<Rightarrow> None
        | Some err \<Rightarrow> Some \<lparr>pbe_code = ERROR_CODE_INTERNAL, pbe_message = error_Error err, pbe_url = result_URL r\<rparr>),
      pbp_crawled_at = Some now, pbp_duration = Some duration\<rparr>"

definition empty_response :: pb_CrawlResponse where
  "empty_response = \<lparr>pbp_url = [], pbp_status_code = 0, pbp_content = [], pbp_error = None, pbp_crawled_at = None, pbp_duration = None\<rparr>"

text \<open>The times are those of \<open>start\<close>, of its end, and of the response.\<close>

definition Server_Crawl ::
  "'v crawler_Service \<Rightarrow> Time \<Rightarrow> Time \<Rightarrow> Time \<Rightarrow> 'v Server \<Rightarrow> pb_CrawlRequest \<Rightarrow> (grpc_error + pb_CrawlResponse) \<times> 'v Server" where
  "Server_Crawl ops start finish now s req =
     (if length (pbr_urls req) = 0 then (Inl (StatusError InvalidArgument ''at least one URL is required''), s)
      else
        (case sv_Crawl ops (srv_crawler s) (pbr_urls req) (protoConfigToCrawlConfig (pbr_config req)) of
           (Inl err, v) \<Rightarrow> (Inl (StatusError Internal (''crawl failed: '' @ error_Error err)), s\<lparr>srv_crawler := v\<rparr>)
         | (Inr results, v) \<Rightarrow>
             (case results of
                [] \<Rightarrow> (Inr empty_response, s\<lparr>srv_crawler := v\<rparr>)
              | r # rs \<Rightarrow> (Inr (result_response now (time_Sub finish start) r), s\<lparr>srv_crawler := v\<rparr>))))"

text \<open>
  The stream: what \<open>Recv\<close> returns, and \<open>send\<close>, which sends a response over the world \<open>'w\<close> of the stream
  or fails.  The clock gives the time of each response.
\<close>

datatype recv = RecvRequest pb_CrawlRequest Time Time | RecvEOF | RecvError error

fun send_results :: "('w \<Rightarrow> pb_CrawlResponse \<Rightarrow> error option \<times> 'w) \<Rightarrow> ('w \<Rightarrow> Time) \<Rightarrow> Duration \<Rightarrow> 'w \<Rightarrow> Result list \<Rightarrow> error option \<times> 'w" where
  "send_results send now duration w [] = (None, w)"
| "send_results send now duration w (r # rs) =
     (case send w (result_response (now w) duration r) of
        (Some err, w1) \<Rightarrow> (Some err, w1)
      | (None, w1) \<Rightarrow> send_results send now duration w1 rs)"

text \<open>\<open>CrawlStream\<close> on the messages received so far: \<open>None\<close> while it waits for the next one.\<close>

fun CrawlStream ::
  "'v crawler_Service \<Rightarrow> ('w \<Rightarrow> pb_CrawlResponse \<Rightarrow> error option \<times> 'w) \<Rightarrow> ('w \<Rightarrow> Time) \<Rightarrow> 'v Server \<Rightarrow> 'w \<Rightarrow> recv list \<Rightarrow>
   error option option \<times> 'v Server \<times> 'w" where
  "CrawlStream ops send now s w [] = (None, s, w)"
| "CrawlStream ops send now s w (RecvEOF # ms) = (Some None, s, w)"
| "CrawlStream ops send now s w (RecvError err # ms) = (Some (Some err), s, w)"
| "CrawlStream ops send now s w (RecvRequest req start finish # ms) =
     (if length (pbr_urls req) = 0 then CrawlStream ops send now s w ms
      else
        (case sv_Crawl ops (srv_crawler s) (pbr_urls req) (protoConfigToCrawlConfig (pbr_config req)) of
           (Inl err, v) \<Rightarrow>
             (case send w (empty_response\<lparr>pbp_error := Some \<lparr>pbe_code = ERROR_CODE_INTERNAL, pbe_message = error_Error err, pbe_url = []\<rparr>\<rparr>) of
                (Some e, w1) \<Rightarrow> (Some (Some e), s\<lparr>srv_crawler := v\<rparr>, w1)
              | (None, w1) \<Rightarrow> CrawlStream ops send now (s\<lparr>srv_crawler := v\<rparr>) w1 ms)
         | (Inr results, v) \<Rightarrow>
             (case send_results send now (time_Sub finish start) w results of
                (Some e, w1) \<Rightarrow> (Some (Some e), s\<lparr>srv_crawler := v\<rparr>, w1)
              | (None, w1) \<Rightarrow> CrawlStream ops send now (s\<lparr>srv_crawler := v\<rparr>) w1 ms)))"

subsection \<open>Named crawlers\<close>

text \<open>
  \<open>StartCrawler\<close> up to the call of the service, and the record it makes of the instance under the lock;
  \<open>StopCrawler\<close> likewise.  Between the two, other handlers may run.
\<close>

record StartCrawlerRequest =
  scr_config :: "pb_CrawlConfig option"
  scr_crawler_id :: string

definition start_call ::
  "'v crawler_Service \<Rightarrow> error + string \<Rightarrow> 'v Server \<Rightarrow> StartCrawlerRequest \<Rightarrow> (grpc_error + string \<times> CrawlConfig) \<times> 'v Server" where
  "start_call ops rand s req =
     (case (if scr_crawler_id req = [] then generateID rand else Inr (scr_crawler_id req)) of
        Inl err \<Rightarrow> (Inl (StatusError Internal (''generate crawler id: '' @ error_Error err)), s)
      | Inr cid \<Rightarrow>
          let cfg = protoConfigToCrawlConfig (scr_config req)
          in (case sv_Start ops (srv_crawler s) cid cfg of
                (Some err, v) \<Rightarrow> (Inl (StatusError Internal (''start crawler: '' @ error_Error err)), s\<lparr>srv_crawler := v\<rparr>)
              | (None, v) \<Rightarrow> (Inr (cid, cfg), s\<lparr>srv_crawler := v\<rparr>)))"

definition start_record :: "'v Server \<Rightarrow> string \<Rightarrow> CrawlConfig \<Rightarrow> 'v Server" where
  "start_record s cid cfg = s\<lparr>srv_instances := (srv_instances s)(cid \<mapsto> \<lparr>ci_status = CRAWLER_STATUS_RUNNING, ci_config = cfg\<rparr>)\<rparr>"

definition StartCrawler ::
  "'v crawler_Service \<Rightarrow> error + string \<Rightarrow> 'v Server \<Rightarrow> StartCrawlerRequest \<Rightarrow> (grpc_error + string \<times> CrawlerStatus) \<times> 'v Server" where
  "StartCrawler ops rand s req =
     (case start_call ops rand s req of
        (Inl err, s1) \<Rightarrow> (Inl err, s1)
      | (Inr (cid, cfg), s1) \<Rightarrow> (Inr (cid, CRAWLER_STATUS_RUNNING), start_record s1 cid cfg))"

definition crawler_not_found :: "string \<Rightarrow> grpc_error" where
  "crawler_not_found cid = StatusError NotFound (''crawler '' @ strconv_Quote cid @ '' not found'')"

definition stats_message :: "service_Stats \<Rightarrow> CrawlerStatus \<Rightarrow> pb_CrawlStats" where
  "stats_message st status = \<lparr>pbs_pages_crawled = PagesCrawled st, pbs_pages_failed = PagesFailed st, pbs_pages_queued = PagesQueued st, pbs_status = status\<rparr>"

definition stop_call :: "'v crawler_Service \<Rightarrow> 'v Server \<Rightarrow> string \<Rightarrow> (grpc_error + service_Stats) \<times> 'v Server" where
  "stop_call ops s cid =
     (case srv_instances s cid of
        None \<Rightarrow> (Inl (crawler_not_found cid), s)
      | Some inst \<Rightarrow>
          (case sv_Stop ops (srv_crawler s) cid of
             (Inl err, v) \<Rightarrow> (Inl (StatusError Internal (''stop crawler: '' @ error_Error err)), s\<lparr>srv_crawler := v\<rparr>)
           | (Inr st, v) \<Rightarrow> (Inr st, s\<lparr>srv_crawler := v\<rparr>)))"

text \<open>\<open>None\<close> is the panic on an instance that is no longer there.\<close>

definition stop_record :: "'v Server \<Rightarrow> string \<Rightarrow> 'v Server option" where
  "stop_record s cid =
     (case srv_instances s cid of
        None \<Rightarrow> None
      | Some inst \<Rightarrow> Some (s\<lparr>srv_instances := (srv_instances s)(cid \<mapsto> inst\<lparr>ci_status := CRAWLER_STATUS_STOPPED\<rparr>)\<rparr>))"

definition StopCrawler :: "'v crawler_Service \<Rightarrow> 'v Server \<Rightarrow> string \<Rightarrow> ((grpc_error + pb_CrawlStats) \<times> 'v Server) option" where
  "StopCrawler ops s cid =
     (case stop_call ops s cid of
        (Inl err, s1) \<Rightarrow> Some (Inl err, s1)
      | (Inr st, s1) \<Rightarrow>
          (case stop_record s1 cid of None \<Rightarrow> None | Some s2 \<Rightarrow> Some (Inr (stats_message st CRAWLER_STATUS_STOPPED), s2)))"

definition Server_GetStats :: "'v crawler_Service \<Rightarrow> 'v Server \<Rightarrow> string \<Rightarrow> grpc_error + pb_CrawlStats" where
  "Server_GetStats ops s cid =
     (case srv_instances s cid of
        None \<Rightarrow> Inl (crawler_not_found cid)
      | Some inst \<Rightarrow>
          (case sv_Stats ops (srv_crawler s) cid of
             Inl err \<Rightarrow> Inl (StatusError Internal (''get stats: '' @ error_Error err))
           | Inr st \<Rightarrow> Inr (stats_message st (ci_status inst))))"

definition Server_AddURLs :: "'v crawler_Service \<Rightarrow> 'v Server \<Rightarrow> string \<Rightarrow> string list \<Rightarrow> (grpc_error + int) \<times> 'v Server" where
  "Server_AddURLs ops s cid urls =
     (case srv_instances s cid of
        None \<Rightarrow> (Inl (crawler_not_found cid), s)
      | Some inst \<Rightarrow>
          (case sv_AddURLs ops (srv_crawler s) cid urls of
             (Inl err, v) \<Rightarrow> (Inl (StatusError Internal (''add urls: '' @ error_Error err)), s\<lparr>srv_crawler := v\<rparr>)
           | (Inr added, v) \<Rightarrow> (Inr (clampInt32 (int added)), s\<lparr>srv_crawler := v\<rparr>)))"

section \<open>server.go\<close>

definition server_Config_withDefaults :: "server_Config \<Rightarrow> server_Config" where
  "server_Config_withDefaults c0 =
     (let c1 = (if sc_Port c0 = 0 then c0\<lparr>sc_Port := 50051\<rparr> else c0)
      in if sc_DrainTimeout c1 = 0 then c1\<lparr>sc_DrainTimeout := 30 * Second\<rparr> else c1)"

text \<open>\<open>New\<close>; an option changes the server (\<open>WithLogger\<close> only its logger, which is left out).\<close>

definition server_New :: "'v \<Rightarrow> server_Config \<Rightarrow> ('v Server \<Rightarrow> 'v Server) list \<Rightarrow> 'v Server" where
  "server_New c cfg opts =
     fold (\<lambda>opt s. opt s) opts
       \<lparr>srv_crawler = c, srv_cfg = server_Config_withDefaults cfg, srv_grpc = False, srv_health = None, srv_listener = None, srv_instances = Map.empty\<rparr>"

text \<open>\<open>Stop\<close>: both ways to stop gRPC, the clean one and the hard one after the drain time-out, end the same.\<close>

definition Server_Stop :: "'v Server \<Rightarrow> 'v Server" where
  "Server_Stop s = (if \<not> srv_grpc s then s else s\<lparr>srv_health := Some False\<rparr>)"

datatype serve_end = ServeReturned "error option" | ContextDone error

definition Server_Start :: "(string \<Rightarrow> error + string) \<Rightarrow> serve_end \<Rightarrow> 'v Server \<Rightarrow> error option \<times> 'v Server" where
  "Server_Start net_Listen how s =
     (case net_Listen ('':'' @ strconv_Itoa (sc_Port (srv_cfg s))) of
        Inl err \<Rightarrow> (Some (WrapError (''listen on port '' @ strconv_Itoa (sc_Port (srv_cfg s)) @ '': '') err []), s\<lparr>srv_listener := None\<rparr>)
      | Inr addr \<Rightarrow>
          let s1 = s\<lparr>srv_listener := Some addr, srv_grpc := True, srv_health := Some True\<rparr>
          in (case how of
                ServeReturned err \<Rightarrow> (err, s1)
              | ContextDone err \<Rightarrow> (Some err, Server_Stop s1)))"

definition Server_Addr :: "'v Server \<Rightarrow> string option" where
  "Server_Addr s = srv_listener s"

text \<open>The interceptors: the answer of the handler, and a log entry with the method, the duration and the code that \<open>status_Code\<close>
  (\<^verbatim>\<open>status.Code\<close>) gives for its error.\<close>

definition unaryLoggingInterceptor ::
  "('w \<Rightarrow> Time) \<Rightarrow> ('e option \<Rightarrow> string) \<Rightarrow> ('w \<Rightarrow> string \<times> string \<times> Duration \<times> string \<Rightarrow> 'w) \<Rightarrow> ('w \<Rightarrow> 'q \<Rightarrow> ('r \<times> 'e option) \<times> 'w) \<Rightarrow> string \<Rightarrow> 'w \<Rightarrow> 'q \<Rightarrow> ('r \<times> 'e option) \<times> 'w" where
  "unaryLoggingInterceptor now status_Code info handler meth w req =
     (case handler w req of ((resp, err), w1) \<Rightarrow>
        ((resp, err), info w1 (''unary rpc'', meth, time_Sub (now w1) (now w), status_Code err)))"

definition streamLoggingInterceptor ::
  "('w \<Rightarrow> Time) \<Rightarrow> ('e option \<Rightarrow> string) \<Rightarrow> ('w \<Rightarrow> string \<times> string \<times> Duration \<times> string \<Rightarrow> 'w) \<Rightarrow> ('w \<Rightarrow> 'e option \<times> 'w) \<Rightarrow> string \<Rightarrow> 'w \<Rightarrow> 'e option \<times> 'w" where
  "streamLoggingInterceptor now status_Code info handler meth w =
     (case handler w of (err, w1) \<Rightarrow> (err, info w1 (''stream rpc'', meth, time_Sub (now w1) (now w), status_Code err)))"

section \<open>What the handlers rely on\<close>

locale crawl_backend =
  fixes ops :: "'v crawler_Service" and running :: "'v \<Rightarrow> string set"
  assumes start_ok: "sv_Start ops v cid cfg = (None, v') \<Longrightarrow> cid \<notin> running v \<and> running v' = insert cid (running v)"
    and start_err: "sv_Start ops v cid cfg = (Some err, v') \<Longrightarrow> running v' = running v"
    and stop_ok: "cid \<in> running v \<Longrightarrow> \<exists>st v'. sv_Stop ops v cid = (Inr st, v') \<and> running v' = running v - {cid}"
    and stop_missing: "cid \<notin> running v \<Longrightarrow> \<exists>err v'. sv_Stop ops v cid = (Inl err, v') \<and> running v' = running v"
    and stats_iff: "cid \<in> running v \<longleftrightarrow> (\<exists>st. sv_Stats ops v cid = Inr st)"
    and add_iff: "cid \<in> running v \<longleftrightarrow> (\<exists>n. fst (sv_AddURLs ops v cid urls) = Inr n)"
    and add_running: "running (snd (sv_AddURLs ops v cid urls)) = running v"
    and crawl_running: "running (snd (sv_Crawl ops v us cfg)) = running v"

text \<open>The handlers one after the other.\<close>

inductive server_step :: "'v crawler_Service \<Rightarrow> 'v Server \<Rightarrow> 'v Server \<Rightarrow> bool" for ops where
  crawl: "Server_Crawl ops t0 t1 t2 s req = (r, s') \<Longrightarrow> server_step ops s s'"
| start: "StartCrawler ops rand s req = (r, s') \<Longrightarrow> server_step ops s s'"
| stop: "StopCrawler ops s cid = Some (r, s') \<Longrightarrow> server_step ops s s'"
| add: "Server_AddURLs ops s cid urls = (r, s') \<Longrightarrow> server_step ops s s'"

definition shown_running :: "'v Server \<Rightarrow> string set" where
  "shown_running s = {cid. \<exists>inst. srv_instances s cid = Some inst \<and> ci_status inst = CRAWLER_STATUS_RUNNING}"

context crawl_backend
begin

lemma start_call_cases:
  assumes "start_call ops rand s req = (r, s')"
  shows "srv_instances s' = srv_instances s"
    "case r of Inl e \<Rightarrow> running (srv_crawler s') = running (srv_crawler s)
      | Inr (cid, cfg) \<Rightarrow> cid \<notin> running (srv_crawler s) \<and> running (srv_crawler s') = insert cid (running (srv_crawler s))"
proof (atomize (full), cases "if scr_crawler_id req = [] then generateID rand else Inr (scr_crawler_id req)")
  case (Inl e)
  then show "srv_instances s' = srv_instances s \<and> (case r of Inl e \<Rightarrow> running (srv_crawler s') = running (srv_crawler s)
      | Inr (cid, cfg) \<Rightarrow> cid \<notin> running (srv_crawler s) \<and> running (srv_crawler s') = insert cid (running (srv_crawler s)))"
    using assms by (auto simp only: start_call_def sum.case prod.inject)
next
  case (Inr cid)
  let ?cfg = "protoConfigToCrawlConfig (scr_config req)"
  obtain x v where v: "sv_Start ops (srv_crawler s) cid ?cfg = (x, v)" by force
  have e: "start_call ops rand s req = (case x of
      Some err \<Rightarrow> (Inl (StatusError Internal (''start crawler: '' @ error_Error err)), s\<lparr>srv_crawler := v\<rparr>)
    | None \<Rightarrow> (Inr (cid, ?cfg), s\<lparr>srv_crawler := v\<rparr>))"
    unfolding start_call_def Inr by (simp add: Let_def v split: option.split)
  show "srv_instances s' = srv_instances s \<and> (case r of Inl e \<Rightarrow> running (srv_crawler s') = running (srv_crawler s)
      | Inr (cid, cfg) \<Rightarrow> cid \<notin> running (srv_crawler s) \<and> running (srv_crawler s') = insert cid (running (srv_crawler s)))"
  proof (cases x)
    case None
    then show ?thesis using assms e start_ok [of "srv_crawler s" cid ?cfg v] v by auto
  next
    case (Some err)
    then show ?thesis using assms e start_err [of "srv_crawler s" cid ?cfg err v] v by auto
  qed
qed

lemma stop_call_cases:
  assumes "stop_call ops s cid = (r, s')"
  shows "srv_instances s' = srv_instances s"
    "case r of Inl e \<Rightarrow> running (srv_crawler s') = running (srv_crawler s) \<and> (srv_instances s cid = None \<or> cid \<notin> running (srv_crawler s))
      | Inr st \<Rightarrow> srv_instances s cid \<noteq> None \<and> cid \<in> running (srv_crawler s) \<and> running (srv_crawler s') = running (srv_crawler s) - {cid}"
proof -
  show "srv_instances s' = srv_instances s" using assms by (auto simp: stop_call_def split: option.splits prod.splits sum.splits)
  show "case r of Inl e \<Rightarrow> running (srv_crawler s') = running (srv_crawler s) \<and> (srv_instances s cid = None \<or> cid \<notin> running (srv_crawler s))
      | Inr st \<Rightarrow> srv_instances s cid \<noteq> None \<and> cid \<in> running (srv_crawler s) \<and> running (srv_crawler s') = running (srv_crawler s) - {cid}"
  proof (cases "srv_instances s cid")
    case None
    then show ?thesis using assms by (auto simp: stop_call_def)
  next
    case (Some inst)
    show ?thesis
    proof (cases "cid \<in> running (srv_crawler s)")
      case True
      obtain st v' where "sv_Stop ops (srv_crawler s) cid = (Inr st, v')" "running v' = running (srv_crawler s) - {cid}" using stop_ok [OF True] by blast
      then have "stop_call ops s cid = (Inr st, s\<lparr>srv_crawler := v'\<rparr>) \<and> running v' = running (srv_crawler s) - {cid}" using Some by (simp add: stop_call_def)
      then show ?thesis using assms Some True by force
    next
      case False
      obtain e v' where "sv_Stop ops (srv_crawler s) cid = (Inl e, v')" "running v' = running (srv_crawler s)" using stop_missing [OF False] by blast
      then have "stop_call ops s cid = (Inl (StatusError Internal (''stop crawler: '' @ error_Error e)), s\<lparr>srv_crawler := v'\<rparr>) \<and> running v' = running (srv_crawler s)"
        using Some by (simp add: stop_call_def)
      then show ?thesis using assms False by force
    qed
  qed
qed

lemma StopCrawler_total: "StopCrawler ops s cid \<noteq> None"
proof -
  obtain r s1 where c: "stop_call ops s cid = (r, s1)" by force
  show ?thesis using stop_call_cases [OF c] by (auto simp: StopCrawler_def c stop_record_def split: sum.splits option.splits)
qed

lemma Server_Crawl_keeps:
  assumes "Server_Crawl ops t0 t1 t2 s req = (r, s')"
  shows "srv_instances s' = srv_instances s" "running (srv_crawler s') = running (srv_crawler s)"
proof -
  obtain x v where v: "sv_Crawl ops (srv_crawler s) (pbr_urls req) (protoConfigToCrawlConfig (pbr_config req)) = (x, v)" by force
  have "running v = running (srv_crawler s)" using crawl_running [of "srv_crawler s" "pbr_urls req" "protoConfigToCrawlConfig (pbr_config req)"] v by simp
  then have "srv_instances (snd (Server_Crawl ops t0 t1 t2 s req)) = srv_instances s \<and> running (srv_crawler (snd (Server_Crawl ops t0 t1 t2 s req))) = running (srv_crawler s)"
    by (simp add: Server_Crawl_def v split: sum.split list.split)
  then show "srv_instances s' = srv_instances s" "running (srv_crawler s') = running (srv_crawler s)" by (simp_all add: assms)
qed

lemma Server_AddURLs_keeps:
  assumes "Server_AddURLs ops s cid urls = (r, s')"
  shows "srv_instances s' = srv_instances s" "running (srv_crawler s') = running (srv_crawler s)"
proof -
  obtain x v where v: "sv_AddURLs ops (srv_crawler s) cid urls = (x, v)" by force
  have "running v = running (srv_crawler s)" using add_running [of "srv_crawler s" cid urls] v by simp
  then have "srv_instances (snd (Server_AddURLs ops s cid urls)) = srv_instances s \<and> running (srv_crawler (snd (Server_AddURLs ops s cid urls))) = running (srv_crawler s)"
    by (simp add: Server_AddURLs_def v split: option.split sum.split)
  then show "srv_instances s' = srv_instances s" "running (srv_crawler s') = running (srv_crawler s)" by (simp_all add: assms)
qed

lemma server_step_sync:
  assumes "server_step ops s s'" and sync: "shown_running s = running (srv_crawler s)"
  shows "shown_running s' = running (srv_crawler s')"
  using assms(1)
proof cases
  case (crawl t0 t1 t2 req r)
  show ?thesis using Server_Crawl_keeps [OF crawl] sync by (simp add: shown_running_def)
next
  case (start rand req r)
  obtain x s1 where c: "start_call ops rand s req = (x, s1)" by force
  note f = start_call_cases [OF c]
  show ?thesis
  proof (cases x)
    case (Inl e)
    then show ?thesis using start c f sync by (simp add: StartCrawler_def shown_running_def)
  next
    case (Inr y)
    obtain cid cfg where y: "y = (cid, cfg)" by force
    have s': "s' = start_record s1 cid cfg" using start by (simp add: StartCrawler_def c Inr y)
    have "shown_running s' = insert cid (shown_running s)" unfolding s' using f(1) by (auto simp: start_record_def shown_running_def)
    moreover have "running (srv_crawler s') = insert cid (running (srv_crawler s))" unfolding s' using f(2) by (simp add: Inr y start_record_def)
    ultimately show ?thesis using sync by simp
  qed
next
  case (stop cid r)
  obtain x s1 where c: "stop_call ops s cid = (x, s1)" by force
  note f = stop_call_cases [OF c]
  show ?thesis
  proof (cases x)
    case (Inl e)
    then show ?thesis using stop c f sync by (simp add: StopCrawler_def shown_running_def)
  next
    case (Inr st)
    have s': "stop_record s1 cid = Some s'" using stop c Inr by (auto simp: StopCrawler_def split: option.splits)
    have "shown_running s' = shown_running s - {cid}" using s' f(1) by (auto simp: stop_record_def shown_running_def split: option.splits if_splits)
    moreover have "srv_crawler s' = srv_crawler s1" using s' by (auto simp: stop_record_def split: option.splits)
    ultimately show ?thesis using sync f(2) Inr by simp
  qed
next
  case (add cid urls r)
  show ?thesis using Server_AddURLs_keeps [OF add] sync by (simp add: shown_running_def)
qed

lemma server_run_sync:
  "(server_step ops)\<^sup>*\<^sup>* s s' \<Longrightarrow> shown_running s = running (srv_crawler s) \<Longrightarrow> shown_running s' = running (srv_crawler s')"
  by (induction rule: rtranclp_induct) (auto dest: server_step_sync)

text \<open>What a client is told, by the state of the crawler it names.\<close>

lemma answers:
  assumes "shown_running s = running (srv_crawler s)"
  shows "case srv_instances s cid of
      None \<Rightarrow> Server_GetStats ops s cid = Inl (crawler_not_found cid) \<and> fst (the (StopCrawler ops s cid)) = Inl (crawler_not_found cid)
    | Some inst \<Rightarrow>
        (if ci_status inst = CRAWLER_STATUS_RUNNING
         then (\<exists>st st'. Server_GetStats ops s cid = Inr (stats_message st CRAWLER_STATUS_RUNNING) \<and>
                 fst (the (StopCrawler ops s cid)) = Inr (stats_message st' CRAWLER_STATUS_STOPPED))
         else (\<exists>m m'. Server_GetStats ops s cid = Inl (StatusError Internal m) \<and> fst (the (StopCrawler ops s cid)) = Inl (StatusError Internal m')))"
proof (cases "srv_instances s cid")
  case None
  then show ?thesis by (simp add: Server_GetStats_def StopCrawler_def stop_call_def)
next
  case (Some inst)
  show ?thesis
  proof (cases "ci_status inst = CRAWLER_STATUS_RUNNING")
    case True
    then have "cid \<in> shown_running s" using Some by (simp add: shown_running_def)
    then have r: "cid \<in> running (srv_crawler s)" using assms by simp
    obtain st where "sv_Stats ops (srv_crawler s) cid = Inr st" using r stats_iff by blast
    moreover obtain st' v' where "sv_Stop ops (srv_crawler s) cid = (Inr st', v')" using stop_ok [OF r] by blast
    ultimately show ?thesis using Some True by (auto simp: Server_GetStats_def StopCrawler_def stop_call_def stop_record_def)
  next
    case False
    then have "cid \<notin> shown_running s" using Some by (simp add: shown_running_def)
    then have r: "cid \<notin> running (srv_crawler s)" using assms by simp
    obtain err where "sv_Stats ops (srv_crawler s) cid = Inl err" using r stats_iff by (metis sum.exhaust)
    moreover obtain e v' where "sv_Stop ops (srv_crawler s) cid = (Inl e, v')" using stop_missing [OF r] by blast
    ultimately show ?thesis using Some False by (auto simp: Server_GetStats_def StopCrawler_def stop_call_def)
  qed
qed

text \<open>A crawler restarted between the two halves of \<open>StopCrawler\<close>.\<close>

lemma stop_start_race:
  assumes "stop_call ops s cid = (Inr st, s1)" and "StartCrawler ops rand s1 req = (Inr (cid, CRAWLER_STATUS_RUNNING), s2)"
  shows "\<exists>s3 st3. stop_record s2 cid = Some s3 \<and> cid \<in> running (srv_crawler s3) \<and> cid \<notin> shown_running s3 \<and>
    Server_GetStats ops s3 cid = Inr (stats_message st3 CRAWLER_STATUS_STOPPED)"
proof -
  obtain cfg s' where c: "start_call ops rand s1 req = (Inr (cid, cfg), s')" and s2: "s2 = start_record s' cid cfg"
    using assms(2) by (auto simp: StartCrawler_def split: prod.splits sum.splits)
  have r: "cid \<in> running (srv_crawler s2)" using start_call_cases(2) [OF c] s2 by (simp add: start_record_def)
  have i: "srv_instances s2 cid = Some \<lparr>ci_status = CRAWLER_STATUS_RUNNING, ci_config = cfg\<rparr>" by (simp add: s2 start_record_def)
  obtain st3 where "sv_Stats ops (srv_crawler s2) cid = Inr st3" using stats_iff r by blast
  then show ?thesis using i r by (auto simp: stop_record_def shown_running_def Server_GetStats_def)
qed

end

text \<open>The service of pkg/crawler; its one-shot crawls are the function \<open>crawl\<close>.\<close>

definition service_ops ::
  "'d socks_lib \<Rightarrow> 's sem_ops \<Rightarrow> Time \<Rightarrow> (string list \<Rightarrow> CrawlConfig \<Rightarrow> error + Result list) \<Rightarrow> ('d, 'j, 'b, 's) service crawler_Service" where
  "service_ops lib ops now crawl =
     \<lparr>sv_Crawl = (\<lambda>v urls cfg. (crawl urls cfg, v)), sv_Start = service_Start lib ops now None, sv_Stop = service_Stop now,
      sv_Stats = service_Stats_of now, sv_AddURLs = service_AddURLs\<rparr>"

interpretation service_backend: crawl_backend "service_ops lib ops now crawl" "\<lambda>v. dom (svc_instances v)" for lib ops now crawl
  by unfold_locales
    (auto simp: service_ops_def service_Start_def service_Stop_def service_Stats_of_def service_AddURLs_def Let_def
      split: option.splits sum.splits prod.splits if_splits)

section \<open>The server over the crawler service\<close>

text \<open>The clock and the outcome of a one-shot crawl may differ from one call to the next.\<close>

definition service_step :: "'d socks_lib \<Rightarrow> 's sem_ops \<Rightarrow> ('d, 'j, 'b, 's) service Server \<Rightarrow> ('d, 'j, 'b, 's) service Server \<Rightarrow> bool" where
  "service_step lib ops s s' \<longleftrightarrow> (\<exists>now crawl. server_step (service_ops lib ops now crawl) s s')"

lemma service_run_sync:
  "(service_step lib ops)\<^sup>*\<^sup>* s s' \<Longrightarrow> shown_running s = dom (svc_instances (srv_crawler s)) \<Longrightarrow>
   shown_running s' = dom (svc_instances (srv_crawler s'))"
proof (induction rule: rtranclp_induct)
  case (step y z)
  then obtain now crawl where "server_step (service_ops lib ops now crawl) y z" by (auto simp: service_step_def)
  from service_backend.server_step_sync [OF this] show ?case using step by simp
qed simp

lemma server_New_sync: "shown_running (server_New NewService cfg []) = dom (svc_instances (srv_crawler (server_New NewService cfg [])))"
  by (simp add: server_New_def shown_running_def NewService_def)

text \<open>
  C15. However the handlers are called one after the other, the instances that the server shows as
  running are those that the crawler service has.  So a client that names an unknown crawler is told
  \<^verbatim>\<open>NotFound\<close> by \<open>GetStats\<close> and \<open>StopCrawler\<close>; one that names a running crawler is served by both; and for one
  that was stopped, which the server still lists, both answer \<^verbatim>\<open>Internal\<close>.
\<close>

theorem server_tracks_service:
  fixes s :: "('d, 'j, 'b, 's) service Server"
  assumes "(service_step lib ops)\<^sup>*\<^sup>* (server_New NewService cfg []) s"
  shows "shown_running s = dom (svc_instances (srv_crawler s)) \<and>
    (case srv_instances s cid of
       None \<Rightarrow> Server_GetStats (service_ops lib ops now crawl) s cid = Inl (crawler_not_found cid) \<and>
         fst (the (StopCrawler (service_ops lib ops now crawl) s cid)) = Inl (crawler_not_found cid)
     | Some inst \<Rightarrow>
         (if ci_status inst = CRAWLER_STATUS_RUNNING
          then (\<exists>st st'. Server_GetStats (service_ops lib ops now crawl) s cid = Inr (stats_message st CRAWLER_STATUS_RUNNING) \<and>
                  fst (the (StopCrawler (service_ops lib ops now crawl) s cid)) = Inr (stats_message st' CRAWLER_STATUS_STOPPED))
          else (\<exists>m m'. Server_GetStats (service_ops lib ops now crawl) s cid = Inl (StatusError Internal m) \<and>
                  fst (the (StopCrawler (service_ops lib ops now crawl) s cid)) = Inl (StatusError Internal m'))))"
proof -
  have sync: "shown_running s = dom (svc_instances (srv_crawler s))" by (rule service_run_sync [OF assms server_New_sync])
  show ?thesis using service_backend.answers [OF sync, where cid = cid] sync by blast
qed

text \<open>
  \<open>StopCrawler\<close> gives up the lock between the call of the service and the record it makes.  When the
  crawler is started again in between, the new run is marked as stopped: the service runs it, and
  \<open>GetStats\<close> shows statistics with the status stopped.
\<close>

theorem restart_shown_stopped:
  fixes s :: "('d, 'j, 'b, 's) service Server"
  assumes "stop_call (service_ops lib ops now crawl) s cid = (Inr st, s1)"
    and "StartCrawler (service_ops lib ops now crawl) rand s1 req = (Inr (cid, CRAWLER_STATUS_RUNNING), s2)"
  shows "\<exists>s3 st3. stop_record s2 cid = Some s3 \<and> cid \<in> dom (svc_instances (srv_crawler s3)) \<and> cid \<notin> shown_running s3 \<and>
    Server_GetStats (service_ops lib ops now crawl) s3 cid = Inr (stats_message st3 CRAWLER_STATUS_STOPPED)"
  using service_backend.stop_start_race [OF assms] by simp

subsection \<open>A crawler's context is that of the call that started it\<close>

lemma workers_leave:
  assumes "er_waiting st = {#}" "er_running st = {#}" "ctx_err (er_engine st) \<noteq> None"
  shows "(engine_step ops env cbs)\<^sup>*\<^sup>* st (st\<lparr>er_engine := (er_engine st)\<lparr>en_workers := 0\<rparr>\<rparr>)"
  using assms
proof (induction "en_workers (er_engine st)" arbitrary: st)
  case 0
  then have "st\<lparr>er_engine := (er_engine st)\<lparr>en_workers := 0\<rparr>\<rparr> = st" by simp
  then show ?case by simp
next
  case (Suc n)
  let ?st = "st\<lparr>er_engine := (er_engine st)\<lparr>en_workers := en_workers (er_engine st) - 1\<rparr>\<rparr>"
  have "worker_step ops env cbs st ?st" using Suc.prems Suc.hyps(2) by (intro worker_step.exit) simp_all
  then have "engine_step ops env cbs st ?st" by (rule engine_step.work)
  moreover have "(engine_step ops env cbs)\<^sup>*\<^sup>* ?st (?st\<lparr>er_engine := (er_engine ?st)\<lparr>en_workers := 0\<rparr>\<rparr>)"
    by (rule Suc.hyps(1)) (use Suc in \<open>simp_all add: ctx_err_def\<close>)
  ultimately show ?case by (simp add: converse_rtranclp_into_rtranclp)
qed

lemma no_workers_no_work:
  assumes "er_waiting st = {#}" "er_running st = {#}" "en_workers (er_engine st) = 0"
  shows "\<not> worker_step ops env cbs st st'"
  using assms by (auto elim: worker_stepE)

lemma service_Start_engine:
  fixes v :: "('d, 'j, 'b, 's) service"
  assumes "service_Start lib ops now ctx v cid cfg = (None, v')"
  shows "\<exists>e. svc_instances v' cid = Some e \<and> en_ctx e = Some ctx \<and> \<not> en_stopped e \<and> map crq_URL (en_urlQueue e) = cc_URLs cfg \<and>
    stats_of (Engine_Stats now e) = \<lparr>PagesCrawled = 0, PagesFailed = 0, PagesQueued = 0\<rparr>"
proof -
  let ?f = "fresh_engine ops (Config_withDefaults (engine_config cfg)) :: ('d, 'j, 'b, 's) Engine"
  obtain x e1 where a: "(if 0 < length (cc_URLs cfg) then Engine_AddURLs ?f (cc_URLs cfg) [] else (None, ?f)) = (x, e1)" by force
  obtain y e2 where b: "Engine_Start now ctx e1 = (y, e2)" by force
  have n: "svc_instances v cid = None" using assms by (cases "svc_instances v cid") (simp_all add: service_Start_def)
  have x: "x = None" "y = None" and v': "v' = v\<lparr>svc_instances := (svc_instances v)(cid \<mapsto> e2)\<rparr>"
    using assms unfolding service_Start_def n newEngine_fresh option.case sum.case a prod.case
    by (cases x; cases y; simp add: b)+
  have add: "Engine_AddURLs ?f (cc_URLs cfg) [] = (None, e1)" using a x by (cases "cc_URLs cfg") simp_all
  have e2: "e2 = e1\<lparr>en_started := True, en_ctx := Some ctx, en_startTime := now, en_workers := nat (cfg_WorkerCount (en_cfg e1))\<rparr>"
    using b x by (simp add: Engine_Start_def split: if_splits)
  show ?thesis unfolding v' using Engine_AddURLs_queue [OF add] by (simp add: e2 fresh_engine_def Engine_Stats_def stats_of_def wrap64_def)
qed

lemma StartCrawler_engine:
  fixes s :: "('d, 'j, 'b, 's) service Server"
  assumes "StartCrawler (service_ops lib ops now crawl) rand s req = (Inr (cid, status), s')"
  shows "\<exists>e. svc_instances (srv_crawler s') cid = Some e \<and> en_ctx e = Some None \<and> \<not> en_stopped e \<and>
    map crq_URL (en_urlQueue e) = cc_URLs (protoConfigToCrawlConfig (scr_config req)) \<and>
    stats_of (Engine_Stats now e) = \<lparr>PagesCrawled = 0, PagesFailed = 0, PagesQueued = 0\<rparr>"
    and "srv_instances s' cid = Some \<lparr>ci_status = CRAWLER_STATUS_RUNNING, ci_config = protoConfigToCrawlConfig (scr_config req)\<rparr>"
proof -
  let ?cfg = "protoConfigToCrawlConfig (scr_config req)"
  obtain r s1 where c: "start_call (service_ops lib ops now crawl) rand s req = (r, s1)" by force
  obtain cfg where r: "r = Inr (cid, cfg)" and s': "s' = start_record s1 cid cfg" using assms c by (cases r) (auto simp: StartCrawler_def)
  obtain i where i: "(if scr_crawler_id req = [] then generateID rand else Inr (scr_crawler_id req)) = Inr i"
    using c r unfolding start_call_def by (cases "if scr_crawler_id req = [] then generateID rand else Inr (scr_crawler_id req)") simp_all
  obtain x v where v: "service_Start lib ops now None (srv_crawler s) i ?cfg = (x, v)" by force
  have d: "i = cid" "cfg = ?cfg" "x = None" "s1 = s\<lparr>srv_crawler := v\<rparr>"
    using c r unfolding start_call_def i by (cases x; simp add: Let_def service_ops_def v)+
  show "\<exists>e. svc_instances (srv_crawler s') cid = Some e \<and> en_ctx e = Some None \<and> \<not> en_stopped e \<and>
    map crq_URL (en_urlQueue e) = cc_URLs ?cfg \<and> stats_of (Engine_Stats now e) = \<lparr>PagesCrawled = 0, PagesFailed = 0, PagesQueued = 0\<rparr>"
    using service_Start_engine [OF v [unfolded d(1) d(3)]] by (simp add: s' start_record_def d)
  show "srv_instances s' cid = Some \<lparr>ci_status = CRAWLER_STATUS_RUNNING, ci_config = ?cfg\<rparr>" by (simp add: s' start_record_def d)
qed


section \<open>Streams\<close>

text \<open>The responses due to one request, apart from the time of each.\<close>

definition stream_answer :: "(string list \<Rightarrow> CrawlConfig \<Rightarrow> error + Result list) \<Rightarrow> pb_CrawlRequest \<times> Time \<times> Time \<Rightarrow> pb_CrawlResponse list" where
  "stream_answer crawl = (\<lambda>(req, start, finish).
     if pbr_urls req = [] then []
     else case crawl (pbr_urls req) (protoConfigToCrawlConfig (pbr_config req)) of
       Inl err \<Rightarrow> [empty_response\<lparr>pbp_error := Some \<lparr>pbe_code = ERROR_CODE_INTERNAL, pbe_message = error_Error err, pbe_url = []\<rparr>\<rparr>]
     | Inr results \<Rightarrow> map (\<lambda>r. (result_response 0 (time_Sub finish start) r)\<lparr>pbp_crawled_at := None\<rparr>) results)"

abbreviation untimed :: "pb_CrawlResponse list \<Rightarrow> pb_CrawlResponse list" where
  "untimed \<equiv> map (pbp_crawled_at_update (\<lambda>_. None))"

lemma send_results_untimed:
  "\<exists>w'. send_results (\<lambda>w r. (None, w @ [r])) clock d w rs = (None, w') \<and>
     untimed w' = untimed w @ map (\<lambda>r. (result_response 0 d r)\<lparr>pbp_crawled_at := None\<rparr>) rs"
proof (induction rs arbitrary: w)
  case (Cons r rs)
  show ?case using Cons.IH [of "w @ [result_response (clock w) d r]"] by (simp add: result_response_def)
qed simp

lemma CrawlStream_untimed:
  "\<exists>w'. CrawlStream (service_ops lib ops now crawl) (\<lambda>w r. (None, w @ [r])) clock s w (map (\<lambda>(req, t0, t1). RecvRequest req t0 t1) reqs @ RecvEOF # ms) =
       (Some None, s, w') \<and> untimed w' = untimed w @ concat (map (stream_answer crawl) reqs)"
proof (induction reqs arbitrary: w)
  case (Cons q reqs)
  obtain req t0 t1 where q: "q = (req, t0, t1)" by (cases q)
  have id: "s\<lparr>srv_crawler := srv_crawler s\<rparr> = s" by simp
  show ?case
  proof (cases "pbr_urls req = []")
    case True
    then show ?thesis using Cons.IH [of w] by (simp add: q stream_answer_def)
  next
    case False
    show ?thesis
    proof (cases "crawl (pbr_urls req) (protoConfigToCrawlConfig (pbr_config req))")
      case (Inl err)
      let ?r = "empty_response\<lparr>pbp_error := Some \<lparr>pbe_code = ERROR_CODE_INTERNAL, pbe_message = error_Error err, pbe_url = []\<rparr>\<rparr>"
      have "stream_answer crawl q = [?r]" "?r\<lparr>pbp_crawled_at := None\<rparr> = ?r" using Inl False by (simp_all add: q stream_answer_def empty_response_def)
      then show ?thesis using Cons.IH [of "w @ [?r]"] False Inl by (simp add: q service_ops_def id)
    next
      case (Inr results)
      obtain w1 where w1: "send_results (\<lambda>w r. (None, w @ [r])) clock (time_Sub t1 t0) w results = (None, w1)"
        "untimed w1 = untimed w @ map (\<lambda>r. (result_response 0 (time_Sub t1 t0) r)\<lparr>pbp_crawled_at := None\<rparr>) results"
        using send_results_untimed [of clock "time_Sub t1 t0" w results] by blast
      show ?thesis using Cons.IH [of w1] False Inr w1 by (simp add: q service_ops_def id stream_answer_def)
    qed
  qed
qed simp

text \<open>
  C23. A stream whose responses are all delivered answers every request in turn, up to the end of the
  stream, and ends without an error: a request without URLs gets no response, a failed crawl one
  response with the error, and a crawl a response per result, in the order of the results.
\<close>

theorem CrawlStream_answers:
  "\<exists>sent. CrawlStream (service_ops lib ops now crawl) (\<lambda>w r. (None, w @ [r])) clock s [] (map (\<lambda>(req, t0, t1). RecvRequest req t0 t1) reqs @ RecvEOF # ms) =
       (Some None, s, sent) \<and> untimed sent = concat (map (stream_answer crawl) reqs)"
  using CrawlStream_untimed [where w = "[]"] by simp

section \<open>Bounds and the port\<close>

text \<open>
  \<open>clampInt32\<close> stays within the 32-bit range for every value, and leaves a value in that range as it is; it is
  monotone, so a larger count is never reported as a smaller one.
\<close>

theorem clampInt32_bounds:
  "- (2 ^ 31) \<le> clampInt32 v \<and> clampInt32 v < 2 ^ 31 \<and> (- (2 ^ 31) \<le> v \<and> v < 2 ^ 31 \<longleftrightarrow> clampInt32 v = v) \<and> clampInt32 (min v u) = min (clampInt32 v) (clampInt32 u)"
  by (auto simp: clampInt32_def wrap32_def min_def)

text \<open>
  A server made with port 0 does not listen on a free port, as the comment of \<open>Addr\<close> has it: the
  address it listens on is the default one.
\<close>

theorem port_zero_replaced:
  assumes "sc_Port cfg = 0" "net_Listen '':50051'' = Inr addr"
  shows "\<exists>s. Server_Start net_Listen (ServeReturned err) (server_New v cfg []) = (err, s) \<and> Server_Addr s = Some addr"
proof -
  have "sc_Port (server_Config_withDefaults cfg) = 50051" using assms(1) by (simp add: server_Config_withDefaults_def Let_def)
  moreover have "strconv_Itoa 50051 = ''50051''"
    by (simp add: strconv_Itoa_def nat_to_dec.simps [of 5] nat_to_dec.simps [of 50] nat_to_dec.simps [of 500] nat_to_dec.simps [of 5005] nat_to_dec.simps [of 50051])
      code_simp
  ultimately show ?thesis using assms(2) by (simp add: Server_Start_def server_New_def Server_Addr_def)
qed

section \<open>URLs added to a running crawler\<close>

lemma add_each_accepts:
  assumes "\<not> en_stopped e" "length (en_urlQueue e) + length us \<le> urlQueue_cap"
  shows "\<exists>e'. add_each e us n = (n + length us, e') \<and> map crq_URL (en_urlQueue e') = map crq_URL (en_urlQueue e) @ us"
  using assms
proof (induction us arbitrary: e n)
  case (Cons u us)
  obtain e1 where e1: "Engine_AddURL e u [] = (None, e1)" "\<not> en_stopped e1" "length (en_urlQueue e1) = Suc (length (en_urlQueue e))"
    "map crq_URL (en_urlQueue e1) = map crq_URL (en_urlQueue e) @ [u]"
    using Cons.prems by (simp add: Engine_AddURL_def Let_def)
  then show ?case using Cons.IH [of e1 "Suc n"] Cons.prems by simp
qed simp

text \<open>
  The count that \<open>AddURLs\<close> answers with is the number of URLs in the request, as long as the queue has room:
  every one is queued, whether or not it is in the queue already or twice in the request.
\<close>

theorem AddURLs_counts_duplicates:
  assumes "srv_instances s cid = Some inst" "svc_instances (srv_crawler s) cid = Some e" "\<not> en_stopped e"
    and "length (en_urlQueue e) + length urls \<le> urlQueue_cap"
  shows "\<exists>s' e'. Server_AddURLs (service_ops lib ops now crawl) s cid urls = (Inr (int (length urls)), s') \<and>
    svc_instances (srv_crawler s') cid = Some e' \<and> map crq_URL (en_urlQueue e') = map crq_URL (en_urlQueue e) @ urls"
proof -
  obtain e' where e': "add_each e urls 0 = (length urls, e')" "map crq_URL (en_urlQueue e') = map crq_URL (en_urlQueue e) @ urls"
    using add_each_accepts [OF assms(3,4), of 0] by auto
  have "int (length urls) \<le> 10000" using assms(4) by (simp add: urlQueue_cap_def)
  then have "clampInt32 (int (length urls)) = int (length urls)" by (simp add: clampInt32_def wrap32_def)
  then show ?thesis using assms e' by (simp add: Server_AddURLs_def service_ops_def service_AddURLs_def)
qed

section \<open>A concrete server\<close>

lemma service_Start_accepts:
  fixes v :: "('d, 'j, 'b, 's) service"
  assumes "svc_instances v cid = None" "length (cc_URLs cfg) \<le> urlQueue_cap"
  shows "\<exists>v'. service_Start lib ops now ctx v cid cfg = (None, v')"
proof -
  let ?f = "fresh_engine ops (Config_withDefaults (engine_config cfg)) :: ('d, 'j, 'b, 's) Engine"
  obtain e1 where e1: "Engine_AddURLs ?f (cc_URLs cfg) [] = (None, e1)"
    using AddURLs_accepts [of ?f "cc_URLs cfg"] assms(2) by (auto simp: fresh_engine_def)
  have "\<not> en_started e1" using Engine_AddURLs_queue(3) [OF e1] by (simp add: fresh_engine_def)
  then have "fst (Engine_Start now ctx e1) = None" by (simp add: Engine_Start_def)
  moreover have "(if 0 < length (cc_URLs cfg) then Engine_AddURLs ?f (cc_URLs cfg) [] else (None, ?f)) = (None, e1)" using e1 by (cases "cc_URLs cfg") simp_all
  ultimately show ?thesis unfolding service_Start_def newEngine_fresh assms(1) option.case sum.case by (cases "Engine_Start now ctx e1") simp
qed

lemma StartCrawler_accepts:
  fixes s :: "('d, 'j, 'b, 's) service Server"
  assumes "scr_crawler_id req \<noteq> []" "svc_instances (srv_crawler s) (scr_crawler_id req) = None"
    and "length (cc_URLs (protoConfigToCrawlConfig (scr_config req))) \<le> urlQueue_cap"
  shows "\<exists>s'. StartCrawler (service_ops lib ops now crawl) rand s req = (Inr (scr_crawler_id req, CRAWLER_STATUS_RUNNING), s')"
proof -
  obtain v' where v': "service_Start lib ops now None (srv_crawler s) (scr_crawler_id req) (protoConfigToCrawlConfig (scr_config req)) = (None, v')"
    using service_Start_accepts [OF assms(2,3)] by blast
  show ?thesis using assms(1) v' by (simp add: StartCrawler_def start_call_def service_ops_def Let_def)
qed

definition sample_start :: StartCrawlerRequest where
  "sample_start = \<lparr>scr_config = Some \<lparr>pbc_urls = [''http://h/''], pbc_options = None\<rparr>, scr_crawler_id = ''a''\<rparr>"

abbreviation sample_ops :: "(unit, unit, unit, int \<times> nat) service crawler_Service" where
  "sample_ops \<equiv> service_ops socks_sample counting_sem 0 (\<lambda>us cfg. Inr [])"

abbreviation sample_server :: "(unit, unit, unit, int \<times> nat) service Server" where
  "sample_server \<equiv> server_New NewService \<lparr>sc_Port = 0, sc_DrainTimeout = 0\<rparr> []"

lemma sample_started:
  "\<exists>s e. StartCrawler sample_ops rand sample_server sample_start = (Inr (''a'', CRAWLER_STATUS_RUNNING), s) \<and>
     svc_instances (srv_crawler s) ''a'' = Some e \<and> \<not> en_stopped e \<and> map crq_URL (en_urlQueue e) = [''http://h/''] \<and>
     srv_instances s ''a'' = Some \<lparr>ci_status = CRAWLER_STATUS_RUNNING, ci_config = protoConfigToCrawlConfig (scr_config sample_start)\<rparr>"
proof -
  have "scr_crawler_id sample_start = ''a''" "cc_URLs (protoConfigToCrawlConfig (scr_config sample_start)) = [''http://h/'']"
    by (simp_all add: sample_start_def protoConfigToCrawlConfig_def Let_def)
  moreover have "svc_instances (srv_crawler sample_server) ''a'' = None" by (simp add: server_New_def NewService_def)
  ultimately obtain s where s: "StartCrawler sample_ops rand sample_server sample_start = (Inr (''a'', CRAWLER_STATUS_RUNNING), s)"
    using StartCrawler_accepts [of sample_start sample_server socks_sample counting_sem 0 "\<lambda>us cfg. Inr []" rand] by (auto simp: urlQueue_cap_def)
  show ?thesis using StartCrawler_engine [OF s] s \<open>cc_URLs _ = _\<close> by auto
qed

theorem server_tracks_service_witness:
  "\<exists>s. (service_step socks_sample counting_sem)\<^sup>*\<^sup>* sample_server s \<and> shown_running s = {''a''} \<and>
     (\<exists>st st'. Server_GetStats sample_ops s ''a'' = Inr (stats_message st CRAWLER_STATUS_RUNNING) \<and>
        fst (the (StopCrawler sample_ops s ''a'')) = Inr (stats_message st' CRAWLER_STATUS_STOPPED))"
proof -
  obtain s where s: "StartCrawler sample_ops (Inr []) sample_server sample_start = (Inr (''a'', CRAWLER_STATUS_RUNNING), s)"
    "srv_instances s ''a'' = Some \<lparr>ci_status = CRAWLER_STATUS_RUNNING, ci_config = protoConfigToCrawlConfig (scr_config sample_start)\<rparr>"
    using sample_started by blast
  have step: "service_step socks_sample counting_sem sample_server s" unfolding service_step_def using server_step.start [OF s(1)] by blast
  then have run: "(service_step socks_sample counting_sem)\<^sup>*\<^sup>* sample_server s" by simp
  have "shown_running sample_server = {}" by (simp add: server_New_def shown_running_def)
  have "srv_instances s = [''a'' \<mapsto> \<lparr>ci_status = CRAWLER_STATUS_RUNNING, ci_config = protoConfigToCrawlConfig (scr_config sample_start)\<rparr>]"
  proof -
    obtain r s1 where c: "start_call sample_ops (Inr []) sample_server sample_start = (r, s1)" by force
    have "srv_instances s1 = Map.empty" using service_backend.start_call_cases(1) [OF c] by (simp add: server_New_def)
    then show ?thesis using s c by (cases r) (auto simp: StartCrawler_def start_record_def)
  qed
  then have sh: "shown_running s = {''a''}" by (auto simp: shown_running_def split: if_splits)
  from server_tracks_service [OF run, where cid = "''a''" and now = 0 and crawl = "\<lambda>us cfg. Inr []"] s(2) run sh show ?thesis by auto
qed


theorem restart_shown_stopped_witness:
  "\<exists>s s1 s2 s3 st st3. stop_call sample_ops s ''a'' = (Inr st, s1) \<and>
     StartCrawler sample_ops (Inr []) s1 sample_start = (Inr (''a'', CRAWLER_STATUS_RUNNING), s2) \<and> stop_record s2 ''a'' = Some s3 \<and>
     Server_GetStats sample_ops s3 ''a'' = Inr (stats_message st3 CRAWLER_STATUS_STOPPED)"
proof -
  obtain s e where "StartCrawler sample_ops (Inr []) sample_server sample_start = (Inr (''a'', CRAWLER_STATUS_RUNNING), s)"
    and s: "svc_instances (srv_crawler s) ''a'' = Some e"
      "srv_instances s ''a'' = Some \<lparr>ci_status = CRAWLER_STATUS_RUNNING, ci_config = protoConfigToCrawlConfig (scr_config sample_start)\<rparr>"
    using sample_started [of "Inr []"] by (elim exE conjE) (rule that; assumption)
  then obtain st s1 where s1: "stop_call sample_ops s ''a'' = (Inr st, s1)" "svc_instances (srv_crawler s1) ''a'' = None"
    by (auto simp: stop_call_def service_ops_def service_Stop_def Let_def)
  have "scr_crawler_id sample_start = ''a''" "cc_URLs (protoConfigToCrawlConfig (scr_config sample_start)) = [''http://h/'']"
    by (simp_all add: sample_start_def protoConfigToCrawlConfig_def Let_def)
  then obtain s2 where s2: "StartCrawler sample_ops (Inr []) s1 sample_start = (Inr (''a'', CRAWLER_STATUS_RUNNING), s2)"
    using StartCrawler_accepts [of sample_start s1 socks_sample counting_sem 0 "\<lambda>us cfg. Inr []" "Inr []"] s1(2) by (auto simp: urlQueue_cap_def)
  from restart_shown_stopped [OF s1(1) s2] s1 s2 show ?thesis by blast
qed

theorem AddURLs_counts_duplicates_witness:
  "\<exists>s s'. (service_step socks_sample counting_sem)\<^sup>*\<^sup>* sample_server s \<and> Server_AddURLs sample_ops s ''a'' [''http://h/'', ''http://h/''] = (Inr 2, s')"
proof -
  obtain s e where s: "StartCrawler sample_ops (Inr []) sample_server sample_start = (Inr (''a'', CRAWLER_STATUS_RUNNING), s)"
    "srv_instances s ''a'' = Some \<lparr>ci_status = CRAWLER_STATUS_RUNNING, ci_config = protoConfigToCrawlConfig (scr_config sample_start)\<rparr>"
    "svc_instances (srv_crawler s) ''a'' = Some e" "\<not> en_stopped e" "map crq_URL (en_urlQueue e) = [''http://h/'']"
    using sample_started [of "Inr []"] by (elim exE conjE) (rule that; assumption)
  have "length (en_urlQueue e) = 1" using arg_cong [OF s(5), of length] by simp
  then have l: "length (en_urlQueue e) + length [''http://h/'', ''http://h/''] \<le> urlQueue_cap" by (simp add: urlQueue_cap_def)
  have "service_step socks_sample counting_sem sample_server s" unfolding service_step_def using server_step.start [OF s(1)] by blast
  then have run: "(service_step socks_sample counting_sem)\<^sup>*\<^sup>* sample_server s" by simp
  from AddURLs_counts_duplicates [OF s(2,3,4) l, of socks_sample counting_sem 0 "\<lambda>us cfg. Inr []"] run show ?thesis by auto
qed

theorem port_zero_replaced_witness:
  "\<exists>s. Server_Start (\<lambda>a. Inr ''127.0.0.1:50051'') (ServeReturned None) (server_New () \<lparr>sc_Port = 0, sc_DrainTimeout = 0\<rparr> []) = (None, s) \<and>
     Server_Addr s = Some ''127.0.0.1:50051''"
  using port_zero_replaced [of "\<lparr>sc_Port = 0, sc_DrainTimeout = 0\<rparr>" "\<lambda>a. Inr ''127.0.0.1:50051''" "''127.0.0.1:50051''" None "()"] by simp

end
