(* ===== verification/Storage_CSV.thy ===== *)
theory Storage_CSV
  imports Net_URL Crawl_Errors "HOL-Library.AList"
begin

text \<open>
  pkg/storage: items, the JSON Lines file storage and the CSV file storage, over the file system (an
  argument, \<open>os_ops\<close>).  The parts of \<^verbatim>\<open>bufio\<close> and \<^verbatim>\<open>encoding/csv\<close> that the CSV storage runs through are
  modelled as they are: the 4096 byte buffer, the sticky write error, and the quoting of fields.  A
  Go map is the list of its entries in the order in which a \<^verbatim>\<open>range\<close> over it yields them.
\<close>

section \<open>plugin.go\<close>

text \<open>A value of type \<^verbatim>\<open>any\<close>: a string, a map, or another value \<open>'l\<close>.\<close>

datatype 'l go_value = GString string | GMap "(string \<times> 'l go_value) list" | GOther 'l

record 'l storage_Item =
  item_URL :: string
  item_Data :: "(string \<times> 'l go_value) list"
  item_Metadata :: "(string \<times> 'l go_value) list"
  item_CrawledAt :: Time

definition config_string :: "(string \<rightharpoonup> 'l go_value) \<Rightarrow> string \<Rightarrow> string \<Rightarrow> string" where
  "config_string config key old = (case config key of Some (GString p) \<Rightarrow> if p \<noteq> [] then p else old | _ \<Rightarrow> old)"

section \<open>Files\<close>

text \<open>
  \<open>os_OpenFile w path trunc\<close> opens for writing, truncating or appending; \<open>os_Write\<close> gives \<open>None\<close> when all
  bytes were written, and otherwise how many were and the error.
\<close>

record ('w, 'f) os_ops =
  os_OpenFile :: "'w \<Rightarrow> string \<Rightarrow> bool \<Rightarrow> (error + 'f) \<times> 'w"
  os_Write :: "'w \<Rightarrow> 'f \<Rightarrow> string \<Rightarrow> (nat \<times> error) option \<times> 'w"
  os_Close :: "'w \<Rightarrow> 'f \<Rightarrow> error option \<times> 'w"

text \<open>A disk with room: \<open>content w f\<close> is what the file behind the handle holds.\<close>

definition good_disk :: "('w, 'f) os_ops \<Rightarrow> ('w \<Rightarrow> 'f \<Rightarrow> string) \<Rightarrow> bool" where
  "good_disk os content \<longleftrightarrow>
     (\<forall>w path f w'. os_OpenFile os w path True = (Inr f, w') \<longrightarrow> content w' f = []) \<and>
     (\<forall>w f s. \<exists>w'. os_Write os w f s = (None, w') \<and> content w' f = content w f @ s)"

lemma good_disk_write:
  assumes "good_disk os content"
  obtains w' where "os_Write os w f s = (None, w')" "content w' f = content w f @ s"
  using assms unfolding good_disk_def by blast

section \<open>file.go\<close>

record FileConfig =
  fc_Path :: string
  fc_Pretty :: bool

text \<open>\<open>fst_err\<close> is the write error that a \<open>json.Encoder\<close> keeps; a failed conversion is not kept.\<close>

record 'f FileStorage =
  fst_cfg :: FileConfig
  fst_file :: "'f option"
  fst_err :: "error option"

definition NewFileStorage :: "FileConfig \<Rightarrow> 'f FileStorage" where
  "NewFileStorage cfg = \<lparr>fst_cfg = cfg, fst_file = None, fst_err = None\<rparr>"

definition FileStorage_Init ::
  "('w, 'f) os_ops \<Rightarrow> 'w \<Rightarrow> 'f FileStorage \<Rightarrow> (string \<rightharpoonup> 'l go_value) \<Rightarrow> error option \<times> 'f FileStorage \<times> 'w" where
  "FileStorage_Init os w s config =
     (let s1 = s\<lparr>fst_cfg := (fst_cfg s)\<lparr>fc_Path := config_string config ''path'' (fc_Path (fst_cfg s))\<rparr>\<rparr>
      in if fc_Path (fst_cfg s1) = [] then (Some (ErrorString ''file storage: path is required''), s1, w)
         else (case os_OpenFile os w (fc_Path (fst_cfg s1)) False of
             (Inl err, w1) \<Rightarrow> (Some (WrapError (''file storage: open '' @ fc_Path (fst_cfg s1) @ '': '') err []), s1, w1)
           | (Inr f, w1) \<Rightarrow> (None, s1\<lparr>fst_file := Some f, fst_err := None\<rparr>, w1)))"

text \<open>\<open>Encode\<close> writes the JSON text, given by \<open>json pretty item\<close>, and a line feed in one call.\<close>

definition file_Encode ::
  "('w, 'f) os_ops \<Rightarrow> (bool \<Rightarrow> 'l storage_Item \<Rightarrow> error + string) \<Rightarrow> 'w \<Rightarrow> 'f FileStorage \<Rightarrow> 'f \<Rightarrow> 'l storage_Item \<Rightarrow>
   error option \<times> 'f FileStorage \<times> 'w" where
  "file_Encode os json w s f item =
     (case fst_err s of
        Some err \<Rightarrow> (Some err, s, w)
      | None \<Rightarrow>
          (case json (fc_Pretty (fst_cfg s)) item of
             Inl err \<Rightarrow> (Some err, s, w)
           | Inr txt \<Rightarrow>
               (case os_Write os w f (txt @ [CHR 0x0A]) of
                  (None, w1) \<Rightarrow> (None, s, w1)
                | (Some (n, err), w1) \<Rightarrow> (Some err, s\<lparr>fst_err := Some err\<rparr>, w1))))"

fun file_encode_each ::
  "('w, 'f) os_ops \<Rightarrow> (bool \<Rightarrow> 'l storage_Item \<Rightarrow> error + string) \<Rightarrow> 'w \<Rightarrow> 'f FileStorage \<Rightarrow> 'f \<Rightarrow> 'l storage_Item list \<Rightarrow>
   error option \<times> 'f FileStorage \<times> 'w" where
  "file_encode_each os json w s f [] = (None, s, w)"
| "file_encode_each os json w s f (item # items) =
     (case file_Encode os json w s f item of
        (Some err, s1, w1) \<Rightarrow> (Some (WrapError ''file storage: encode item: '' err []), s1, w1)
      | (None, s1, w1) \<Rightarrow> file_encode_each os json w1 s1 f items)"

definition FileStorage_Store ::
  "('w, 'f) os_ops \<Rightarrow> (bool \<Rightarrow> 'l storage_Item \<Rightarrow> error + string) \<Rightarrow> 'w \<Rightarrow> 'f FileStorage \<Rightarrow> 'l storage_Item list \<Rightarrow>
   error option \<times> 'f FileStorage \<times> 'w" where
  "FileStorage_Store os json w s items =
     (case fst_file s of
        None \<Rightarrow> (Some (ErrorString ''file storage: not initialized''), s, w)
      | Some f \<Rightarrow> file_encode_each os json w s f items)"

definition FileStorage_Close :: "('w, 'f) os_ops \<Rightarrow> 'w \<Rightarrow> 'f FileStorage \<Rightarrow> error option \<times> 'f FileStorage \<times> 'w" where
  "FileStorage_Close os w s =
     (case fst_file s of
        None \<Rightarrow> (None, s, w)
      | Some f \<Rightarrow> (case os_Close os w f of (err, w1) \<Rightarrow> (err, s\<lparr>fst_file := None, fst_err := None\<rparr>, w1)))"

section \<open>encoding/csv\<close>

subsection \<open>Runes\<close>

definition validDelim :: "int \<Rightarrow> bool" where
  "validDelim r \<longleftrightarrow> r \<noteq> 0 \<and> r \<noteq> 0x22 \<and> r \<noteq> 0x0D \<and> r \<noteq> 0x0A \<and>
     ((0 \<le> r \<and> r < 0xD800) \<or> (0xDFFF < r \<and> r \<le> 0x10FFFF)) \<and> r \<noteq> 0xFFFD"

definition fieldNeedsQuotes :: "int \<Rightarrow> string \<Rightarrow> bool" where
  "fieldNeedsQuotes comma field =
     (if field = [] then False
      else if field = [CHR 0x5C, CHR ''.''] then True
      else if strings_Contains field (utf8_enc comma) \<or> CHR 0x22 \<in> set field \<or> CHR 0x0D \<in> set field \<or> CHR 0x0A \<in> set field then True
      else list_ex (\<lambda>r. strings_HasPrefix field (utf8_enc r)) space_runes)"

subsection \<open>The buffer\<close>

record 'f csv_Writer =
  cw_file :: 'f
  cw_Comma :: int
  cw_buf :: string
  cw_err :: "error option"

definition bufio_size :: nat where "bufio_size = 4096"

definition bufio_Available :: "'f csv_Writer \<Rightarrow> nat" where
  "bufio_Available b = bufio_size - length (cw_buf b)"

definition bufio_Flush :: "('w, 'f) os_ops \<Rightarrow> 'w \<Rightarrow> 'f csv_Writer \<Rightarrow> 'f csv_Writer \<times> 'w" where
  "bufio_Flush os w b =
     (if cw_err b \<noteq> None \<or> cw_buf b = [] then (b, w)
      else (case os_Write os w (cw_file b) (cw_buf b) of
          (None, w1) \<Rightarrow> (b\<lparr>cw_buf := []\<rparr>, w1)
        | (Some (n, err), w1) \<Rightarrow> (b\<lparr>cw_buf := drop n (cw_buf b), cw_err := Some err\<rparr>, w1)))"

text \<open>A string larger than the empty buffer goes to the file at once.\<close>

definition bufio_put :: "('w, 'f) os_ops \<Rightarrow> 'w \<Rightarrow> 'f csv_Writer \<Rightarrow> string \<Rightarrow> 'f csv_Writer \<times> 'w" where
  "bufio_put os w b s =
     (if length s \<le> bufio_Available b then (b\<lparr>cw_buf := cw_buf b @ s\<rparr>, w)
      else (case os_Write os w (cw_file b) s of
          (None, w1) \<Rightarrow> (b, w1)
        | (Some (n, err), w1) \<Rightarrow> (b\<lparr>cw_err := Some err\<rparr>, w1)))"

definition bufio_WriteString :: "('w, 'f) os_ops \<Rightarrow> 'w \<Rightarrow> 'f csv_Writer \<Rightarrow> string \<Rightarrow> 'f csv_Writer \<times> 'w" where
  "bufio_WriteString os w b s =
     (if cw_err b \<noteq> None then (b, w)
      else if length s \<le> bufio_Available b \<or> cw_buf b = [] then bufio_put os w b s
      else (case bufio_Flush os w (b\<lparr>cw_buf := cw_buf b @ take (bufio_Available b) s\<rparr>) of
          (b1, w1) \<Rightarrow> if cw_err b1 \<noteq> None then (b1, w1) else bufio_put os w1 b1 (drop (bufio_Available b) s)))"

definition bufio_WriteRune :: "('w, 'f) os_ops \<Rightarrow> 'w \<Rightarrow> 'f csv_Writer \<Rightarrow> int \<Rightarrow> 'f csv_Writer \<times> 'w" where
  "bufio_WriteRune os w b r =
     (if r < 0x80 then bufio_WriteString os w b (utf8_enc r)
      else if cw_err b \<noteq> None then (b, w)
      else if bufio_Available b < 4 then
        (case bufio_Flush os w b of (b1, w1) \<Rightarrow> if cw_err b1 \<noteq> None then (b1, w1) else (b1\<lparr>cw_buf := cw_buf b1 @ utf8_enc r\<rparr>, w1))
      else (b\<lparr>cw_buf := cw_buf b @ utf8_enc r\<rparr>, w))"

subsection \<open>Records\<close>

lemma dropWhile_Cons_length: "dropWhile P xs = c # rest \<Longrightarrow> length rest < length xs"
  by (metis Suc_le_lessD length_Cons length_dropWhile_le)

text \<open>What \<open>Write\<close> writes for a record, call by call.\<close>

datatype csv_piece = PStr string | PRune int

function quoted_pieces :: "string \<Rightarrow> csv_piece list" where
  "quoted_pieces field =
     (if field = [] then []
      else (let plain = (\<lambda>c. c \<noteq> CHR 0x22 \<and> c \<noteq> CHR 0x0D \<and> c \<noteq> CHR 0x0A)
            in PStr (takeWhile plain field) #
               (case dropWhile plain field of
                  [] \<Rightarrow> []
                | c # rest \<Rightarrow> PStr (if c = CHR 0x22 then [CHR 0x22, CHR 0x22] else [c]) # quoted_pieces rest)))"
  by pat_completeness auto
termination by (relation "measure length") (simp_all add: dropWhile_Cons_length)

declare quoted_pieces.simps [simp del]

definition field_pieces :: "int \<Rightarrow> string \<Rightarrow> csv_piece list" where
  "field_pieces comma field =
     (if fieldNeedsQuotes comma field then PStr [CHR 0x22] # quoted_pieces field @ [PStr [CHR 0x22]] else [PStr field])"

fun record_pieces :: "int \<Rightarrow> string list \<Rightarrow> csv_piece list" where
  "record_pieces comma [] = []"
| "record_pieces comma [field] = field_pieces comma field"
| "record_pieces comma (field # fs) = field_pieces comma field @ PRune comma # record_pieces comma fs"

fun write_piece :: "('w, 'f) os_ops \<Rightarrow> csv_piece \<Rightarrow> 'f csv_Writer \<times> 'w \<Rightarrow> 'f csv_Writer \<times> 'w" where
  "write_piece os (PStr s) (b, w) = bufio_WriteString os w b s"
| "write_piece os (PRune r) (b, w) = bufio_WriteRune os w b r"

text \<open>After a failed write the later ones do nothing, so the error at the end is that of the first.\<close>

definition csv_Write :: "('w, 'f) os_ops \<Rightarrow> 'w \<Rightarrow> 'f csv_Writer \<Rightarrow> string list \<Rightarrow> error option \<times> 'f csv_Writer \<times> 'w" where
  "csv_Write os w b record =
     (if \<not> validDelim (cw_Comma b) then (Some (ErrorString ''csv: invalid field or comment delimiter''), b, w)
      else (case fold (write_piece os) (record_pieces (cw_Comma b) record @ [PStr [CHR 0x0A]]) (b, w) of (b1, w1) \<Rightarrow> (cw_err b1, b1, w1)))"

section \<open>csv.go\<close>

record CSVConfig =
  csvc_Path :: string
  csvc_Delimiter :: int
  csvc_Columns :: "string list"

record 'f CSVStorage =
  csv_cfg :: CSVConfig
  csv_writer :: "'f csv_Writer option"
  csv_columns :: "string list"
  csv_wrote :: bool

definition NewCSVStorage :: "CSVConfig \<Rightarrow> 'f CSVStorage" where
  "NewCSVStorage cfg = \<lparr>csv_cfg = cfg, csv_writer = None, csv_columns = [], csv_wrote = False\<rparr>"

text \<open>\<open>fmtv\<close> is the text that \<^verbatim>\<open>%v\<close> prints for a value that is neither a string nor a map.\<close>

fun flattenMap :: "('l \<Rightarrow> string) \<Rightarrow> (string \<times> string) list \<Rightarrow> string \<Rightarrow> (string \<times> 'l go_value) list \<Rightarrow> (string \<times> string) list" where
  "flattenMap fmtv out pre [] = out"
| "flattenMap fmtv out pre ((k, GMap m) # rest) = flattenMap fmtv (flattenMap fmtv out (pre @ ''.'' @ k) m) pre rest"
| "flattenMap fmtv out pre ((k, GString s) # rest) = flattenMap fmtv (AList.update (pre @ ''.'' @ k) s out) pre rest"
| "flattenMap fmtv out pre ((k, GOther v) # rest) = flattenMap fmtv (AList.update (pre @ ''.'' @ k) (fmtv v) out) pre rest"

text \<open>\<open>rfc3339\<close> is \<^verbatim>\<open>Time.Format(time.RFC3339)\<close>.\<close>

definition flattenItem :: "('l \<Rightarrow> string) \<Rightarrow> (Time \<Rightarrow> string) \<Rightarrow> 'l storage_Item \<Rightarrow> (string \<times> string) list" where
  "flattenItem fmtv rfc3339 item =
     (let flat = AList.update ''crawled_at'' (rfc3339 (item_CrawledAt item)) (AList.update ''url'' (item_URL item) []);
          flat = flattenMap fmtv flat ''data'' (item_Data item)
      in flattenMap fmtv flat ''metadata'' (item_Metadata item))"

definition detectColumns :: "('l \<Rightarrow> string) \<Rightarrow> (Time \<Rightarrow> string) \<Rightarrow> 'l storage_Item \<Rightarrow> string list" where
  "detectColumns fmtv rfc3339 item = sort (map fst (flattenItem fmtv rfc3339 item))"

definition csv_row :: "('l \<Rightarrow> string) \<Rightarrow> (Time \<Rightarrow> string) \<Rightarrow> string list \<Rightarrow> 'l storage_Item \<Rightarrow> string list" where
  "csv_row fmtv rfc3339 columns item =
     map (\<lambda>col. case map_of (flattenItem fmtv rfc3339 item) col of Some v \<Rightarrow> v | None \<Rightarrow> []) columns"

definition CSVStorage_Init ::
  "('w, 'f) os_ops \<Rightarrow> 'w \<Rightarrow> 'f CSVStorage \<Rightarrow> (string \<rightharpoonup> 'l go_value) \<Rightarrow> error option \<times> 'f CSVStorage \<times> 'w" where
  "CSVStorage_Init os w c config =
     (let c1 = c\<lparr>csv_cfg := (csv_cfg c)\<lparr>csvc_Path := config_string config ''path'' (csvc_Path (csv_cfg c))\<rparr>\<rparr>
      in if csvc_Path (csv_cfg c1) = [] then (Some (ErrorString ''csv storage: path is required''), c1, w)
         else (case os_OpenFile os w (csvc_Path (csv_cfg c1)) True of
             (Inl err, w1) \<Rightarrow> (Some (WrapError (''csv storage: open '' @ csvc_Path (csv_cfg c1) @ '': '') err []), c1, w1)
           | (Inr f, w1) \<Rightarrow>
               (None, c1\<lparr>csv_writer := Some \<lparr>cw_file = f, cw_Comma = (if csvc_Delimiter (csv_cfg c1) \<noteq> 0 then csvc_Delimiter (csv_cfg c1) else 44),
                                           cw_buf = [], cw_err = None\<rparr>,
                        csv_columns := csvc_Columns (csv_cfg c1)\<rparr>, w1)))"

fun write_rows :: "('w, 'f) os_ops \<Rightarrow> 'w \<Rightarrow> 'f csv_Writer \<Rightarrow> string list list \<Rightarrow> error option \<times> 'f csv_Writer \<times> 'w" where
  "write_rows os w b [] = (None, b, w)"
| "write_rows os w b (row # rows) =
     (case csv_Write os w b row of
        (Some err, b1, w1) \<Rightarrow> (Some (WrapError ''csv storage: write row: '' err []), b1, w1)
      | (None, b1, w1) \<Rightarrow> write_rows os w1 b1 rows)"

definition write_header :: "('w, 'f) os_ops \<Rightarrow> 'w \<Rightarrow> 'f CSVStorage \<Rightarrow> 'f csv_Writer \<Rightarrow> error option \<times> 'f CSVStorage \<times> 'f csv_Writer \<times> 'w" where
  "write_header os w c b =
     (if csv_wrote c then (None, c, b, w)
      else (case csv_Write os w b (csv_columns c) of
          (Some err, b1, w1) \<Rightarrow> (Some (WrapError ''csv storage: write header: '' err []), c, b1, w1)
        | (None, b1, w1) \<Rightarrow> (None, c\<lparr>csv_wrote := True\<rparr>, b1, w1)))"

definition CSVStorage_Store ::
  "('w, 'f) os_ops \<Rightarrow> ('l \<Rightarrow> string) \<Rightarrow> (Time \<Rightarrow> string) \<Rightarrow> 'w \<Rightarrow> 'f CSVStorage \<Rightarrow> 'l storage_Item list \<Rightarrow>
   error option \<times> 'f CSVStorage \<times> 'w" where
  "CSVStorage_Store os fmtv rfc3339 w c items =
     (case csv_writer c of
        None \<Rightarrow> (Some (ErrorString ''csv storage: not initialized''), c, w)
      | Some b \<Rightarrow>
          if items = [] then (None, c, w)
          else
            (let c1 = (if csv_columns c = [] then c\<lparr>csv_columns := detectColumns fmtv rfc3339 (hd items)\<rparr> else c)
             in (case write_header os w c1 b of
                   (Some err, c2, b1, w1) \<Rightarrow> (Some err, c2\<lparr>csv_writer := Some b1\<rparr>, w1)
                 | (None, c2, b1, w1) \<Rightarrow>
                     (case write_rows os w1 b1 (map (csv_row fmtv rfc3339 (csv_columns c2)) items) of
                        (Some err, b2, w2) \<Rightarrow> (Some err, c2\<lparr>csv_writer := Some b2\<rparr>, w2)
                      | (None, b2, w2) \<Rightarrow>
                          (case bufio_Flush os w2 b2 of (b3, w3) \<Rightarrow> (cw_err b3, c2\<lparr>csv_writer := Some b3\<rparr>, w3))))))"

definition CSVStorage_Close :: "('w, 'f) os_ops \<Rightarrow> 'w \<Rightarrow> 'f CSVStorage \<Rightarrow> error option \<times> 'f CSVStorage \<times> 'w" where
  "CSVStorage_Close os w c =
     (case csv_writer c of
        None \<Rightarrow> (None, c, w)
      | Some b \<Rightarrow>
          (case bufio_Flush os w b of
             (b1, w1) \<Rightarrow> (case os_Close os w1 (cw_file b1) of (err, w2) \<Rightarrow> (err, c\<lparr>csv_writer := None\<rparr>, w2))))"

section \<open>What the writer puts into the file\<close>

abbreviation quote :: char where "quote \<equiv> CHR 0x22"
abbreviation newline :: char where "newline \<equiv> CHR 0x0A"

definition escape :: "string \<Rightarrow> string" where
  "escape f = concat (map (\<lambda>c. if c = quote then [quote, quote] else [c]) f)"

fun piece_bytes :: "csv_piece \<Rightarrow> string" where
  "piece_bytes (PStr s) = s"
| "piece_bytes (PRune r) = utf8_enc r"

definition csv_field :: "int \<Rightarrow> string \<Rightarrow> string" where
  "csv_field comma f = (if fieldNeedsQuotes comma f then quote # escape f @ [quote] else f)"

definition csv_line :: "int \<Rightarrow> string list \<Rightarrow> string" where
  "csv_line comma fs = join_with (utf8_enc comma) (map (csv_field comma) fs) @ [newline]"

lemma escape_append [simp]: "escape (a @ b) = escape a @ escape b"
  by (simp add: escape_def)

lemma escape_plain: "quote \<notin> set s \<Longrightarrow> escape s = s"
  by (induction s) (auto simp: escape_def)

lemma quoted_pieces_bytes: "concat (map piece_bytes (quoted_pieces f)) = escape f"
proof (induction f rule: quoted_pieces.induct)
  case (1 f)
  let ?plain = "\<lambda>c. c \<noteq> CHR 0x22 \<and> c \<noteq> CHR 0x0D \<and> c \<noteq> CHR 0x0A"
  show ?case
  proof (cases "f = []")
    case True
    then show ?thesis by (simp add: quoted_pieces.simps escape_def)
  next
    case False
    have plain: "escape (takeWhile ?plain f) = takeWhile ?plain f" by (rule escape_plain) (auto dest: set_takeWhileD)
    have "escape (takeWhile ?plain f @ dropWhile ?plain f) = takeWhile ?plain f @ escape (dropWhile ?plain f)" by (simp only: escape_append plain)
    then have f: "escape f = takeWhile ?plain f @ escape (dropWhile ?plain f)" by (simp only: takeWhile_dropWhile_id)
    show ?thesis
    proof (cases "dropWhile ?plain f")
      case Nil
      have "quoted_pieces f = [PStr (takeWhile ?plain f)]" by (subst quoted_pieces.simps) (simp only: False Let_def Nil list.case if_False)
      then show ?thesis unfolding f Nil by (simp add: escape_def)
    next
      case (Cons c rest)
      have "quoted_pieces f = PStr (takeWhile ?plain f) # PStr (if c = quote then [quote, quote] else [c]) # quoted_pieces rest"
        by (subst quoted_pieces.simps) (simp only: False Let_def Cons list.case if_False)
      moreover have "concat (map piece_bytes (quoted_pieces rest)) = escape rest" by (rule 1 [OF False refl Cons])
      ultimately show ?thesis unfolding f Cons by (simp add: escape_def)
    qed
  qed
qed

lemma field_pieces_bytes: "concat (map piece_bytes (field_pieces comma f)) = csv_field comma f"
  by (simp add: field_pieces_def csv_field_def quoted_pieces_bytes)

lemma record_pieces_bytes:
  "concat (map piece_bytes (record_pieces comma fs)) = join_with (utf8_enc comma) (map (csv_field comma) fs)"
  by (induction comma fs rule: record_pieces.induct) (simp_all add: field_pieces_bytes)

definition writer_ok :: "'f csv_Writer \<Rightarrow> bool" where
  "writer_ok b \<longleftrightarrow> cw_err b = None \<and> length (cw_buf b) \<le> bufio_size"

text \<open>The bytes written so far, in the file and in the buffer.\<close>

definition written :: "('w \<Rightarrow> 'f \<Rightarrow> string) \<Rightarrow> 'f csv_Writer \<times> 'w \<Rightarrow> string" where
  "written content = (\<lambda>(b, w). content w (cw_file b) @ cw_buf b)"

definition writes :: "('w \<Rightarrow> 'f \<Rightarrow> string) \<Rightarrow> 'f csv_Writer \<times> 'w \<Rightarrow> string \<Rightarrow> 'f csv_Writer \<times> 'w \<Rightarrow> bool" where
  "writes content x s y \<longleftrightarrow> writer_ok (fst y) \<and> cw_file (fst y) = cw_file (fst x) \<and> cw_Comma (fst y) = cw_Comma (fst x) \<and>
     written content y = written content x @ s"

lemma writes_trans: "writes content x s y \<Longrightarrow> writes content y t z \<Longrightarrow> writes content x (s @ t) z"
  by (simp add: writes_def)

lemma utf8_enc_length: "length (utf8_enc r) \<le> 4"
  by (simp add: utf8_enc_def)

lemma bufio_Flush_good:
  assumes "good_disk os content" "writer_ok b"
  shows "writes content (b, w) [] (bufio_Flush os w b) \<and> cw_buf (fst (bufio_Flush os w b)) = []"
proof -
  obtain w' where "os_Write os w (cw_file b) (cw_buf b) = (None, w')" "content w' (cw_file b) = content w (cw_file b) @ cw_buf b"
    by (rule good_disk_write [OF assms(1)])
  then show ?thesis using assms(2) by (simp add: bufio_Flush_def writes_def writer_ok_def written_def)
qed

lemma bufio_put_good:
  assumes "good_disk os content" "writer_ok b" "length s \<le> bufio_Available b \<or> cw_buf b = []"
  shows "writes content (b, w) s (bufio_put os w b s)"
proof -
  obtain w' where "os_Write os w (cw_file b) s = (None, w')" "content w' (cw_file b) = content w (cw_file b) @ s"
    by (rule good_disk_write [OF assms(1)])
  then show ?thesis using assms(2,3) by (auto simp: bufio_put_def writes_def writer_ok_def written_def bufio_Available_def)
qed

lemma bufio_WriteString_good:
  assumes disk: "good_disk os content" and ok: "writer_ok b"
  shows "writes content (b, w) s (bufio_WriteString os w b s)"
proof (cases "length s \<le> bufio_Available b \<or> cw_buf b = []")
  case True
  then show ?thesis using bufio_put_good [OF disk ok True] ok by (simp add: bufio_WriteString_def writer_ok_def)
next
  case False
  let ?k = "bufio_Available b"
  let ?b = "b\<lparr>cw_buf := cw_buf b @ take ?k s\<rparr>"
  have okb: "writer_ok ?b" using ok by (auto simp: writer_ok_def bufio_Available_def min_def)
  obtain b1 w1 where f: "bufio_Flush os w ?b = (b1, w1)" by force
  note g = bufio_Flush_good [OF disk okb, of w, unfolded f]
  have ok1: "writer_ok b1" using g by (simp add: writes_def)
  have "writes content (b, w) (take ?k s) (b1, w1)" using g by (auto simp: writes_def written_def)
  moreover have "writes content (b1, w1) (drop ?k s) (bufio_put os w1 b1 (drop ?k s))" by (rule bufio_put_good [OF disk ok1]) (use g in simp)
  ultimately have "writes content (b, w) (take ?k s @ drop ?k s) (bufio_put os w1 b1 (drop ?k s))" by (rule writes_trans)
  then show ?thesis using False f ok ok1 by (simp add: bufio_WriteString_def writer_ok_def)
qed

lemma bufio_WriteRune_good:
  assumes disk: "good_disk os content" and ok: "writer_ok b"
  shows "writes content (b, w) (utf8_enc r) (bufio_WriteRune os w b r)"
proof -
  obtain b1 w1 where f: "bufio_Flush os w b = (b1, w1)" by force
  note g = bufio_Flush_good [OF disk ok, of w, unfolded f]
  show ?thesis
    using ok g utf8_enc_length [of r] bufio_WriteString_good [OF disk ok, of w "utf8_enc r"]
    by (auto simp: bufio_WriteRune_def f writes_def writer_ok_def written_def bufio_Available_def bufio_size_def)
qed

lemma write_pieces_good:
  assumes disk: "good_disk os content" and ok: "writer_ok b"
  shows "writes content (b, w) (concat (map piece_bytes ps)) (fold (write_piece os) ps (b, w))"
  using ok
proof (induction ps arbitrary: b w)
  case Nil
  then show ?case by (simp add: writes_def)
next
  case (Cons p ps)
  obtain b1 w1 where p: "write_piece os p (b, w) = (b1, w1)" by force
  have "writes content (b, w) (piece_bytes p) (b1, w1)"
    using bufio_WriteString_good [OF disk Cons.prems] bufio_WriteRune_good [OF disk Cons.prems] p by (cases p) (auto simp: eq_commute)
  moreover from this have "writer_ok b1" by (simp add: writes_def)
  from Cons.IH [OF this] have "writes content (b1, w1) (concat (map piece_bytes ps)) (fold (write_piece os) ps (b1, w1))" .
  ultimately show ?case using writes_trans p by fastforce
qed

lemma csv_Write_good:
  assumes "good_disk os content" "writer_ok b" "validDelim (cw_Comma b)"
  shows "\<exists>b' w'. csv_Write os w b fs = (None, b', w') \<and> writes content (b, w) (csv_line (cw_Comma b) fs) (b', w')"
proof -
  let ?ps = "record_pieces (cw_Comma b) fs @ [PStr [CHR 0x0A]]"
  obtain b1 w1 where f: "fold (write_piece os) ?ps (b, w) = (b1, w1)" by force
  have "writes content (b, w) (csv_line (cw_Comma b) fs) (b1, w1)"
    using write_pieces_good [OF assms(1,2), of w ?ps] f by (simp add: record_pieces_bytes csv_line_def)
  moreover from this have "cw_err b1 = None" by (simp add: writes_def writer_ok_def)
  ultimately show ?thesis using f assms(3) unfolding csv_Write_def by simp
qed

lemma write_rows_good:
  assumes "good_disk os content" "writer_ok b" "validDelim (cw_Comma b)"
  shows "\<exists>b' w'. write_rows os w b rows = (None, b', w') \<and> writes content (b, w) (concat (map (csv_line (cw_Comma b)) rows)) (b', w')"
  using assms(2,3)
proof (induction rows arbitrary: b w)
  case Nil
  then show ?case by (simp add: writes_def)
next
  case (Cons row rows)
  obtain b1 w1 where 1: "csv_Write os w b row = (None, b1, w1)" "writes content (b, w) (csv_line (cw_Comma b) row) (b1, w1)"
    using csv_Write_good [OF assms(1) Cons.prems] by blast
  have b1: "writer_ok b1" "cw_Comma b1 = cw_Comma b" using 1(2) by (simp_all add: writes_def)
  obtain b2 w2 where "write_rows os w1 b1 rows = (None, b2, w2)"
    "writes content (b1, w1) (concat (map (csv_line (cw_Comma b)) rows)) (b2, w2)"
    using Cons.IH [of b1 w1] b1 Cons.prems by auto
  then show ?case using 1 writes_trans by fastforce
qed

section \<open>Reading CSV back\<close>

text \<open>
  A reference reader for CSV with the one-byte separator \<open>d\<close>: a field is bare, without quotes, or
  enclosed in quotes, with each quote in it doubled; every record ends with a line feed.
\<close>

datatype csv_state = FieldStart | Bare | InQuotes | QuoteSeen

fun csv_read :: "char \<Rightarrow> csv_state \<Rightarrow> string \<Rightarrow> string list \<Rightarrow> string \<Rightarrow> string list list option" where
  "csv_read d st f r [] = (if st = FieldStart \<and> r = [] then Some [] else None)"
| "csv_read d FieldStart f r (c # cs) =
     (if c = quote then csv_read d InQuotes [] r cs
      else if c = d then csv_read d FieldStart [] (r @ [[]]) cs
      else if c = newline then map_option ((#) (r @ [[]])) (csv_read d FieldStart [] [] cs)
      else csv_read d Bare [c] r cs)"
| "csv_read d Bare f r (c # cs) =
     (if c = quote then None
      else if c = d then csv_read d FieldStart [] (r @ [f]) cs
      else if c = newline then map_option ((#) (r @ [f])) (csv_read d FieldStart [] [] cs)
      else csv_read d Bare (f @ [c]) r cs)"
| "csv_read d InQuotes f r (c # cs) = (if c = quote then csv_read d QuoteSeen f r cs else csv_read d InQuotes (f @ [c]) r cs)"
| "csv_read d QuoteSeen f r (c # cs) =
     (if c = quote then csv_read d InQuotes (f @ [quote]) r cs
      else if c = d then csv_read d FieldStart [] (r @ [f]) cs
      else if c = newline then map_option ((#) (r @ [f])) (csv_read d FieldStart [] [] cs)
      else None)"

definition csv_decode :: "char \<Rightarrow> string \<Rightarrow> string list list option" where
  "csv_decode d s = csv_read d FieldStart [] [] s"

lemma read_quoted: "csv_read d InQuotes acc r (escape f @ quote # t) = csv_read d QuoteSeen (acc @ f) r t"
  by (induction f arbitrary: acc) (auto simp: escape_def)

lemma read_bare: "\<forall>c\<in>set f. c \<noteq> quote \<and> c \<noteq> d \<and> c \<noteq> newline \<Longrightarrow> csv_read d Bare acc r (f @ t) = csv_read d Bare (acc @ f) r t"
  by (induction f arbitrary: acc) auto

definition read_end :: "char \<Rightarrow> string list \<Rightarrow> string \<Rightarrow> string list list option" where
  "read_end d r t = (case t of c # cs \<Rightarrow> if c = d then csv_read d FieldStart [] r cs else map_option ((#) r) (csv_read d FieldStart [] [] cs) | [] \<Rightarrow> None)"

lemma read_field:
  assumes enc: "fieldNeedsQuotes comma f \<or> (\<forall>c\<in>set f. c \<noteq> quote \<and> c \<noteq> d \<and> c \<noteq> newline)"
    and d: "d \<noteq> quote" "d \<noteq> newline" and t: "t \<noteq> []" "hd t = d \<or> hd t = newline"
  shows "csv_read d FieldStart [] r (csv_field comma f @ t) = read_end d (r @ [f]) t"
proof -
  obtain c cs where cs: "t = c # cs" "c = d \<or> c = newline" using t by (cases t) auto
  show ?thesis
  proof (cases "fieldNeedsQuotes comma f")
    case True
    then show ?thesis using cs d read_quoted [of d "[]" r f t] by (auto simp: csv_field_def read_end_def)
  next
    case False
    then show ?thesis using enc cs d read_bare [of "tl f" d "[hd f]" r t] by (cases f) (auto simp: csv_field_def read_end_def)
  qed
qed

lemma bare_field:
  assumes "0 < comma" "comma < 128" "\<not> fieldNeedsQuotes comma f"
  shows "\<forall>c\<in>set f. c \<noteq> quote \<and> c \<noteq> char_of (nat comma) \<and> c \<noteq> newline"
proof -
  have "\<not> strings_Contains f [char_of (nat comma)] \<or> f = []"
    using assms by (auto simp: fieldNeedsQuotes_def utf8_enc_def split: if_splits)
  then have "char_of (nat comma) \<notin> set f" by (auto simp: strings_Contains_def Index_char_None_iff)
  then show ?thesis using assms(3) by (auto simp: fieldNeedsQuotes_def split: if_splits)
qed

lemma read_line:
  assumes comma: "0 < comma" "comma < 128" "validDelim comma" and "fs \<noteq> []"
  shows "csv_read (char_of (nat comma)) FieldStart [] r (csv_line comma fs @ t) =
    map_option ((#) (r @ fs)) (csv_read (char_of (nat comma)) FieldStart [] [] t)"
proof -
  let ?d = "char_of (nat comma) :: char"
  have cc: "utf8_enc comma = [?d]" using comma by (simp add: utf8_enc_def)
  have inj: "char_of (nat comma) = (CHR 0x22 :: char) \<longleftrightarrow> comma = 0x22" "char_of (nat comma) = (CHR 0x0A :: char) \<longleftrightarrow> comma = 0x0A"
    using comma(1,2) by (simp_all add: char_of_eq_iff take_bit_eq_mod) linarith+
  have d: "?d \<noteq> quote" "?d \<noteq> newline" using comma(3) inj by (auto simp: validDelim_def)
  note field = read_field [where comma = comma and d = ?d, OF _ d]
  have enc: "fieldNeedsQuotes comma f \<or> (\<forall>c\<in>set f. c \<noteq> quote \<and> c \<noteq> ?d \<and> c \<noteq> newline)" for f using bare_field [OF comma(1,2)] by blast
  show ?thesis using assms(4)
  proof (induction fs arbitrary: r rule: induct_list012)
    case (2 f)
    then show ?case using field [OF enc [of f], where t = "newline # t" and r = r] d by (simp add: csv_line_def read_end_def)
  next
    case (3 f g fs)
    have "csv_line comma (f # g # fs) @ t = csv_field comma f @ ?d # csv_line comma (g # fs) @ t" by (simp add: csv_line_def cc)
    then show ?case using field [OF enc [of f], where t = "?d # csv_line comma (g # fs) @ t" and r = r] 3 by (simp add: read_end_def)
  qed simp
qed

lemma decode_lines:
  assumes "0 < comma" "comma < 128" "validDelim comma" "\<forall>fs\<in>set rows. fs \<noteq> []"
  shows "csv_decode (char_of (nat comma)) (concat (map (csv_line comma) rows)) = Some rows"
  using assms(4) by (induction rows) (simp_all add: csv_decode_def read_line [OF assms(1-3)])

section \<open>Flattening\<close>

text \<open>The text at a path of keys; only the lookups in the maps matter.\<close>

fun value_at :: "('l \<Rightarrow> string) \<Rightarrow> (string \<times> 'l go_value) list \<Rightarrow> string list \<Rightarrow> string option" where
  "value_at fmtv m [] = None"
| "value_at fmtv m (k # ks) =
     (case map_of m k of
        None \<Rightarrow> None
      | Some (GMap m') \<Rightarrow> value_at fmtv m' ks
      | Some (GString s) \<Rightarrow> if ks = [] then Some s else None
      | Some (GOther v) \<Rightarrow> if ks = [] then Some (fmtv v) else None)"

text \<open>A map: the keys at each level are distinct.  \<open>dotless\<close>: and none has a dot in it.\<close>

fun dotless :: "(string \<times> 'l go_value) list \<Rightarrow> bool" where
  "dotless [] \<longleftrightarrow> True"
| "dotless ((k, v) # rest) \<longleftrightarrow> CHR ''.'' \<notin> set k \<and> k \<notin> fst ` set rest \<and> (case v of GMap m \<Rightarrow> dotless m | _ \<Rightarrow> True) \<and> dotless rest"

definition under_path :: "('l \<Rightarrow> string) \<Rightarrow> string \<Rightarrow> (string \<times> 'l go_value) list \<Rightarrow> string \<Rightarrow> string option" where
  "under_path fmtv pre m key =
     (if strings_HasPrefix key (pre @ ''.'') then value_at fmtv m (split_on (CHR ''.'') (drop (Suc (length pre)) key)) else None)"

lemma under_append [simp]: "under_path fmtv pre m (pre @ CHR ''.'' # s) = value_at fmtv m (split_on (CHR ''.'') s)"
  using HasPrefix_append [of "pre @ ''.''" s] by (simp add: under_path_def)

lemma under_cases: "(\<exists>s. key = pre @ CHR ''.'' # s) \<or> under_path fmtv pre m key = None"
  by (auto simp: under_path_def HasPrefix_iff)

lemma split_on_Cons_iff: "d \<notin> set k \<Longrightarrow> split_on d s = k # ks \<longleftrightarrow> (ks = [] \<and> s = k) \<or> (\<exists>t. s = k @ d # t \<and> ks = split_on d t)"
proof (induction s arbitrary: k)
  case (Cons c s)
  obtain w ws where w: "split_on d s = w # ws" by (cases "split_on d s") auto
  show ?case
  proof (cases k)
    case Nil
    then show ?thesis using w by auto
  next
    case (Cons a k')
    then show ?thesis using Cons.IH [of k'] Cons.prems w by auto
  qed
qed auto

lemma value_at_other: "k \<noteq> hd ks \<Longrightarrow> value_at fmtv ((k, v) # m) ks = value_at fmtv m ks"
  by (cases ks) auto

lemma value_at_absent: "ks = [] \<or> hd ks \<notin> fst ` set m \<Longrightarrow> value_at fmtv m ks = None"
  by (cases ks) (simp_all add: map_of_eq_None_iff [THEN iffD2])

definition leaf_at :: "('l \<Rightarrow> string) \<Rightarrow> string \<Rightarrow> 'l go_value \<Rightarrow> string \<Rightarrow> string option" where
  "leaf_at fmtv path v key =
     (case v of
        GMap m \<Rightarrow> under_path fmtv path m key
      | GString s \<Rightarrow> if key = path then Some s else None
      | GOther x \<Rightarrow> if key = path then Some (fmtv x) else None)"

lemma under_Cons:
  assumes "CHR ''.'' \<notin> set k" "k \<notin> fst ` set rest"
  shows "under_path fmtv pre ((k, v) # rest) key =
    (case under_path fmtv pre rest key of Some x \<Rightarrow> Some x | None \<Rightarrow> leaf_at fmtv (pre @ ''.'' @ k) v key)"
proof (cases "\<exists>s. key = pre @ CHR ''.'' # s")
  case True
  then obtain s where s: "key = pre @ CHR ''.'' # s" by blast
  obtain h ks where ks: "split_on (CHR ''.'') s = h # ks" by (cases "split_on (CHR ''.'') s") auto
  have below: "under_path fmtv (pre @ CHR ''.'' # k) m key = (if \<exists>t. s = k @ CHR ''.'' # t then value_at fmtv m (split_on (CHR ''.'') (drop (Suc (length k)) s)) else None)" for m
    using under_cases [of key "pre @ ''.'' @ k" fmtv m] under_append [of fmtv "pre @ ''.'' @ k" m] by (auto simp: s)
  show ?thesis
  proof (cases "h = k")
    case True
    then have none: "under_path fmtv pre rest key = None" using s ks value_at_absent [of "h # ks" rest fmtv] assms(2) by simp
    have "(ks = [] \<and> s = k) \<or> (\<exists>t. s = k @ CHR ''.'' # t \<and> ks = split_on (CHR ''.'') t)" using split_on_Cons_iff [OF assms(1), of s ks] ks True by simp
    moreover have "under_path fmtv pre ((k, v) # rest) key = value_at fmtv ((k, v) # rest) (h # ks)" by (simp add: s ks)
    moreover have "key = pre @ ''.'' @ k \<longleftrightarrow> s = k" by (simp add: s)
    ultimately show ?thesis using none True by (cases v) (auto simp: leaf_at_def below)
  next
    case False
    then have "under_path fmtv pre ((k, v) # rest) key = under_path fmtv pre rest key" using ks value_at_other [of k "h # ks" fmtv v rest] by (simp add: s)
    moreover have "s \<noteq> k" "\<not> (\<exists>t. s = k @ CHR ''.'' # t)"
      using False ks split_on_no_sep [OF assms(1)] split_on_append [OF assms(1)] by auto
    moreover have "key = pre @ ''.'' @ k \<longleftrightarrow> s = k" by (simp add: s)
    ultimately show ?thesis by (cases v) (auto simp: leaf_at_def below split: option.splits)
  qed
next
  case False
  then have "under_path fmtv pre m key = None" "under_path fmtv (pre @ ''.'' @ k) m key = None" "key \<noteq> pre @ CHR ''.'' # k" for m
    using under_cases [of key pre fmtv m] under_cases [of key "pre @ ''.'' @ k" fmtv m] by auto
  then show ?thesis by (cases v) (simp_all add: leaf_at_def)
qed

lemma flattenMap_lookup:
  "dotless m \<Longrightarrow> map_of (flattenMap fmtv out pre m) key = (case under_path fmtv pre m key of Some v \<Rightarrow> Some v | None \<Rightarrow> map_of out key)"
proof (induction fmtv out pre m arbitrary: key rule: flattenMap.induct)
  case (1 fmtv out pre)
  then show ?case using under_cases [of key pre fmtv "[]"] by (auto simp: value_at_absent)
qed (auto simp: under_Cons leaf_at_def update_conv' split: option.splits)

lemma flattenItem_lookup:
  assumes "dotless (item_Data item)" "dotless (item_Metadata item)"
  shows "map_of (flattenItem fmtv rfc3339 item) key =
    (if key = ''url'' then Some (item_URL item) else if key = ''crawled_at'' then Some (rfc3339 (item_CrawledAt item))
     else (case split_on (CHR ''.'') key of
         root # ks \<Rightarrow> if root = ''data'' then value_at fmtv (item_Data item) ks else if root = ''metadata'' then value_at fmtv (item_Metadata item) ks else None
       | [] \<Rightarrow> None))"
proof -
  have u: "under_path fmtv root m key = (case split_on (CHR ''.'') key of t # ks \<Rightarrow> if t = root then value_at fmtv m ks else None | [] \<Rightarrow> None)"
    if "CHR ''.'' \<notin> set root" for root m
  proof (cases "\<exists>s. key = root @ CHR ''.'' # s")
    case True
    then show ?thesis using that by (auto simp: split_on_append)
  next
    case False
    then have "under_path fmtv root m key = None" using under_cases [of key root fmtv m] by blast
    moreover have "ks = []" if "split_on (CHR ''.'') key = root # ks" for ks
      using split_on_Cons_iff [OF \<open>CHR ''.'' \<notin> set root\<close>, of key ks] that False by blast
    ultimately show ?thesis by (auto split: list.split)
  qed
  show ?thesis
  proof (cases "key = ''url'' \<or> key = ''crawled_at''")
    case True
    then have "under_path fmtv ''data'' (item_Data item) key = None" "under_path fmtv ''metadata'' (item_Metadata item) key = None" by (auto simp: u)
    then show ?thesis using True by (auto simp: flattenItem_def Let_def flattenMap_lookup assms update_conv')
  next
    case False
    then show ?thesis by (auto simp: flattenItem_def Let_def flattenMap_lookup assms u update_conv' split: list.split option.split)
  qed
qed

text \<open>
  The row of an item.  When no key of the data and metadata maps has a dot in it, the CSV storage
  writes into a column what the path that the column names leads to: the URL, the time, or the value
  found by following the parts of the name through the nested maps, and nothing when there is none.
  In particular the rows do not depend on the order in which Go iterates over the maps.
\<close>

theorem csv_row_values:
  assumes "dotless (item_Data item)" "dotless (item_Metadata item)"
  shows "csv_row fmtv rfc3339 columns item =
    map (\<lambda>col. case (if col = ''url'' then Some (item_URL item) else if col = ''crawled_at'' then Some (rfc3339 (item_CrawledAt item))
       else (case split_on (CHR ''.'') col of
           root # ks \<Rightarrow> if root = ''data'' then value_at fmtv (item_Data item) ks else if root = ''metadata'' then value_at fmtv (item_Metadata item) ks else None
         | [] \<Rightarrow> None)) of Some v \<Rightarrow> v | None \<Rightarrow> []) columns"
  unfolding csv_row_def flattenItem_lookup [OF assms] by (rule refl)

text \<open>With dots in the keys two values can claim the same column, and the last one visited gets it.\<close>

lemma flatten_collision:
  "map_of (flattenMap fmtv out ''data'' [(''a.b'', GString ''x''), (''a'', GMap [(''b'', GString ''y'')])]) ''data.a.b'' = Some ''y''"
  "map_of (flattenMap fmtv out ''data'' [(''a'', GMap [(''b'', GString ''y'')]), (''a.b'', GString ''x'')]) ''data.a.b'' = Some ''x''"
  by (simp_all add: update_conv')

section \<open>The file after a sequence of calls\<close>

fun store_all ::
  "('w, 'f) os_ops \<Rightarrow> ('l \<Rightarrow> string) \<Rightarrow> (Time \<Rightarrow> string) \<Rightarrow> 'w \<Rightarrow> 'f CSVStorage \<Rightarrow> 'l storage_Item list list \<Rightarrow> error option list \<times> 'f CSVStorage \<times> 'w" where
  "store_all os fmtv rfc3339 w c [] = ([], c, w)"
| "store_all os fmtv rfc3339 w c (items # batches) =
     (case CSVStorage_Store os fmtv rfc3339 w c items of
        (err, c1, w1) \<Rightarrow> (case store_all os fmtv rfc3339 w1 c1 batches of (errs, c2, w2) \<Rightarrow> (err # errs, c2, w2)))"

definition header :: "('l \<Rightarrow> string) \<Rightarrow> (Time \<Rightarrow> string) \<Rightarrow> string list \<Rightarrow> 'l storage_Item list \<Rightarrow> string list" where
  "header fmtv rfc3339 columns items = (if columns = [] then detectColumns fmtv rfc3339 (hd items) else columns)"

text \<open>The lines still to be written for \<open>items\<close>, with the header unless it has been written.\<close>

definition csv_lines :: "('l \<Rightarrow> string) \<Rightarrow> (Time \<Rightarrow> string) \<Rightarrow> bool \<Rightarrow> string list \<Rightarrow> 'l storage_Item list \<Rightarrow> string list list" where
  "csv_lines fmtv rfc3339 wrote columns items =
     (if items = [] then [] else (if wrote then [] else [header fmtv rfc3339 columns items]) @ map (csv_row fmtv rfc3339 (header fmtv rfc3339 columns items)) items)"

definition flushed :: "('w \<Rightarrow> 'f \<Rightarrow> string) \<Rightarrow> 'f CSVStorage \<Rightarrow> 'w \<Rightarrow> 'f \<Rightarrow> int \<Rightarrow> string \<Rightarrow> bool" where
  "flushed content c w f comma bytes \<longleftrightarrow>
     (\<exists>b. csv_writer c = Some b \<and> writer_ok b \<and> cw_buf b = [] \<and> cw_file b = f \<and> cw_Comma b = comma \<and> content w f = bytes)"

lemma detectColumns_not_Nil: "detectColumns fmtv rfc3339 item \<noteq> []"
proof -
  have keep: "flattenMap fmtv out pre m \<noteq> []" if "out \<noteq> []" for out :: "(string \<times> string) list" and pre m
    using that by (induction fmtv out pre m rule: flattenMap.induct) (auto simp: neq_Nil_conv split: if_splits)
  have "flattenItem fmtv rfc3339 item \<noteq> []" by (simp add: flattenItem_def Let_def keep)
  then show ?thesis unfolding detectColumns_def by (metis length_0_conv length_map length_sort)
qed

lemma Store_flushed:
  assumes disk: "good_disk os content" and ok: "flushed content c w f comma bytes" and comma: "validDelim comma"
  shows "\<exists>c' w'. CSVStorage_Store os fmtv rfc3339 w c items = (None, c', w') \<and>
    flushed content c' w' f comma (bytes @ concat (map (csv_line comma) (csv_lines fmtv rfc3339 (csv_wrote c) (csv_columns c) items))) \<and>
    csv_cfg c' = csv_cfg c \<and> csv_wrote c' = (csv_wrote c \<or> items \<noteq> []) \<and>
    csv_columns c' = (if items = [] then csv_columns c else header fmtv rfc3339 (csv_columns c) items)"
proof -
  obtain b where b: "csv_writer c = Some b" "writer_ok b" "cw_buf b = []" "cw_file b = f" "cw_Comma b = comma" "content w f = bytes"
    using ok by (auto simp: flushed_def)
  show ?thesis
  proof (cases "items = []")
    case True
    then show ?thesis using b ok by (simp add: CSVStorage_Store_def csv_lines_def)
  next
    case False
    let ?cols = "header fmtv rfc3339 (csv_columns c) items"
    define c1 where "c1 = (if csv_columns c = [] then c\<lparr>csv_columns := detectColumns fmtv rfc3339 (hd items)\<rparr> else c)"
    have c1: "csv_columns c1 = ?cols" "csv_wrote c1 = csv_wrote c" "csv_cfg c1 = csv_cfg c" by (simp_all add: c1_def header_def)
    have "\<exists>c2 b1 w1. write_header os w c1 b = (None, c2, b1, w1) \<and> csv_columns c2 = ?cols \<and> csv_wrote c2 \<and> csv_cfg c2 = csv_cfg c \<and>
      writes content (b, w) (if csv_wrote c then [] else csv_line comma ?cols) (b1, w1)"
    proof (cases "csv_wrote c")
      case True
      then show ?thesis using c1 b(2) by (simp add: write_header_def writes_def)
    next
      case False
      then show ?thesis using csv_Write_good [OF disk b(2), of w ?cols] comma b(5) c1 by (auto simp: write_header_def)
    qed
    then obtain c2 b1 w1 where h: "write_header os w c1 b = (None, c2, b1, w1)" "csv_columns c2 = ?cols" "csv_wrote c2" "csv_cfg c2 = csv_cfg c"
      "writes content (b, w) (if csv_wrote c then [] else csv_line comma ?cols) (b1, w1)" by blast
    have b1: "writer_ok b1" "cw_Comma b1 = comma" using h(5) b(5) by (simp_all add: writes_def)
    let ?rows = "map (csv_row fmtv rfc3339 ?cols) items"
    obtain b2 w2 where r: "write_rows os w1 b1 ?rows = (None, b2, w2)" "writes content (b1, w1) (concat (map (csv_line comma) ?rows)) (b2, w2)"
      using write_rows_good [OF disk b1(1), of w1 ?rows] b1(2) comma by auto
    have b2: "writer_ok b2" using r(2) by (simp add: writes_def)
    obtain b3 w3 where fl: "bufio_Flush os w2 b2 = (b3, w3)" by force
    have g: "writes content (b2, w2) [] (b3, w3)" "cw_buf b3 = []" using bufio_Flush_good [OF disk b2, of w2] fl by simp_all
    have w: "writes content (b, w) (((if csv_wrote c then [] else csv_line comma ?cols) @ concat (map (csv_line comma) ?rows)) @ []) (b3, w3)"
      by (rule writes_trans [OF writes_trans [OF h(5) r(2)] g(1)])
    have store: "CSVStorage_Store os fmtv rfc3339 w c items = (None, c2\<lparr>csv_writer := Some b3\<rparr>, w3)"
      using False b(1) h(1,2) r(1) fl g(1) unfolding CSVStorage_Store_def c1_def [symmetric] by (simp add: Let_def writes_def writer_ok_def)
    have "flushed content (c2\<lparr>csv_writer := Some b3\<rparr>) w3 f comma (bytes @ concat (map (csv_line comma) (csv_lines fmtv rfc3339 (csv_wrote c) (csv_columns c) items)))"
      using w g(2) b False by (auto simp: flushed_def writes_def written_def csv_lines_def)
    then show ?thesis using store h(2,3,4) False by simp
  qed
qed

lemma store_all_flushed:
  assumes disk: "good_disk os content" and comma: "validDelim comma"
  shows "flushed content c w f comma bytes \<Longrightarrow>
    \<exists>errs c' w'. store_all os fmtv rfc3339 w c batches = (errs, c', w') \<and> set errs \<subseteq> {None} \<and>
      flushed content c' w' f comma (bytes @ concat (map (csv_line comma) (csv_lines fmtv rfc3339 (csv_wrote c) (csv_columns c) (concat batches))))"
proof (induction batches arbitrary: c w bytes)
  case Nil
  then show ?case by (simp add: csv_lines_def)
next
  case (Cons items batches)
  obtain c1 w1 where 1: "CSVStorage_Store os fmtv rfc3339 w c items = (None, c1, w1)"
    "flushed content c1 w1 f comma (bytes @ concat (map (csv_line comma) (csv_lines fmtv rfc3339 (csv_wrote c) (csv_columns c) items)))"
    "csv_wrote c1 = (csv_wrote c \<or> items \<noteq> [])" "csv_columns c1 = (if items = [] then csv_columns c else header fmtv rfc3339 (csv_columns c) items)"
    using Store_flushed [OF disk Cons.prems comma, of fmtv rfc3339 items] by blast
  have cols: "header fmtv rfc3339 (header fmtv rfc3339 cols items) more' = header fmtv rfc3339 cols items" for cols more'
    by (simp add: header_def detectColumns_not_Nil)
  have "csv_lines fmtv rfc3339 (csv_wrote c) (csv_columns c) items @ csv_lines fmtv rfc3339 (csv_wrote c1) (csv_columns c1) (concat batches) =
      csv_lines fmtv rfc3339 (csv_wrote c) (csv_columns c) (items @ concat batches)"
    using 1(3,4) cols by (cases "items = []") (simp_all add: csv_lines_def, simp_all add: header_def)
  then have lines: "map (csv_line comma) (csv_lines fmtv rfc3339 (csv_wrote c) (csv_columns c) items) @
      map (csv_line comma) (csv_lines fmtv rfc3339 (csv_wrote c1) (csv_columns c1) (concat batches)) =
      map (csv_line comma) (csv_lines fmtv rfc3339 (csv_wrote c) (csv_columns c) (items @ concat batches))" by (metis map_append)
  obtain errs c2 w2 where "store_all os fmtv rfc3339 w1 c1 batches = (errs, c2, w2)" "set errs \<subseteq> {None}"
    "flushed content c2 w2 f comma ((bytes @ concat (map (csv_line comma) (csv_lines fmtv rfc3339 (csv_wrote c) (csv_columns c) items))) @
       concat (map (csv_line comma) (csv_lines fmtv rfc3339 (csv_wrote c1) (csv_columns c1) (concat batches))))"
    using Cons.IH [OF 1(2)] by blast
  then show ?case using 1(1) by (simp flip: lines)
qed


text \<open>
  A storage that is closed and initialised again truncates its file but still takes the header for written: the new file
  starts with the first record of data, without any header.
\<close>

theorem csv_reopen_without_header:
  assumes disk: "good_disk os content" and wrote: "csv_wrote c" "csv_writer c = None"
    and init: "CSVStorage_Init os w0 c config = (None, c0, w)"
    and comma: "comma = (if csvc_Delimiter (csv_cfg c) = 0 then 44 else csvc_Delimiter (csv_cfg c))" "0 < comma" "comma < 128" "validDelim comma"
    and items: "items \<noteq> []"
  shows "\<exists>c' w' b. CSVStorage_Store os fmtv rfc3339 w c0 items = (None, c', w') \<and> csv_writer c' = Some b \<and>
    csv_decode (char_of (nat comma)) (content w' (cw_file b)) =
      Some (map (csv_row fmtv rfc3339 (header fmtv rfc3339 (csvc_Columns (csv_cfg c)) items)) items)"
proof -
  let ?cols = "header fmtv rfc3339 (csvc_Columns (csv_cfg c)) items"
  obtain f where c0: "csv_writer c0 = Some \<lparr>cw_file = f, cw_Comma = comma, cw_buf = [], cw_err = None\<rparr>" "csv_columns c0 = csvc_Columns (csv_cfg c)"
      "csv_wrote c0" "os_OpenFile os w0 (config_string config ''path'' (csvc_Path (csv_cfg c))) True = (Inr f, w)"
    using init comma(1) wrote(1) by (auto simp: CSVStorage_Init_def Let_def split: if_splits prod.splits sum.splits)
  have "content w f = []" using disk c0(4) unfolding good_disk_def by blast
  then have "flushed content c0 w f comma []" using c0 by (simp add: flushed_def writer_ok_def)
  from Store_flushed [OF disk this comma(4), of fmtv rfc3339 items] obtain c' w' where r: "CSVStorage_Store os fmtv rfc3339 w c0 items = (None, c', w')"
    "flushed content c' w' f comma (concat (map (csv_line comma) (map (csv_row fmtv rfc3339 ?cols) items)))"
    using items c0(2,3) by (auto simp: csv_lines_def)
  have "?cols \<noteq> []" by (simp add: header_def detectColumns_not_Nil)
  then have "\<forall>fs\<in>set (map (csv_row fmtv rfc3339 ?cols) items). fs \<noteq> []" by (auto simp: csv_row_def)
  from decode_lines [OF comma(2-4) this] show ?thesis using r unfolding flushed_def by auto
qed

section \<open>JSON Lines\<close>

text \<open>
  On a disk with room, \<open>FileStorage.Store\<close> appends one line of JSON per item, in order, up to the
  first item that cannot be converted: then it returns that error, the lines of the items before stay in the
  file, and those after it are not written.
\<close>

theorem FileStorage_Store_lines:
  assumes disk: "good_disk os content" and open_file: "fst_file s = Some f" "fst_err s = None"
  shows "\<exists>w'. content w' f = content w f @ concat (map (\<lambda>i. projr (json (fc_Pretty (fst_cfg s)) i) @ [newline])
          (takeWhile (\<lambda>i. \<exists>t. json (fc_Pretty (fst_cfg s)) i = Inr t) items)) \<and>
    FileStorage_Store os json w s items =
      ((case dropWhile (\<lambda>i. \<exists>t. json (fc_Pretty (fst_cfg s)) i = Inr t) items of
          [] \<Rightarrow> None
        | i # rest \<Rightarrow> Some (WrapError ''file storage: encode item: '' (projl (json (fc_Pretty (fst_cfg s)) i)) [])), s, w')"
proof -
  let ?json = "json (fc_Pretty (fst_cfg s))"
  have "\<exists>w'. content w' f = content w f @ concat (map (\<lambda>i. projr (?json i) @ [newline]) (takeWhile (\<lambda>i. \<exists>t. ?json i = Inr t) items)) \<and>
    file_encode_each os json w s f items =
      ((case dropWhile (\<lambda>i. \<exists>t. ?json i = Inr t) items of
          [] \<Rightarrow> None | i # rest \<Rightarrow> Some (WrapError ''file storage: encode item: '' (projl (?json i)) [])), s, w')"
  proof (induction items arbitrary: w)
    case (Cons i items)
    show ?case
    proof (cases "?json i")
      case (Inl err)
      then show ?thesis using open_file(2) by (auto simp: file_Encode_def)
    next
      case (Inr line)
      obtain w1 where w1: "os_Write os w f (line @ [newline]) = (None, w1)" "content w1 f = content w f @ line @ [newline]"
        by (rule good_disk_write [OF disk])
      then show ?thesis using Cons.IH [of w1] Inr open_file(2) by (simp add: file_Encode_def)
    qed
  qed simp
  then show ?thesis using open_file(1) by (simp add: FileStorage_Store_def)
qed

section \<open>A concrete disk\<close>

definition map_disk :: "(string \<Rightarrow> string, string) os_ops" where
  "map_disk = \<lparr>os_OpenFile = (\<lambda>w path trunc. (Inr path, if trunc then w(path := []) else w)),
     os_Write = (\<lambda>w f s. (None, w(f := w f @ s))), os_Close = (\<lambda>w f. (None, w))\<rparr>"

lemma map_disk_good: "good_disk map_disk (\<lambda>w f. w f)"
  by (auto simp: good_disk_def map_disk_def)

definition sample_item :: "unit storage_Item" where
  "sample_item = \<lparr>item_URL = ''http://h/'', item_Data = [(''t'', GMap [(''x'', GString [CHR ''a'', CHR 0x22, CHR '','', CHR ''b''])])], item_Metadata = [], item_CrawledAt = 0\<rparr>"

theorem csv_row_values_witness:
  "csv_row (\<lambda>_. []) (\<lambda>_. ''now'') [''url'', ''data.t.x'', ''data.u''] sample_item =
     [''http://h/'', [CHR ''a'', CHR 0x22, CHR '','', CHR ''b''], []]"
  using csv_row_values [of sample_item "\<lambda>_. []" "\<lambda>_. ''now''" "[''url'', ''data.t.x'', ''data.u'']"] by (simp add: sample_item_def)

definition sample_csv :: CSVConfig where
  "sample_csv = \<lparr>csvc_Path = ''out.csv'', csvc_Delimiter = 0, csvc_Columns = [''url'', ''data.t.x'']\<rparr>"

definition no_config :: "string \<rightharpoonup> unit go_value" where "no_config = Map.empty"

definition sample_csv_open :: "string CSVStorage" where
  "sample_csv_open = \<lparr>csv_cfg = sample_csv, csv_writer = Some \<lparr>cw_file = ''out.csv'', cw_Comma = 44, cw_buf = [], cw_err = None\<rparr>,
     csv_columns = [''url'', ''data.t.x''], csv_wrote = False\<rparr>"

lemma sample_csv_init: "CSVStorage_Init map_disk (\<lambda>_. []) (NewCSVStorage sample_csv) no_config = (None, sample_csv_open, \<lambda>_. [])"
  by (simp add: CSVStorage_Init_def NewCSVStorage_def sample_csv_def no_config_def config_string_def map_disk_def sample_csv_open_def Let_def fun_eq_iff)


theorem csv_reopen_without_header_witness:
  "\<exists>c' w' f. CSVStorage_Store map_disk (\<lambda>_. []) (\<lambda>_. ''now'') (\<lambda>_. []) (sample_csv_open\<lparr>csv_wrote := True\<rparr>) [sample_item] = (None, c', w') \<and>
     csv_decode (CHR '','') (w' f) = Some [csv_row (\<lambda>_. []) (\<lambda>_. ''now'') [''url'', ''data.t.x''] sample_item]"
proof -
  let ?c = "(NewCSVStorage sample_csv)\<lparr>csv_wrote := True\<rparr> :: string CSVStorage"
  have init: "CSVStorage_Init map_disk (\<lambda>_. []) ?c no_config = (None, sample_csv_open\<lparr>csv_wrote := True\<rparr>, \<lambda>_. [])"
    by (simp add: CSVStorage_Init_def NewCSVStorage_def sample_csv_def no_config_def config_string_def map_disk_def sample_csv_open_def Let_def fun_eq_iff)
  have "csv_wrote ?c" "csv_writer ?c = None" "44 = (if csvc_Delimiter (csv_cfg ?c) = 0 then 44 else csvc_Delimiter (csv_cfg ?c))" "0 < (44::int)" "44 < (128::int)" "validDelim 44"
    "[sample_item] \<noteq> []" by (simp_all add: sample_csv_def validDelim_def NewCSVStorage_def)
  note facts = this
  have char: "char_of (nat 44) = CHR '',''" by code_simp
  have cols: "header (\<lambda>_. []) (\<lambda>_. ''now'') (csvc_Columns (csv_cfg ?c)) [sample_item] = [''url'', ''data.t.x'']"
    by (simp add: header_def sample_csv_def NewCSVStorage_def)
  from csv_reopen_without_header [OF map_disk_good facts(1,2) init facts(3-), of "\<lambda>_. []" "\<lambda>_. ''now''"] show ?thesis
    unfolding cols char list.map by blast
qed

theorem FileStorage_Store_lines_witness:
  "\<exists>w'. w' ''f'' = ''{}'' @ [newline] \<and>
     FileStorage_Store map_disk (\<lambda>pretty i. if item_URL i = [] then Inl (ErrorString ''bad'') else Inr ''{}'') (\<lambda>_. [])
       \<lparr>fst_cfg = \<lparr>fc_Path = ''f'', fc_Pretty = False\<rparr>, fst_file = Some ''f'', fst_err = None\<rparr> [sample_item, sample_item\<lparr>item_URL := []\<rparr>] =
     (Some (WrapError ''file storage: encode item: '' (ErrorString ''bad'') []),
      \<lparr>fst_cfg = \<lparr>fc_Path = ''f'', fc_Pretty = False\<rparr>, fst_file = Some ''f'', fst_err = None\<rparr>, w')"
  using FileStorage_Store_lines [OF map_disk_good, where f = "''f''" and w = "\<lambda>_. []" and
      s = "\<lparr>fst_cfg = \<lparr>fc_Path = ''f'', fc_Pretty = False\<rparr>, fst_file = Some ''f'', fst_err = None\<rparr>" and
      json = "\<lambda>pretty i. if item_URL i = [] then Inl (ErrorString ''bad'') else Inr ''{}''" and items = "[sample_item, sample_item\<lparr>item_URL := []\<rparr>]"]
  by (simp add: sample_item_def)

end
