(* ===== verification/Storage_Postgres.thy ===== *)
theory Storage_Postgres
  imports Storage_CSV
begin

text \<open>
  pkg/storage/postgres.go: the PostgreSQL storage.  The database, reached through pgx, is a record of
  arguments \<open>pg_ops\<close> over a world; what a database does with the statements that the storage sends is stated as
  laws about the table of migrations and the table of items.
\<close>

section \<open>postgres.go\<close>

text \<open>A parameter of a statement; \<open>PgBytes None\<close> is a nil byte slice, which is stored as NULL.\<close>

datatype pg_value = PgText string | PgBytes "string option" | PgTime Time

record 'w pg_ops =
  pg_New :: "'w \<Rightarrow> string \<Rightarrow> error option \<times> 'w"
  pg_Exec :: "'w \<Rightarrow> string \<Rightarrow> pg_value list \<Rightarrow> error option \<times> 'w"
  pg_QueryBool :: "'w \<Rightarrow> string \<Rightarrow> pg_value list \<Rightarrow> (error + bool) \<times> 'w"
  pg_CopyFrom :: "'w \<Rightarrow> string \<Rightarrow> string list \<Rightarrow> pg_value list list \<Rightarrow> error option \<times> 'w"
  pg_Close :: "'w \<Rightarrow> 'w"

text \<open>The embedded file system: the entries of the directory, each with whether it is a directory.\<close>

record embed_FS =
  fs_ReadDir :: "error + (string \<times> bool) list"
  fs_ReadFile :: "string \<Rightarrow> error + string"

record PostgresConfig =
  pgc_DSN :: string
  pgc_BatchSize :: int

record PostgresPlugin =
  pgp_cfg :: PostgresConfig
  pgp_pool :: bool

definition NewPostgresPlugin :: "PostgresConfig \<Rightarrow> PostgresPlugin" where
  "NewPostgresPlugin cfg =
     \<lparr>pgp_cfg = (if pgc_BatchSize cfg \<le> 0 then cfg\<lparr>pgc_BatchSize := 10\<rparr> else cfg), pgp_pool = False\<rparr>"

text \<open>The statements, up to white space.\<close>

definition sql_create_migrations :: string where
  "sql_create_migrations = ''CREATE TABLE IF NOT EXISTS schema_migrations (version TEXT PRIMARY KEY, applied_at TIMESTAMPTZ NOT NULL DEFAULT NOW())''"

definition sql_migration_exists :: string where
  "sql_migration_exists = ''SELECT EXISTS(SELECT 1 FROM schema_migrations WHERE version = $1)''"

definition sql_record_migration :: string where
  "sql_record_migration = ''INSERT INTO schema_migrations (version) VALUES ($1)''"

definition up_suffix :: string where "up_suffix = ''.up.sql''"

definition strings_TrimSuffix :: "string \<Rightarrow> string \<Rightarrow> string" where
  "strings_TrimSuffix s suf = (if strings_HasSuffix s suf then take (length s - length suf) s else s)"

definition up_files :: "(string \<times> bool) list \<Rightarrow> string list" where
  "up_files entries = sort (map fst (filter (\<lambda>(name, is_dir). \<not> is_dir \<and> strings_HasSuffix name up_suffix) entries))"

fun migrate_each :: "'w pg_ops \<Rightarrow> embed_FS \<Rightarrow> 'w \<Rightarrow> string list \<Rightarrow> error option \<times> 'w" where
  "migrate_each db fs w [] = (None, w)"
| "migrate_each db fs w (name # names) =
     (let version = strings_TrimSuffix name up_suffix
      in (case pg_QueryBool db w sql_migration_exists [PgText version] of
            (Inl err, w1) \<Rightarrow> (Some (WrapError (''check migration '' @ version @ '': '') err []), w1)
          | (Inr applied, w1) \<Rightarrow>
              if applied then migrate_each db fs w1 names
              else (case fs_ReadFile fs (''migrations/'' @ name) of
                  Inl err \<Rightarrow> (Some (WrapError (''read migration '' @ name @ '': '') err []), w1)
                | Inr sql \<Rightarrow>
                    (case pg_Exec db w1 sql [] of
                       (Some err, w2) \<Rightarrow> (Some (WrapError (''apply migration '' @ name @ '': '') err []), w2)
                     | (None, w2) \<Rightarrow>
                         (case pg_Exec db w2 sql_record_migration [PgText version] of
                            (Some err, w3) \<Rightarrow> (Some (WrapError (''record migration '' @ name @ '': '') err []), w3)
                          | (None, w3) \<Rightarrow> migrate_each db fs w3 names)))))"

definition runMigrations :: "'w pg_ops \<Rightarrow> embed_FS \<Rightarrow> 'w \<Rightarrow> error option \<times> 'w" where
  "runMigrations db fs w =
     (case pg_Exec db w sql_create_migrations [] of
        (Some err, w1) \<Rightarrow> (Some (WrapError ''create schema_migrations: '' err []), w1)
      | (None, w1) \<Rightarrow>
          (case fs_ReadDir fs of
             Inl err \<Rightarrow> (Some (WrapError ''read migrations dir: '' err []), w1)
           | Inr entries \<Rightarrow> migrate_each db fs w1 (up_files entries)))"

definition PostgresPlugin_Init ::
  "'w pg_ops \<Rightarrow> embed_FS \<Rightarrow> 'w \<Rightarrow> PostgresPlugin \<Rightarrow> (string \<rightharpoonup> 'l go_value) \<Rightarrow> error option \<times> PostgresPlugin \<times> 'w" where
  "PostgresPlugin_Init db fs w p config =
     (let p1 = p\<lparr>pgp_cfg := (pgp_cfg p)\<lparr>pgc_DSN := config_string config ''dsn'' (pgc_DSN (pgp_cfg p))\<rparr>\<rparr>
      in if pgc_DSN (pgp_cfg p1) = [] then (Some (ErrorString ''postgres storage: dsn is required''), p1, w)
         else (case pg_New db w (pgc_DSN (pgp_cfg p1)) of
             (Some err, w1) \<Rightarrow> (Some (WrapError ''postgres storage: connect: '' err []), p1, w1)
           | (None, w1) \<Rightarrow>
               (case runMigrations db fs w1 of
                  (Some err, w2) \<Rightarrow> (Some (WrapError ''postgres storage: migrate: '' err []), p1\<lparr>pgp_pool := False\<rparr>, pg_Close db w2)
                | (None, w2) \<Rightarrow> (None, p1\<lparr>pgp_pool := True\<rparr>, w2))))"

text \<open>\<open>json\<close> is \<open>json.Marshal\<close> of a map.\<close>

definition toJSON :: "((string \<times> 'l go_value) list \<Rightarrow> error + string) \<Rightarrow> (string \<times> 'l go_value) list \<Rightarrow> error + string option" where
  "toJSON json v = (if length v = 0 then Inr None else (case json v of Inl err \<Rightarrow> Inl err | Inr b \<Rightarrow> Inr (Some b)))"

definition item_values :: "((string \<times> 'l go_value) list \<Rightarrow> error + string) \<Rightarrow> 'l storage_Item \<Rightarrow> error + pg_value list" where
  "item_values json item =
     (case toJSON json (item_Data item) of
        Inl err \<Rightarrow> Inl (WrapError ''postgres storage: marshal data: '' err [])
      | Inr dataJSON \<Rightarrow>
          (case toJSON json (item_Metadata item) of
             Inl err \<Rightarrow> Inl (WrapError ''postgres storage: marshal metadata: '' err [])
           | Inr metaJSON \<Rightarrow> Inr [PgText (item_URL item), PgBytes dataJSON, PgBytes metaJSON, PgTime (item_CrawledAt item)]))"

fun copy_rows :: "((string \<times> 'l go_value) list \<Rightarrow> error + string) \<Rightarrow> 'l storage_Item list \<Rightarrow> error + pg_value list list" where
  "copy_rows json [] = Inr []"
| "copy_rows json (item # items) =
     (case item_values json item of
        Inl err \<Rightarrow> Inl err
      | Inr vs \<Rightarrow> (case copy_rows json items of Inl err \<Rightarrow> Inl err | Inr rows \<Rightarrow> Inr (vs # rows)))"

definition copyFrom :: "'w pg_ops \<Rightarrow> ((string \<times> 'l go_value) list \<Rightarrow> error + string) \<Rightarrow> 'w \<Rightarrow> 'l storage_Item list \<Rightarrow> error option \<times> 'w" where
  "copyFrom db json w items =
     (case copy_rows json items of
        Inl err \<Rightarrow> (Some err, w)
      | Inr rows \<Rightarrow>
          (case pg_CopyFrom db w ''crawled_items'' [''url'', ''data'', ''metadata'', ''crawled_at''] rows of
             (Some err, w1) \<Rightarrow> (Some (WrapError ''postgres storage: copy from: '' err []), w1)
           | (None, w1) \<Rightarrow> (None, w1)))"

definition placeholder :: "nat \<Rightarrow> string" where
  "placeholder i =
     (let n = i * 4
      in ''($'' @ strconv_Itoa (int (n + 1)) @ '', $'' @ strconv_Itoa (int (n + 2)) @ '', $'' @ strconv_Itoa (int (n + 3)) @
         '', $'' @ strconv_Itoa (int (n + 4)) @ '')'')"

fun insert_parts ::
  "((string \<times> 'l go_value) list \<Rightarrow> error + string) \<Rightarrow> nat \<Rightarrow> 'l storage_Item list \<Rightarrow> string list \<Rightarrow> pg_value list \<Rightarrow> error + string list \<times> pg_value list" where
  "insert_parts json i [] placeholders args = Inr (placeholders, args)"
| "insert_parts json i (item # items) placeholders args =
     (case item_values json item of
        Inl err \<Rightarrow> Inl err
      | Inr vs \<Rightarrow> insert_parts json (Suc i) items (placeholders @ [placeholder i]) (args @ vs))"

definition insert_base :: string where
  "insert_base = ''INSERT INTO crawled_items (url, data, metadata, crawled_at) VALUES ''"

definition insertBatch :: "'w pg_ops \<Rightarrow> ((string \<times> 'l go_value) list \<Rightarrow> error + string) \<Rightarrow> 'w \<Rightarrow> 'l storage_Item list \<Rightarrow> error option \<times> 'w" where
  "insertBatch db json w items =
     (case insert_parts json 0 items [] [] of
        Inl err \<Rightarrow> (Some err, w)
      | Inr (placeholders, args) \<Rightarrow>
          (case pg_Exec db w (insert_base @ join_with '', '' placeholders) args of
             (Some err, w1) \<Rightarrow> (Some (WrapError ''postgres storage: insert: '' err []), w1)
           | (None, w1) \<Rightarrow> (None, w1)))"

definition PostgresPlugin_Store ::
  "'w pg_ops \<Rightarrow> ((string \<times> 'l go_value) list \<Rightarrow> error + string) \<Rightarrow> 'w \<Rightarrow> PostgresPlugin \<Rightarrow> 'l storage_Item list \<Rightarrow> error option \<times> 'w" where
  "PostgresPlugin_Store db json w p items =
     (if \<not> pgp_pool p then (Some (ErrorString ''postgres storage: not initialized''), w)
      else if length items = 0 then (None, w)
      else if pgc_BatchSize (pgp_cfg p) \<le> int (length items) then copyFrom db json w items
      else insertBatch db json w items)"

definition PostgresPlugin_Close :: "'w pg_ops \<Rightarrow> 'w \<Rightarrow> PostgresPlugin \<Rightarrow> error option \<times> PostgresPlugin \<times> 'w" where
  "PostgresPlugin_Close db w p = (if pgp_pool p then (None, p\<lparr>pgp_pool := False\<rparr>, pg_Close db w) else (None, p, w))"

section \<open>What the statements mean\<close>

text \<open>
  The list of tuples after \<^verbatim>\<open>VALUES\<close>, each a list of parameter numbers: \<open>pv tuple number text\<close> reads the text
  inside a tuple or not, and inside a number or not.
\<close>

fun pv :: "nat list option \<Rightarrow> nat option \<Rightarrow> string \<Rightarrow> nat list list option" where
  "pv None None [] = Some []"
| "pv None None (c # s) =
     (if c = CHR ''('' then pv (Some []) None s else if c = CHR '','' \<or> c = CHR '' '' then pv None None s else None)"
| "pv (Some t) None (c # s) = (if c = CHR ''$'' then pv (Some t) (Some 0) s else if c = CHR '' '' then pv (Some t) None s else None)"
| "pv (Some t) (Some n) (c # s) =
     (if is_digit c then pv (Some t) (Some (10 * n + nat (digit_val c))) s
      else if c = CHR '','' then pv (Some (t @ [n])) None s
      else if c = CHR '')'' then map_option ((#) (t @ [n])) (pv None None s)
      else None)"
| "pv _ _ _ = None"

text \<open>A database that takes the rows: \<open>rows w\<close> is the table \<^verbatim>\<open>crawled_items\<close>.\<close>

definition takes_rows :: "'w pg_ops \<Rightarrow> ('w \<Rightarrow> pg_value list list) \<Rightarrow> bool" where
  "takes_rows db rows \<longleftrightarrow>
     (\<forall>w rs. \<exists>w'. pg_CopyFrom db w ''crawled_items'' [''url'', ''data'', ''metadata'', ''crawled_at''] rs = (None, w') \<and> rows w' = rows w @ rs) \<and>
     (\<forall>w vals idx args. pv None None vals = Some idx \<and> (\<forall>t\<in>set idx. \<forall>i\<in>set t. 1 \<le> i \<and> i \<le> length args) \<longrightarrow>
        (\<exists>w'. pg_Exec db w (insert_base @ vals) args = (None, w') \<and> rows w' = rows w @ map (map (\<lambda>i. args ! (i - 1))) idx))"

lemma dec_value_nonneg: "\<forall>c\<in>set ds. is_digit c \<Longrightarrow> 0 \<le> dec_value ds"
proof (induction ds rule: rev_induct)
  case (snoc c ds)
  then show ?case by (simp add: digit_val_def is_digit_def)
qed (simp add: dec_value_def)

lemma pv_digits: "\<forall>c\<in>set ds. is_digit c \<Longrightarrow> pv (Some t) (Some 0) (ds @ s) = pv (Some t) (Some (nat (dec_value ds))) s"
proof (induction ds arbitrary: s rule: rev_induct)
  case (snoc c ds)
  then have "0 \<le> dec_value ds" "is_digit c" "0 \<le> digit_val c" using dec_value_nonneg [of ds] by (auto simp: digit_val_def is_digit_def)
  then have "nat (dec_value (ds @ [c])) = 10 * nat (dec_value ds) + nat (digit_val c)" by (simp add: nat_add_distrib nat_mult_distrib)
  then show ?case using snoc \<open>is_digit c\<close> by simp
qed (simp add: dec_value_def)

lemma pv_number: "pv (Some t) (Some 0) (strconv_Itoa (int n) @ s) = pv (Some t) (Some n) s"
proof -
  have d: "strconv_Itoa (int n) = nat_to_dec n" by (simp add: strconv_Itoa_def)
  show ?thesis unfolding d using nat_to_dec_correct [of n] by (subst pv_digits) simp_all
qed

lemma not_digits: "\<not> is_digit (CHR '','')" "\<not> is_digit (CHR '')'')"
  by (simp_all add: is_digit_def)

lemma pv_placeholder: "pv None None (placeholder i @ s) = map_option ((#) [4 * i + 1, 4 * i + 2, 4 * i + 3, 4 * i + 4]) (pv None None s)"
  by (simp add: placeholder_def Let_def pv_number not_digits mult.commute del: of_nat_add of_nat_mult of_nat_Suc)

lemma pv_placeholders:
  "pv None None (join_with '', '' (map placeholder is')) = Some (map (\<lambda>i. [4 * i + 1, 4 * i + 2, 4 * i + 3, 4 * i + 4]) is')"
proof (induction is' rule: induct_list012)
  case (2 i)
  then show ?case using pv_placeholder [of i "[]"] by simp
next
  case (3 i j is')
  then show ?case by (simp add: pv_placeholder)
qed simp

section \<open>The two ways to insert\<close>

lemma item_values_length: "item_values json item = Inr vs \<Longrightarrow> length vs = 4"
  by (auto simp: item_values_def split: sum.splits)

lemma insert_parts_rows:
  "insert_parts json i items ps args =
     (case copy_rows json items of Inl err \<Rightarrow> Inl err | Inr rows \<Rightarrow> Inr (ps @ map placeholder [i..<i + length items], args @ concat rows))"
proof (induction items arbitrary: i ps args)
  case (Cons item items)
  show ?case
  proof (cases "item_values json item")
    case (Inr vs)
    have "[i..<i + length (item # items)] = i # [Suc i..<Suc i + length items]" using upt_conv_Cons [of i "i + length (item # items)"] by simp
    then show ?thesis using Inr Cons.IH [of "Suc i"] by (simp del: upt_Suc split: sum.split)
  qed simp
qed simp

lemma copy_rows_length: "copy_rows json items = Inr rows \<Longrightarrow> length rows = length items \<and> (\<forall>r\<in>set rows. length r = 4)"
  by (induction items arbitrary: rows) (auto simp: item_values_length split: sum.splits)

lemma nth_concat4:
  "\<forall>r\<in>set rows. length r = 4 \<Longrightarrow> i < length rows \<Longrightarrow> k < 4 \<Longrightarrow> concat rows ! (4 * i + k) = rows ! i ! k"
proof (induction rows arbitrary: i)
  case (Cons r rows)
  then show ?case by (cases i) (simp_all add: nth_append)
qed simp

lemma quads_of_concat:
  assumes "\<forall>r\<in>set rows. length r = 4"
  shows "map (map (\<lambda>i. concat rows ! (i - 1))) (map (\<lambda>i. [4 * i + 1, 4 * i + 2, 4 * i + 3, 4 * i + 4]) [0..<length rows]) = rows"
proof (rule nth_equalityI)
  fix i
  assume "i < length (map (map (\<lambda>i. concat rows ! (i - 1))) (map (\<lambda>i. [4 * i + 1, 4 * i + 2, 4 * i + 3, 4 * i + 4]) [0..<length rows]))"
  then have i: "i < length rows" by simp
  have l: "length (rows ! i) = 4" using assms i by simp
  have "rows ! i = [rows ! i ! 0, rows ! i ! 1, rows ! i ! 2, rows ! i ! 3]"
    using l by (auto simp: length_Suc_conv numeral_eq_Suc)
  moreover have "concat rows ! (4 * i + 1 - 1) = rows ! i ! 0" "concat rows ! (4 * i + 2 - 1) = rows ! i ! 1"
    "concat rows ! (4 * i + 3 - 1) = rows ! i ! 2" "concat rows ! (4 * i + 4 - 1) = rows ! i ! 3"
    using nth_concat4 [OF assms i, of 0] nth_concat4 [OF assms i, of 1] nth_concat4 [OF assms i, of 2] nth_concat4 [OF assms i, of 3]
    by (simp_all add: numeral_eq_Suc)
  ultimately show "map (map (\<lambda>i. concat rows ! (i - 1))) (map (\<lambda>i. [4 * i + 1, 4 * i + 2, 4 * i + 3, 4 * i + 4]) [0..<length rows]) ! i = rows ! i"
    using i by (simp only: nth_map length_map length_upt nth_upt list.map) simp
qed simp

lemma length_concat4: "\<forall>r\<in>set rows. length r = 4 \<Longrightarrow> length (concat rows) = 4 * length rows"
  by (induction rows) auto


section \<open>Migrations\<close>

text \<open>
  A database that keeps its books: \<open>versions w\<close> is the table of migrations and \<open>scripts_run w\<close> the list of the
  scripts that were run, of those that \<open>script\<close> holds for.
\<close>

definition keeps_books :: "'w pg_ops \<Rightarrow> (string \<Rightarrow> bool) \<Rightarrow> ('w \<Rightarrow> string set) \<Rightarrow> ('w \<Rightarrow> string list) \<Rightarrow> bool" where
  "keeps_books db script versions scripts_run \<longleftrightarrow>
     (\<forall>w. \<exists>w'. pg_Exec db w sql_create_migrations [] = (None, w') \<and> versions w' = versions w \<and> scripts_run w' = scripts_run w) \<and>
     (\<forall>w v. \<exists>w'. pg_QueryBool db w sql_migration_exists [PgText v] = (Inr (v \<in> versions w), w') \<and> versions w' = versions w \<and> scripts_run w' = scripts_run w) \<and>
     (\<forall>w v. v \<notin> versions w \<longrightarrow> (\<exists>w'. pg_Exec db w sql_record_migration [PgText v] = (None, w') \<and> versions w' = insert v (versions w) \<and> scripts_run w' = scripts_run w)) \<and>
     (\<forall>w sql. script sql \<longrightarrow> (\<exists>w'. pg_Exec db w sql [] = (None, w') \<and> versions w' = versions w \<and> scripts_run w' = scripts_run w @ [sql]))"

definition version_of :: "string \<Rightarrow> string" where
  "version_of name = strings_TrimSuffix name up_suffix"

lemma version_inj: "strings_HasSuffix a up_suffix \<Longrightarrow> strings_HasSuffix b up_suffix \<Longrightarrow> version_of a = version_of b \<Longrightarrow> a = b"
  unfolding version_of_def strings_TrimSuffix_def strings_HasSuffix_def by (metis append_take_drop_id)

lemma migrate_each_good:
  assumes db: "keeps_books db script versions scripts_run"
    and files: "\<forall>name\<in>set names. fs_ReadFile fs (''migrations/'' @ name) = Inr (sql_of name) \<and> script (sql_of name)"
    and inj: "inj_on version_of (set names)" "distinct names"
  shows "\<exists>w'. migrate_each db fs w names = (None, w') \<and> versions w' = versions w \<union> version_of ` set names \<and>
    scripts_run w' = scripts_run w @ map sql_of (filter (\<lambda>name. version_of name \<notin> versions w) names)"
  using files inj
proof (induction names arbitrary: w)
  case (Cons name names)
  have IH: "\<exists>w'. migrate_each db fs w names = (None, w') \<and> versions w' = versions w \<union> version_of ` set names \<and>
      scripts_run w' = scripts_run w @ map sql_of (filter (\<lambda>name. version_of name \<notin> versions w) names)" for w using Cons by (auto simp: inj_on_def)
  have other: "\<And>n. n \<in> set names \<Longrightarrow> version_of n \<noteq> version_of name" using Cons.prems(2,3) by (auto simp: inj_on_def)
  obtain w1 where w1: "pg_QueryBool db w sql_migration_exists [PgText (version_of name)] = (Inr (version_of name \<in> versions w), w1)"
    "versions w1 = versions w" "scripts_run w1 = scripts_run w" using db unfolding keeps_books_def by blast
  show ?case
  proof (cases "version_of name \<in> versions w")
    case True
    then show ?thesis using IH [of w1] w1 unfolding version_of_def [symmetric] by (auto simp: version_of_def [symmetric] Let_def insert_absorb)
  next
    case False
    obtain w2 where w2: "pg_Exec db w1 (sql_of name) [] = (None, w2)" "versions w2 = versions w" "scripts_run w2 = scripts_run w @ [sql_of name]"
      using db Cons.prems(1) w1 unfolding keeps_books_def by (metis list.set_intros(1))
    obtain w3 where w3: "pg_Exec db w2 sql_record_migration [PgText (version_of name)] = (None, w3)"
      "versions w3 = insert (version_of name) (versions w)" "scripts_run w3 = scripts_run w @ [sql_of name]"
      using db False w2 unfolding keeps_books_def by metis
    have run: "migrate_each db fs w (name # names) = migrate_each db fs w3 names"
      using w1(1) w2(1) w3(1) False Cons.prems(1) by (simp add: version_of_def [symmetric] Let_def)
    have "filter (\<lambda>n. version_of n \<notin> versions w3) names = filter (\<lambda>n. version_of n \<notin> versions w) names"
      by (rule filter_cong [OF refl]) (use other w3 in auto)
    then show ?thesis using IH [of w3] w3 run False by auto
  qed
qed simp

lemma up_files_props:
  assumes "distinct (map fst entries)"
  shows "distinct (up_files entries)" "sorted (up_files entries)" "inj_on version_of (set (up_files entries))"
proof -
  show "distinct (up_files entries)" using assms by (simp add: up_files_def distinct_map_filter)
  show "sorted (up_files entries)" by (simp add: up_files_def)
  have "\<forall>n\<in>set (up_files entries). strings_HasSuffix n up_suffix" by (auto simp: up_files_def)
  then show "inj_on version_of (set (up_files entries))" by (intro inj_onI) (auto intro: version_inj)
qed


text \<open>
  A script and its record are not one transaction: when the record cannot be written, the script has been run,
  \<open>runMigrations\<close> fails, and it will be run again by the next one.
\<close>

theorem migration_not_atomic:
  assumes "pg_QueryBool db w sql_migration_exists [PgText (version_of name)] = (Inr False, w1)"
    and "fs_ReadFile fs (''migrations/'' @ name) = Inr sql" and "pg_Exec db w1 sql [] = (None, w2)"
    and "pg_Exec db w2 sql_record_migration [PgText (version_of name)] = (Some err, w3)"
    and again: "keeps_books db' script versions scripts_run" "script sql" "version_of name \<notin> versions w3"
  shows "(\<exists>e. migrate_each db fs w (name # names) = (Some e, w3)) \<and>
    (\<exists>w4. migrate_each db' fs w3 [name] = (None, w4) \<and> scripts_run w4 = scripts_run w3 @ [sql])"
proof -
  have "\<exists>e. migrate_each db fs w (name # names) = (Some e, w3)" using assms(1-4) by (simp add: version_of_def [symmetric] Let_def)
  moreover have "\<exists>w4. migrate_each db' fs w3 [name] = (None, w4) \<and> scripts_run w4 = scripts_run w3 @ [sql]"
    using migrate_each_good [OF again(1), where names = "[name]" and fs = fs and sql_of = "\<lambda>_. sql" and w = w3] assms(2) again(2,3) by auto
  ultimately show ?thesis by blast
qed

section \<open>A concrete database\<close>

record list_db =
  ldb_versions :: "string set"
  ldb_scripts :: "string list"
  ldb_rows :: "pg_value list list"

definition list_Exec :: "list_db \<Rightarrow> string \<Rightarrow> pg_value list \<Rightarrow> error option \<times> list_db" where
  "list_Exec w sql args =
     (if sql = sql_create_migrations then (None, w)
      else if sql = sql_record_migration then
        (case args of [PgText v] \<Rightarrow> (None, w\<lparr>ldb_versions := insert v (ldb_versions w)\<rparr>) | _ \<Rightarrow> (Some (ErrorString ''bad arguments''), w))
      else if strings_HasPrefix sql insert_base then
        (case pv None None (drop (length insert_base) sql) of
           Some idx \<Rightarrow> (None, w\<lparr>ldb_rows := ldb_rows w @ map (map (\<lambda>i. args ! (i - 1))) idx\<rparr>)
         | None \<Rightarrow> (Some (ErrorString ''syntax error''), w))
      else (None, w\<lparr>ldb_scripts := ldb_scripts w @ [sql]\<rparr>))"

definition list_pg :: "list_db pg_ops" where
  "list_pg = \<lparr>pg_New = (\<lambda>w dsn. (None, w)), pg_Exec = list_Exec,
     pg_QueryBool = (\<lambda>w sql args. case args of [PgText v] \<Rightarrow> (Inr (v \<in> ldb_versions w), w) | _ \<Rightarrow> (Inl (ErrorString ''bad arguments''), w)),
     pg_CopyFrom = (\<lambda>w table columns rs. (None, w\<lparr>ldb_rows := ldb_rows w @ rs\<rparr>)), pg_Close = (\<lambda>w. w)\<rparr>"

definition is_script :: "string \<Rightarrow> bool" where
  "is_script sql \<longleftrightarrow> sql \<noteq> sql_create_migrations \<and> sql \<noteq> sql_record_migration \<and> \<not> strings_HasPrefix sql insert_base"

lemma insert_not_migration: "insert_base @ vals \<noteq> sql_create_migrations" "insert_base @ vals \<noteq> sql_record_migration"
  "sql_record_migration \<noteq> sql_create_migrations"
  by (simp_all add: insert_base_def sql_create_migrations_def sql_record_migration_def)

lemma list_pg_rows: "takes_rows list_pg ldb_rows"
  by (auto simp: takes_rows_def list_pg_def list_Exec_def insert_not_migration)

lemma list_pg_books: "keeps_books list_pg is_script ldb_versions ldb_scripts"
  by (auto simp: keeps_books_def list_pg_def list_Exec_def insert_not_migration is_script_def)

definition empty_db :: list_db where
  "empty_db = \<lparr>ldb_versions = {}, ldb_scripts = [], ldb_rows = []\<rparr>"

definition sample_fs :: embed_FS where
  "sample_fs = \<lparr>fs_ReadDir = Inr [(''001_initial.down.sql'', False), (''001_initial.up.sql'', False)], fs_ReadFile = (\<lambda>name. Inr ''CREATE TABLE'')\<rparr>"


lemma sample_up_files: "up_files [(''001_initial.down.sql'', False), (''001_initial.up.sql'', False)] = [''001_initial.up.sql'']"
  by (simp add: up_files_def up_suffix_def strings_HasSuffix_def)

lemma sample_script: "is_script ''CREATE TABLE''"
  by (simp add: is_script_def sql_create_migrations_def sql_record_migration_def insert_base_def strings_HasPrefix_def)


definition deaf_pg :: "list_db pg_ops" where
  "deaf_pg = list_pg\<lparr>pg_Exec := (\<lambda>w sql args. if sql = sql_record_migration then (Some DeadlineExceeded, w) else list_Exec w sql args)\<rparr>"

theorem migration_not_atomic_witness:
  "\<exists>e w3 w4. migrate_each deaf_pg sample_fs empty_db [''001_initial.up.sql''] = (Some e, w3) \<and>
     migrate_each list_pg sample_fs w3 [''001_initial.up.sql''] = (None, w4) \<and> ldb_scripts w4 = [''CREATE TABLE'', ''CREATE TABLE'']"
proof -
  let ?w = "empty_db\<lparr>ldb_scripts := [''CREATE TABLE'']\<rparr>"
  have exec: "list_Exec empty_db ''CREATE TABLE'' [] = (None, ?w)" using sample_script by (simp add: list_Exec_def is_script_def empty_db_def)
  have "''CREATE TABLE'' \<noteq> sql_record_migration" using sample_script by (simp add: is_script_def)
  then have "pg_QueryBool deaf_pg empty_db sql_migration_exists [PgText (version_of ''001_initial.up.sql'')] = (Inr False, empty_db)"
    "fs_ReadFile sample_fs (''migrations/'' @ ''001_initial.up.sql'') = Inr ''CREATE TABLE''" "pg_Exec deaf_pg empty_db ''CREATE TABLE'' [] = (None, ?w)"
    "pg_Exec deaf_pg ?w sql_record_migration [PgText (version_of ''001_initial.up.sql'')] = (Some DeadlineExceeded, ?w)"
    using exec by (simp_all add: deaf_pg_def list_pg_def sample_fs_def empty_db_def)
  moreover have "version_of ''001_initial.up.sql'' \<notin> ldb_versions ?w" by (simp add: empty_db_def)
  ultimately show ?thesis using migration_not_atomic [OF _ _ _ _ list_pg_books sample_script, of deaf_pg empty_db "''001_initial.up.sql''" empty_db sample_fs ?w DeadlineExceeded ?w "[]"]
    by (auto simp: empty_db_def)
qed

end
