(* ===== verification/Log_Sanitize.thy ===== *)
theory Log_Sanitize
  imports Crawl_Errors
begin

text \<open>
  pkg/observability/sanitize.go and logging.go: the log handler that redacts credentials.  Its three regular
  expressions are written as the scanners they denote, on the bytes of a string: \<^verbatim>\<open>\s\<close> is the ASCII
  white space of RE2, and \<^verbatim>\<open>(?i)\<close> lets the letter s stand for the long s too.  The wrapped handlers of
  log/slog are an argument.
\<close>

section \<open>sanitize.go\<close>

definition redacted :: string where "redacted = ''[REDACTED]''"

definition sensitiveKeys :: "string list" where
  "sensitiveKeys =
     [''password'', ''passwd'', ''secret'', ''token'', ''api_key'', ''apikey'', ''api-key'', ''authorization'', ''credential'',
      ''private_key'', ''private-key'', ''access_key'', ''access-key'']"

definition re_space :: "char \<Rightarrow> bool" where
  "re_space c \<longleftrightarrow> (of_char c :: nat) \<in> {9, 10, 12, 13, 32}"

text \<open>One letter, in lower case, and a word of them, at the head of a string: what matched and the rest.\<close>

fun fold_char :: "char \<Rightarrow> string \<Rightarrow> (string \<times> string) option" where
  "fold_char c [] = None"
| "fold_char c (x # s) =
     (if lower_char x = c then Some ([x], s)
      else if c = CHR ''s'' \<and> x = CHR 0xC5 \<and> s \<noteq> [] \<and> hd s = CHR 0xBF then Some ([x, CHR 0xBF], tl s)
      else None)"

fun strip_word :: "string \<Rightarrow> string \<Rightarrow> (string \<times> string) option" where
  "strip_word [] s = Some ([], s)"
| "strip_word (c # w) s =
     (case fold_char c s of
        None \<Rightarrow> None
      | Some (a, r) \<Rightarrow> (case strip_word w r of None \<Rightarrow> None | Some (m, t) \<Rightarrow> Some (a @ m, t)))"

text \<open>\<^verbatim>\<open>(?i)(word\s+)\S+\<close> at the head of a string: the group, the token, and the rest.\<close>

definition auth_match :: "string \<Rightarrow> string \<Rightarrow> (string \<times> string \<times> string) option" where
  "auth_match w s =
     (case strip_word w s of
        None \<Rightarrow> None
      | Some (m, s1) \<Rightarrow>
          let sp = takeWhile re_space s1; s2 = dropWhile re_space s1; tok = takeWhile (\<lambda>c. \<not> re_space c) s2
          in if sp = [] \<or> tok = [] then None else Some (m @ sp, tok, dropWhile (\<lambda>c. \<not> re_space c) s2))"

definition user_char :: "char \<Rightarrow> bool" where
  "user_char c \<longleftrightarrow> c \<noteq> CHR ''@'' \<and> c \<noteq> CHR ''/'' \<and> \<not> re_space c"

text \<open>\<^verbatim>\<open>://[^@/\s]+@\<close> at the head of a string: the part before the at sign, and the rest after it.\<close>

definition url_match :: "string \<Rightarrow> (string \<times> string) option" where
  "url_match s =
     (if strings_HasPrefix s ''://'' then
        (let u = takeWhile user_char (drop 3 s); r = dropWhile user_char (drop 3 s)
         in if u \<noteq> [] \<and> r \<noteq> [] \<and> hd r = CHR ''@'' then Some (u, tl r) else None)
      else None)"

lemma fold_char_local: "fold_char c s = Some (a, r) \<Longrightarrow> s = a @ r \<and> a \<noteq> [] \<and> (\<forall>r'. fold_char c (a @ r') = Some (a, r'))"
  by (cases s) (auto simp: neq_Nil_conv split: if_splits)

lemma strip_word_local: "strip_word w s = Some (m, r) \<Longrightarrow> s = m @ r \<and> (\<forall>r'. strip_word w (m @ r') = Some (m, r'))"
proof (induction w arbitrary: s m r)
  case (Cons c w)
  obtain a t m' where a: "fold_char c s = Some (a, t)" "strip_word w t = Some (m', r)" "m = a @ m'"
    using Cons.prems by (auto split: option.splits)
  show ?case using fold_char_local [OF a(1)] Cons.IH [OF a(2)] a(3) by auto
qed simp

lemma auth_match_split:
  assumes "auth_match w s = Some (g, tok, rest)"
  shows "s = g @ tok @ rest" "tok \<noteq> []" "rest = [] \<or> re_space (hd rest)"
proof -
  obtain m s1 where m: "strip_word w s = Some (m, s1)" using assms by (auto simp: auth_match_def split: option.splits)
  let ?s2 = "dropWhile re_space s1"
  have f: "g = m @ takeWhile re_space s1" "tok = takeWhile (\<lambda>c. \<not> re_space c) ?s2" "tok \<noteq> []" "rest = dropWhile (\<lambda>c. \<not> re_space c) ?s2"
    using assms m by (auto simp: auth_match_def Let_def split: if_splits)
  show "s = g @ tok @ rest" using strip_word_local [OF m] f by simp
  show "tok \<noteq> []" by (rule f(3))
  show "rest = [] \<or> re_space (hd rest)" using f(4) hd_dropWhile [of "\<lambda>c. \<not> re_space c" ?s2] by auto
qed

lemma url_match_split:
  assumes "url_match s = Some (u, rest)"
  shows "s = ''://'' @ u @ CHR ''@'' # rest" "u \<noteq> []"
proof -
  obtain t where t: "s = ''://'' @ t" using assms by (auto simp: url_match_def HasPrefix_iff split: if_splits)
  have f: "u = takeWhile user_char t" "u \<noteq> []" "dropWhile user_char t \<noteq> []" "hd (dropWhile user_char t) = CHR ''@''" "rest = tl (dropWhile user_char t)"
    using assms t by (auto simp: url_match_def Let_def split: if_splits)
  have "t = u @ CHR ''@'' # rest" using f by (metis list.collapse takeWhile_dropWhile_id)
  then show "s = ''://'' @ u @ CHR ''@'' # rest" "u \<noteq> []" using t f(2) by simp_all
qed

lemma auth_match_shorter: "auth_match w s = Some (g, tok, rest) \<Longrightarrow> length rest < length s"
  using auth_match_split [of w s g tok rest] by (cases tok) auto

lemma url_match_shorter: "url_match s = Some (u, rest) \<Longrightarrow> length rest < length s"
  using url_match_split [of s u rest] by simp

text \<open>\<open>ReplaceAllString\<close>: the matches from left to right, without overlap.\<close>

function redact_auth :: "string \<Rightarrow> string \<Rightarrow> string" where
  "redact_auth w s =
     (case s of
        [] \<Rightarrow> []
      | c # cs \<Rightarrow>
          (case auth_match w s of
             Some (g, tok, rest) \<Rightarrow> g @ redacted @ redact_auth w rest
           | None \<Rightarrow> c # redact_auth w cs))"
  by pat_completeness auto
termination by (relation "measure (\<lambda>(w, s). length s)") (auto dest!: auth_match_shorter)

function redact_url :: "string \<Rightarrow> string" where
  "redact_url s =
     (case s of
        [] \<Rightarrow> []
      | c # cs \<Rightarrow>
          (case url_match s of
             Some (u, rest) \<Rightarrow> ''://'' @ redacted @ ''@'' @ redact_url rest
           | None \<Rightarrow> c # redact_url cs))"
  by pat_completeness auto
termination by (relation "measure length") (auto dest!: url_match_shorter)

declare redact_auth.simps [simp del] redact_url.simps [simp del]

definition sanitizeString :: "string \<Rightarrow> string" where
  "sanitizeString s = redact_url (redact_auth ''basic'' (redact_auth ''bearer'' s))"

text \<open>Attributes of log/slog: a string, a group, or a value of another kind.\<close>

datatype 'o slog_Attr = SAttr (attr_Key: string) (attr_Value: "'o slog_Value")
  and 'o slog_Value = SString string | SGroup "'o slog_Attr list" | SOther 'o

definition sensitive_key :: "string \<Rightarrow> bool" where
  "sensitive_key key = list_ex (strings_Contains (strings_ToLower key)) sensitiveKeys"

fun sanitizeAttr :: "'o slog_Attr \<Rightarrow> 'o slog_Attr" where
  "sanitizeAttr (SAttr key v) =
     (if sensitive_key key then SAttr key (SString redacted)
      else (case v of
          SGroup attrs \<Rightarrow> SAttr key (SGroup (map sanitizeAttr attrs))
        | SString s \<Rightarrow> SAttr key (SString (sanitizeString s))
        | SOther x \<Rightarrow> SAttr key (SOther x)))"

record 'o slog_Record =
  rec_Time :: Time
  rec_Level :: int
  rec_Message :: string
  rec_Attrs :: "'o slog_Attr list"

record ('h, 'w, 'o) slog_ops =
  slog_Enabled :: "'h \<Rightarrow> int \<Rightarrow> bool"
  slog_Handle :: "'h \<Rightarrow> 'w \<Rightarrow> 'o slog_Record \<Rightarrow> error option \<times> 'w"
  slog_WithAttrs :: "'h \<Rightarrow> 'o slog_Attr list \<Rightarrow> 'h"
  slog_WithGroup :: "'h \<Rightarrow> string \<Rightarrow> 'h"

record 'h SanitizingHandler =
  sh_inner :: 'h

definition NewSanitizingHandler :: "'h \<Rightarrow> 'h SanitizingHandler" where
  "NewSanitizingHandler inner = \<lparr>sh_inner = inner\<rparr>"

definition Sanitizing_Enabled :: "('h, 'w, 'o) slog_ops \<Rightarrow> 'h SanitizingHandler \<Rightarrow> int \<Rightarrow> bool" where
  "Sanitizing_Enabled ops h level = slog_Enabled ops (sh_inner h) level"

definition Sanitizing_Handle :: "('h, 'w, 'o) slog_ops \<Rightarrow> 'h SanitizingHandler \<Rightarrow> 'w \<Rightarrow> 'o slog_Record \<Rightarrow> error option \<times> 'w" where
  "Sanitizing_Handle ops h w r =
     slog_Handle ops (sh_inner h) w
       \<lparr>rec_Time = rec_Time r, rec_Level = rec_Level r, rec_Message = sanitizeString (rec_Message r), rec_Attrs = map sanitizeAttr (rec_Attrs r)\<rparr>"

definition Sanitizing_WithAttrs :: "('h, 'w, 'o) slog_ops \<Rightarrow> 'h SanitizingHandler \<Rightarrow> 'o slog_Attr list \<Rightarrow> 'h SanitizingHandler" where
  "Sanitizing_WithAttrs ops h attrs = \<lparr>sh_inner = slog_WithAttrs ops (sh_inner h) (map sanitizeAttr attrs)\<rparr>"

definition Sanitizing_WithGroup :: "('h, 'w, 'o) slog_ops \<Rightarrow> 'h SanitizingHandler \<Rightarrow> string \<Rightarrow> 'h SanitizingHandler" where
  "Sanitizing_WithGroup ops h name = \<lparr>sh_inner = slog_WithGroup ops (sh_inner h) name\<rparr>"

section \<open>logging.go\<close>

record LogConfig =
  lc_Level :: int
  lc_Format :: string
  lc_Output :: "string option"
  lc_AddSource :: bool
  lc_Sanitize :: bool

datatype log_handler =
    TextHandler string int bool
  | JSONHandler string int bool
  | Sanitizing log_handler

definition NewLogger :: "LogConfig \<Rightarrow> log_handler" where
  "NewLogger cfg =
     (let out = (case lc_Output cfg of None \<Rightarrow> ''stdout'' | Some o' \<Rightarrow> o');
          handler = (if lc_Format cfg = ''text'' then TextHandler out (lc_Level cfg) (lc_AddSource cfg)
                     else JSONHandler out (lc_Level cfg) (lc_AddSource cfg))
      in if lc_Sanitize cfg then Sanitizing handler else handler)"

definition RequestLogFields :: "string \<Rightarrow> string \<Rightarrow> string \<Rightarrow> 'o slog_Attr list" where
  "RequestLogFields requestID domain url =
     [SAttr ''request_id'' (SString requestID), SAttr ''domain'' (SString domain), SAttr ''url'' (SString url)]"

section \<open>Tokens\<close>

abbreviation first_token :: "string \<Rightarrow> string" where "first_token s \<equiv> takeWhile (\<lambda>c. \<not> re_space c) s"
abbreviation after_token :: "string \<Rightarrow> string" where "after_token s \<equiv> dropWhile (\<lambda>c. \<not> re_space c) s"
abbreviation gap :: "string \<Rightarrow> string" where "gap s \<equiv> takeWhile re_space (after_token s)"
abbreviation second_token :: "string \<Rightarrow> string" where "second_token s \<equiv> first_token (dropWhile re_space (after_token s))"

text \<open>Letters that are neither white space nor one of the signs that end a redacted part.\<close>

definition plain :: "char \<Rightarrow> bool" where
  "plain x \<longleftrightarrow> \<not> re_space x \<and> x \<noteq> CHR ''@'' \<and> x \<noteq> CHR '']''"

definition letter_ok :: "char \<Rightarrow> bool" where
  "letter_ok c \<longleftrightarrow> (\<forall>x. lower_char x = c \<longrightarrow> plain x)"

definition word_ok :: "string \<Rightarrow> bool" where
  "word_ok w \<longleftrightarrow> w \<noteq> [] \<and> (\<forall>c\<in>set w. letter_ok c)"

lemma fold_char_plain: "fold_char c s = Some (a, r) \<Longrightarrow> letter_ok c \<Longrightarrow> \<forall>x\<in>set a. plain x"
proof -
  have "plain (CHR 0xC5)" "plain (CHR 0xBF)" by (simp_all add: plain_def re_space_def)
  then show "fold_char c s = Some (a, r) \<Longrightarrow> letter_ok c \<Longrightarrow> \<forall>x\<in>set a. plain x" by (cases s) (auto simp: letter_ok_def split: if_splits)
qed

lemma strip_word_plain:
  assumes "word_ok w" "strip_word w s = Some (m, r)"
  shows "m \<noteq> []" "\<forall>x\<in>set m. plain x"
proof -
  have "\<forall>c\<in>set w. letter_ok c" using assms(1) by (simp add: word_ok_def)
  then show "\<forall>x\<in>set m. plain x" using assms(2)
  proof (induction w arbitrary: s m)
    case (Cons c w)
    obtain a t m' where a: "fold_char c s = Some (a, t)" "strip_word w t = Some (m', r)" "m = a @ m'"
      using Cons.prems by (auto split: option.splits)
    have "\<forall>x\<in>set a. plain x" "\<forall>x\<in>set m'. plain x" using fold_char_plain [OF a(1)] Cons.IH [OF _ a(2)] Cons.prems(1) by simp_all
    then show ?case using a(3) by auto
  qed simp
  obtain c w' where w: "w = c # w'" using assms(1) by (cases w) (simp_all add: word_ok_def)
  then obtain a t m' where "fold_char c s = Some (a, t)" "m = a @ m'" using assms(2) by (auto split: option.splits)
  then show "m \<noteq> []" using fold_char_local [of c s a t] by simp
qed

text \<open>A match is a first token that is the word, a gap, and a second token.\<close>

lemma takeWhile_split: "\<forall>x\<in>set m. P x \<Longrightarrow> s1 = [] \<or> \<not> P (hd s1) \<Longrightarrow> takeWhile P (m @ s1) = m \<and> dropWhile P (m @ s1) = s1"
  by (cases s1) auto

lemma auth_match_iff:
  assumes "word_ok w"
  shows "auth_match w s = Some (g, tok, rest) \<longleftrightarrow>
    strip_word w s = Some (first_token s, after_token s) \<and> gap s \<noteq> [] \<and> second_token s \<noteq> [] \<and>
    g = first_token s @ gap s \<and> tok = second_token s \<and> rest = after_token (dropWhile re_space (after_token s))"
proof
  assume a: "auth_match w s = Some (g, tok, rest)"
  obtain m s1 where m: "strip_word w s = Some (m, s1)" using a by (auto simp: auth_match_def split: option.splits)
  have sp: "takeWhile re_space s1 \<noteq> []" using a m by (auto simp: auth_match_def Let_def split: if_splits)
  then have "s1 \<noteq> [] \<and> re_space (hd s1)" by (cases s1) (auto split: if_splits)
  moreover have "\<forall>x\<in>set m. \<not> re_space x" using strip_word_plain(2) [OF assms m] by (simp add: plain_def)
  ultimately have "first_token s = m" "after_token s = s1"
    using takeWhile_split [of m "\<lambda>c. \<not> re_space c" s1] strip_word_local [OF m] by auto
  then show "strip_word w s = Some (first_token s, after_token s) \<and> gap s \<noteq> [] \<and> second_token s \<noteq> [] \<and>
    g = first_token s @ gap s \<and> tok = second_token s \<and> rest = after_token (dropWhile re_space (after_token s))"
    using a m by (auto simp: auth_match_def Let_def split: if_splits)
qed (auto simp: auth_match_def Let_def)

lemma auth_match_first_token:
  assumes "word_ok w" "auth_match w s = Some (g, tok, rest)"
  shows "first_token s \<noteq> []" "\<forall>x\<in>set (first_token s). plain x"
  using strip_word_plain [OF assms(1)] auth_match_iff [OF assms(1)] assms(2) by blast+

lemma token_chars: "\<forall>x\<in>set (first_token s). \<not> re_space x" "\<forall>x\<in>set (gap s). re_space x"
  using set_takeWhileD [of _ "\<lambda>c. \<not> re_space c" s] set_takeWhileD [of _ re_space "after_token s"] by blast+

lemma tokens_split:
  assumes "\<forall>x\<in>set a. \<not> re_space x" "b \<noteq> []" "\<forall>x\<in>set b. re_space x"
  shows "first_token (a @ b @ x) = a" "after_token (a @ b @ x) = b @ x"
  using takeWhile_split [OF assms(1), of "b @ x"] assms(2,3) by auto

text \<open>The match depends on the first token, the gap and the second token only.\<close>

lemma auth_match_transfer:
  assumes "word_ok w" "auth_match w s = Some (g, tok, rest)" "first_token s' = first_token s" "gap s' = gap s" "second_token s' \<noteq> []"
  shows "\<exists>g' rest'. auth_match w s' = Some (g', second_token s', rest')"
proof -
  have "strip_word w s = Some (first_token s, after_token s)" "gap s \<noteq> []" using assms(2) auth_match_iff [OF assms(1)] by blast+
  then have "strip_word w (first_token s @ after_token s') = Some (first_token s, after_token s')" using strip_word_local by blast
  then have "strip_word w s' = Some (first_token s', after_token s')" using assms(3) by (metis takeWhile_dropWhile_id)
  then show ?thesis using auth_match_iff [OF assms(1), of s'] assms(4,5) \<open>gap s \<noteq> []\<close> by simp
qed

section \<open>The scanner for authorization headers\<close>

lemma redact_auth_Nil [simp]: "redact_auth w [] = []"
  by (simp add: redact_auth.simps)

lemma redact_auth_match: "auth_match w s = Some (g, tok, rest) \<Longrightarrow> redact_auth w s = g @ redacted @ redact_auth w rest"
  using auth_match_split [of w s g tok rest] by (subst redact_auth.simps) (auto split: list.split)

lemma redact_auth_skip: "auth_match w (c # cs) = None \<Longrightarrow> redact_auth w (c # cs) = c # redact_auth w cs"
  by (subst redact_auth.simps) simp

lemma redact_auth_induct [case_names Nil skip match]:
  assumes "P []" "\<And>c cs. auth_match w (c # cs) = None \<Longrightarrow> P cs \<Longrightarrow> P (c # cs)"
    "\<And>s g tok rest. auth_match w s = Some (g, tok, rest) \<Longrightarrow> P rest \<Longrightarrow> P s"
  shows "P s"
proof (induction s rule: length_induct)
  case (1 s)
  show ?case
  proof (cases "auth_match w s")
    case None
    then show ?thesis using assms(1,2) 1 by (cases s) auto
  next
    case (Some x)
    obtain g tok rest where x: "x = (g, tok, rest)" by (cases x)
    show ?thesis using assms(3) [of s g tok rest] Some 1 auth_match_shorter [of w s g tok rest] by (simp add: x)
  qed
qed

lemma redact_auth_space: "word_ok w \<Longrightarrow> re_space c \<Longrightarrow> redact_auth w (c # cs) = c # redact_auth w cs"
  using auth_match_first_token(1) [of w "c # cs"] by (intro redact_auth_skip) (cases "auth_match w (c # cs)"; auto)

lemma redacted_token: "\<forall>x\<in>set redacted. \<not> re_space x" "redacted \<noteq> []" "\<not> re_space (hd redacted)"
  by (simp_all add: redacted_def re_space_def)

lemma redact_auth_first_token:
  assumes "word_ok w"
  shows "first_token (redact_auth w s) = first_token s"
proof (induction s rule: redact_auth_induct [where w = w])
  case (match s g tok rest)
  have m: "gap s \<noteq> []" "g = first_token s @ gap s" using match(1) auth_match_iff [OF assms] by blast+
  then show ?case using tokens_split(1) [OF token_chars(1) m(1) token_chars(2)] by (simp add: redact_auth_match [OF match(1)])
qed (simp_all add: redact_auth_skip)

lemma redact_auth_leading:
  assumes "word_ok w"
  shows "takeWhile re_space (redact_auth w s) = takeWhile re_space s \<and> dropWhile re_space (redact_auth w s) = redact_auth w (dropWhile re_space s)"
proof (induction s)
  case (Cons c cs)
  show ?case
  proof (cases "re_space c")
    case True
    then show ?thesis using Cons by (simp add: redact_auth_space [OF assms])
  next
    case False
    then have "first_token (redact_auth w (c # cs)) \<noteq> []" using redact_auth_first_token [OF assms] by simp
    then have "\<exists>d ds. redact_auth w (c # cs) = d # ds \<and> \<not> re_space d" by (cases "redact_auth w (c # cs)") (auto split: if_splits)
    then show ?thesis using False by auto
  qed
qed simp

lemma redact_auth_gap:
  assumes "word_ok w"
  shows "gap (redact_auth w s) = gap s \<and>
    (second_token (redact_auth w s) = second_token s \<or> second_token s \<noteq> [] \<and> second_token (redact_auth w s) = redacted)"
proof (induction s rule: redact_auth_induct [where w = w])
  case (skip c cs)
  show ?case
  proof (cases "re_space c")
    case True
    then have "after_token (redact_auth w (c # cs)) = redact_auth w (c # cs)" "after_token (c # cs) = c # cs" by (simp_all add: redact_auth_space [OF assms])
    then show ?thesis using redact_auth_leading [OF assms, of "c # cs"] redact_auth_first_token [OF assms] by simp
  next
    case False
    then show ?thesis using skip by (simp add: redact_auth_skip)
  qed
next
  case (match s g tok rest)
  have m: "gap s \<noteq> []" "g = first_token s @ gap s" "tok = second_token s" "second_token s \<noteq> []" using match(1) auth_match_iff [OF assms] by blast+
  have R: "redact_auth w s = first_token s @ gap s @ redacted @ redact_auth w rest" by (simp add: redact_auth_match [OF match(1)] m(2))
  have "after_token (redact_auth w s) = gap s @ redacted @ redact_auth w rest"
    unfolding R by (rule tokens_split(2) [OF token_chars(1) m(1) token_chars(2)])
  moreover have "takeWhile re_space (gap s @ redacted @ redact_auth w rest) = gap s \<and> dropWhile re_space (gap s @ redacted @ redact_auth w rest) = redacted @ redact_auth w rest"
    by (rule takeWhile_split) (auto simp: redacted_token dest: set_takeWhileD)
  moreover have "first_token (redacted @ redact_auth w rest) = redacted"
  proof -
    have "first_token rest = []" using auth_match_split(3) [OF match(1)] by (cases rest) auto
    then have "first_token (redact_auth w rest) = []" using redact_auth_first_token [OF assms] by simp
    then show ?thesis using redacted_token(1) by (simp add: takeWhile_append)
  qed
  ultimately show ?case using m(4) by simp
qed simp

section \<open>Clean strings\<close>

text \<open>Every token after the word, wherever it stands, is the placeholder.\<close>

definition auth_ok_at :: "string \<Rightarrow> string \<Rightarrow> bool" where
  "auth_ok_at w u \<longleftrightarrow> (\<forall>g tok rest. auth_match w u = Some (g, tok, rest) \<longrightarrow> tok = redacted)"

definition auth_ok :: "string \<Rightarrow> string \<Rightarrow> bool" where
  "auth_ok w t \<longleftrightarrow> (\<forall>u. suffix u t \<longrightarrow> auth_ok_at w u)"

definition url_ok :: "string \<Rightarrow> bool" where
  "url_ok t \<longleftrightarrow> (\<forall>u v rest. suffix u t \<and> url_match u = Some (v, rest) \<longrightarrow> v = redacted)"

lemma auth_okD: "auth_ok w t \<Longrightarrow> auth_match w t = Some (g, tok, rest) \<Longrightarrow> tok = redacted"
  unfolding auth_ok_def auth_ok_at_def by blast

lemma auth_ok_suffix: "auth_ok w t \<Longrightarrow> suffix u t \<Longrightarrow> auth_ok w u"
  unfolding auth_ok_def by (meson suffix_order.trans)

lemma auth_ok_Nil [simp]: "auth_ok w []"
  by (auto simp: auth_ok_def auth_ok_at_def dest: auth_match_split)

lemma auth_ok_Cons: "auth_ok w (c # t) \<longleftrightarrow> auth_ok_at w (c # t) \<and> auth_ok w t"
  unfolding auth_ok_def suffix_Cons by blast

lemma auth_ok_append:
  assumes "\<And>q g tok rest. suffix q p \<Longrightarrow> q \<noteq> [] \<Longrightarrow> auth_match w (q @ t) = Some (g, tok, rest) \<Longrightarrow> tok = redacted" "auth_ok w t"
  shows "auth_ok w (p @ t)"
  using assms(1)
proof (induction p)
  case Nil
  then show ?case using assms(2) by simp
next
  case (Cons c p)
  have "auth_ok w (p @ t)"
  proof (rule Cons.IH)
    fix q g tok rest
    assume "suffix q p" "q \<noteq> []" "auth_match w (q @ t) = Some (g, tok, rest)"
    then show "tok = redacted" by (rule Cons.prems [OF suffix_ConsI])
  qed
  moreover have "auth_ok_at w (c # p @ t)" unfolding auth_ok_at_def using Cons.prems [of "c # p"] by simp
  ultimately show ?case by (simp add: auth_ok_Cons)
qed

lemma redacted_segment:
  assumes w: "word_ok w" and chars: "\<forall>x\<in>set a. \<not> re_space x" "b \<noteq> []" "\<forall>x\<in>set b. re_space x" and t: "t = [] \<or> re_space (hd t)" "auth_ok w t"
  shows "auth_ok w (a @ b @ redacted @ t)"
proof -
  have first: "first_token (redacted @ t) = redacted"
    using takeWhile_split [of redacted "\<lambda>c. \<not> re_space c" t] redacted_token(1) t(1) by auto
  have "auth_ok w (redacted @ t)"
  proof (rule auth_ok_append [OF _ t(2)])
    fix q g tok rest
    assume q: "suffix q redacted" "q \<noteq> []" and m: "auth_match w (q @ t) = Some (g, tok, rest)"
    have "set q \<subseteq> set redacted" using q(1) by (rule set_mono_suffix)
    then have "\<forall>x\<in>set q. \<not> re_space x" using redacted_token(1) by blast
    then have "first_token (q @ t) = q" using takeWhile_split [of q "\<lambda>c. \<not> re_space c" t] t(1) by blast
    moreover have "last q = CHR '']''"
    proof -
      obtain x where "redacted = x @ q" using q(1) by (auto simp: suffix_def)
      then have "last redacted = last q" using q(2) by (metis last_appendR)
      then show ?thesis by (simp add: redacted_def)
    qed
    ultimately show "tok = redacted" using auth_match_first_token(2) [OF w m] q(2) by (auto simp: plain_def dest: last_in_set)
  qed
  moreover have "auth_ok w (b @ redacted @ t)" if "auth_ok w (redacted @ t)"
  proof (rule auth_ok_append [OF _ that])
    fix q g tok rest
    assume q: "suffix q b" "q \<noteq> []" and m: "auth_match w (q @ redacted @ t) = Some (g, tok, rest)"
    have "re_space (hd q)" using chars(3) q hd_in_set [of q] set_mono_suffix [OF q(1)] by blast
    then have "first_token (q @ redacted @ t) = []" using q(2) by (cases q) auto
    then show "tok = redacted" using auth_match_first_token(1) [OF w m] by simp
  qed
  moreover have "auth_ok w (a @ b @ redacted @ t)" if "auth_ok w (b @ redacted @ t)"
  proof (rule auth_ok_append [OF _ that])
    fix q g tok rest
    assume q: "suffix q a" and m: "auth_match w (q @ b @ redacted @ t) = Some (g, tok, rest)"
    have qa: "\<forall>x\<in>set q. \<not> re_space x" using chars(1) set_mono_suffix [OF q] by blast
    have "dropWhile re_space (b @ redacted @ t) = redacted @ t"
      using takeWhile_split [OF chars(3), of "redacted @ t"] redacted_token(2,3) by auto
    then have "second_token (q @ b @ redacted @ t) = redacted" using tokens_split(2) [OF qa chars(2,3), of "redacted @ t"] first by simp
    then show "tok = redacted" using m auth_match_iff [OF w] by metis
  qed
  ultimately show ?thesis by blast
qed

lemma redact_auth_keeps:
  assumes w1: "word_ok w1" and w2: "word_ok w2"
  shows "auth_ok w1 s \<or> w1 = w2 \<Longrightarrow> auth_ok w1 (redact_auth w2 s)"
proof (induction s rule: redact_auth_induct [where w = w2])
  case (skip c cs)
  have ok: "auth_ok w1 (redact_auth w2 cs)" using skip auth_ok_Cons by blast
  have R: "redact_auth w2 (c # cs) = c # redact_auth w2 cs" by (rule redact_auth_skip [OF skip(1)])
  show ?case unfolding R auth_ok_Cons auth_ok_at_def
  proof (intro conjI ok allI impI)
    fix g tok rest
    assume m: "auth_match w1 (c # redact_auth w2 cs) = Some (g, tok, rest)"
    note f = redact_auth_first_token [OF w2, of "c # cs", unfolded R] redact_auth_gap [OF w2, of "c # cs", unfolded R]
    note i = auth_match_iff [OF w1, THEN iffD1, OF m]
    have tok: "tok = second_token (c # redact_auth w2 cs)" by (rule i [THEN conjunct2, THEN conjunct2, THEN conjunct2, THEN conjunct2, THEN conjunct1])
    have "second_token (c # redact_auth w2 cs) \<noteq> []" by (rule i [THEN conjunct2, THEN conjunct2, THEN conjunct1])
    then have "second_token (c # cs) \<noteq> []" using f(2) by metis
    from auth_match_transfer [OF w1 m f(1) [symmetric] f(2) [THEN conjunct1, symmetric] this]
    obtain g' rest' where m': "auth_match w1 (c # cs) = Some (g', second_token (c # cs), rest')" by blast
    have "w1 \<noteq> w2"
    proof
      assume "w1 = w2"
      then show False using skip(1) m' by simp
    qed
    then have "second_token (c # cs) = redacted" using auth_okD [OF _ m'] skip(3) by blast
    then show "tok = redacted" using f(2) tok by metis
  qed
next
  case (match s g tok rest)
  have m: "gap s \<noteq> []" "g = first_token s @ gap s" using match(1) auth_match_iff [OF w2] by blast+
  have "suffix rest s" using auth_match_split(1) [OF match(1)] by (simp add: suffix_def)
  then have "auth_ok w1 (redact_auth w2 rest)" using match(2,3) auth_ok_suffix by blast
  moreover have "redact_auth w2 rest = [] \<or> re_space (hd (redact_auth w2 rest))"
  proof -
    have "first_token rest = []" using auth_match_split(3) [OF match(1)] by (cases rest) auto
    then have "first_token (redact_auth w2 rest) = []" using redact_auth_first_token [OF w2] by simp
    then show ?thesis by (cases "redact_auth w2 rest") (auto split: if_splits)
  qed
  ultimately show ?case using redacted_segment [OF w1 token_chars(1) m(1) token_chars(2), of "redact_auth w2 rest"]
    by (simp add: redact_auth_match [OF match(1)] m(2))
qed simp

lemma redact_auth_id: "auth_ok w s \<Longrightarrow> redact_auth w s = s"
proof (induction s rule: redact_auth_induct [where w = w])
  case (skip c cs)
  then show ?case by (simp add: redact_auth_skip auth_ok_Cons)
next
  case (match s g tok rest)
  have s: "s = g @ tok @ rest" by (rule auth_match_split(1) [OF match(1)])
  then have "suffix rest s" by (simp add: suffix_def)
  then have "redact_auth w rest = rest" using match(2) auth_ok_suffix [OF match(3)] by blast
  moreover have "tok = redacted" by (rule auth_okD [OF match(3,1)])
  ultimately show ?case using redact_auth_match [OF match(1)] s by simp
qed simp

section \<open>The scanner for URLs\<close>

lemma redact_url_Nil [simp]: "redact_url [] = []"
  by (simp add: redact_url.simps)

lemma redact_url_match: "url_match s = Some (u, rest) \<Longrightarrow> redact_url s = ''://'' @ redacted @ ''@'' @ redact_url rest"
  using url_match_split [of s u rest] by (subst redact_url.simps) (auto split: list.split)

lemma redact_url_skip: "url_match (c # cs) = None \<Longrightarrow> redact_url (c # cs) = c # redact_url cs"
  by (subst redact_url.simps) simp

lemma redact_url_induct [case_names Nil skip match]:
  assumes "P []" "\<And>c cs. url_match (c # cs) = None \<Longrightarrow> P cs \<Longrightarrow> P (c # cs)"
    "\<And>s u rest. url_match s = Some (u, rest) \<Longrightarrow> P rest \<Longrightarrow> P s"
  shows "P s"
proof (induction s rule: length_induct)
  case (1 s)
  show ?case
  proof (cases "url_match s")
    case None
    then show ?thesis using assms(1,2) 1 by (cases s) auto
  next
    case (Some x)
    obtain u rest where x: "x = (u, rest)" by (cases x)
    show ?thesis using assms(3) [of s u rest] Some 1 url_match_shorter [of s u rest] by (simp add: x)
  qed
qed

lemma url_match_user: "url_match s = Some (u, rest) \<longleftrightarrow> s = ''://'' @ u @ CHR ''@'' # rest \<and> u \<noteq> [] \<and> (\<forall>c\<in>set u. user_char c)"
proof
  assume m: "url_match s = Some (u, rest)"
  then have "u = takeWhile user_char (drop 3 s)" by (auto simp: url_match_def Let_def split: if_splits)
  then have "\<forall>c\<in>set u. user_char c" using set_takeWhileD [of _ user_char "drop 3 s"] by blast
  then show "s = ''://'' @ u @ CHR ''@'' # rest \<and> u \<noteq> [] \<and> (\<forall>c\<in>set u. user_char c)" using url_match_split [OF m] by blast
next
  assume s: "s = ''://'' @ u @ CHR ''@'' # rest \<and> u \<noteq> [] \<and> (\<forall>c\<in>set u. user_char c)"
  have "takeWhile user_char (u @ CHR ''@'' # rest) = u \<and> dropWhile user_char (u @ CHR ''@'' # rest) = CHR ''@'' # rest"
    by (rule takeWhile_split) (use s in \<open>simp_all add: user_char_def\<close>)
  then show "url_match s = Some (u, rest)" using s HasPrefix_append [of "''://''" "u @ CHR ''@'' # rest"] by (simp add: url_match_def)
qed

lemma url_match_colon: "c \<noteq> CHR '':'' \<Longrightarrow> url_match (c # cs) = None"
  using url_match_user [of "c # cs"] by (cases "url_match (c # cs)") auto

lemma redact_url_plain: "CHR '':'' \<notin> set s \<Longrightarrow> redact_url s = s"
proof (induction s)
  case (Cons c s)
  then have "c \<noteq> CHR '':''" by auto
  then show ?case using redact_url_skip [OF url_match_colon] Cons by simp
qed simp

lemma user_not_space: "user_char c \<Longrightarrow> \<not> re_space c"
  by (simp add: user_char_def)

lemma redact_url_no_at: "CHR ''@'' \<notin> set (redact_url s) \<Longrightarrow> redact_url s = s"
proof (induction s rule: redact_url_induct)
  case (match s u rest)
  then show ?case by (simp add: redact_url_match [OF match(1)])
qed (simp_all add: redact_url_skip)

lemma redact_url_leading: "takeWhile re_space (redact_url s) = takeWhile re_space s \<and> dropWhile re_space (redact_url s) = redact_url (dropWhile re_space s)"
proof (induction s rule: redact_url_induct)
  case (skip c cs)
  then show ?case by (simp add: redact_url_skip)
next
  case (match s u rest)
  have "\<not> re_space (CHR '':'')" by (simp add: re_space_def)
  moreover have "s = ''://'' @ u @ CHR ''@'' # rest" by (rule url_match_split(1) [OF match(1)])
  then have "takeWhile re_space s = []" "dropWhile re_space s = s" using \<open>\<not> re_space (CHR '':'')\<close> by simp_all
  ultimately show ?case using redact_url_match [OF match(1)] by simp
qed simp

lemma redact_url_tokens: "first_token (redact_url s) = redact_url (first_token s) \<and> after_token (redact_url s) = redact_url (after_token s)"
proof (induction s rule: redact_url_induct)
  case (skip c cs)
  show ?case
  proof (cases "re_space c")
    case True
    then show ?thesis using skip(1) by (simp add: redact_url_skip)
  next
    case False
    have "url_match (c # first_token cs) = None"
    proof (rule ccontr)
      assume "url_match (c # first_token cs) \<noteq> None"
      then obtain u rest where m0: "url_match (c # first_token cs) = Some (u, rest)" by (cases "url_match (c # first_token cs)") auto
      have m: "c # first_token cs = ''://'' @ u @ CHR ''@'' # rest" "u \<noteq> [] \<and> (\<forall>c\<in>set u. user_char c)"
        using url_match_user [THEN iffD1, OF m0] by blast+
      have "c # cs = ''://'' @ u @ CHR ''@'' # (rest @ after_token cs)" using arg_cong [OF m(1), of "\<lambda>x. x @ after_token cs"] by simp
      then have "url_match (c # cs) = Some (u, rest @ after_token cs)" using m(2) by (intro url_match_user [THEN iffD2] conjI) simp_all
      then show False using skip(1) by simp
    qed
    then show ?thesis using False skip by (simp add: redact_url_skip)
  qed
next
  case (match s u rest)
  have s: "s = ''://'' @ u @ CHR ''@'' # rest" "u \<noteq> []" "\<forall>c\<in>set u. user_char c" using url_match_user [THEN iffD1, OF match(1)] by blast+
  have ns: "\<not> re_space (CHR '':'')" "\<not> re_space (CHR ''/'')" "\<not> re_space (CHR ''@'')" by (simp_all add: re_space_def)
  have tok: "first_token (a @ x) = a @ first_token x" "after_token (a @ x) = after_token x" if "\<forall>c\<in>set a. \<not> re_space c" for a x
    using that by (simp_all add: takeWhile_append dropWhile_append)
  have u: "\<forall>c\<in>set u. \<not> re_space c" using s(3) user_not_space by blast
  have ft: "first_token s = ''://'' @ u @ CHR ''@'' # first_token rest" "after_token s = after_token rest" using tok [OF u] ns by (simp_all add: s(1))
  have "url_match (first_token s) = Some (u, first_token rest)" using ft s(2,3) by (intro url_match_user [THEN iffD2] conjI)
  then have "redact_url (first_token s) = ''://'' @ redacted @ ''@'' @ redact_url (first_token rest)" by (rule redact_url_match)
  moreover have "first_token (redact_url s) = ''://'' @ redacted @ ''@'' @ first_token (redact_url rest)" "after_token (redact_url s) = after_token (redact_url rest)"
    using tok [OF redacted_token(1)] ns by (simp_all add: redact_url_match [OF match(1)])
  ultimately show ?case using match(2) ft by simp
qed simp

lemma redact_url_redacted: "redact_url redacted = redacted"
  by (rule redact_url_plain) (simp add: redacted_def)

lemma redact_url_keeps_auth:
  assumes w: "word_ok w"
  shows "auth_ok w s \<Longrightarrow> auth_ok w (redact_url s)"
proof (induction s rule: redact_url_induct)
  case (skip c cs)
  let ?s = "c # cs"
  have R: "redact_url ?s = c # redact_url cs" by (rule redact_url_skip [OF skip(1)])
  have ok: "auth_ok w (redact_url cs)" using skip auth_ok_Cons by blast
  show ?case unfolding R auth_ok_Cons auth_ok_at_def
  proof (intro conjI ok allI impI)
    fix g tok rest
    assume "auth_match w (c # redact_url cs) = Some (g, tok, rest)"
    then have m: "auth_match w (redact_url ?s) = Some (g, tok, rest)" using R by simp
    note i = auth_match_iff [OF w, THEN iffD1, OF m]
    have sec: "second_token (redact_url ?s) = redact_url (second_token ?s)" "gap (redact_url ?s) = gap ?s"
      using redact_url_tokens redact_url_leading by simp_all
    have "CHR ''@'' \<notin> set (first_token (redact_url ?s))" using auth_match_first_token(2) [OF w m] by (auto simp: plain_def)
    then have "first_token (redact_url ?s) = first_token ?s" using redact_url_tokens [of ?s] redact_url_no_at by metis
    moreover have "second_token (redact_url ?s) \<noteq> []" by (rule i [THEN conjunct2, THEN conjunct2, THEN conjunct1])
    then have "second_token ?s \<noteq> []" using sec(1) redact_url_Nil by metis
    ultimately obtain g' rest' where m': "auth_match w ?s = Some (g', second_token ?s, rest')"
      using auth_match_transfer [OF w m] sec(2) by metis
    have "tok = redact_url (second_token ?s)" using i [THEN conjunct2, THEN conjunct2, THEN conjunct2, THEN conjunct2, THEN conjunct1] sec(1) by simp
    then show "tok = redacted" using auth_okD [OF skip(3) m'] redact_url_redacted by simp
  qed
next
  case (match s u rest)
  have "s = (''://'' @ u @ ''@'') @ rest" using url_match_split(1) [OF match(1)] by simp
  then have "suffix rest s" by (rule suffixI)
  then have "auth_ok w (redact_url rest)" using match(2) auth_ok_suffix [OF match(3)] by blast
  then have "auth_ok w ((''://'' @ redacted @ ''@'') @ redact_url rest)"
  proof (rule auth_ok_append [rotated])
    fix q g tok r
    assume q: "suffix q (''://'' @ redacted @ ''@'')" "q \<noteq> []" and m: "auth_match w (q @ redact_url rest) = Some (g, tok, r)"
    have "\<forall>c\<in>set (''://'' @ redacted @ ''@''). \<not> re_space c" by (simp add: redacted_def re_space_def)
    then have "\<forall>c\<in>set q. \<not> re_space c" using set_mono_suffix [OF q(1)] by blast
    then have "set q \<subseteq> set (first_token (q @ redact_url rest))" by (simp add: takeWhile_append)
    moreover have "CHR ''@'' \<in> set q"
    proof -
      obtain x where "''://'' @ redacted @ ''@'' = x @ q" using q(1) by (auto simp: suffix_def)
      then have "last (''://'' @ redacted @ ''@'') = last q" using q(2) by (metis last_appendR)
      then show ?thesis using last_in_set [OF q(2)] by simp
    qed
    ultimately have "plain (CHR ''@'')" using auth_match_first_token(2) [OF w m] by blast
    then show "tok = redacted" by (simp add: plain_def)
  qed
  then show ?case unfolding redact_url_match [OF match(1)] by (simp only: append_assoc)
qed simp

text \<open>Before the first slash or at sign a string is left alone.\<close>

lemma redact_url_user: "takeWhile user_char (redact_url s) = takeWhile user_char s \<and> take 1 (dropWhile user_char (redact_url s)) = take 1 (dropWhile user_char s)"
proof (induction s rule: redact_url_induct)
  case (skip c cs)
  then show ?case by (simp add: redact_url_skip)
next
  case (match s u rest)
  have "user_char (CHR '':'')" "\<not> user_char (CHR ''/'')" by (simp_all add: user_char_def re_space_def)
  then show ?case unfolding redact_url_match [OF match(1)] by (simp add: url_match_split(1) [OF match(1)])
qed simp

lemma redact_url_take1: "take 1 (redact_url s) = take 1 s"
proof (cases "url_match s")
  case None
  then show ?thesis by (cases s) (simp_all add: redact_url_skip)
next
  case (Some x)
  then obtain u rest where m: "url_match s = Some (u, rest)" by (cases x) auto
  show ?thesis unfolding redact_url_match [OF m] by (simp add: url_match_split(1) [OF m])
qed

lemma redact_url_slash: "redact_url (CHR ''/'' # s) = CHR ''/'' # redact_url s"
  by (rule redact_url_skip [OF url_match_colon]) simp

lemma starts_slash: "redact_url s = CHR ''/'' # t \<Longrightarrow> \<exists>s'. s = CHR ''/'' # s' \<and> t = redact_url s'"
  using redact_url_take1 [of s] by (cases s) (auto simp: redact_url_slash)

lemma url_ok_Cons: "url_ok (c # t) \<longleftrightarrow> (\<forall>v rest. url_match (c # t) = Some (v, rest) \<longrightarrow> v = redacted) \<and> url_ok t"
  unfolding url_ok_def suffix_Cons by blast

lemma url_ok_plain: "CHR '':'' \<notin> set p \<Longrightarrow> url_ok t \<Longrightarrow> url_ok (p @ t)"
proof (induction p)
  case (Cons c p)
  then have "url_match (c # p @ t) = None" by (intro url_match_colon) auto
  then show ?case using Cons by (simp add: url_ok_Cons)
qed simp

lemma redacted_user: "\<forall>c\<in>set redacted. user_char c"
  by (simp add: redacted_def user_char_def re_space_def)

lemma redact_url_ok: "url_ok (redact_url s)"
proof (induction s rule: redact_url_induct)
  case Nil
  have "url_match [] = None" by (simp add: url_match_def strings_HasPrefix_def)
  then show ?case by (simp add: url_ok_def)
next
  case (skip c cs)
  have "v = redacted" if m: "url_match (c # redact_url cs) = Some (v, rest)" for v rest
  proof -
    have f: "c = CHR '':''" "redact_url cs = CHR ''/'' # CHR ''/'' # v @ CHR ''@'' # rest" "v \<noteq> []" "\<forall>c\<in>set v. user_char c"
      using url_match_user [THEN iffD1, OF m] by auto
    obtain ds where ds: "cs = CHR ''/'' # ds" "redact_url ds = CHR ''/'' # v @ CHR ''@'' # rest" using starts_slash [OF f(2)] by auto
    obtain zs where zs: "ds = CHR ''/'' # zs" "redact_url zs = v @ CHR ''@'' # rest" using starts_slash [OF ds(2)] by auto
    have "takeWhile user_char (v @ CHR ''@'' # rest) = v \<and> dropWhile user_char (v @ CHR ''@'' # rest) = CHR ''@'' # rest"
      by (rule takeWhile_split) (use f(4) in \<open>simp_all add: user_char_def\<close>)
    then have t: "takeWhile user_char zs = v" "take 1 (dropWhile user_char zs) = ''@''" using redact_url_user [of zs] zs(2) by simp_all
    then obtain r where "dropWhile user_char zs = CHR ''@'' # r" by (cases "dropWhile user_char zs") auto
    then have "zs = v @ CHR ''@'' # r" using t(1) by (metis takeWhile_dropWhile_id)
    then have "url_match (c # cs) = Some (v, r)" using f by (intro url_match_user [THEN iffD2] conjI) (simp_all add: ds zs)
    then show ?thesis using skip(1) by simp
  qed
  then show ?case using skip by (simp add: redact_url_skip url_ok_Cons)
next
  case (match s u rest)
  have tail: "url_ok ((''//'' @ redacted @ ''@'') @ redact_url rest)" by (rule url_ok_plain [OF _ match(2)]) (simp add: redacted_def)
  have "url_match (''://'' @ redacted @ CHR ''@'' # redact_url rest) = Some (redacted, redact_url rest)"
    by (intro url_match_user [THEN iffD2] conjI redacted_user) (simp_all add: redacted_token(2))
  then show ?case unfolding redact_url_match [OF match(1)] using tail by (simp add: url_ok_Cons)
qed

lemma redact_url_id: "url_ok s \<Longrightarrow> redact_url s = s"
proof (induction s rule: redact_url_induct)
  case (skip c cs)
  then show ?case by (simp add: redact_url_skip url_ok_Cons)
next
  case (match s u rest)
  have s: "s = (''://'' @ u @ ''@'') @ rest" using url_match_split(1) [OF match(1)] by simp
  then have "suffix rest s" by (rule suffixI)
  then have "url_ok rest" using match(3) unfolding url_ok_def by (meson suffix_order.trans)
  moreover have "u = redacted" using match(1,3) unfolding url_ok_def by (meson suffix_order.refl)
  ultimately show ?case using redact_url_match [OF match(1)] match(2) s by simp
qed simp

section \<open>What the handler lets through\<close>

lemma lower_char_plain: "97 \<le> (of_char c :: nat) \<Longrightarrow> (of_char c :: nat) \<le> 122 \<Longrightarrow> letter_ok c"
proof -
  assume c: "97 \<le> (of_char c :: nat)" "(of_char c :: nat) \<le> 122"
  have "lower_char x = x" if "re_space x \<or> x = CHR ''@'' \<or> x = CHR '']''" for x
    using that by (auto simp: lower_char_def re_space_def)
  moreover have "(of_char x :: nat) < 97" if "re_space x \<or> x = CHR ''@'' \<or> x = CHR '']''" for x using that by (auto simp: re_space_def)
  ultimately show "letter_ok c" using c unfolding letter_ok_def plain_def by (metis leD)
qed

lemma words_ok: "word_ok ''bearer''" "word_ok ''basic''"
  by (simp_all add: word_ok_def lower_char_plain)

definition clean_string :: "string \<Rightarrow> bool" where
  "clean_string s \<longleftrightarrow> auth_ok ''bearer'' s \<and> auth_ok ''basic'' s \<and> url_ok s"

lemma sanitizeString_clean: "clean_string (sanitizeString s)"
proof -
  let ?s = "redact_auth ''basic'' (redact_auth ''bearer'' s)"
  have "auth_ok ''bearer'' (redact_auth ''bearer'' s)" by (rule redact_auth_keeps [OF words_ok(1,1)]) simp
  then have "auth_ok ''bearer'' ?s" by (intro redact_auth_keeps [OF words_ok(1,2)] disjI1)
  moreover have "auth_ok ''basic'' ?s" by (rule redact_auth_keeps [OF words_ok(2,2)]) simp
  ultimately show ?thesis unfolding clean_string_def sanitizeString_def by (intro conjI redact_url_ok redact_url_keeps_auth words_ok)
qed

lemma sanitizeString_id: "clean_string s \<Longrightarrow> sanitizeString s = s"
  by (simp add: clean_string_def sanitizeString_def redact_auth_id redact_url_id)


text \<open>An attribute without credentials, at every depth.\<close>

fun clean_attr :: "'o slog_Attr \<Rightarrow> bool" where
  "clean_attr (SAttr key v) \<longleftrightarrow>
     (sensitive_key key \<longrightarrow> v = SString redacted) \<and>
     (case v of SString s \<Rightarrow> clean_string s | SGroup attrs \<Rightarrow> list_all clean_attr attrs | SOther x \<Rightarrow> True)"

lemma clean_redacted: "clean_string redacted"
proof -
  have "redact_auth w redacted = redacted" if "word_ok w" for w
    by (rule redact_auth_id) (use redacted_segment [OF that, of "[]" "'' ''" "[]"] auth_ok_suffix [of w "'' '' @ redacted" redacted] in \<open>simp add: re_space_def suffix_def\<close>)
  then have "sanitizeString redacted = redacted" by (simp add: sanitizeString_def words_ok redact_url_redacted)
  then show ?thesis using sanitizeString_clean [of redacted] by simp
qed

lemma sanitizeAttr_clean: "clean_attr (sanitizeAttr a)"
proof (induction a rule: sanitizeAttr.induct)
  case (1 key v)
  then show ?case by (cases v) (auto simp: clean_redacted sanitizeString_clean list_all_iff)
qed

text \<open>What a handler built by the methods of the sanitizing handler has been given, beside group names.\<close>

inductive derived :: "('h, 'w, 'o) slog_ops \<Rightarrow> 'h \<Rightarrow> 'h SanitizingHandler \<Rightarrow> 'o slog_Attr list \<Rightarrow> bool" for ops base where
  new: "derived ops base (NewSanitizingHandler base) []"
| attrs: "derived ops base h given \<Longrightarrow> derived ops base (Sanitizing_WithAttrs ops h as) (given @ map sanitizeAttr as)"
| group: "derived ops base h given \<Longrightarrow> derived ops base (Sanitizing_WithGroup ops h name) given"


text \<open>
  A password with an at sign in it is not redacted as a whole: the expression stops at the first at sign, while \<open>url.Parse\<close> takes the user
  information up to the last one.  The rest of the password stays in the log.
\<close>

theorem password_tail_leaks:
  assumes "u \<noteq> []" "\<forall>c\<in>set u. user_char c" "CHR '':'' \<notin> set tail"
  shows "redact_url (''://'' @ u @ ''@'' @ tail) = ''://'' @ redacted @ ''@'' @ tail"
proof -
  have "url_match (''://'' @ u @ ''@'' @ tail) = Some (u, tail)" using assms(1,2) by (intro url_match_user [THEN iffD2] conjI) simp_all
  from redact_url_match [OF this] show ?thesis using redact_url_plain [OF assms(3)] by simp
qed


theorem password_tail_leaks_witness: "redact_url ''://user:p@ss@h/'' = ''://'' @ redacted @ ''@ss@h/''"
  using password_tail_leaks [of "''user:p''" "''ss@h/''"] by (simp add: user_char_def re_space_def)


end
