(* ===== verification/Progress_Tracker.thy ===== *)
theory Progress_Tracker
  imports Crawl_Errors "HOL-Library.Multiset" "HOL-Library.Sublist"
begin

text \<open>
  pkg/observability/progress.go and metrics.go: the tracker that broadcasts the progress of a crawl to its SSE
  clients, with its channels and the handlers that read them as a step relation, and the metrics
  server.  Conversion to JSON, the network and the Prometheus client are arguments.
\<close>

section \<open>progress.go\<close>

record 'f ProgressEvent =
  pe_Timestamp :: Time
  pe_RequestsTotal :: int
  pe_SuccessCount :: int
  pe_ErrorCount :: int
  pe_ActiveRequests :: int
  pe_URLsQueued :: int
  pe_BytesDownloaded :: int
  pe_RequestsPerSec :: 'f

record 'e sse_chan =
  ch_buf :: "'e list"
  ch_closed :: bool

text \<open>\<open>pt_clients\<close> lists the keys of the map of clients; \<open>pt_chans\<close> are the channels made so far.\<close>

record 'f ProgressTracker =
  pt_current :: "'f ProgressEvent"
  pt_clients :: "nat list"
  pt_interval :: Duration
  pt_chans :: "nat \<Rightarrow> 'f ProgressEvent sse_chan"
  pt_next :: nat

definition empty_chan :: "'e sse_chan" where
  "empty_chan = \<lparr>ch_buf = [], ch_closed = False\<rparr>"

definition zero_event :: "'f \<Rightarrow> 'f ProgressEvent" where
  "zero_event z = \<lparr>pe_Timestamp = 0, pe_RequestsTotal = 0, pe_SuccessCount = 0, pe_ErrorCount = 0, pe_ActiveRequests = 0,
     pe_URLsQueued = 0, pe_BytesDownloaded = 0, pe_RequestsPerSec = z\<rparr>"

definition NewProgressTracker :: "'f \<Rightarrow> Duration \<Rightarrow> 'f ProgressTracker" where
  "NewProgressTracker z interval =
     \<lparr>pt_current = zero_event z, pt_clients = [], pt_interval = (if interval \<le> 0 then Second else interval),
      pt_chans = (\<lambda>_. empty_chan), pt_next = 0\<rparr>"

text \<open>\<open>Update\<close> up to the broadcast, which happens after the lock was given up.\<close>

definition Update_store :: "Time \<Rightarrow> 'f ProgressEvent \<Rightarrow> 'f ProgressTracker \<Rightarrow> 'f ProgressEvent \<times> 'f ProgressTracker" where
  "Update_store now event t = (let e = event\<lparr>pe_Timestamp := now\<rparr> in (e, t\<lparr>pt_current := e\<rparr>))"

definition Current :: "'f ProgressTracker \<Rightarrow> 'f ProgressEvent" where
  "Current t = pt_current t"

definition chan_cap :: nat where "chan_cap = 8"

definition sse_subscribe :: "'f ProgressTracker \<Rightarrow> nat \<times> 'f ProgressTracker" where
  "sse_subscribe t =
     (pt_next t, t\<lparr>pt_clients := pt_next t # pt_clients t, pt_chans := (pt_chans t)(pt_next t := empty_chan), pt_next := Suc (pt_next t)\<rparr>)"

text \<open>\<open>unsubscribe\<close>: the deletion under the lock, and the close after it; \<open>None\<close> is a panic.\<close>

definition unsubscribe_delete :: "nat \<Rightarrow> 'f ProgressTracker \<Rightarrow> 'f ProgressTracker" where
  "unsubscribe_delete ch t = t\<lparr>pt_clients := filter (\<lambda>c. c \<noteq> ch) (pt_clients t)\<rparr>"

definition chan_close :: "nat \<Rightarrow> 'f ProgressTracker \<Rightarrow> 'f ProgressTracker option" where
  "chan_close ch t =
     (if ch_closed (pt_chans t ch) then None
      else Some (t\<lparr>pt_chans := (pt_chans t)(ch := (pt_chans t ch)\<lparr>ch_closed := True\<rparr>)\<rparr>))"

definition unsubscribe :: "nat \<Rightarrow> 'f ProgressTracker \<Rightarrow> 'f ProgressTracker option" where
  "unsubscribe ch t = chan_close ch (unsubscribe_delete ch t)"

text \<open>The select with a default: an event for a full channel is dropped; a closed channel panics.\<close>

definition try_send :: "'f ProgressEvent \<Rightarrow> nat \<Rightarrow> 'f ProgressTracker \<Rightarrow> 'f ProgressTracker option" where
  "try_send event ch t =
     (if ch_closed (pt_chans t ch) then None
      else if length (ch_buf (pt_chans t ch)) < chan_cap then
        Some (t\<lparr>pt_chans := (pt_chans t)(ch := (pt_chans t ch)\<lparr>ch_buf := ch_buf (pt_chans t ch) @ [event]\<rparr>)\<rparr>)
      else Some t)"

fun send_all :: "'f ProgressEvent \<Rightarrow> nat list \<Rightarrow> 'f ProgressTracker \<Rightarrow> 'f ProgressTracker option" where
  "send_all event [] t = Some t"
| "send_all event (ch # chs) t = (case try_send event ch t of None \<Rightarrow> None | Some t1 \<Rightarrow> send_all event chs t1)"

definition tracker_broadcast :: "'f ProgressEvent \<Rightarrow> 'f ProgressTracker \<Rightarrow> 'f ProgressTracker option" where
  "tracker_broadcast event t = send_all event (pt_clients t) t"

definition ClientCount :: "'f ProgressTracker \<Rightarrow> nat" where
  "ClientCount t = length (pt_clients t)"

text \<open>\<open>writeSSE\<close>; a failed write is ignored.\<close>

definition writeSSE :: "('f ProgressEvent \<Rightarrow> error + string) \<Rightarrow> ('w \<Rightarrow> string \<Rightarrow> 'w) \<Rightarrow> 'w \<Rightarrow> 'f ProgressEvent \<Rightarrow> 'w" where
  "writeSSE json put w event =
     (case json event of Inl err \<Rightarrow> w | Inr data \<Rightarrow> put w (''data: '' @ data @ [CHR 0x0A, CHR 0x0A]))"

text \<open>Whole calls: \<open>Update\<close>, one tick of \<open>RunBroadcastLoop\<close>, and an SSE handler up to its loop (a status and a text for a response writer that
  cannot flush).\<close>

definition ProgressTracker_Update :: "Time \<Rightarrow> 'f ProgressEvent \<Rightarrow> 'f ProgressTracker \<Rightarrow> 'f ProgressTracker option" where
  "ProgressTracker_Update now event t = (case Update_store now event t of (e, t1) \<Rightarrow> tracker_broadcast e t1)"

definition broadcast_tick :: "'f ProgressTracker \<Rightarrow> 'f ProgressTracker option" where
  "broadcast_tick t = tracker_broadcast (Current t) t"

definition SSEHandler_begin ::
  "('f ProgressEvent \<Rightarrow> error + string) \<Rightarrow> ('w \<Rightarrow> string \<Rightarrow> 'w) \<Rightarrow> bool \<Rightarrow> 'w \<Rightarrow> 'f ProgressTracker \<Rightarrow>
   ((int \<times> string) + ((string \<times> string) list \<times> nat)) \<times> 'f ProgressTracker \<times> 'w" where
  "SSEHandler_begin json put flushes w t =
     (if \<not> flushes then (Inl (500, ''streaming not supported''), t, w)
      else (case sse_subscribe t of (ch, t1) \<Rightarrow>
        (Inr ([(''Content-Type'', ''text/event-stream''), (''Cache-Control'', ''no-cache''), (''Connection'', ''keep-alive''),
               (''Access-Control-Allow-Origin'', ''*'')], ch),
         t1, writeSSE json put w (Current t1))))"

section \<open>Updates, ticks and clients side by side\<close>

text \<open>
  \<open>sse_sending\<close> are the events stored or read but not broadcast yet; \<open>sse_handlers\<close> the channels of the connected
  handlers and \<open>sse_leaving\<close> those taken out of the map but not closed yet; \<open>sse_seen\<close> what each handler has
  received, and \<open>sse_sent\<close> what has been broadcast.
\<close>

record 'f sse_run =
  sse_tracker :: "'f ProgressTracker"
  sse_sending :: "'f ProgressEvent multiset"
  sse_handlers :: "nat list"
  sse_leaving :: "nat list"
  sse_seen :: "nat \<Rightarrow> 'f ProgressEvent list"
  sse_sent :: "'f ProgressEvent list"

definition sse_start :: "'f \<Rightarrow> Duration \<Rightarrow> 'f sse_run" where
  "sse_start z interval =
     \<lparr>sse_tracker = NewProgressTracker z interval, sse_sending = {#}, sse_handlers = [], sse_leaving = [], sse_seen = (\<lambda>_. []), sse_sent = []\<rparr>"

inductive sse_step :: "'f sse_run \<Rightarrow> 'f sse_run \<Rightarrow> bool" where
  store: "Update_store now event (sse_tracker s) = (e, t) \<Longrightarrow>
     sse_step s (s\<lparr>sse_tracker := t, sse_sending := add_mset e (sse_sending s)\<rparr>)"
| tick: "sse_step s (s\<lparr>sse_sending := add_mset (Current (sse_tracker s)) (sse_sending s)\<rparr>)"
| send: "\<lbrakk>sse_sending s = add_mset e E; tracker_broadcast e (sse_tracker s) = Some t\<rbrakk> \<Longrightarrow>
     sse_step s (s\<lparr>sse_tracker := t, sse_sending := E, sse_sent := sse_sent s @ [e]\<rparr>)"
| connect: "sse_subscribe (sse_tracker s) = (ch, t) \<Longrightarrow>
     sse_step s (s\<lparr>sse_tracker := t, sse_handlers := ch # sse_handlers s\<rparr>)"
| receive: "\<lbrakk>ch \<in> set (sse_handlers s); ch_buf (pt_chans (sse_tracker s) ch) = e # es\<rbrakk> \<Longrightarrow>
     sse_step s (s\<lparr>sse_tracker := (sse_tracker s)\<lparr>pt_chans := (pt_chans (sse_tracker s))(ch := (pt_chans (sse_tracker s) ch)\<lparr>ch_buf := es\<rparr>)\<rparr>,
                   sse_seen := (sse_seen s)(ch := sse_seen s ch @ [e])\<rparr>)"
| leave: "ch \<in> set (sse_handlers s) \<Longrightarrow>
     sse_step s (s\<lparr>sse_tracker := unsubscribe_delete ch (sse_tracker s), sse_handlers := remove1 ch (sse_handlers s), sse_leaving := ch # sse_leaving s\<rparr>)"
| close: "\<lbrakk>ch \<in> set (sse_leaving s); chan_close ch (sse_tracker s) = Some t\<rbrakk> \<Longrightarrow>
     sse_step s (s\<lparr>sse_tracker := t, sse_leaving := remove1 ch (sse_leaving s)\<rparr>)"

definition offer :: "'f ProgressEvent \<Rightarrow> 'f ProgressEvent sse_chan \<Rightarrow> 'f ProgressEvent sse_chan" where
  "offer event c = (if length (ch_buf c) < chan_cap then c\<lparr>ch_buf := ch_buf c @ [event]\<rparr> else c)"

lemma offer_closed [simp]: "ch_closed (offer event c) = ch_closed c"
  by (simp add: offer_def)

lemma send_all_effect:
  "distinct cs \<Longrightarrow> \<forall>c\<in>set cs. \<not> ch_closed (pt_chans t c) \<Longrightarrow>
   send_all event cs t = Some (t\<lparr>pt_chans := (\<lambda>c. if c \<in> set cs then offer event (pt_chans t c) else pt_chans t c)\<rparr>)"
proof (induction cs arbitrary: t)
  case (Cons ch cs)
  let ?t = "t\<lparr>pt_chans := (pt_chans t)(ch := offer event (pt_chans t ch))\<rparr>"
  have step: "try_send event ch t = Some ?t" using Cons.prems by (simp add: try_send_def offer_def)
  have "send_all event cs ?t = Some (?t\<lparr>pt_chans := (\<lambda>c. if c \<in> set cs then offer event (pt_chans ?t c) else pt_chans ?t c)\<rparr>)"
    by (rule Cons.IH) (use Cons.prems in auto)
  moreover have "(\<lambda>c. if c \<in> set cs then offer event (pt_chans ?t c) else pt_chans ?t c) =
      (\<lambda>c. if c \<in> set (ch # cs) then offer event (pt_chans t c) else pt_chans t c)" using Cons.prems(1) by (auto simp: fun_eq_iff)
  ultimately show ?case using step by simp
qed simp

definition chan_ok :: "'f sse_run \<Rightarrow> nat \<Rightarrow> bool" where
  "chan_ok s c \<longleftrightarrow> length (ch_buf (pt_chans (sse_tracker s) c)) \<le> chan_cap \<and>
     subseq (sse_seen s c @ ch_buf (pt_chans (sse_tracker s) c)) (sse_sent s) \<and>
     (pt_next (sse_tracker s) \<le> c \<longrightarrow> sse_seen s c = [])"

definition sse_inv :: "'f sse_run \<Rightarrow> bool" where
  "sse_inv s \<longleftrightarrow> pt_clients (sse_tracker s) = sse_handlers s \<and> distinct (sse_handlers s @ sse_leaving s) \<and>
     (\<forall>c\<in>set (sse_handlers s @ sse_leaving s). c < pt_next (sse_tracker s) \<and> \<not> ch_closed (pt_chans (sse_tracker s) c)) \<and>
     (\<forall>c. chan_ok s c)"

lemma sse_inv_start: "sse_inv (sse_start z interval)"
  by (simp add: sse_inv_def chan_ok_def sse_start_def NewProgressTracker_def empty_chan_def chan_cap_def)

lemma subseq_snoc: "subseq xs ys \<Longrightarrow> subseq (xs @ [e]) (ys @ [e])"
  by (rule list_emb_append_mono) simp_all

lemma subseq_later: "subseq xs ys \<Longrightarrow> subseq xs (ys @ [e])"
  using list_emb_append2 by fastforce

lemma sse_inv_send:
  assumes "sse_inv s"
  shows "tracker_broadcast e (sse_tracker s) = Some ((sse_tracker s)\<lparr>pt_chans :=
    (\<lambda>c. if c \<in> set (sse_handlers s) then offer e (pt_chans (sse_tracker s) c) else pt_chans (sse_tracker s) c)\<rparr>)"
  using assms unfolding tracker_broadcast_def sse_inv_def by (subst send_all_effect) auto

lemma sse_inv_step: "sse_step s s' \<Longrightarrow> sse_inv s \<Longrightarrow> sse_inv s'"
proof (induction rule: sse_step.induct)
  case (store now event s e t)
  then show ?case by (auto simp: sse_inv_def chan_ok_def Update_store_def Let_def)
next
  case (tick s)
  then show ?case by (simp add: sse_inv_def chan_ok_def)
next
  case (send s e E t)
  have t: "t = (sse_tracker s)\<lparr>pt_chans := (\<lambda>c. if c \<in> set (sse_handlers s) then offer e (pt_chans (sse_tracker s) c) else pt_chans (sse_tracker s) c)\<rparr>"
    using sse_inv_send [OF send(3), of e] send(2) by simp
  have "chan_ok (s\<lparr>sse_tracker := t, sse_sending := E, sse_sent := sse_sent s @ [e]\<rparr>) c" for c
  proof -
    have "chan_ok s c" using send(3) by (simp add: sse_inv_def)
    then show ?thesis using subseq_later [of "sse_seen s c @ ch_buf (pt_chans (sse_tracker s) c)" "sse_sent s" e]
        subseq_snoc [of "sse_seen s c @ ch_buf (pt_chans (sse_tracker s) c)" "sse_sent s" e]
      by (auto simp: chan_ok_def t offer_def)
  qed
  then show ?case using send(3) by (auto simp: sse_inv_def t)
next
  case (connect s ch t)
  have d: "ch = pt_next (sse_tracker s)" "t = (sse_tracker s)\<lparr>pt_clients := ch # pt_clients (sse_tracker s),
      pt_chans := (pt_chans (sse_tracker s))(ch := empty_chan), pt_next := Suc ch\<rparr>" using connect(1) by (auto simp: sse_subscribe_def)
  have "chan_ok (s\<lparr>sse_tracker := t, sse_handlers := ch # sse_handlers s\<rparr>) c" for c
  proof -
    have "chan_ok s c" using connect(2) by (simp add: sse_inv_def)
    then show ?thesis by (auto simp: chan_ok_def d empty_chan_def)
  qed
  then show ?case using connect(2) by (auto simp: sse_inv_def d empty_chan_def less_Suc_eq)
next
  case (receive ch s e es)
  have ok: "chan_ok s c" for c using receive(3) by (simp add: sse_inv_def)
  have "ch < pt_next (sse_tracker s)" using receive(1,3) by (simp add: sse_inv_def)
  then have "chan_ok (s\<lparr>sse_tracker := (sse_tracker s)\<lparr>pt_chans := (pt_chans (sse_tracker s))(ch := (pt_chans (sse_tracker s) ch)\<lparr>ch_buf := es\<rparr>)\<rparr>,
      sse_seen := (sse_seen s)(ch := sse_seen s ch @ [e])\<rparr>) c" for c
    using ok [of c] ok [of ch] receive(2) by (auto simp: chan_ok_def)
  then show ?case using receive(3) by (auto simp: sse_inv_def)
next
  case (leave ch s)
  have ok: "chan_ok s c" for c using leave(2) by (simp add: sse_inv_def)
  then have "chan_ok (s\<lparr>sse_tracker := unsubscribe_delete ch (sse_tracker s), sse_handlers := remove1 ch (sse_handlers s), sse_leaving := ch # sse_leaving s\<rparr>) c" for c
    by (simp add: chan_ok_def unsubscribe_delete_def)
  moreover have "filter (\<lambda>c. c \<noteq> ch) (sse_handlers s) = remove1 ch (sse_handlers s)"
    using leave(2) by (simp add: sse_inv_def distinct_remove1_removeAll removeAll_filter_not_eq neq_commute)
  ultimately show ?case using leave by (auto simp: sse_inv_def unsubscribe_delete_def)
next
  case (close ch s t)
  have t: "t = (sse_tracker s)\<lparr>pt_chans := (pt_chans (sse_tracker s))(ch := (pt_chans (sse_tracker s) ch)\<lparr>ch_closed := True\<rparr>)\<rparr>"
    using close(2) by (simp add: chan_close_def split: if_splits)
  have ok: "chan_ok s c" for c using close(3) by (simp add: sse_inv_def)
  then have "chan_ok (s\<lparr>sse_tracker := t, sse_leaving := remove1 ch (sse_leaving s)\<rparr>) c" for c by (simp add: chan_ok_def t)
  then show ?case using close(1,3) by (auto simp: sse_inv_def t)
qed

lemma sse_inv_run: "sse_step\<^sup>*\<^sup>* s s' \<Longrightarrow> sse_inv s \<Longrightarrow> sse_inv s'"
  by (induction rule: rtranclp_induct) (auto intro: sse_inv_step)


text \<open>
  Events are not broadcast in the order in which they were stored: \<open>Update\<close> stores its event under the lock and
  broadcasts it after.  Of two updates at once, a client can get the newer one first and then the older, which it shows last.
\<close>

theorem progress_out_of_order:
  fixes z :: 'f
  assumes "now1 < now2"
  shows "\<exists>s ch. sse_step\<^sup>*\<^sup>* (sse_start z interval) s \<and> ch \<in> set (sse_handlers s) \<and> pe_Timestamp (Current (sse_tracker s)) = now2 \<and>
    map pe_Timestamp (sse_seen s ch) = [now2, now1]"
proof -
  define e1 where "e1 = (zero_event z)\<lparr>pe_Timestamp := now1\<rparr>"
  define e2 where "e2 = (zero_event z)\<lparr>pe_Timestamp := now2\<rparr>"
  define T where "T = (\<lambda>(cur :: 'f ProgressEvent) buf. \<lparr>pt_current = cur, pt_clients = [0], pt_interval = (if interval \<le> 0 then Second else interval),
     pt_chans = (\<lambda>_. empty_chan)(0 := \<lparr>ch_buf = buf, ch_closed = False\<rparr>), pt_next = Suc 0\<rparr>)"
  define S where "S = (\<lambda>cur E buf seen sent. \<lparr>sse_tracker = T cur buf, sse_sending = E, sse_handlers = [0], sse_leaving = [],
     sse_seen = (\<lambda>_. [])(0 := seen), sse_sent = sent\<rparr>)"
  have upd: "(T cur buf)\<lparr>pt_current := cur'\<rparr> = T cur' buf"
    "(T cur buf)\<lparr>pt_chans := (pt_chans (T cur buf))(0 := \<lparr>ch_buf = buf', ch_closed = False\<rparr>)\<rparr> = T cur buf'" for cur buf cur' buf' by (simp_all add: T_def)
  have chan: "pt_chans (T cur buf) 0 = \<lparr>ch_buf = buf, ch_closed = False\<rparr>" "pt_clients (T cur buf) = [0]" for cur buf by (simp_all add: T_def)
  have connect: "sse_step (sse_start z interval) (S (zero_event z) {#} [] [] [])"
  proof -
    have sub: "sse_subscribe (sse_tracker (sse_start z interval)) = (0, T (zero_event z) [])"
      by (simp add: T_def sse_start_def sse_subscribe_def NewProgressTracker_def empty_chan_def)
    have "(\<lambda>_ :: nat. [] :: 'f ProgressEvent list)(0 := []) = (\<lambda>_. [])" by auto
    then show ?thesis using sse_step.connect [OF sub] by (simp add: S_def sse_start_def)
  qed
  have store: "sse_step (S cur E buf seen sent) (S ((zero_event z)\<lparr>pe_Timestamp := now\<rparr>) (add_mset ((zero_event z)\<lparr>pe_Timestamp := now\<rparr>) E) buf seen sent)" for cur E buf seen sent now
    using sse_step.store [of now "zero_event z" "S cur E buf seen sent" "(zero_event z)\<lparr>pe_Timestamp := now\<rparr>" "T ((zero_event z)\<lparr>pe_Timestamp := now\<rparr>) buf"]
    by (simp add: S_def Update_store_def Let_def upd)
  have send: "sse_step (S cur (add_mset e E) buf seen sent) (S cur E (buf @ [e]) seen (sent @ [e]))" if "length buf < 8" for cur E buf seen sent e
    using sse_step.send [of "S cur (add_mset e E) buf seen sent" e E "T cur (buf @ [e])"] that
    by (simp add: S_def tracker_broadcast_def try_send_def chan_cap_def chan upd)
  have receive: "sse_step (S cur E (e # buf) seen sent) (S cur E buf (seen @ [e]) sent)" for cur E buf seen sent e
    using sse_step.receive [of 0 "S cur E (e # buf) seen sent" e buf] by (simp add: S_def chan upd)
  note into = converse_rtranclp_into_rtranclp [where r = sse_step]
  have 1: "sse_step (S (zero_event z) {#} [] [] []) (S e1 {#e1#} [] [] [])" unfolding e1_def by (rule store)
  have 2: "sse_step (S e1 {#e1#} [] [] []) (S e2 {#e2, e1#} [] [] [])" unfolding e2_def by (rule store)
  have 3: "sse_step (S e2 {#e2, e1#} [] [] []) (S e2 {#e1#} [e2] [] [e2])" using send [of "[]" e2 e2 "{#e1#}" "[]" "[]"] by simp
  have 4: "sse_step (S e2 {#e1#} [e2] [] [e2]) (S e2 {#} [e2, e1] [] [e2, e1])" using send [of "[e2]" e2 e1 "{#}" "[]" "[e2]"] by simp
  have 5: "sse_step (S e2 {#} [e2, e1] [] [e2, e1]) (S e2 {#} [e1] [e2] [e2, e1])" using receive [of e2 "{#}" e2 "[e1]" "[]" "[e2, e1]"] by simp
  have 6: "sse_step (S e2 {#} [e1] [e2] [e2, e1]) (S e2 {#} [] [e2, e1] [e2, e1])" using receive [of e2 "{#}" e1 "[]" "[e2]" "[e2, e1]"] by simp
  have "sse_step\<^sup>*\<^sup>* (sse_start z interval) (S e2 {#} [] [e2, e1] [e2, e1])"
    by (rule into [OF connect into [OF 1 into [OF 2 into [OF 3 into [OF 4 into [OF 5 into [OF 6 rtranclp.rtrancl_refl]]]]]]])
  moreover have "0 \<in> set (sse_handlers (S e2 {#} [] [e2, e1] [e2, e1]))" "pe_Timestamp (Current (sse_tracker (S e2 {#} [] [e2, e1] [e2, e1]))) = now2"
    "map pe_Timestamp (sse_seen (S e2 {#} [] [e2, e1] [e2, e1]) 0) = [now2, now1]" by (simp_all add: S_def T_def Current_def e1_def e2_def)
  ultimately show ?thesis by (intro exI conjI)
qed

section \<open>metrics.go\<close>

record MetricsServerConfig =
  msc_Port :: int
  msc_Path :: string

text \<open>The server's address is that of its \<open>http.Server\<close>.\<close>

record MetricsServer =
  ms_cfg :: MetricsServerConfig
  ms_Addr :: string

definition NewMetricsServer :: "MetricsServerConfig \<Rightarrow> MetricsServer" where
  "NewMetricsServer cfg0 =
     (let cfg1 = (if msc_Port cfg0 = 0 then cfg0\<lparr>msc_Port := 9090\<rparr> else cfg0);
          cfg2 = (if msc_Path cfg1 = [] then cfg1\<lparr>msc_Path := ''/metrics''\<rparr> else cfg1)
      in \<lparr>ms_cfg = cfg2, ms_Addr = '':'' @ strconv_Itoa (msc_Port cfg2)\<rparr>)"

text \<open>Which of the two ends comes first: \<open>ListenAndServe\<close> with its error, \<open>None\<close> for \<open>ErrServerClosed\<close>, or the context.\<close>

datatype metrics_end = Listened "error option" | MetricsContextDone

definition MetricsServer_Start :: "(string \<Rightarrow> error option) \<Rightarrow> metrics_end \<Rightarrow> MetricsServer \<Rightarrow> error option" where
  "MetricsServer_Start shutdown how s =
     (case how of Listened err \<Rightarrow> err | MetricsContextDone \<Rightarrow> shutdown (ms_Addr s))"

text \<open>
  The collectors of Prometheus live in its default registry \<open>'p\<close> and are known by their names.  \<open>po_MustRegister\<close> is what promauto
  does with a new collector (\<open>None\<close> when it panics), and \<open>po_Inc\<close> and \<open>po_Observe\<close> act on the child for some label values.
\<close>

datatype collector = CounterVec string string "string list" | HistogramVec string string "string list" | Gauge string string | Counter string string

record ('p, 'f) prom_ops =
  po_MustRegister :: "'p \<Rightarrow> collector \<Rightarrow> 'p option"
  po_Inc :: "'p \<Rightarrow> string \<Rightarrow> string list \<Rightarrow> 'p"
  po_Observe :: "'p \<Rightarrow> string \<Rightarrow> string list \<Rightarrow> 'f \<Rightarrow> 'p"

record Metrics =
  mt_RequestsTotal :: string
  mt_RequestDuration :: string
  mt_ActiveRequests :: string
  mt_URLsQueued :: string
  mt_BytesDownloaded :: string
  mt_ErrorsTotal :: string

fun register_all :: "('p, 'f) prom_ops \<Rightarrow> 'p \<Rightarrow> collector list \<Rightarrow> 'p option" where
  "register_all po p [] = Some p"
| "register_all po p (c # cs) = (case po_MustRegister po p c of None \<Rightarrow> None | Some p1 \<Rightarrow> register_all po p1 cs)"

definition NewMetrics :: "('p, 'f) prom_ops \<Rightarrow> 'p \<Rightarrow> (Metrics \<times> 'p) option" where
  "NewMetrics po p =
     (case register_all po p
        [CounterVec ''crawler_requests_total'' ''Total number of crawl requests by status and domain.'' [''status'', ''domain''],
         HistogramVec ''crawler_request_duration_seconds'' ''Duration of crawl requests in seconds.'' [''domain''],
         Gauge ''crawler_active_requests'' ''Number of currently active crawl requests.'',
         Gauge ''crawler_urls_queued'' ''Number of URLs waiting in the crawl queue.'',
         Counter ''crawler_bytes_downloaded_total'' ''Total bytes downloaded by the crawler.'',
         CounterVec ''crawler_errors_total'' ''Total number of crawl errors by type.'' [''type'']] of
        None \<Rightarrow> None
      | Some p1 \<Rightarrow>
          Some (\<lparr>mt_RequestsTotal = ''crawler_requests_total'', mt_RequestDuration = ''crawler_request_duration_seconds'',
                 mt_ActiveRequests = ''crawler_active_requests'', mt_URLsQueued = ''crawler_urls_queued'',
                 mt_BytesDownloaded = ''crawler_bytes_downloaded_total'', mt_ErrorsTotal = ''crawler_errors_total''\<rparr>, p1))"

text \<open>\<open>seconds\<close> is \<^verbatim>\<open>Duration.Seconds\<close>.\<close>

definition Metrics_RecordRequest :: "('p, 'f) prom_ops \<Rightarrow> (Duration \<Rightarrow> 'f) \<Rightarrow> Metrics \<Rightarrow> 'p \<Rightarrow> string \<times> string \<times> Duration \<Rightarrow> 'p" where
  "Metrics_RecordRequest po seconds m p r =
     (case r of (status, domain, duration) \<Rightarrow>
        po_Observe po (po_Inc po p (mt_RequestsTotal m) [status, domain]) (mt_RequestDuration m) [domain] (seconds duration))"

definition Metrics_RecordError :: "('p, 'f) prom_ops \<Rightarrow> Metrics \<Rightarrow> 'p \<Rightarrow> string \<Rightarrow> 'p" where
  "Metrics_RecordError po m p errType = po_Inc po p (mt_ErrorsTotal m) [errType]"

text \<open>
  The registry refuses a name it already has, and registering adds the name alone; an increment adds one to the counter of its
  name and labels and to no other, an observation adds to none.
\<close>

definition prom_law :: "('p, 'f) prom_ops \<Rightarrow> ('p \<Rightarrow> string set) \<Rightarrow> ('p \<Rightarrow> string \<Rightarrow> string list \<Rightarrow> nat) \<Rightarrow> bool" where
  "prom_law po names count_of \<longleftrightarrow>
     (\<forall>p n h ls. n \<in> names p \<longrightarrow> po_MustRegister po p (CounterVec n h ls) = None) \<and>
     (\<forall>p n h ls p'. po_MustRegister po p (CounterVec n h ls) = Some p' \<longrightarrow> names p' = insert n (names p)) \<and>
     (\<forall>p c p'. po_MustRegister po p c = Some p' \<longrightarrow> names p \<subseteq> names p') \<and>
     (\<forall>p n ls. count_of (po_Inc po p n ls) = (count_of p)(n := (count_of p n)(ls := Suc (count_of p n ls)))) \<and>
     (\<forall>p n ls x. count_of (po_Observe po p n ls x) = count_of p)"

lemma prom_lawD:
  assumes "prom_law po names count_of"
  shows "n \<in> names p \<Longrightarrow> po_MustRegister po p (CounterVec n h ls) = None"
    and "po_MustRegister po p (CounterVec n h ls) = Some p' \<Longrightarrow> n \<in> names p'"
    and "po_MustRegister po p c = Some p' \<Longrightarrow> names p \<subseteq> names p'"
    and "count_of (po_Inc po p n ls) n' ls' = (if n' = n \<and> ls' = ls then Suc (count_of p n ls) else count_of p n' ls')"
    and "count_of (po_Observe po p n ls x) = count_of p"
  using assms unfolding prom_law_def by auto

lemma register_all_names: "prom_law po names count_of \<Longrightarrow> register_all po p cs = Some p' \<Longrightarrow> names p \<subseteq> names p'"
  by (induction cs arbitrary: p) (auto split: option.splits dest: prom_lawD(3))

text \<open>The metrics can be made once in a process: a second \<open>NewMetrics\<close> panics.  After any requests and errors were recorded, each
  counter has grown by the number of records with its labels.\<close>

theorem metrics_recorded:
  assumes law: "prom_law po names count_of" and m: "NewMetrics po p = Some (m, p1)"
  shows "NewMetrics po p1 = None \<and>
    (let p2 = foldl (Metrics_RecordError po m) (foldl (Metrics_RecordRequest po seconds m) p1 reqs) errs
     in count_of p2 (mt_RequestsTotal m) [st, d] = count_of p1 (mt_RequestsTotal m) [st, d] + length (filter (\<lambda>(s, e, t). s = st \<and> e = d) reqs) \<and>
        count_of p2 (mt_ErrorsTotal m) [ty] = count_of p1 (mt_ErrorsTotal m) [ty] + length (filter (\<lambda>x. x = ty) errs))"
proof -
  note d = prom_lawD [OF law]
  obtain p' cs where "po_MustRegister po p (CounterVec ''crawler_requests_total'' ''Total number of crawl requests by status and domain.'' [''status'', ''domain'']) = Some p'"
    "register_all po p' cs = Some p1"
    using m by (auto simp: NewMetrics_def split: option.split_asm) (metis register_all.simps option.case)
  then have "''crawler_requests_total'' \<in> names p1" using d(2) register_all_names [OF law] by blast
  then have "NewMetrics po p1 = None" by (simp add: NewMetrics_def d(1))
  moreover have names: "mt_RequestsTotal m \<noteq> mt_ErrorsTotal m" using m by (auto simp: NewMetrics_def split: option.splits)
  have "count_of (foldl (Metrics_RecordRequest po seconds m) p reqs) (mt_RequestsTotal m) [st, d] =
      count_of p (mt_RequestsTotal m) [st, d] + length (filter (\<lambda>(s, e, t). s = st \<and> e = d) reqs)"
    "count_of (foldl (Metrics_RecordRequest po seconds m) p reqs) (mt_ErrorsTotal m) ls = count_of p (mt_ErrorsTotal m) ls" for p reqs ls
    using names by (induction reqs arbitrary: p) (auto simp: Metrics_RecordRequest_def d(4,5) split: if_splits)
  moreover have "count_of (foldl (Metrics_RecordError po m) p errs) (mt_ErrorsTotal m) [ty] = count_of p (mt_ErrorsTotal m) [ty] + length (filter (\<lambda>x. x = ty) errs)"
    "count_of (foldl (Metrics_RecordError po m) p errs) (mt_RequestsTotal m) ls = count_of p (mt_RequestsTotal m) ls" for p errs ls
    using names by (induction errs arbitrary: p) (auto simp: Metrics_RecordError_def d(4))
  ultimately show ?thesis by (simp add: Let_def)
qed

section \<open>Concrete runs\<close>


theorem progress_out_of_order_witness:
  "\<exists>s ch. sse_step\<^sup>*\<^sup>* (sse_start () 0) s \<and> map pe_Timestamp (sse_seen s ch) = [2, 1 :: int]"
proof -
  have "(1 :: int) < 2" by simp
  from progress_out_of_order [OF this, of "()" 0] show ?thesis by (elim exE conjE) (rule exI, rule exI, rule conjI; assumption)
qed

text \<open>A registry of names and counts.\<close>

definition prom_sample :: "(string set \<times> (string \<Rightarrow> string list \<Rightarrow> nat), unit) prom_ops" where
  "prom_sample =
     \<lparr>po_MustRegister = \<lambda>p c. (let n = (case c of CounterVec n h ls \<Rightarrow> n | HistogramVec n h ls \<Rightarrow> n | Gauge n h \<Rightarrow> n | Counter n h \<Rightarrow> n)
        in if n \<in> fst p then None else Some (insert n (fst p), snd p)),
      po_Inc = \<lambda>p n ls. (fst p, (snd p)(n := (snd p n)(ls := Suc (snd p n ls)))), po_Observe = \<lambda>p n ls x. p\<rparr>"

theorem metrics_recorded_witness:
  "\<exists>m p1. NewMetrics prom_sample ({}, \<lambda>n ls. 0) = Some (m, p1) \<and> NewMetrics prom_sample p1 = None"
proof -
  have law: "prom_law prom_sample fst snd" by (auto simp: prom_law_def prom_sample_def Let_def split: collector.splits if_splits)
  obtain m p1 where m: "NewMetrics prom_sample ({}, \<lambda>n ls. 0) = Some (m, p1)" by (simp add: NewMetrics_def prom_sample_def)
  from metrics_recorded [OF law m] show ?thesis using m by blast
qed

end
