(* ===== verification/Engine_Wait.thy ===== *)
theory Engine_Wait
  imports Crawler_Service
begin

text \<open>
  pkg/crawler/engine.go, \<open>Wait\<close>: both ways out of it while the workers run, under a context that may have a deadline, and what
  that means for callbacks that log one result per request.
\<close>

section \<open>Waiting for an engine\<close>

text \<open>
  \<open>Wait\<close> of pkg/crawler/engine.go as its callers see it.  Until it picks a case the workers run, and a context with a
  deadline may end.  Draining takes the queued requests one by one while workers still run; then the workers
  leave.
\<close>

inductive timed_step ::
  "bool \<Rightarrow> 's sem_ops \<Rightarrow> ('w, 'd, 'j, 'b, 'c) engine_env \<Rightarrow> 'c callbacks \<Rightarrow>
   ('d, 'j, 'b, 's, 'w, 'c) engine_run \<Rightarrow> ('d, 'j, 'b, 's, 'w, 'c) engine_run \<Rightarrow> bool" for timed ops env cbs where
  worker: "worker_step ops env cbs st st' \<Longrightarrow> timed_step timed ops env cbs st st'"
| deadline: "\<lbrakk>timed; en_ctx (er_engine st) = Some None\<rbrakk> \<Longrightarrow>
     timed_step timed ops env cbs st (st\<lparr>er_engine := (er_engine st)\<lparr>en_ctx := Some (Some DeadlineExceeded)\<rparr>\<rparr>)"

inductive drain_step ::
  "'s sem_ops \<Rightarrow> ('w, 'd, 'j, 'b, 'c) engine_env \<Rightarrow> 'c callbacks \<Rightarrow>
   ('d, 'j, 'b, 's, 'w, 'c) engine_run \<Rightarrow> ('d, 'j, 'b, 's, 'w, 'c) engine_run \<Rightarrow> bool" for ops env cbs where
  meanwhile: "worker_step ops env cbs st st' \<Longrightarrow> drain_step ops env cbs st st'"
| drop: "en_urlQueue (er_engine st) = r # q \<Longrightarrow>
     drain_step ops env cbs st (st\<lparr>er_engine := url_Done ((er_engine st)\<lparr>en_urlQueue := q\<rparr>)\<rparr>)"

inductive engine_Wait ::
  "bool \<Rightarrow> 's sem_ops \<Rightarrow> ('w, 'd, 'j, 'b, 'c) engine_env \<Rightarrow> 'c callbacks \<Rightarrow>
   ('d, 'j, 'b, 's, 'w, 'c) engine_run \<Rightarrow> error option \<Rightarrow> ('d, 'j, 'b, 's, 'w, 'c) engine_run \<Rightarrow> bool" for timed ops env cbs where
  finished: "\<lbrakk>(timed_step timed ops env cbs)\<^sup>*\<^sup>* st st1; en_urlWg (er_engine st1) = 0;
     (worker_step ops env cbs)\<^sup>*\<^sup>* (st1\<lparr>er_engine := Wait_finished (er_engine st1)\<rparr>) st2; en_workers (er_engine st2) = 0\<rbrakk> \<Longrightarrow>
     engine_Wait timed ops env cbs st None st2"
| drained: "\<lbrakk>(timed_step timed ops env cbs)\<^sup>*\<^sup>* st st1; ctx_err (er_engine st1) = Some err;
     (drain_step ops env cbs)\<^sup>*\<^sup>* st1 st2; en_urlQueue (er_engine st2) = [];
     (worker_step ops env cbs)\<^sup>*\<^sup>* st2 st3; en_workers (er_engine st3) = 0\<rbrakk> \<Longrightarrow>
     engine_Wait timed ops env cbs st (Some err) st3"

section \<open>Invariants of a wait\<close>

lemma Wait_invariant:
  assumes wait: "engine_Wait timed ops env cbs st r st'" and start: "I st"
    and worker: "\<And>a b. worker_step ops env cbs a b \<Longrightarrow> I a \<Longrightarrow> I b"
    and ctx: "\<And>a c. I a \<Longrightarrow> I (a\<lparr>er_engine := (er_engine a)\<lparr>en_ctx := c\<rparr>\<rparr>)"
    and drop: "\<And>a req q. en_urlQueue (er_engine a) = req # q \<Longrightarrow> I a \<Longrightarrow> I (a\<lparr>er_engine := url_Done ((er_engine a)\<lparr>en_urlQueue := q\<rparr>)\<rparr>)"
  shows "I st'"
proof -
  have timed: "(timed_step timed ops env cbs)\<^sup>*\<^sup>* a b \<Longrightarrow> I a \<Longrightarrow> I b" for a b
    by (induction rule: rtranclp_induct) (auto elim!: timed_step.cases intro: worker ctx)
  have workers: "(worker_step ops env cbs)\<^sup>*\<^sup>* a b \<Longrightarrow> I a \<Longrightarrow> I b" for a b
    by (induction rule: rtranclp_induct) (auto intro: worker)
  have drains: "(drain_step ops env cbs)\<^sup>*\<^sup>* a b \<Longrightarrow> I a \<Longrightarrow> I b" for a b
    by (induction rule: rtranclp_induct) (auto elim!: drain_step.cases intro: worker drop)
  have cancel: "I a \<Longrightarrow> I (a\<lparr>er_engine := Wait_finished (er_engine a)\<rparr>)" for a
  proof -
    assume "I a"
    then have "I (a\<lparr>er_engine := (er_engine a)\<lparr>en_ctx := en_ctx (er_engine a)\<rparr>\<rparr>)" by (rule ctx)
    then show ?thesis using ctx [OF \<open>I a\<close>] by (auto simp: Wait_finished_def Engine_cancel_def split: option.splits)
  qed
  show ?thesis using wait
  proof cases
    case (finished st1)
    show ?thesis using workers [OF finished(4) cancel [OF timed [OF finished(2) start]]] .
  next
    case (drained st1 err st2)
    show ?thesis using workers [OF drained(6) drains [OF drained(4) timed [OF drained(2) start]]] .
  qed
qed

lemma control_inv_ctx: "control_inv st \<Longrightarrow> control_inv (st\<lparr>er_engine := (er_engine st)\<lparr>en_ctx := c\<rparr>\<rparr>)"
  by (simp add: control_inv_def Let_def)

lemma control_inv_drop:
  "en_urlQueue (er_engine st) = req # q \<Longrightarrow> control_inv st \<Longrightarrow> control_inv (st\<lparr>er_engine := url_Done ((er_engine st)\<lparr>en_urlQueue := q\<rparr>)\<rparr>)"
  by (auto simp: control_inv_def Let_def url_Done_def)

lemma Wait_control_inv: "engine_Wait timed ops env cbs st r st' \<Longrightarrow> control_inv st \<Longrightarrow> control_inv st'"
  by (erule Wait_invariant) (auto intro: control_inv_ctx control_inv_drop dest: control_inv_worker_step)

text \<open>A run without work left only loses workers.\<close>

definition idle_run :: "('d, 'j, 'b, 's, 'w, 'c) engine_run \<Rightarrow> bool" where
  "idle_run st \<longleftrightarrow> en_urlQueue (er_engine st) = [] \<and> er_waiting st = {#} \<and> er_running st = {#}"

lemma idle_worker_step: "worker_step ops env cbs st st' \<Longrightarrow> idle_run st \<Longrightarrow> idle_run st' \<and> er_cb st' = er_cb st"
  by (erule worker_stepE) (auto simp: idle_run_def)

lemma idle_worker_run: "(worker_step ops env cbs)\<^sup>*\<^sup>* st st' \<Longrightarrow> idle_run st \<Longrightarrow> idle_run st' \<and> er_cb st' = er_cb st"
  by (induction rule: rtranclp_induct) (auto dest: idle_worker_step)

text \<open>When the context has ended, idle workers leave.\<close>

lemma idle_workers_leave:
  assumes "idle_run st" "ctx_err (er_engine st) \<noteq> None"
  shows "(worker_step ops env cbs)\<^sup>*\<^sup>* st (st\<lparr>er_engine := (er_engine st)\<lparr>en_workers := 0\<rparr>\<rparr>)"
  using assms
proof (induction "en_workers (er_engine st)" arbitrary: st)
  case 0
  then have "st\<lparr>er_engine := (er_engine st)\<lparr>en_workers := 0\<rparr>\<rparr> = st" by simp
  then show ?case by simp
next
  case (Suc n)
  let ?st1 = "st\<lparr>er_engine := (er_engine st)\<lparr>en_workers := en_workers (er_engine st) - 1\<rparr>\<rparr>"
  have step: "worker_step ops env cbs st ?st1" by (rule exit) (use Suc in \<open>simp_all add: idle_run_def\<close>)
  have "(worker_step ops env cbs)\<^sup>*\<^sup>* ?st1 (?st1\<lparr>er_engine := (er_engine ?st1)\<lparr>en_workers := 0\<rparr>\<rparr>)"
    by (rule Suc.hyps(1)) (use Suc in \<open>simp_all add: idle_run_def ctx_err_def\<close>)
  then have "(worker_step ops env cbs)\<^sup>*\<^sup>* ?st1 (st\<lparr>er_engine := (er_engine st)\<lparr>en_workers := 0\<rparr>\<rparr>)" by simp
  with step show ?case by (rule converse_rtranclp_into_rtranclp [where r = "worker_step ops env cbs"])
qed

section \<open>Returning\<close>

text \<open>With a worker, a live semaphore and a client that does not panic, the pending URLs are all worked off, and \<open>Wait\<close> returns nil.\<close>

lemma run_completes:
  fixes st :: "('d, 'j, 'b, 's, 'w, 'c) engine_run" and env :: "('w, 'd, 'j, 'b, 'c) engine_env"
  assumes law: "semaphore_law ops cap held" and live: "semaphore_live ops cap held"
    and ctl: "control_inv st" and conc: "conc_inv cap held cfg (permits st)"
    and pos: "0 < GlobalMaxConcurrency cfg" "0 < PerDomainMaxConcurrency cfg" "0 < en_workers (er_engine st)"
    and ctx: "ctx_err (er_engine st) = None"
    and calm: "\<And>c w r. Client_Do (ee_client env) c w (Some r) \<noteq> None"
  shows "\<exists>st'. (worker_step ops env cbs)\<^sup>*\<^sup>* st st' \<and> en_urlWg (er_engine st') = 0"
proof -
  have "n \<le> crawl_work st" if "(worker_step ops env cbs ^^ n) st t" for n t using worker_run_bound [OF that ctx] by simp
  then obtain n t where t: "(worker_step ops env cbs ^^ n) st t" "\<nexists>u. worker_step ops env cbs t u"
    using bounded_run_stops [of "worker_step ops env cbs" st "crawl_work st"] by blast
  note r = worker_run_bound [OF t(1) ctx]
  have star: "(worker_step ops env cbs)\<^sup>*\<^sup>* st t" using t(1) by (rule relpowp_imp_rtranclp)
  have "en_urlWg (er_engine t) = 0"
  proof (rule ccontr)
    assume "en_urlWg (er_engine t) \<noteq> 0"
    from worker_progress [OF law live worker_run_inv [OF star ctl] worker_run_permits [OF law star conc] pos(1,2) _ _ process_acquired_calm [OF calm] this]
    show False using r pos(3) t(2) by simp
  qed
  then show ?thesis using star by blast
qed

lemma worker_step_ctx:
  assumes "worker_step ops env cbs st st'"
  shows "en_ctx (er_engine st') = en_ctx (er_engine st)"
  using assms
proof cases
  case (refuse req W e err cm e1 c1)
  then show ?thesis using process_refused_frame(1) [OF refuse(5)] by (simp add: same_control_def url_Done_def)
next
  case (finish req R e1 w1 c1 e2)
  obtain cm where "e2 = e1\<lparr>en_concurrency := cm\<rparr>" using release_permit_frame [OF finish(4)] by blast
  then show ?thesis using process_acquired_frame(1) [OF finish(3)] finish(1) by (simp add: same_control_def url_Done_def)
qed simp_all

lemma worker_run_ctx: "(worker_step ops env cbs)\<^sup>*\<^sup>* st st' \<Longrightarrow> en_ctx (er_engine st') = en_ctx (er_engine st)"
  by (induction rule: rtranclp_induct) (auto dest: worker_step_ctx)

lemma timed_workers: "(worker_step ops env cbs)\<^sup>*\<^sup>* st st' \<Longrightarrow> (timed_step timed ops env cbs)\<^sup>*\<^sup>* st st'"
  by (induction rule: rtranclp_induct) (auto intro: rtranclp.rtrancl_into_rtrancl timed_step.worker)

lemma Wait_when_done:
  assumes run: "(timed_step timed ops env cbs)\<^sup>*\<^sup>* st st1" and ctl: "control_inv st1" and wg: "en_urlWg (er_engine st1) = 0"
    and started: "en_ctx (er_engine st1) \<noteq> None"
  shows "engine_Wait timed ops env cbs st None
    (st1\<lparr>er_engine := (Wait_finished (er_engine st1))\<lparr>en_workers := 0\<rparr>\<rparr>)"
proof -
  let ?f = "st1\<lparr>er_engine := Wait_finished (er_engine st1)\<rparr>"
  have "idle_run ?f" using idle_no_work [OF ctl wg] by (simp add: idle_run_def Wait_finished_def Engine_cancel_def split: option.splits)
  moreover have "ctx_err (er_engine ?f) \<noteq> None" using started by (auto simp: ctx_err_def Wait_finished_def Engine_cancel_def split: option.splits)
  ultimately have "(worker_step ops env cbs)\<^sup>*\<^sup>* ?f (?f\<lparr>er_engine := (er_engine ?f)\<lparr>en_workers := 0\<rparr>\<rparr>)" by (rule idle_workers_leave)
  from finished [OF run wg this] show ?thesis by simp
qed

section \<open>Callbacks that log results\<close>

context result_log begin

lemma timed_run_urls: "(timed_step timed ops env cbs)\<^sup>*\<^sup>* st st' \<Longrightarrow> control_inv st \<Longrightarrow> run_urls logged st' = run_urls logged st \<and> control_inv st'"
proof (induction rule: rtranclp_induct)
  case (step y z)
  from step.hyps(2) show ?case
  proof cases
    case worker
    then show ?thesis using step.IH [OF step.prems] worker_step_urls [OF worker] control_inv_worker_step [OF worker] by simp
  next
    case deadline
    then show ?thesis using step.IH [OF step.prems] control_inv_ctx [of y] by (simp add: run_urls_def)
  qed
qed simp

text \<open>What is logged when \<open>Wait\<close> returns was among the URLs of the run, each at most as often; all of them were, if it returned nil.\<close>

lemma Wait_logs:
  assumes wait: "engine_Wait timed ops env cbs st r st'" and inv: "control_inv st"
  shows "logged (er_cb st') \<subseteq># run_urls logged st \<and> (r = None \<longrightarrow> logged (er_cb st') = run_urls logged st)"
proof -
  have "run_urls logged st' \<subseteq># run_urls logged st"
  proof (rule Wait_invariant [OF wait, where I = "\<lambda>x. run_urls logged x \<subseteq># run_urls logged st"])
    fix a :: "('d, 'j, 'b, 's, 'w, 'c) engine_run" and req q
    assume "en_urlQueue (er_engine a) = req # q" "run_urls logged a \<subseteq># run_urls logged st"
    moreover from this(1) have "run_urls logged (a\<lparr>er_engine := url_Done ((er_engine a)\<lparr>en_urlQueue := q\<rparr>)\<rparr>) \<subseteq># run_urls logged a"
      by (simp add: run_urls_def url_Done_def)
    ultimately show "run_urls logged (a\<lparr>er_engine := url_Done ((er_engine a)\<lparr>en_urlQueue := q\<rparr>)\<rparr>) \<subseteq># run_urls logged st"
      by (blast intro: subset_mset.order_trans)
  next
    show "run_urls logged (a\<lparr>er_engine := (er_engine a)\<lparr>en_ctx := c\<rparr>\<rparr>) \<subseteq># run_urls logged st"
      if "run_urls logged a \<subseteq># run_urls logged st" for a :: "('d, 'j, 'b, 's, 'w, 'c) engine_run" and c
      using that by (simp add: run_urls_def)
  qed (simp_all add: worker_step_urls)
  moreover have "logged (er_cb st') \<subseteq># run_urls logged st'" by (simp add: run_urls_def ac_simps)
  ultimately have sub: "logged (er_cb st') \<subseteq># run_urls logged st" by (rule subset_mset.order_trans [rotated])
  have "logged (er_cb st') = run_urls logged st" if "r = None"
    using wait that
  proof cases
    case (finished st1)
    note u = timed_run_urls [OF finished(2) inv]
    have "idle_run st1" using idle_no_work [OF _ finished(3)] u by (simp add: idle_run_def)
    then have "idle_run (st1\<lparr>er_engine := Wait_finished (er_engine st1)\<rparr>)"
      by (simp add: idle_run_def Wait_finished_def Engine_cancel_def split: option.splits)
    then have "er_cb st' = er_cb st1" using idle_worker_run [OF finished(4)] by simp
    then show ?thesis using u \<open>idle_run st1\<close> by (simp add: run_urls_def idle_run_def)
  qed simp
  with sub show ?thesis by blast
qed

end

end
