(* ===== verification/Content_Extraction.thy ===== *)
theory Content_Extraction
  imports Plugin_Registry
begin

text \<open>
  pkg/extractor and pkg/plugin/parser/html.go: rules that pull values out of a page, and the parser plugin for HTML.
  The libraries that read HTML, XPath, JSON and regular expressions (goquery, htmlquery, gjson, regexp) are records of
  arguments with the calls the code makes.  A \<^verbatim>\<open>[]string\<close> is \<open>None\<close> while it is nil.
\<close>

section \<open>The libraries\<close>

record ('d, 's) goquery =
  gq_NewDocument :: "string \<Rightarrow> error + 'd"
  gq_Find :: "'d \<Rightarrow> string \<Rightarrow> 's list"
  gq_Text :: "'s \<Rightarrow> string"
  gq_Html :: "'s \<Rightarrow> error + string"
  gq_Attr :: "'s \<Rightarrow> string \<Rightarrow> string option"

record ('h, 'n) htmlquery =
  hq_Parse :: "string \<Rightarrow> error + 'h"
  hq_QueryAll :: "'h \<Rightarrow> string \<Rightarrow> error + 'n list"
  hq_InnerText :: "'n \<Rightarrow> string"

record 'j gjson =
  gj_GetBytes :: "string \<Rightarrow> string \<Rightarrow> 'j"
  gj_Exists :: "'j \<Rightarrow> bool"
  gj_IsArray :: "'j \<Rightarrow> bool"
  gj_Array :: "'j \<Rightarrow> 'j list"
  gj_String :: "'j \<Rightarrow> string"

text \<open>A submatch is the whole match and the groups; a group that took no part is the empty string.\<close>

record 'r regexp =
  rx_Compile :: "string \<Rightarrow> error + 'r"
  rx_FindAllSubmatch :: "'r \<Rightarrow> string \<Rightarrow> (string \<times> string list) list"
  rx_SubexpNames :: "'r \<Rightarrow> string list"

record ('d, 's, 'h, 'n, 'j, 'r) extract_libs =
  xl_goquery :: "('d, 's) goquery"
  xl_htmlquery :: "('h, 'n) htmlquery"
  xl_gjson :: "'j gjson"
  xl_regexp :: "'r regexp"

section \<open>css.go, xpath.go, json.go and regex.go\<close>

type_synonym slice = "string list option"

definition slice_items :: "slice \<Rightarrow> string list" where
  "slice_items s = (case s of None \<Rightarrow> [] | Some xs \<Rightarrow> xs)"

definition slice_append :: "slice \<Rightarrow> string \<Rightarrow> slice" where
  "slice_append s v = Some (slice_items s @ [v])"

definition css_value :: "('d, 's) goquery \<Rightarrow> string \<Rightarrow> slice \<Rightarrow> 's \<Rightarrow> slice" where
  "css_value gq attr values s =
     (if attr = ''text'' then slice_append values (gq_Text gq s)
      else if attr = ''html'' then (case gq_Html gq s of Inl err \<Rightarrow> values | Inr html \<Rightarrow> slice_append values html)
      else (case gq_Attr gq s attr of None \<Rightarrow> values | Some val \<Rightarrow> slice_append values val))"

definition extractCSS :: "('d, 's) goquery \<Rightarrow> string \<Rightarrow> string \<Rightarrow> string \<Rightarrow> error + slice" where
  "extractCSS gq content selector attr =
     (case gq_NewDocument gq content of
        Inl err \<Rightarrow> Inl (WrapError ''extractor: parse HTML for CSS: '' err [])
      | Inr doc \<Rightarrow>
          let a = (if attr = [] then ''text'' else attr)
          in Inr (foldl (css_value gq a) None (gq_Find gq doc selector)))"

definition extractXPath :: "('h, 'n) htmlquery \<Rightarrow> string \<Rightarrow> string \<Rightarrow> error + slice" where
  "extractXPath hq content expr =
     (case hq_Parse hq content of
        Inl err \<Rightarrow> Inl (WrapError ''extractor: parse HTML for XPath: '' err [])
      | Inr doc \<Rightarrow>
          (case hq_QueryAll hq doc expr of
             Inl err \<Rightarrow> Inl (WrapError (''extractor: XPath query '' @ strconv_Quote expr @ '': '') err [])
           | Inr nodes \<Rightarrow> Inr (Some (map (hq_InnerText hq) nodes))))"

definition extractJSON :: "'j gjson \<Rightarrow> string \<Rightarrow> string \<Rightarrow> error + slice" where
  "extractJSON gj content path =
     (let result = gj_GetBytes gj content path
      in if \<not> gj_Exists gj result then Inr None
         else if gj_IsArray gj result then Inr (Some (map (gj_String gj) (gj_Array gj result)))
         else Inr (Some [gj_String gj result]))"

text \<open>The loop over the names looks for the first one, beyond the whole match, that is not empty.\<close>

fun named_index :: "nat \<Rightarrow> string list \<Rightarrow> int" where
  "named_index i [] = -1"
| "named_index i (name # names) = (if 0 < i \<and> name \<noteq> [] then int i else named_index (Suc i) names)"

definition regex_value :: "int \<Rightarrow> string \<times> string list \<Rightarrow> string" where
  "regex_value namedIdx m =
     (let groups = fst m # snd m
      in if 0 \<le> namedIdx \<and> namedIdx < int (length groups) then groups ! nat namedIdx else fst m)"

definition extractRegex :: "'r regexp \<Rightarrow> string \<Rightarrow> string \<Rightarrow> error + slice" where
  "extractRegex rx content pattern =
     (case rx_Compile rx pattern of
        Inl err \<Rightarrow> Inl (WrapError (''extractor: compile regex '' @ strconv_Quote pattern @ '': '') err [])
      | Inr re \<Rightarrow>
          let matches = rx_FindAllSubmatch rx re content
          in if matches = [] then Inr None
             else Inr (Some (map (regex_value (named_index 0 (rx_SubexpNames rx re))) matches)))"

section \<open>extractor.go\<close>

type_synonym ExtractionType = int

definition TypeCSS :: ExtractionType where "TypeCSS = 0"
definition TypeXPath :: ExtractionType where "TypeXPath = 1"
definition TypeJSON :: ExtractionType where "TypeJSON = 2"
definition TypeRegex :: ExtractionType where "TypeRegex = 3"

record ExtractionRule =
  xr_Name :: string
  xr_Type :: ExtractionType
  xr_Selector :: string
  xr_Attribute :: string

record ExtractionResult =
  xs_Name :: string
  xs_Values :: slice

definition ErrEmptySelector :: error where "ErrEmptySelector = ErrorString ''extractor: empty selector''"
definition ErrInvalidType :: error where "ErrInvalidType = ErrorString ''extractor: invalid extraction type''"

text \<open>The body of the loop of \<open>Extract\<close> up to the append: the values of one rule.\<close>

definition rule_values :: "('d, 's, 'h, 'n, 'j, 'r) extract_libs \<Rightarrow> string \<Rightarrow> ExtractionRule \<Rightarrow> error + slice" where
  "rule_values x content rule =
     (if xr_Selector rule = [] then Inl ErrEmptySelector
      else if xr_Type rule = TypeCSS then extractCSS (xl_goquery x) content (xr_Selector rule) (xr_Attribute rule)
      else if xr_Type rule = TypeXPath then extractXPath (xl_htmlquery x) content (xr_Selector rule)
      else if xr_Type rule = TypeJSON then extractJSON (xl_gjson x) content (xr_Selector rule)
      else if xr_Type rule = TypeRegex then extractRegex (xl_regexp x) content (xr_Selector rule)
      else Inl ErrInvalidType)"

fun extract_loop :: "('d, 's, 'h, 'n, 'j, 'r) extract_libs \<Rightarrow> string \<Rightarrow> ExtractionResult list \<Rightarrow> ExtractionRule list \<Rightarrow> error + ExtractionResult list" where
  "extract_loop x content results [] = Inr results"
| "extract_loop x content results (rule # rules) =
     (case rule_values x content rule of
        Inl err \<Rightarrow> Inl err
      | Inr values \<Rightarrow> extract_loop x content (results @ [\<lparr>xs_Name = xr_Name rule, xs_Values = values\<rparr>]) rules)"

definition Extractor_Extract :: "('d, 's, 'h, 'n, 'j, 'r) extract_libs \<Rightarrow> string \<Rightarrow> ExtractionRule list \<Rightarrow> error + ExtractionResult list" where
  "Extractor_Extract x content rules = extract_loop x content [] rules"

section \<open>parser/html.go\<close>

record HTMLParser =
  hp_Rules :: "string_map option"

definition NewHTMLParser :: "string_map option \<Rightarrow> HTMLParser" where
  "NewHTMLParser rules = \<lparr>hp_Rules = rules\<rparr>"

definition HTMLParser_CanParse :: "string \<Rightarrow> bool" where
  "HTMLParser_CanParse contentType =
     (let ct = strings_ToLower contentType
      in strings_Contains ct ''text/html'' \<or> strings_Contains ct ''application/xhtml'')"

text \<open>A value of the result's data map is one string, or a slice of them.\<close>

datatype html_value = OneValue string | ManyValues "string list"

definition apply_rule :: "('d, 's) goquery \<Rightarrow> 'd \<Rightarrow> (string \<rightharpoonup> html_value) \<Rightarrow> string \<times> string \<Rightarrow> (string \<rightharpoonup> html_value)" where
  "apply_rule gq doc data rule =
     (case map (\<lambda>s. unicode_TrimSpace (gq_Text gq s)) (gq_Find gq doc (snd rule)) of
        [] \<Rightarrow> data
      | [v] \<Rightarrow> data(fst rule \<mapsto> OneValue v)
      | values \<Rightarrow> data(fst rule \<mapsto> ManyValues values))"

definition html_link :: "('d, 's) goquery \<Rightarrow> 's \<Rightarrow> string option" where
  "html_link gq s =
     (case gq_Attr gq s ''href'' of
        None \<Rightarrow> None
      | Some h \<Rightarrow> let href = unicode_TrimSpace h in if href \<noteq> [] \<and> href \<noteq> ''#'' then Some href else None)"

text \<open>\<open>keys\<close> is the order in which the runtime walks the rules.\<close>

definition HTMLParser_Parse :: "('d, 's) goquery \<Rightarrow> (string_map \<Rightarrow> string list) \<Rightarrow> HTMLParser \<Rightarrow> CrawlResponse \<Rightarrow> error + html_value ParseResult" where
  "HTMLParser_Parse gq keys h resp =
     (case gq_NewDocument gq (crs_Body resp) of
        Inl err \<Rightarrow> Inl err
      | Inr doc \<Rightarrow>
          let rules = (case hp_Rules h of None \<Rightarrow> [] | Some m \<Rightarrow> map (\<lambda>k. (k, the (m k))) (keys m))
          in Inr \<lparr>pr_Data = foldl (apply_rule gq doc) Map.empty rules,
                  pr_Links = List.map_filter (html_link gq) (gq_Find gq doc ''a[href]'')\<rparr>)"

definition html_plugin :: "('d, 's) goquery \<Rightarrow> (string_map \<Rightarrow> string list) \<Rightarrow> HTMLParser \<Rightarrow> ('w, 'c, html_value) ParserPlugin" where
  "html_plugin gq keys h =
     \<lparr>pl_Name = ''html'', pl_Init = \<lambda>w c. (None, w), pl_Close = \<lambda>w. (None, w),
      pp_CanParse = HTMLParser_CanParse, pp_Parse = \<lambda>w resp. (HTMLParser_Parse gq keys h resp, w)\<rparr>"

section \<open>Extraction\<close>

lemma extract_loop_acc:
  "extract_loop x content acc rules =
     (case extract_loop x content [] rules of Inl err \<Rightarrow> Inl err | Inr rs \<Rightarrow> Inr (acc @ rs))"
proof (induction rules arbitrary: acc)
  case (Cons rule rules)
  show ?case
  proof (cases "rule_values x content rule")
    case (Inr v)
    then show ?thesis
      using Cons [of "acc @ [\<lparr>xs_Name = xr_Name rule, xs_Values = v\<rparr>]"] Cons [of "[\<lparr>xs_Name = xr_Name rule, xs_Values = v\<rparr>]"]
      by (simp split: sum.splits)
  qed simp
qed simp

lemma Extract_Nil [simp]: "Extractor_Extract x content [] = Inr []"
  by (simp add: Extractor_Extract_def)

lemma Extract_Cons:
  "Extractor_Extract x content (rule # rules) =
     (case rule_values x content rule of
        Inl err \<Rightarrow> Inl err
      | Inr v \<Rightarrow> (case Extractor_Extract x content rules of
          Inl err \<Rightarrow> Inl err | Inr rs \<Rightarrow> Inr (\<lparr>xs_Name = xr_Name rule, xs_Values = v\<rparr> # rs)))"
  unfolding Extractor_Extract_def extract_loop.simps
  by (subst extract_loop_acc) (simp split: sum.splits)

text \<open>The result that rule \<open>r\<close> should give.\<close>

definition result_of :: "('d, 's, 'h, 'n, 'j, 'r) extract_libs \<Rightarrow> string \<Rightarrow> ExtractionRule \<Rightarrow> ExtractionResult \<Rightarrow> bool" where
  "result_of x content r q \<longleftrightarrow> xs_Name q = xr_Name r \<and> rule_values x content r = Inr (xs_Values q)"

lemma Extract_ok: "Extractor_Extract x content rules = Inr rs \<longleftrightarrow> list_all2 (result_of x content) rules rs"
proof (induction rules arbitrary: rs)
  case (Cons r rules)
  show ?case
  proof (cases rs)
    case Nil
    then show ?thesis by (auto simp: Extract_Cons split: sum.splits)
  next
    case rs: (Cons q qs)
    show ?thesis
    proof (cases "rule_values x content r")
      case (Inl err)
      then show ?thesis using rs by (simp add: Extract_Cons result_of_def)
    next
      case (Inr v)
      have "(\<lparr>xs_Name = xr_Name r, xs_Values = v\<rparr> = q) = result_of x content r q"
        using Inr by (cases q) (auto simp: result_of_def)
      then show ?thesis using rs Inr Cons [of qs] by (auto simp: Extract_Cons split: sum.splits)
    qed
  qed
qed auto

lemma Extract_append:
  "Extractor_Extract x content (rs @ rs') =
     (case Extractor_Extract x content rs of
        Inl err \<Rightarrow> Inl err
      | Inr a \<Rightarrow> (case Extractor_Extract x content rs' of Inl err \<Rightarrow> Inl err | Inr b \<Rightarrow> Inr (a @ b)))"
  by (induction rs) (auto simp: Extract_Cons split: sum.splits)

text \<open>\<open>Extract\<close> returns one result per rule, in the order of the rules and under their names, with the values of
  the rule's strategy; if a rule has an empty selector, an unknown type or a failing strategy, the error is that
  of the first such rule and no result is returned.\<close>

theorem Extract_results:
  "(Extractor_Extract x content rules = Inr rs \<longleftrightarrow> list_all2 (result_of x content) rules rs) \<and>
   (Extractor_Extract x content rules = Inl err \<longleftrightarrow>
      (\<exists>pre r post qs. rules = pre @ r # post \<and> Extractor_Extract x content pre = Inr qs \<and> rule_values x content r = Inl err))"
proof
  show "Extractor_Extract x content rules = Inr rs \<longleftrightarrow> list_all2 (result_of x content) rules rs" by (rule Extract_ok)
  have "\<exists>pre r post qs. rules = pre @ r # post \<and> Extractor_Extract x content pre = Inr qs \<and> rule_values x content r = Inl err"
    if "Extractor_Extract x content rules = Inl err"
    using that
  proof (induction rules)
    case (Cons r rules)
    show ?case
    proof (cases "rule_values x content r")
      case (Inl e)
      then show ?thesis using Cons.prems by (intro exI [of _ "[]"]) (simp add: Extract_Cons)
    next
      case (Inr v)
      then have "Extractor_Extract x content rules = Inl err" using Cons.prems by (simp add: Extract_Cons split: sum.splits)
      then obtain pre r' post qs where *: "rules = pre @ r' # post" "Extractor_Extract x content pre = Inr qs" "rule_values x content r' = Inl err"
        using Cons.IH by blast
      show ?thesis
        by (rule exI [of _ "r # pre"], rule exI [of _ r'], rule exI [of _ post]) (simp add: * Inr Extract_Cons)
    qed
  qed simp
  then show "Extractor_Extract x content rules = Inl err \<longleftrightarrow>
      (\<exists>pre r post qs. rules = pre @ r # post \<and> Extractor_Extract x content pre = Inr qs \<and> rule_values x content r = Inl err)"
    by (auto simp: Extract_append Extract_Cons)
qed

text \<open>What the strategies return.\<close>

lemma slice_items_append [simp]: "slice_items (slice_append s v) = slice_items s @ [v]"
  by (simp add: slice_items_def slice_append_def)

lemma slice_items_simps [simp]: "slice_items None = []" "slice_items (Some xs) = xs"
  by (simp_all add: slice_items_def)

definition element_value :: "('d, 's) goquery \<Rightarrow> string \<Rightarrow> 's \<Rightarrow> string option" where
  "element_value gq attr s =
     (if attr \<in> {[], ''text''} then Some (gq_Text gq s)
      else if attr = ''html'' then (case gq_Html gq s of Inl err \<Rightarrow> None | Inr html \<Rightarrow> Some html)
      else gq_Attr gq s attr)"

lemma element_value_default: "element_value gq [] = element_value gq ''text''"
  by (simp add: fun_eq_iff element_value_def)

lemma css_values:
  "attr \<noteq> [] \<Longrightarrow> slice_items (foldl (css_value gq attr) s els) = slice_items s @ List.map_filter (element_value gq attr) els"
  by (induction els arbitrary: s) (auto simp: css_value_def element_value_def List.map_filter_simps split: sum.splits option.splits)

lemma named_index_first:
  "list_all (\<lambda>n. n = []) unnamed \<Longrightarrow> name \<noteq> [] \<Longrightarrow> named_index (Suc i) (unnamed @ name # names) = int (Suc i + length unnamed)"
  by (induction unnamed arbitrary: i) auto

text \<open>A CSS rule returns the text, the inner HTML or the attribute of the matched elements in document order,
  leaving out the elements that have none; a regular expression gives one value per match, that of its
  first named group if it has one.\<close>

theorem strategy_values:
  "(extractCSS gq content sel attr = Inr v \<longrightarrow>
      (\<exists>doc. gq_NewDocument gq content = Inr doc \<and> slice_items v = List.map_filter (element_value gq attr) (gq_Find gq doc sel))) \<and>
   (rx_Compile rx pattern = Inr re \<and> rx_SubexpNames rx re = [] # unnamed @ name # names \<and> (\<forall>n\<in>set unnamed. n = []) \<and> name \<noteq> [] \<and>
      (\<forall>m\<in>set (rx_FindAllSubmatch rx re content). length unnamed < length (snd m)) \<longrightarrow>
      (\<exists>vs. extractRegex rx content pattern = Inr vs \<and>
         slice_items vs = map (\<lambda>m. snd m ! length unnamed) (rx_FindAllSubmatch rx re content)))"
proof (intro conjI impI)
  assume "extractCSS gq content sel attr = Inr v"
  then show "\<exists>doc. gq_NewDocument gq content = Inr doc \<and> slice_items v = List.map_filter (element_value gq attr) (gq_Find gq doc sel)"
    using css_values [of "''text''" gq None] css_values [of attr gq None]
    by (cases "attr = []") (auto simp: extractCSS_def element_value_default Let_def split: sum.splits)
next
  assume *: "rx_Compile rx pattern = Inr re \<and> rx_SubexpNames rx re = [] # unnamed @ name # names \<and> (\<forall>n\<in>set unnamed. n = []) \<and> name \<noteq> [] \<and>
      (\<forall>m\<in>set (rx_FindAllSubmatch rx re content). length unnamed < length (snd m))"
  have "named_index 0 (rx_SubexpNames rx re) = int (Suc (length unnamed))"
    using * named_index_first [of unnamed name 0 names] by (simp add: list_all_iff)
  then have "regex_value (named_index 0 (rx_SubexpNames rx re)) m = snd m ! length unnamed"
    if "m \<in> set (rx_FindAllSubmatch rx re content)" for m
    using * that by (auto simp: regex_value_def Let_def nat_add_distrib)
  then show "\<exists>vs. extractRegex rx content pattern = Inr vs \<and>
         slice_items vs = map (\<lambda>m. snd m ! length unnamed) (rx_FindAllSubmatch rx re content)"
    using * by (auto simp: extractRegex_def Let_def)
qed

section \<open>The HTML parser\<close>

lemma map_filter_set: "y \<in> set (List.map_filter f xs) \<longleftrightarrow> (\<exists>x\<in>set xs. f x = Some y)"
  by (induction xs) (auto simp: List.map_filter_simps split: option.splits)

lemma html_link_clean: "html_link gq s = Some l \<Longrightarrow> trimmed l \<and> l \<noteq> [] \<and> l \<noteq> ''#''"
  by (auto simp: html_link_def Let_def TrimSpace_trimmed split: option.split_asm if_split_asm)

definition found_value :: "('d, 's) goquery \<Rightarrow> 'd \<Rightarrow> string \<Rightarrow> html_value option" where
  "found_value gq doc sel =
     (case map (\<lambda>s. unicode_TrimSpace (gq_Text gq s)) (gq_Find gq doc sel) of
        [] \<Rightarrow> None | [v] \<Rightarrow> Some (OneValue v) | values \<Rightarrow> Some (ManyValues values))"

lemma apply_rule_found:
  "apply_rule gq doc data (k, sel) = (case found_value gq doc sel of None \<Rightarrow> data | Some v \<Rightarrow> data(k \<mapsto> v))"
  by (simp add: apply_rule_def found_value_def split: list.splits)

lemma apply_rules:
  "distinct ks \<Longrightarrow> foldl (apply_rule gq doc) data (map (\<lambda>k. (k, f k)) ks) k =
     (if k \<in> set ks \<and> found_value gq doc (f k) \<noteq> None then found_value gq doc (f k) else data k)"
  by (induction ks arbitrary: data) (auto simp: apply_rule_found split: option.splits)

text \<open>C29. Whatever the order in which the rules are walked, \<open>Parse\<close> puts under each name the trimmed text of the elements its
  selector matches (a string for one, a slice for more, nothing for none), and the links are trimmed, not empty
  and never the bare fragment.\<close>

theorem HTMLParser_Parse_result:
  assumes keys: "set (keys rules) = dom rules" "distinct (keys rules)"
    and parsed: "HTMLParser_Parse gq keys (NewHTMLParser (Some rules)) resp = Inr p"
  shows "(\<exists>doc. gq_NewDocument gq (crs_Body resp) = Inr doc \<and>
            pr_Data p = (\<lambda>name. case rules name of None \<Rightarrow> None | Some sel \<Rightarrow> found_value gq doc sel)) \<and>
         list_all (\<lambda>l. trimmed l \<and> l \<noteq> [] \<and> l \<noteq> ''#'') (pr_Links p)"
proof -
  obtain doc where doc: "gq_NewDocument gq (crs_Body resp) = Inr doc"
    using parsed by (auto simp: HTMLParser_Parse_def split: sum.splits)
  then have p: "p = \<lparr>pr_Data = foldl (apply_rule gq doc) Map.empty (map (\<lambda>k. (k, the (rules k))) (keys rules)),
                  pr_Links = List.map_filter (html_link gq) (gq_Find gq doc ''a[href]'')\<rparr>"
    using parsed by (simp add: HTMLParser_Parse_def NewHTMLParser_def)
  have "pr_Data p name = (case rules name of None \<Rightarrow> None | Some sel \<Rightarrow> found_value gq doc sel)" for name
    using keys by (auto simp: p apply_rules split: option.splits)
  moreover have "list_all (\<lambda>l. trimmed l \<and> l \<noteq> [] \<and> l \<noteq> ''#'') (pr_Links p)"
    using html_link_clean by (fastforce simp: p list_all_iff map_filter_set)
  ultimately show ?thesis using doc by blast
qed

text \<open>A router whose only parser is the HTML parser parses every response whose content type names HTML or XHTML, in any
  letter case, and reports every other content type as having no parser.\<close>

theorem html_routed:
  assumes "mset (perm [n]) = mset [n]"
  shows "RegisterParser NewRegistry n (Some (html_plugin gq keys h)) = (None, r) \<Longrightarrow>
    ParserRouter_Parse perm r w (Some resp) =
      (if strings_Contains (strings_ToLower (crs_ContentType resp)) ''text/html'' \<or>
          strings_Contains (strings_ToLower (crs_ContentType resp)) ''application/xhtml''
       then (Parsed (HTMLParser_Parse gq keys h resp), w) else (NoParser (crs_ContentType resp), w))"
proof -
  have perm: "perm [n] = [n]" using assms by (metis mset_single_iff_right mset.simps(1,2) add_mset_eq_single size_mset)
  assume "RegisterParser NewRegistry n (Some (html_plugin gq keys h)) = (None, r)"
  then have r: "reg_parsers r = [(n, html_plugin gq keys h)]"
    by (auto simp: RegisterParser_def NewRegistry_def)
  show ?thesis
    by (simp add: ParserRouter_Parse_def ListParsers_def mapKeys_def r perm GetParser_def html_plugin_def HTMLParser_CanParse_def Let_def)
qed

section \<open>On concrete pages\<close>

text \<open>A page is a list of words; a selector finds the words that start with it, and the attribute of a word is its rest.\<close>

definition words_goquery :: "(string list, string) goquery" where
  "words_goquery =
     \<lparr>gq_NewDocument = \<lambda>s. Inr (split_on CHR '' '' s),
      gq_Find = \<lambda>ws sel. if sel = ''a[href]'' then filter (\<lambda>w. strings_HasPrefix w ''href='') ws else filter (\<lambda>w. strings_HasPrefix w sel) ws,
      gq_Text = \<lambda>w. w, gq_Html = \<lambda>w. Inr w,
      gq_Attr = \<lambda>w a. if strings_HasPrefix w (a @ ''='') then Some (drop (length a + 1) w) else None\<rparr>"

text \<open>A regular expression that matches every word, with the named group \<open>n\<close> for the byte after the first.\<close>

definition words_regexp :: "unit regexp" where
  "words_regexp =
     \<lparr>rx_Compile = \<lambda>p. Inr (), rx_FindAllSubmatch = \<lambda>r s. map (\<lambda>w. (w, [take 1 w, take 1 (drop 1 w)])) (split_on CHR '' '' s),
      rx_SubexpNames = \<lambda>r. [[], [], ''n'']\<rparr>"

definition sample_page :: CrawlResponse where
  "sample_page =
     \<lparr>crs_Request = undefined, crs_StatusCode = 200, crs_Headers = Map.empty, crs_Body = ''href=# href=/a h1 href=/b'', crs_ContentType = ''Text/HTML''\<rparr>"

lemma strategy_values_witness:
  "extractCSS words_goquery ''href=/a x'' ''href'' ''href'' = Inr (Some [''/a'']) \<and>
   (\<exists>vs. extractRegex words_regexp ''ab cd'' ''any'' = Inr vs \<and> slice_items vs = [''b'', ''d''])"
proof
  show "extractCSS words_goquery ''href=/a x'' ''href'' ''href'' = Inr (Some [''/a''])" by code_simp
  have "rx_FindAllSubmatch words_regexp () ''ab cd'' = [(''ab'', [''a'', ''b'']), (''cd'', [''c'', ''d''])]" by code_simp
  then show "\<exists>vs. extractRegex words_regexp ''ab cd'' ''any'' = Inr vs \<and> slice_items vs = [''b'', ''d'']"
    using strategy_values [where gq = words_goquery and content = "''ab cd''" and sel = "[]" and attr = "[]" and v = None and rx = words_regexp
        and pattern = "''any''" and re = "()" and unnamed = "[[]]" and name = "''n''" and names = "[]"]
    by (simp add: words_regexp_def)
qed

lemma space_rune_byte: "r \<in> set space_runes \<Longrightarrow> \<not> list_all (\<lambda>c. 33 \<le> (of_char c :: nat) \<and> (of_char c :: nat) < 128) (utf8_enc r)"
proof -
  have "list_all (\<lambda>r. \<not> list_all (\<lambda>c. 33 \<le> (of_char c :: nat) \<and> (of_char c :: nat) < 128) (utf8_enc r)) space_runes"
    by (simp add: space_runes_def utf8_enc_def upto.simps)
  then show "r \<in> set space_runes \<Longrightarrow> \<not> list_all (\<lambda>c. 33 \<le> (of_char c :: nat) \<and> (of_char c :: nat) < 128) (utf8_enc r)"
    unfolding list_all_iff [of _ space_runes] by blast
qed

lemma TrimSpace_ascii:
  assumes "list_all (\<lambda>c. 33 \<le> (of_char c :: nat) \<and> (of_char c :: nat) < 128) s"
  shows "unicode_TrimSpace s = s"
proof (rule TrimSpace_id)
  have sub: "set p \<subseteq> set s \<Longrightarrow> list_all (\<lambda>c. 33 \<le> (of_char c :: nat) \<and> (of_char c :: nat) < 128) p" for p
    using assms by (auto simp: list_all_iff)
  then show "trimmed s"
    using space_rune_byte set_mono_prefix set_mono_suffix unfolding trimmed_def list_all_iff [of _ space_runes] by blast
qed

lemma HTMLParser_Parse_result_witness:
  "\<exists>p. HTMLParser_Parse words_goquery (\<lambda>m. [''title'']) (NewHTMLParser (Some [''title'' \<mapsto> ''h1''])) sample_page = Inr p \<and>
       pr_Data p ''title'' = Some (OneValue ''h1'') \<and> pr_Links p = [''/a'', ''/b''] \<and> list_all trimmed (pr_Links p)"
proof -
  let ?parse = "HTMLParser_Parse words_goquery (\<lambda>m. [''title'']) (NewHTMLParser (Some [''title'' \<mapsto> ''h1''])) sample_page"
  have doc: "gq_NewDocument words_goquery (crs_Body sample_page) = Inr [''href=#'', ''href=/a'', ''h1'', ''href=/b'']" by code_simp
  obtain p where p: "?parse = Inr p" "pr_Links p = [''/a'', ''/b'']"
    unfolding HTMLParser_Parse_def doc
    by (simp add: NewHTMLParser_def words_goquery_def strings_HasPrefix_def html_link_def TrimSpace_ascii List.map_filter_simps)
  have found: "found_value words_goquery [''href=#'', ''href=/a'', ''h1'', ''href=/b''] ''h1'' = Some (OneValue ''h1'')"
    by (simp add: found_value_def words_goquery_def strings_HasPrefix_def TrimSpace_ascii)
  show ?thesis
    using HTMLParser_Parse_result [OF _ _ p(1)] p doc found by (auto simp: list_all_iff)
qed

lemma html_routed_witness:
  "ParserRouter_Parse (\<lambda>ks. ks) (snd (RegisterParser NewRegistry ''html'' (Some (html_plugin words_goquery (\<lambda>m. []) (NewHTMLParser None))))) ()
     (Some sample_page) = (Parsed (HTMLParser_Parse words_goquery (\<lambda>m. []) (NewHTMLParser None) sample_page), ())"
  (is "ParserRouter_Parse _ (snd ?reg) _ _ = _")
proof -
  have ct: "strings_Contains (strings_ToLower (crs_ContentType sample_page)) ''text/html''" by code_simp
  obtain r where r: "?reg = (None, r)"
    by (simp add: RegisterParser_def NewRegistry_def)
  show ?thesis using html_routed [where perm = "\<lambda>ks. ks" and w = "()" and resp = sample_page, OF _ r] ct r by simp
qed

end
