(* ===== verification/Plugin_Webhook.thy ===== *)
theory Plugin_Webhook
  imports Plugin_Registry Middleware_Chain
begin

text \<open>
  pkg/plugin/notifier/webhook.go: the notifier plugin that posts events as JSON.  The exchange with the server, the clock and
  JSON are fields of the environment; the webhook itself lives in the world, where the plugin's methods find it
  through a reference.
\<close>

section \<open>webhook.go\<close>

record WebhookConfig =
  wc_URL :: string
  wc_Timeout :: Duration
  wc_Headers :: "string_map option"

text \<open>The \<^verbatim>\<open>http.Client\<close> of a webhook is its timeout.\<close>

record Webhook =
  wk_cfg :: WebhookConfig
  wk_client :: Duration

definition NewWebhook :: "WebhookConfig \<Rightarrow> Webhook" where
  "NewWebhook cfg =
     (let cfg1 = (if wc_Timeout cfg \<le> 0 then cfg\<lparr>wc_Timeout := 10 * Second\<rparr> else cfg)
      in \<lparr>wk_cfg = cfg1, wk_client = wc_Timeout cfg1\<rparr>)"

definition Webhook_Name :: "Webhook \<Rightarrow> string" where
  "Webhook_Name wh = ''webhook''"

definition Webhook_Init :: "Webhook \<Rightarrow> any_map \<Rightarrow> error option \<times> Webhook" where
  "Webhook_Init wh config =
     (let wh1 = (case config ''url'' of
                   Some (AnyString u) \<Rightarrow> if u \<noteq> [] then wh\<lparr>wk_cfg := (wk_cfg wh)\<lparr>wc_URL := u\<rparr>\<rparr> else wh
                 | _ \<Rightarrow> wh)
      in if wc_URL (wk_cfg wh1) = [] then (Some (ErrorString ''webhook notifier: url is required''), wh1) else (None, wh1))"

definition Webhook_Close :: "Webhook \<Rightarrow> error option" where
  "Webhook_Close wh = None"

record 'd webhookPayload =
  wp_Type :: string
  wp_Message :: string
  wp_Data :: "string \<rightharpoonup> 'd"
  wp_SentAt :: Time

record ('w, 'd) webhook_env =
  wb_now :: "'w \<Rightarrow> Time"
  wb_Marshal :: "'d webhookPayload \<Rightarrow> error + string"
  wb_range :: "string_map \<Rightarrow> string list"
  wb_Do :: "'w \<Rightarrow> Duration \<Rightarrow> http_Request \<Rightarrow> (error + http_Response) \<times> 'w"
  wb_CloseBody :: "'w \<Rightarrow> 'w"

definition Webhook_Notify :: "('w, 'd) webhook_env \<Rightarrow> Webhook \<Rightarrow> 'w \<Rightarrow> 'd CrawlEvent \<Rightarrow> error option \<times> 'w" where
  "Webhook_Notify env wh w event =
     (case wb_Marshal env \<lparr>wp_Type = ev_Type event, wp_Message = ev_Message event, wp_Data = ev_Data event, wp_SentAt = wb_now env w\<rparr> of
        Inl err \<Rightarrow> (Some (WrapError ''webhook notifier: marshal: '' err []), w)
      | Inr body \<Rightarrow>
          (case NewRequest ''POST'' (wc_URL (wk_cfg wh)) (Some body) of
             Inl err \<Rightarrow> (Some (WrapError ''webhook notifier: create request: '' err []), w)
           | Inr req \<Rightarrow>
               let h = set_headers (wb_range env) (wc_Headers (wk_cfg wh)) (Header_Set (hr_Header req) ''Content-Type'' ''application/json'')
               in (case wb_Do env w (wk_client wh) (req\<lparr>hr_Header := h\<rparr>) of
                     (Inl err, w1) \<Rightarrow> (Some (WrapError ''webhook notifier: send: '' err []), w1)
                   | (Inr resp, w1) \<Rightarrow>
                       (if 400 \<le> hs_StatusCode resp
                        then Some (ErrorString (''webhook notifier: server returned '' @ strconv_Itoa (hs_StatusCode resp))) else None,
                        wb_CloseBody env w1))))"

text \<open>The webhook as a plugin of the registry, and the factory a loader gets for it.\<close>

definition webhook_plugin :: "('w, 'd) webhook_env \<Rightarrow> ('w, Webhook) ref \<Rightarrow> ('w, any_map, 'd) NotifierPlugin" where
  "webhook_plugin env r =
     \<lparr>pl_Name = ''webhook'',
      pl_Init = \<lambda>w config. (case Webhook_Init (deref r w) config of (err, wh) \<Rightarrow> (err, assign r wh w)),
      pl_Close = \<lambda>w. (Webhook_Close (deref r w), w),
      np_Notify = \<lambda>w event. Webhook_Notify env (deref r w) w event\<rparr>"

definition webhook_factory :: "('w, 'd) webhook_env \<Rightarrow> ('w, Webhook) ref \<Rightarrow> WebhookConfig \<Rightarrow> ('w, any_map, ('w, any_map, 'd) NotifierPlugin) factory" where
  "webhook_factory env r cfg = (\<lambda>w config. (Inr (Some (webhook_plugin env r)), assign r (NewWebhook cfg) w))"

section \<open>Notifying\<close>

lemma set_headers_keep:
  assumes "\<forall>m. hs = Some m \<longrightarrow> (\<forall>k\<in>set (keys m). CanonicalHeaderKey k \<noteq> CanonicalHeaderKey k')"
  shows "Header_Get (set_headers keys hs h) k' = Header_Get h k'"
proof (cases hs)
  case (Some m)
  have "\<forall>k\<in>set ks. CanonicalHeaderKey k \<noteq> CanonicalHeaderKey k' \<Longrightarrow>
    Header_Get (foldl (\<lambda>h k. Header_Set h k (case m k of None \<Rightarrow> [] | Some v \<Rightarrow> v)) h ks) k' = Header_Get h k'" for ks
    by (induction ks arbitrary: h) auto
  then show ?thesis using assms Some by (simp add: set_headers_def)
qed (simp add: set_headers_def)

text \<open>The request one notification sends, if it sends one.\<close>

definition webhook_request :: "('w, 'd) webhook_env \<Rightarrow> Webhook \<Rightarrow> 'w \<Rightarrow> 'd CrawlEvent \<Rightarrow> http_Request option" where
  "webhook_request env wh w event =
     (case wb_Marshal env \<lparr>wp_Type = ev_Type event, wp_Message = ev_Message event, wp_Data = ev_Data event, wp_SentAt = wb_now env w\<rparr> of
        Inl err \<Rightarrow> None
      | Inr body \<Rightarrow>
          map_option (\<lambda>u. \<lparr>hr_Method = ''POST'', hr_URL = u,
                         hr_Header = set_headers (wb_range env) (wc_Headers (wk_cfg wh)) (Header_Set Map.empty ''Content-Type'' ''application/json''),
                         hr_Body = Some body\<rparr>)
            (url_Parse (wc_URL (wk_cfg wh))))"

lemma post_request: "NewRequest ''POST'' url (Some body) =
    (case url_Parse url of None \<Rightarrow> Inl (url_Error url) | Some u \<Rightarrow> Inr \<lparr>hr_Method = ''POST'', hr_URL = u, hr_Header = Map.empty, hr_Body = Some body\<rparr>)"
proof -
  have "list_all token_char ''POST''" by code_simp
  then show ?thesis by (simp add: NewRequest_def)
qed

text \<open>A notification sends at most one request, a POST of the event's JSON marked as such unless a configured header says otherwise; it
  succeeds exactly if the request was sent and answered with a status below 400, and the world is left as the
  exchange leaves it.\<close>

theorem Notify_outcome:
  "(fst (Webhook_Notify env wh w event) = None \<longleftrightarrow>
      (\<exists>req resp. webhook_request env wh w event = Some req \<and> fst (wb_Do env w (wk_client wh) req) = Inr resp \<and> hs_StatusCode resp < 400)) \<and>
   snd (Webhook_Notify env wh w event) =
      (case webhook_request env wh w event of
         None \<Rightarrow> w
       | Some req \<Rightarrow> (case wb_Do env w (wk_client wh) req of (Inl err, w1) \<Rightarrow> w1 | (Inr resp, w1) \<Rightarrow> wb_CloseBody env w1)) \<and>
   (webhook_request env wh w event = Some req \<and> wc_Headers (wk_cfg wh) = None \<longrightarrow>
      Header_Get (hr_Header req) ''Content-Type'' = ''application/json'')"
  by (auto simp: Webhook_Notify_def webhook_request_def post_request set_headers_keep split: sum.splits option.splits prod.splits)

text \<open>A loader that was given the webhook's factory loads a webhook entry only if its configuration or the factory's names a URL, which is then
  the URL notifications go to, with a positive timeout; otherwise it blames the entry's initialisation.\<close>

theorem webhook_load:
  assumes r: "lawful_ref ref" and fs: "fs (pe_Name e) = Some (Some (webhook_factory env ref cfg))"
    and fresh: "pe_Name e \<notin> fst ` set (reg_notifiers reg)"
  shows "let url = (case pe_Config e ''url'' of Some (AnyString u) \<Rightarrow> if u = [] then wc_URL cfg else u | _ \<Rightarrow> wc_URL cfg) in
    (case load_entry ''notifier'' fs RegisterNotifier reg w e of
       (out, reg1, w1) \<Rightarrow>
         wc_URL (wk_cfg (deref ref w1)) = url \<and> 0 < wk_client (deref ref w1) \<and>
         (if url = [] then out = LoadFailed (InitFailed ''notifier'' (pe_Name e) (ErrorString ''webhook notifier: url is required'')) \<and> reg1 = reg
          else out = Loaded \<and> GetNotifier reg1 (pe_Name e) = Inr (webhook_plugin env ref)))"
proof -
  have none: "map_of (reg_notifiers reg) (pe_Name e) = None" using fresh by (simp add: map_of_eq_None_iff)
  show ?thesis
    using r
    by (auto simp: load_entry_def fs webhook_factory_def webhook_plugin_def Webhook_Init_def NewWebhook_def Let_def RegisterNotifier_def
        GetNotifier_def none split: option.splits any_value.splits)
qed

section \<open>On concrete values\<close>

definition sample_hook_config :: WebhookConfig where
  "sample_hook_config = \<lparr>wc_URL = ''http://h/'', wc_Timeout = 0, wc_Headers = None\<rparr>"

definition sample_hook_env :: "(Webhook, string) webhook_env" where
  "sample_hook_env =
     \<lparr>wb_now = \<lambda>w. 1, wb_Marshal = \<lambda>p. Inr (wp_Type p), wb_range = \<lambda>m. [],
      wb_Do = \<lambda>w t r. (Inl ContextCanceled, w), wb_CloseBody = \<lambda>w. w\<rparr>"

definition self_ref :: "('s, 's) ref" where
  "self_ref = \<lparr>deref = \<lambda>w. w, assign = \<lambda>x w. x\<rparr>"

lemma Notify_outcome_witness:
  "\<exists>req. webhook_request sample_hook_env (NewWebhook sample_hook_config) (NewWebhook sample_hook_config) \<lparr>ev_Type = EventStarted, ev_Message = [], ev_Data = Map.empty\<rparr> = Some req \<and>
     Header_Get (hr_Header req) ''Content-Type'' = ''application/json''"
proof -
  have "url_Parse ''http://h/'' \<noteq> None" by code_simp
  then obtain u where "url_Parse ''http://h/'' = Some u" by auto
  then have "webhook_request sample_hook_env (NewWebhook sample_hook_config) (NewWebhook sample_hook_config) \<lparr>ev_Type = EventStarted, ev_Message = [], ev_Data = Map.empty\<rparr> \<noteq> None"
    by (simp add: webhook_request_def sample_hook_env_def NewWebhook_def sample_hook_config_def)
  then obtain req where req: "webhook_request sample_hook_env (NewWebhook sample_hook_config) (NewWebhook sample_hook_config) \<lparr>ev_Type = EventStarted, ev_Message = [], ev_Data = Map.empty\<rparr> = Some req"
    by (elim not_None_eq [THEN iffD1, THEN exE])
  have "wc_Headers (wk_cfg (NewWebhook sample_hook_config)) = None" by (simp add: NewWebhook_def sample_hook_config_def)
  then have "Header_Get (hr_Header req) ''Content-Type'' = ''application/json''" using req by (intro Notify_outcome [THEN conjunct2, THEN conjunct2, THEN mp] conjI)
  then show ?thesis using req by blast
qed

lemma webhook_load_witness:
  "fst (load_entry ''notifier'' [''hook'' \<mapsto> Some (webhook_factory sample_hook_env self_ref sample_hook_config)] RegisterNotifier (NewRegistry :: (Webhook, any_map, unit, string) Registry)
      (NewWebhook sample_hook_config) \<lparr>pe_Name = ''hook'', pe_Config = Map.empty\<rparr>) = Loaded"
proof -
  have "lawful_ref (self_ref :: (Webhook, Webhook) ref)" by (simp add: lawful_ref_def self_ref_def)
  note load = webhook_load [OF this, where env = sample_hook_env and cfg = sample_hook_config and reg = "NewRegistry :: (Webhook, any_map, unit, string) Registry"
      and fs = "[''hook'' \<mapsto> Some (webhook_factory sample_hook_env self_ref sample_hook_config)]"
      and e = "\<lparr>pe_Name = ''hook'', pe_Config = Map.empty\<rparr>" and w = "NewWebhook sample_hook_config"]
  have "wc_URL sample_hook_config \<noteq> []" "reg_notifiers (NewRegistry :: (Webhook, any_map, unit, string) Registry) = []" by (simp_all add: sample_hook_config_def NewRegistry_def)
  with load show ?thesis unfolding Let_def by (simp split: prod.splits)
qed

end
