(* ===== verification/Security_Credential.thy ===== *)
theory Security_Credential
  imports Crawl_Errors
begin

text \<open>
  pkg/security/credential.go: a secret that prints as a placeholder.  The second part models what the package fmt does with a
  value that contains credentials: it calls \<open>String\<close> or \<open>GoString\<close> on an operand and on the fields it may read through
  \<^verbatim>\<open>Interface\<close>, and walks over the fields itself below an unexported one.
\<close>

section \<open>credential.go\<close>

record Credential =
  cred_value :: string

definition redacted :: string where "redacted = ''[REDACTED]''"

definition NewCredential :: "string \<Rightarrow> Credential" where
  "NewCredential v = \<lparr>cred_value = v\<rparr>"

text \<open>\<open>getenv\<close> is \<^verbatim>\<open>os.Getenv\<close>.  With an error the zero credential is returned too.\<close>

definition CredentialFromEnv :: "(string \<Rightarrow> string) \<Rightarrow> string \<Rightarrow> Credential \<times> error option" where
  "CredentialFromEnv getenv envVar =
     (let v = getenv envVar
      in if v = [] then (\<lparr>cred_value = []\<rparr>, Some (ErrorString (''security: environment variable '' @ envVar @ '' is not set or empty'')))
         else (\<lparr>cred_value = v\<rparr>, None))"

definition Credential_Value :: "Credential \<Rightarrow> string" where
  "Credential_Value c = cred_value c"

definition Credential_IsEmpty :: "Credential \<Rightarrow> bool" where
  "Credential_IsEmpty c \<longleftrightarrow> cred_value c = []"

definition Credential_String :: "Credential \<Rightarrow> string" where
  "Credential_String c = redacted"

definition Credential_GoString :: "Credential \<Rightarrow> string" where
  "Credential_GoString c = redacted"

definition Credential_MarshalText :: "Credential \<Rightarrow> error + string" where
  "Credential_MarshalText c = Inr redacted"

section \<open>Printing with fmt\<close>

text \<open>Values that hold credentials: strings, credentials, and structs whose fields are exported or not.\<close>

datatype go_value = VString string | VCred Credential | VStruct "(bool \<times> go_value) list"

text \<open>
  \<^verbatim>\<open>printValue\<close> for the verb \<^verbatim>\<open>%v\<close>.  \<open>can\<close> is \<^verbatim>\<open>CanInterface\<close>: false from the first unexported field down, where fmt
  prints the fields of the credential's struct itself.
\<close>

fun fmt_v :: "bool \<Rightarrow> go_value \<Rightarrow> string" where
  "fmt_v can (VString s) = s"
| "fmt_v can (VCred c) = (if can then Credential_String c else ''{'' @ cred_value c @ ''}'')"
| "fmt_v can (VStruct fs) = ''{'' @ join_with '' '' (map (\<lambda>(exported, v). fmt_v (can \<and> exported) v) fs) @ ''}''"

text \<open>No credential lies below an unexported field, and the same value with other secrets.\<close>

fun exported_only :: "go_value \<Rightarrow> bool" where
  "exported_only (VString s) = True"
| "exported_only (VCred c) = True"
| "exported_only (VStruct fs) = list_all (\<lambda>(exported, v). exported \<and> exported_only v) fs"

fun with_secret :: "(string \<Rightarrow> string) \<Rightarrow> go_value \<Rightarrow> go_value" where
  "with_secret f (VString s) = VString s"
| "with_secret f (VCred c) = VCred (NewCredential (f (cred_value c)))"
| "with_secret f (VStruct fs) = VStruct (map (\<lambda>(exported, v). (exported, with_secret f v)) fs)"

text \<open>What fmt prints for a value that reaches its credentials through exported fields does not depend on the secrets; a
  credential in an unexported field is printed in clear.\<close>

theorem credential_printing:
  "(exported_only v \<longrightarrow> fmt_v True (with_secret f v) = fmt_v True v) \<and>
   fmt_v True (VStruct [(False, VCred c)]) = ''{{'' @ Credential_Value c @ ''}}''"
proof (intro conjI impI)
  assume "exported_only v"
  then show "fmt_v True (with_secret f v) = fmt_v True v"
  proof (induction v rule: exported_only.induct)
    case (3 fs)
    have "map ((\<lambda>(exported, v). fmt_v (True \<and> exported) v) \<circ> (\<lambda>(exported, v). (exported, with_secret f v))) fs =
        map (\<lambda>(exported, v). fmt_v (True \<and> exported) v) fs"
      using 3 by (fastforce simp: list_all_iff)
    then show ?case by (simp only: with_secret.simps fmt_v.simps map_map)
  qed (simp_all add: Credential_String_def)
qed (simp add: Credential_Value_def)

lemma credential_printing_witness:
  "fmt_v True (VStruct [(True, VString ''u''), (True, VCred (NewCredential ''b''))]) =
   fmt_v True (VStruct [(True, VString ''u''), (True, VCred (NewCredential ''a''))])"
  using credential_printing [THEN conjunct1, THEN mp, of "VStruct [(True, VString ''u''), (True, VCred (NewCredential ''a''))]" "\<lambda>s. ''b''"]
  by (simp add: NewCredential_def)

end
