(* ===== verification/Cli_Commands.thy ===== *)
theory Cli_Commands
  imports Complex_Main Server_Handlers Engine_Wait
begin

text \<open>
  cmd/crawler/cmd: the commands of the command-line program over the engine of pkg/crawler and the server of pkg/server.
  Flags are arguments.  The configuration library viper, JSON, the formatting of numbers, the file system and the
  clock are arguments too; \<^verbatim>\<open>float64\<close> values are rationals, each operation exact arithmetic followed by the
  rounding \<open>fl\<close>.
\<close>

section \<open>root.go\<close>

text \<open>\<open>setupLogging\<close>: the level of package log/slog (Debug is -4, Info 0, Error 8) and whether the handler writes JSON.\<close>

definition setupLogging :: "bool \<Rightarrow> bool \<Rightarrow> string \<Rightarrow> int \<times> bool" where
  "setupLogging verbose quiet logFormat =
     (let level = 0;
          level = (if verbose then - 4 else level);
          level = (if quiet then 8 else level)
      in (level, logFormat = ''json''))"

record ('v, 'x) viper =
  vi_SetConfigFile :: "string \<Rightarrow> 'v \<Rightarrow> 'v"
  vi_SetConfigName :: "string \<Rightarrow> 'v \<Rightarrow> 'v"
  vi_SetConfigType :: "string \<Rightarrow> 'v \<Rightarrow> 'v"
  vi_AddConfigPath :: "string \<Rightarrow> 'v \<Rightarrow> 'v"
  vi_AutomaticEnv :: "'v \<Rightarrow> 'v"
  vi_ReadInConfig :: "'v \<Rightarrow> error option \<times> 'v"
  vi_Unmarshal :: "'v \<Rightarrow> error + 'x"

definition initConfig :: "('v, 'x) viper \<Rightarrow> error + string \<Rightarrow> string \<Rightarrow> 'v \<Rightarrow> 'v" where
  "initConfig vi home cfgFile v =
     (let v1 = (if cfgFile \<noteq> [] then vi_SetConfigFile vi cfgFile v
                else
                  let v2 = vi_AddConfigPath vi ''.'' (vi_SetConfigType vi ''yaml'' (vi_SetConfigName vi ''crawler'' v))
                  in (case home of Inl err \<Rightarrow> v2 | Inr h \<Rightarrow> vi_AddConfigPath vi (h @ ''/.crawler'') v2))
      in snd (vi_ReadInConfig vi (vi_AutomaticEnv vi v1)))"

text \<open>Writing the output of a command: to the file of the flag, or to the standard output.\<close>

record 'w cli_os =
  co_WriteFile :: "'w \<Rightarrow> string \<Rightarrow> string \<Rightarrow> error option \<times> 'w"
  co_Println :: "'w \<Rightarrow> string \<Rightarrow> 'w"
  co_MkdirAll :: "'w \<Rightarrow> string \<Rightarrow> error option \<times> 'w"

definition cli_output :: "'w cli_os \<Rightarrow> 'w \<Rightarrow> string \<Rightarrow> string \<Rightarrow> error option \<times> 'w" where
  "cli_output os w path data = (if path \<noteq> [] then co_WriteFile os w path data else (None, co_Println os w data))"

text \<open>\<^verbatim>\<open>Duration.Round\<close>.\<close>

definition go_rem :: "int \<Rightarrow> int \<Rightarrow> int" where
  "go_rem a b = a - b * go_quot a b"

definition duration_Round :: "Duration \<Rightarrow> Duration \<Rightarrow> Duration" where
  "duration_Round d m =
     (if m \<le> 0 then d
      else let r = go_rem d m
           in if d < 0 then (if - r + - r < m then d - r else if wrap64 (d - m - r) < d then wrap64 (d - m - r) else - (2 ^ 63))
              else if r + r < m then d - r
              else if d < wrap64 (d + m - r) then wrap64 (d + m - r) else 2 ^ 63 - 1)"

section \<open>crawl.go\<close>

record crawlResult =
  cr_target :: string
  cr_StatusCode :: int
  cr_ContentType :: string
  cr_BodyLength :: nat
  cr_RespHeaders :: "string_map option"
  cr_Duration :: string
  cr_Error :: string

definition parse_header :: "string_map \<Rightarrow> string \<Rightarrow> string_map" where
  "parse_header m h =
     (case strings_Cut h '':'' of (k, v, found) \<Rightarrow> if found then m(unicode_TrimSpace k \<mapsto> unicode_TrimSpace v) else m)"

definition parseHeaders :: "string list \<Rightarrow> string_map" where
  "parseHeaders headers = foldl parse_header Map.empty headers"

definition crawl_response :: "crawlResult ResponseCallback" where
  "crawl_response res resp =
     (resp, res\<lparr>cr_StatusCode := crs_StatusCode resp, cr_ContentType := crs_ContentType resp, cr_BodyLength := length (crs_Body resp),
                cr_RespHeaders := Some (\<lambda>k. case crs_Headers resp k of Some (v # vs) \<Rightarrow> Some v | _ \<Rightarrow> None)\<rparr>)"

definition crawl_failure :: "crawlResult ErrorCallback" where
  "crawl_failure res req err = (req, res\<lparr>cr_Error := error_Error err\<rparr>)"

definition runCrawl_callbacks :: "crawlResult callbacks" where
  "runCrawl_callbacks = OnError (OnResponse no_callbacks crawl_response) crawl_failure"

text \<open>\<open>runCrawl\<close> up to the call of \<open>Wait\<close>; \<open>None\<close> is a panic.  An error of \<open>Start\<close> is only logged.\<close>

definition header_options :: "string_map \<Rightarrow> RequestOption list" where
  "header_options headers = (if dom headers \<noteq> {} then [WithHeaders (Some headers)] else [])"

definition crawl_begin ::
  "'d socks_lib \<Rightarrow> 's sem_ops \<Rightarrow> Time \<Rightarrow> string list \<Rightarrow> int \<Rightarrow> string \<Rightarrow> string \<Rightarrow> (error + ('d, 'j, 'b, 's) Engine) option" where
  "crawl_begin lib ops now headers maxDepth userAgent url =
     (case NewEngine lib ops (zero_Config\<lparr>cfg_MaxDepth := maxDepth, cfg_MaxPages := 1, cfg_UserAgent := userAgent\<rparr>) of
        None \<Rightarrow> None
      | Some e \<Rightarrow>
          (case Engine_AddURL e url (header_options (parseHeaders headers)) of
             (Some err, e1) \<Rightarrow> Some (Inl (WrapError ''add URL: '' err []))
           | (None, e1) \<Rightarrow> Some (Inr (snd (Engine_Start now None e1)))))"

definition crawl_end :: "(crawlResult \<Rightarrow> error + string) \<Rightarrow> (Duration \<Rightarrow> string) \<Rightarrow> 'w cli_os \<Rightarrow> 'w \<Rightarrow> string \<Rightarrow> Duration \<Rightarrow> crawlResult \<Rightarrow> error option \<times> 'w" where
  "crawl_end json dur_String os w out_file elapsed res =
     (case json (res\<lparr>cr_Duration := dur_String (duration_Round elapsed Millisecond)\<rparr>) of
        Inl err \<Rightarrow> (Some (WrapError ''marshal result: '' err []), w)
      | Inr data \<Rightarrow> cli_output os w out_file data)"

definition fresh_result :: "string \<Rightarrow> crawlResult" where
  "fresh_result url = \<lparr>cr_target = url, cr_StatusCode = 0, cr_ContentType = [], cr_BodyLength = 0, cr_RespHeaders = None, cr_Duration = [], cr_Error = []\<rparr>"

inductive runCrawl ::
  "'d socks_lib \<Rightarrow> 's sem_ops \<Rightarrow> ('w, 'd, 'j, 'b, crawlResult) engine_env \<Rightarrow> (crawlResult \<Rightarrow> error + string) \<Rightarrow> (Duration \<Rightarrow> string) \<Rightarrow> 'w cli_os \<Rightarrow>
   string list \<Rightarrow> int \<Rightarrow> string \<Rightarrow> string \<Rightarrow> 'w \<Rightarrow> string \<Rightarrow> error option \<Rightarrow> 'w \<Rightarrow> bool"
  for lib ops env json dur_String os headers maxDepth userAgent out_file w url where
  not_added: "crawl_begin lib ops now headers maxDepth userAgent url = (Some (Inl err) :: (error + ('d, 'j, 'b, 's) Engine) option) \<Longrightarrow>
     runCrawl lib ops env json dur_String os headers maxDepth userAgent out_file w url (Some err) w"
| crawled: "\<lbrakk>crawl_begin lib ops now headers maxDepth userAgent url = Some (Inr e);
     engine_Wait True ops env runCrawl_callbacks (engine_start e w (fresh_result url)) r st;
     crawl_end json dur_String os (er_world st) out_file elapsed (er_cb st) = (res, w1)\<rbrakk> \<Longrightarrow>
     runCrawl lib ops env json dur_String os headers maxDepth userAgent out_file w url res w1"

section \<open>run.go\<close>

record runConfig =
  rn_URLs :: "string list"
  rn_MaxDepth :: int
  rn_MaxPages :: int
  rn_Workers :: int
  rn_UserAgent :: string
  rn_Headers :: "string_map option"
  rn_Timeout :: Duration

record runResult =
  rr_URL :: string
  rr_StatusCode :: int
  rr_BodyLength :: nat
  rr_Error :: string

definition run_load :: "('v, runConfig) viper \<Rightarrow> string list \<Rightarrow> 'v \<Rightarrow> error + runConfig" where
  "run_load vi args v =
     (let read = (case args of
                    [] \<Rightarrow> Inr v
                  | a # _ \<Rightarrow>
                      (case vi_ReadInConfig vi (vi_SetConfigFile vi a v) of
                         (Some err, v1) \<Rightarrow> Inl (WrapError (''read config '' @ a @ '': '') err [])
                       | (None, v1) \<Rightarrow> Inr v1))
      in case read of
           Inl err \<Rightarrow> Inl err
         | Inr v1 \<Rightarrow>
             (case vi_Unmarshal vi v1 of
                Inl err \<Rightarrow> Inl (WrapError ''parse config: '' err [])
              | Inr rc \<Rightarrow> if length (rn_URLs rc) = 0 then Inl (ErrorString ''no URLs specified in configuration'') else Inr rc))"

definition run_defaults :: "int \<Rightarrow> int \<Rightarrow> runConfig \<Rightarrow> runConfig" where
  "run_defaults maxDepth concurrent rc0 =
     (let rc1 = (if 0 < maxDepth then rc0\<lparr>rn_MaxDepth := maxDepth\<rparr> else rc0);
          rc2 = (if 0 < concurrent then rc1\<lparr>rn_Workers := concurrent\<rparr> else rc1);
          rc3 = (if rn_MaxDepth rc2 = 0 then rc2\<lparr>rn_MaxDepth := 3\<rparr> else rc2);
          rc4 = (if rn_Workers rc3 = 0 then rc3\<lparr>rn_Workers := 10\<rparr> else rc3);
          rc5 = (if rn_UserAgent rc4 = [] then rc4\<lparr>rn_UserAgent := ''web_crawler/0.1''\<rparr> else rc4)
      in (if rn_Timeout rc5 = 0 then rc5\<lparr>rn_Timeout := 5 * Minute\<rparr> else rc5))"

definition run_response :: "runResult list ResponseCallback" where
  "run_response results resp =
     (resp, results @ [\<lparr>rr_URL = crq_URL (crs_Request resp), rr_StatusCode = crs_StatusCode resp, rr_BodyLength = length (crs_Body resp), rr_Error = []\<rparr>])"

definition run_failure :: "runResult list ErrorCallback" where
  "run_failure results req err =
     (req, results @ [\<lparr>rr_URL = crq_URL req, rr_StatusCode = 0, rr_BodyLength = 0, rr_Error = error_Error err\<rparr>])"

definition run_callbacks :: "runResult list callbacks" where
  "run_callbacks = OnError (OnResponse no_callbacks run_response) run_failure"

definition run_begin ::
  "'d socks_lib \<Rightarrow> 's sem_ops \<Rightarrow> Time \<Rightarrow> runConfig \<Rightarrow> (error + ('d, 'j, 'b, 's) Engine) option" where
  "run_begin lib ops now rc =
     (case NewEngine lib ops (zero_Config\<lparr>cfg_MaxDepth := rn_MaxDepth rc, cfg_MaxPages := rn_MaxPages rc, cfg_UserAgent := rn_UserAgent rc,
                                          cfg_WorkerCount := rn_Workers rc\<rparr>) of
        None \<Rightarrow> None
      | Some e \<Rightarrow>
          (case Engine_AddURLs e (rn_URLs rc) (header_options (case rn_Headers rc of None \<Rightarrow> Map.empty | Some m \<Rightarrow> m)) of
             (Some err, e1) \<Rightarrow> Some (Inl (WrapError ''add URLs: '' err []))
           | (None, e1) \<Rightarrow> Some (Inr (snd (Engine_Start now None e1)))))"

definition run_end :: "(runResult list \<Rightarrow> error + string) \<Rightarrow> 'w cli_os \<Rightarrow> 'w \<Rightarrow> string \<Rightarrow> runResult list \<Rightarrow> error option \<times> 'w" where
  "run_end json os w out_file results =
     (case json results of
        Inl err \<Rightarrow> (Some (WrapError ''marshal results: '' err []), w)
      | Inr data \<Rightarrow> cli_output os w out_file data)"

text \<open>
  The two callbacks of \<^verbatim>\<open>run\<close> append to one slice without a lock.  \<open>run_callbacks\<close> is what they do when they do not
  overlap, as with one worker; \<open>racy_append\<close> splits each append into the load of the slice and the store of the longer
  one.  \<open>ra_todo\<close> are the results whose append has not begun.
\<close>

record racy_run =
  ra_todo :: "runResult multiset"
  ra_loaded :: "(runResult list \<times> runResult) multiset"
  ra_results :: "runResult list"

inductive racy_append :: "racy_run \<Rightarrow> racy_run \<Rightarrow> bool" where
  load: "ra_todo s = add_mset r T \<Longrightarrow> racy_append s (s\<lparr>ra_todo := T, ra_loaded := add_mset (ra_results s, r) (ra_loaded s)\<rparr>)"
| store: "ra_loaded s = add_mset (seen, r) L \<Longrightarrow> racy_append s (s\<lparr>ra_loaded := L, ra_results := seen @ [r]\<rparr>)"

inductive runRun ::
  "'d socks_lib \<Rightarrow> 's sem_ops \<Rightarrow> ('w, 'd, 'j, 'b, runResult list) engine_env \<Rightarrow> (runResult list \<Rightarrow> error + string) \<Rightarrow> 'w cli_os \<Rightarrow>
   ('v, runConfig) viper \<Rightarrow> int \<Rightarrow> int \<Rightarrow> string \<Rightarrow> string list \<Rightarrow> 'v \<Rightarrow> 'w \<Rightarrow> error option \<Rightarrow> 'w \<Rightarrow> bool"
  for lib ops env json os vi maxDepth concurrent out_file args v w where
  not_loaded: "run_load vi args v = Inl err \<Longrightarrow> runRun lib ops env json os vi maxDepth concurrent out_file args v w (Some err) w"
| not_queued: "\<lbrakk>run_load vi args v = Inr rc;
     run_begin lib ops now (run_defaults maxDepth concurrent rc) = (Some (Inl err) :: (error + ('d, 'j, 'b, 's) Engine) option)\<rbrakk> \<Longrightarrow>
     runRun lib ops env json os vi maxDepth concurrent out_file args v w (Some err) w"
| ran: "\<lbrakk>run_load vi args v = Inr rc; run_begin lib ops now (run_defaults maxDepth concurrent rc) = Some (Inr e);
     engine_Wait True ops env run_callbacks (engine_start e w []) r st;
     run_end json os (er_world st) out_file (er_cb st) = (res, w1)\<rbrakk> \<Longrightarrow>
     runRun lib ops env json os vi maxDepth concurrent out_file args v w res w1"

section \<open>benchmark.go\<close>

definition trunc_rat :: "rat \<Rightarrow> int" where
  "trunc_rat x = (if x < 0 then - \<lfloor>- x\<rfloor> else \<lfloor>x\<rfloor>)"

definition math_Round :: "rat \<Rightarrow> rat" where
  "math_Round x = of_int (if x < 0 then - \<lfloor>1 / 2 - x\<rfloor> else \<lfloor>x + 1 / 2\<rfloor>)"

definition duration_Seconds :: "(rat \<Rightarrow> rat) \<Rightarrow> Duration \<Rightarrow> rat" where
  "duration_Seconds fl d = fl (fl (of_int (go_quot d Second)) + fl (fl (of_int (go_rem d Second)) / 1000000000))"

definition bench_numRequests :: "(rat \<Rightarrow> rat) \<Rightarrow> int \<Rightarrow> Duration \<Rightarrow> int \<Rightarrow> int" where
  "bench_numRequests fl concurrency duration requests =
     (if 0 < requests then requests
      else
        let n = wrap64 (wrap64 (concurrency * trunc_rat (duration_Seconds fl duration)) * 100)
        in if n < wrap64 (concurrency * 10) then wrap64 (concurrency * 10) else n)"

definition percentile :: "(rat \<Rightarrow> rat) \<Rightarrow> rat list \<Rightarrow> rat \<Rightarrow> rat" where
  "percentile fl lats p =
     (if lats = [] then 0
      else
        let idx = \<lceil>fl (fl (p / 100) * fl (of_nat (length lats)))\<rceil> - 1;
            idx = (if idx < 0 then 0 else idx);
            idx = (if int (length lats) \<le> idx then int (length lats) - 1 else idx)
        in lats ! nat idx)"

text \<open>The state of the callbacks: the latencies, and how often the clock \<open>nanos\<close> (\<^verbatim>\<open>time.Now().UnixNano()\<close>) was read.\<close>

record bench_state =
  bn_latencies :: "rat list"
  bn_reads :: nat

definition benchStartNsKey :: string where "benchStartNsKey = ''bench.start_ns''"

definition bench_request :: "(nat \<Rightarrow> int) \<Rightarrow> bench_state RequestCallback" where
  "bench_request nanos s req =
     (req\<lparr>crq_Meta := Some ((make_if_nil (crq_Meta req))(benchStartNsKey \<mapsto> strconv_Itoa (nanos (bn_reads s))))\<rparr>,
      s\<lparr>bn_reads := Suc (bn_reads s)\<rparr>)"

definition bench_response :: "(rat \<Rightarrow> rat) \<Rightarrow> (nat \<Rightarrow> int) \<Rightarrow> bench_state ResponseCallback" where
  "bench_response fl nanos s resp =
     (case (case crq_Meta (crs_Request resp) of None \<Rightarrow> None | Some m \<Rightarrow> m benchStartNsKey) of
        None \<Rightarrow> (resp, s)
      | Some ns \<Rightarrow>
          (case strconv_Atoi ns of
             None \<Rightarrow> (resp, s)
           | Some startNs \<Rightarrow>
               let ms = fl (fl (of_int (wrap64 (nanos (bn_reads s) - startNs))) / 1000000)
               in (resp, s\<lparr>bn_reads := Suc (bn_reads s), bn_latencies := bn_latencies s @ [ms]\<rparr>)))"

definition bench_callbacks :: "(rat \<Rightarrow> rat) \<Rightarrow> (nat \<Rightarrow> int) \<Rightarrow> bench_state callbacks" where
  "bench_callbacks fl nanos = OnResponse (OnRequest no_callbacks (bench_request nanos)) (bench_response fl nanos)"

text \<open>\<^verbatim>\<open>make([]string, n)\<close> panics for a negative or too large \<open>n\<close>.\<close>

definition bench_begin ::
  "'d socks_lib \<Rightarrow> 's sem_ops \<Rightarrow> Time \<Rightarrow> int \<Rightarrow> int \<Rightarrow> string \<Rightarrow> (error + ('d, 'j, 'b, 's) Engine) option" where
  "bench_begin lib ops now concurrency numRequests url =
     (case NewEngine lib ops (zero_Config\<lparr>cfg_MaxDepth := 1, cfg_WorkerCount := concurrency\<rparr>) of
        None \<Rightarrow> None
      | Some e \<Rightarrow>
          if numRequests < 0 \<or> maxAlloc < 16 * numRequests then None
          else (case Engine_AddURLs e (replicate (nat numRequests) url) [] of
                  (Some err, e1) \<Rightarrow> Some (Inl (WrapError ''add URLs: '' err []))
                | (None, e1) \<Rightarrow> Some (Inr (snd (Engine_Start now None e1)))))"

record benchmarkReport =
  br_URL :: string
  br_Workers :: int
  br_TotalSent :: int
  br_Successful :: int
  br_Failed :: int
  br_WallTime :: string
  br_Throughput :: rat
  br_LatencyP50 :: string
  br_LatencyP95 :: string
  br_LatencyP99 :: string
  br_MemUsageMB :: rat

text \<open>\<open>fixed_two\<close> is the verb \<^verbatim>\<open>%.2f\<close>, \<open>alloc\<close> the bytes that \<^verbatim>\<open>runtime.ReadMemStats\<close> reports.\<close>

definition bench_report ::
  "(rat \<Rightarrow> rat) \<Rightarrow> (Duration \<Rightarrow> string) \<Rightarrow> (rat \<Rightarrow> string) \<Rightarrow> string \<Rightarrow> int \<Rightarrow> int \<Rightarrow> Duration \<Rightarrow> int \<Rightarrow> CrawlStats \<Rightarrow> bench_state \<Rightarrow> benchmarkReport" where
  "bench_report fl dur_String fixed_two url concurrency numRequests elapsed alloc stats s =
     (let secs = duration_Seconds fl elapsed;
          lats = sort (bn_latencies s);
          shown = (\<lambda>p. if lats = [] then [] else fixed_two (percentile fl lats p) @ '' ms'')
      in \<lparr>br_URL = url, br_Workers = concurrency, br_TotalSent = numRequests, br_Successful = SuccessCount stats, br_Failed = ErrorCount stats,
          br_WallTime = dur_String (duration_Round elapsed Millisecond),
          br_Throughput = (if 0 < secs then fl (math_Round (fl (fl (fl (of_int (SuccessCount stats)) / secs) * 100)) / 100) else 0),
          br_LatencyP50 = shown 50, br_LatencyP95 = shown 95, br_LatencyP99 = shown 99,
          br_MemUsageMB = fl (math_Round (fl (fl (fl (fl (of_int alloc) / 1024) / 1024) * 100)) / 100)\<rparr>)"

inductive runBenchmark ::
  "'d socks_lib \<Rightarrow> 's sem_ops \<Rightarrow> ('w, 'd, 'j, 'b, bench_state) engine_env \<Rightarrow> (rat \<Rightarrow> rat) \<Rightarrow> (nat \<Rightarrow> int) \<Rightarrow> (Duration \<Rightarrow> string) \<Rightarrow> (rat \<Rightarrow> string) \<Rightarrow>
   int \<Rightarrow> Duration \<Rightarrow> int \<Rightarrow> 'w \<Rightarrow> string \<Rightarrow> (error + benchmarkReport) \<Rightarrow> bool"
  for lib ops env fl nanos dur_String fixed_two concurrency duration requests w url where
  not_queued: "bench_begin lib ops now concurrency (bench_numRequests fl concurrency duration requests) url =
      (Some (Inl err) :: (error + ('d, 'j, 'b, 's) Engine) option) \<Longrightarrow>
     runBenchmark lib ops env fl nanos dur_String fixed_two concurrency duration requests w url (Inl err)"
| measured: "\<lbrakk>bench_begin lib ops now concurrency (bench_numRequests fl concurrency duration requests) url = Some (Inr e);
     engine_Wait (requests \<le> 0) ops env (bench_callbacks fl nanos) (engine_start e w \<lparr>bn_latencies = [], bn_reads = 0\<rparr>) r st\<rbrakk> \<Longrightarrow>
     runBenchmark lib ops env fl nanos dur_String fixed_two concurrency duration requests w url
       (Inr (bench_report fl dur_String fixed_two url concurrency (bench_numRequests fl concurrency duration requests) elapsed alloc
               (Engine_Stats later (er_engine st)) (er_cb st)))"

section \<open>init.go\<close>

text \<open>\<^verbatim>\<open>filepath.Clean\<close> and \<^verbatim>\<open>filepath.Join\<close> on Unix; \<open>out\<close> holds the components so far, the last one first.\<close>

definition clean_component :: "bool \<Rightarrow> string list \<Rightarrow> string \<Rightarrow> string list" where
  "clean_component rooted out c =
     (if c = [] \<or> c = ''.'' then out
      else if c = ''..'' then
        (case out of
           [] \<Rightarrow> if rooted then [] else [''..'']
         | x # xs \<Rightarrow> if x \<noteq> ''..'' then xs else if rooted then out else ''..'' # out)
      else c # out)"

definition filepath_Clean :: "string \<Rightarrow> string" where
  "filepath_Clean path =
     (if path = [] then ''.''
      else
        let rooted = (hd path = CHR ''/'');
            out = rev (foldl (clean_component rooted) [] (split_on CHR ''/'' path))
        in if rooted then CHR ''/'' # join_with ''/'' out
           else if out = [] then ''.'' else join_with ''/'' out)"

definition filepath_Join :: "string \<Rightarrow> string \<Rightarrow> string" where
  "filepath_Join a b =
     (if a \<noteq> [] then filepath_Clean (a @ ''/'' @ b) else if b \<noteq> [] then filepath_Clean b else [])"

definition newline_char :: string where "newline_char = [char_of (10 :: nat)]"

definition defaultConfigYAML :: string where
  "defaultConfigYAML =
     ''# Web Crawler SDK configuration'' @ newline_char @ ''urls:'' @ newline_char @ ''  - https://example.com'' @ newline_char @ newline_char @
     ''max_depth: 3'' @ newline_char @ ''max_pages: 100'' @ newline_char @ ''workers: 10'' @ newline_char @
     ''user_agent: \"web_crawler/0.1\"'' @ newline_char @ ''timeout: 5m'' @ newline_char @ newline_char @
     ''headers:'' @ newline_char @ ''  Accept: \"text/html,application/xhtml+xml\"'' @ newline_char"

definition gitignoreContent :: string where
  "gitignoreContent = ''output/'' @ newline_char @ ''*.log'' @ newline_char"

fun make_dirs :: "'w cli_os \<Rightarrow> 'w \<Rightarrow> string list \<Rightarrow> error option \<times> 'w" where
  "make_dirs os w [] = (None, w)"
| "make_dirs os w (d # ds) =
     (case co_MkdirAll os w d of
        (Some err, w1) \<Rightarrow> (Some (WrapError (''create directory '' @ d @ '': '') err []), w1)
      | (None, w1) \<Rightarrow> make_dirs os w1 ds)"

text \<open>The closing lines of text go to the standard output.\<close>

definition runInit :: "'w cli_os \<Rightarrow> (string \<Rightarrow> string) \<Rightarrow> 'w \<Rightarrow> string \<Rightarrow> error option \<times> 'w" where
  "runInit os message w projectName =
     (let projectDir = filepath_Clean projectName
      in case make_dirs os w [projectDir, filepath_Join projectDir ''output''] of
           (Some err, w1) \<Rightarrow> (Some err, w1)
         | (None, w1) \<Rightarrow>
             (case co_WriteFile os w1 (filepath_Join projectDir ''crawler.yaml'') defaultConfigYAML of
                (Some err, w2) \<Rightarrow> (Some (WrapError ''write config: '' err []), w2)
              | (None, w2) \<Rightarrow>
                  (case co_WriteFile os w2 (filepath_Join projectDir ''.gitignore'') gitignoreContent of
                     (Some err, w3) \<Rightarrow> (Some (WrapError ''write .gitignore: '' err []), w3)
                   | (None, w3) \<Rightarrow> (None, co_Println os w3 (message projectName)))))"

section \<open>server.go\<close>

text \<open>\<open>ending\<close> is how serving ends.  The flag \<open>host\<close> only goes into the line printed first.\<close>

definition runServer :: "(string \<Rightarrow> error + string) \<Rightarrow> serve_end \<Rightarrow> string \<Rightarrow> int \<Rightarrow> error option \<times> string" where
  "runServer listen ending host port =
     (let srv = server_New (NewService :: (unit, unit, unit, unit) service) \<lparr>sc_Port = port, sc_DrainTimeout = 0\<rparr> [\<lambda>s. s];
          line = ''Starting gRPC server on '' @ host @ '':'' @ strconv_Itoa port @ newline_char
      in case fst (Server_Start listen ending srv) of
           None \<Rightarrow> (None, line)
         | Some ContextCanceled \<Rightarrow> (None, line)
         | Some err \<Rightarrow> (Some (WrapError ''server error: '' err []), line))"

section \<open>Filling the queue\<close>

lemma AddURLs_limit:
  assumes "\<not> en_stopped e" "length (en_urlQueue e) \<le> urlQueue_cap"
  shows "fst (Engine_AddURLs e us opts) =
    (if length (en_urlQueue e) + length us \<le> urlQueue_cap then None else Some (ErrorString ''url queue is full''))"
  using assms
proof (induction us arbitrary: e)
  case (Cons u us)
  show ?case
  proof (cases "length (en_urlQueue e) < urlQueue_cap")
    case True
    then obtain e1 where e1: "Engine_AddURL e u opts = (None, e1)" "\<not> en_stopped e1" "length (en_urlQueue e1) = Suc (length (en_urlQueue e))"
      using Cons.prems by (simp add: Engine_AddURL_def Let_def)
    then show ?thesis using Cons.IH [of e1] True by simp
  next
    case False
    then show ?thesis using Cons.prems by (simp add: Engine_AddURL_def Let_def)
  qed
qed simp

text \<open>What adding leaves, for options that keep the URL.\<close>

definition keeps_URL :: "RequestOption \<Rightarrow> bool" where
  "keeps_URL opt \<longleftrightarrow> (\<forall>r. crq_URL (opt r) = crq_URL r)"

lemma options_keep_URL: "list_all keeps_URL opts \<Longrightarrow> crq_URL (foldl (\<lambda>r opt. opt r) r opts) = crq_URL r"
  by (induction opts arbitrary: r) (simp_all add: keeps_URL_def)

lemma header_options_keep [simp]: "list_all keeps_URL (header_options h)"
  by (simp add: header_options_def keeps_URL_def WithHeaders_def)

lemma AddURL_queue:
  assumes "Engine_AddURL e u opts = (None, e')" "list_all keeps_URL opts"
  shows "map crq_URL (en_urlQueue e') = map crq_URL (en_urlQueue e) @ [u] \<and> en_started e' = en_started e \<and> en_workers e' = en_workers e \<and>
    en_urlWg e' = en_urlWg e + 1 \<and> en_stats e' = en_stats e \<and> en_cfg e' = en_cfg e \<and> en_concurrency e' = en_concurrency e \<and> length (en_urlQueue e') \<le> urlQueue_cap"
  using assms by (auto simp: Engine_AddURL_def Let_def options_keep_URL split: if_splits)

lemma AddURLs_queue:
  assumes "Engine_AddURLs e us opts = (None, e')" "list_all keeps_URL opts" "length (en_urlQueue e) \<le> urlQueue_cap"
  shows "map crq_URL (en_urlQueue e') = map crq_URL (en_urlQueue e) @ us \<and> en_started e' = en_started e \<and> en_workers e' = en_workers e \<and>
    en_urlWg e' = en_urlWg e + int (length us) \<and> en_stats e' = en_stats e \<and> en_cfg e' = en_cfg e \<and> en_concurrency e' = en_concurrency e \<and> length (en_urlQueue e') \<le> urlQueue_cap"
  using assms
proof (induction us arbitrary: e)
  case (Cons u us)
  then obtain e1 where e1: "Engine_AddURL e u opts = (None, e1)" "Engine_AddURLs e1 us opts = (None, e')"
    by (auto split: prod.splits option.splits)
  note a = AddURL_queue [OF e1(1) Cons.prems(2)]
  then show ?case using Cons.IH [OF e1(2) Cons.prems(2)] by simp
qed simp

text \<open>An engine that was filled before its start, when it is started.\<close>

definition ready :: "'s sem_ops \<Rightarrow> ('d, 'j, 'b, 's) Engine \<Rightarrow> string list \<Rightarrow> bool" where
  "ready ops e us \<longleftrightarrow> map crq_URL (en_urlQueue e) = us \<and> length us \<le> urlQueue_cap \<and> en_urlWg e = int (length us) \<and> en_started e \<and>
     en_ctx e = Some None \<and> en_workers e = nat (cfg_WorkerCount (en_cfg e)) \<and> es_successCount (en_stats e) = 0 \<and> es_errorCount (en_stats e) = 0 \<and>
     en_concurrency e = NewConcurrencyManager ops (ConcurrencyConfig_withDefaults no_limits)"

lemma started_ready:
  assumes "map crq_URL (en_urlQueue e) = us \<and> en_started e = en_started e0 \<and> en_workers e = en_workers e0 \<and> en_urlWg e = en_urlWg e0 + int (length us) \<and>
      en_stats e = en_stats e0 \<and> en_cfg e = en_cfg e0 \<and> en_concurrency e = en_concurrency e0 \<and> length (en_urlQueue e) \<le> urlQueue_cap"
    and "e0 = fresh_engine ops (Config_withDefaults cfg)" "cfg_Concurrency cfg = no_limits"
  shows "ready ops (snd (Engine_Start now None e)) us"
proof -
  have "length us = length (en_urlQueue e)" using assms(1) by (metis length_map)
  then show ?thesis using assms by (auto simp: ready_def Engine_Start_def fresh_engine_def Config_withDefaults_Concurrency)
qed

lemma ready_control_inv: "ready ops e us \<Longrightarrow> control_inv (engine_start e w c)"
proof -
  assume r: "ready ops e us"
  then have "length us = length (en_urlQueue e)" unfolding ready_def by (metis length_map)
  then show ?thesis using r by (simp add: ready_def control_inv_def engine_start_def ended_def wrap64_def Let_def)
qed

lemma fresh_engine_simps [simp]:
  "\<not> en_stopped (fresh_engine ops cfg)" "en_urlQueue (fresh_engine ops cfg) = []"
  by (simp_all add: fresh_engine_def)

lemma zero_limits: "cfg_Concurrency zero_Config = no_limits"
  by (simp add: zero_Config_def no_limits_def)

lemma crawl_begin_ready:
  fixes e :: "('d, 'j, 'b, 's) Engine"
  assumes "crawl_begin lib ops now headers maxDepth ua url = Some (Inr e)"
  shows "ready ops e [url]"
proof -
  obtain cfg e1 where e1: "Engine_AddURL (fresh_engine ops (Config_withDefaults cfg) :: ('d, 'j, 'b, 's) Engine) url (header_options (parseHeaders headers)) = (None, e1)" and c: "cfg_Concurrency cfg = no_limits"
    and e: "e = snd (Engine_Start now None e1)"
    using assms by (auto simp: crawl_begin_def NewEngine_def newEngine_fresh zero_limits split: prod.splits option.splits)
  show ?thesis unfolding e by (rule started_ready [OF _ refl c]) (use AddURL_queue [OF e1] in simp)
qed

lemma run_begin_ready:
  fixes e :: "('d, 'j, 'b, 's) Engine"
  assumes "run_begin lib ops now rc = Some (Inr e)"
  shows "ready ops e (rn_URLs rc)"
proof -
  obtain cfg opts e1 where e1: "Engine_AddURLs (fresh_engine ops (Config_withDefaults cfg) :: ('d, 'j, 'b, 's) Engine) (rn_URLs rc) opts = (None, e1)" "list_all keeps_URL opts" and c: "cfg_Concurrency cfg = no_limits"
    and e: "e = snd (Engine_Start now None e1)"
    using assms header_options_keep by (auto simp: run_begin_def NewEngine_def newEngine_fresh zero_limits split: prod.splits option.splits)
  show ?thesis unfolding e by (rule started_ready [OF _ refl c]) (use AddURLs_queue [OF e1] in simp)
qed

lemma bench_begin_ready:
  fixes e :: "('d, 'j, 'b, 's) Engine"
  assumes "bench_begin lib ops now c n url = Some (Inr e)"
  shows "ready ops e (replicate (nat n) url)"
proof -
  obtain cfg e1 where e1: "Engine_AddURLs (fresh_engine ops (Config_withDefaults cfg) :: ('d, 'j, 'b, 's) Engine) (replicate (nat n) url) [] = (None, e1)" and c: "cfg_Concurrency cfg = no_limits"
    and e: "e = snd (Engine_Start now None e1)"
    using assms by (auto simp: bench_begin_def NewEngine_def newEngine_fresh zero_limits split: prod.splits option.splits if_splits)
  show ?thesis unfolding e by (rule started_ready [OF _ refl c]) (use AddURLs_queue [OF e1] in simp)
qed

lemma bench_begin_result:
  fixes b :: "(error + ('d, 'j, 'b, 's) Engine) option"
  assumes "0 \<le> n" "16 * n \<le> maxAlloc" and b: "b = bench_begin lib ops now c n url"
  shows "if n \<le> int urlQueue_cap then \<exists>e. b = Some (Inr e) else b = Some (Inl (WrapError ''add URLs: '' (ErrorString ''url queue is full'') []))"
proof -
  let ?e = "fresh_engine ops (Config_withDefaults (zero_Config\<lparr>cfg_MaxDepth := 1, cfg_WorkerCount := c\<rparr>)) :: ('d, 'j, 'b, 's) Engine"
  have "fst (Engine_AddURLs ?e (replicate (nat n) url) []) =
      (if n \<le> int urlQueue_cap then None else Some (ErrorString ''url queue is full''))"
    using assms(1) AddURLs_limit [of ?e "replicate (nat n) url" "[]"] by auto
  then show ?thesis
    using assms by (cases "Engine_AddURLs ?e (replicate (nat n) url) []") (simp add: bench_begin_def NewEngine_def newEngine_fresh)
qed

text \<open>C39. All URLs of a benchmark are queued before the engine is started, and its queue holds 10000: a benchmark starts if at most so many requests
  are wanted and fails with a full queue otherwise.  The default flags want 30000, so the command as documented, \<^verbatim>\<open>crawler benchmark <url>\<close>,
  always fails.\<close>

theorem benchmark_queue_limit:
  assumes fl: "fl 0 = 0" "fl 30 = 30"
  shows "(0 \<le> n \<and> 16 * n \<le> maxAlloc \<longrightarrow>
      ((\<exists>e :: ('d, 'j, 'b, 's) Engine. bench_begin lib ops now c n url = Some (Inr e)) \<longleftrightarrow> n \<le> 10000) \<and>
      (10000 < n \<longrightarrow> bench_begin lib ops now c n url = (Some (Inl (WrapError ''add URLs: '' (ErrorString ''url queue is full'') [])) :: (error + ('d, 'j, 'b, 's) Engine) option))) \<and>
    (runBenchmark lib ops (env :: ('w, 'd, 'j, 'b, bench_state) engine_env) fl nanos dur_String fixed_two 10 (30 * Second) 0 w url r \<longleftrightarrow>
       r = Inl (WrapError ''add URLs: '' (ErrorString ''url queue is full'') []))"
proof (rule conjI)
  show "0 \<le> n \<and> 16 * n \<le> maxAlloc \<longrightarrow>
      ((\<exists>e :: ('d, 'j, 'b, 's) Engine. bench_begin lib ops now c n url = Some (Inr e)) \<longleftrightarrow> n \<le> 10000) \<and>
      (10000 < n \<longrightarrow> bench_begin lib ops now c n url = (Some (Inl (WrapError ''add URLs: '' (ErrorString ''url queue is full'') [])) :: (error + ('d, 'j, 'b, 's) Engine) option))"
    using bench_begin_result [where n = n and lib = lib and ops = ops and now = now and c = c and url = url and b = "bench_begin lib ops now c n url :: (error + ('d, 'j, 'b, 's) Engine) option"]
    by (cases "n \<le> 10000") (auto simp: urlQueue_cap_def)
  have "duration_Seconds fl (30 * Second) = 30" by (simp add: duration_Seconds_def go_quot_def go_rem_def fl)
  then have n: "bench_numRequests fl 10 (30 * Second) 0 = 30000"
    by (simp add: bench_numRequests_def trunc_rat_def wrap64_def Let_def)
  have "bench_begin lib ops now 10 30000 url = (Some (Inl (WrapError ''add URLs: '' (ErrorString ''url queue is full'') [])) :: (error + ('d, 'j, 'b, 's) Engine) option)" for now
    using bench_begin_result [OF _ _ refl, of 30000 lib ops now 10 url] by (simp add: urlQueue_cap_def maxAlloc_def)
  then show "runBenchmark lib ops env fl nanos dur_String fixed_two 10 (30 * Second) 0 w url r \<longleftrightarrow>
       r = Inl (WrapError ''add URLs: '' (ErrorString ''url queue is full'') [])"
    unfolding runBenchmark.simps n by auto
qed

section \<open>The results of \<^verbatim>\<open>run\<close>\<close>

lemma run_callbacks_simps [simp]:
  "requestCBs run_callbacks = []" "responseCBs run_callbacks = [run_response]" "errorCBs run_callbacks = [run_failure]"
  "htmlCBs run_callbacks = Map.empty"
  by (simp_all add: run_callbacks_def OnError_def OnResponse_def no_callbacks_def)

lemma fire_no_HTML: "htmlCBs cbs = Map.empty \<Longrightarrow> fireHTMLCallbacks sel cbs c resp = (resp, c)"
proof -
  assume "htmlCBs cbs = Map.empty"
  moreover have "concat (map (\<lambda>s. [] :: 'a ResponseCallback list) l) = []" for l :: "string list" by (induction l) auto
  ultimately show ?thesis by (simp only: fireHTMLCallbacks_def option.case fire.simps)
qed

interpretation run_log: result_log ops env run_callbacks "\<lambda>rs. mset (map rr_URL rs)" for ops env
  by unfold_locales
    (auto simp: process_refused_def process_acquired_def fireRequestCallbacks_def fireResponseCallbacks_def fireErrorCallbacks_def
      fire_no_HTML run_failure_def run_response_def Let_def split: option.splits sum.splits prod.splits if_splits)

lemma ready_urls: "ready ops e us \<Longrightarrow> run_urls f (engine_start e w c) = f c + mset us"
  by (auto simp: ready_def run_urls_def engine_start_def simp flip: mset_map)


section \<open>Commands return\<close>

lemma ready_conc_inv:
  assumes "semaphore_law ops cap held" "ready ops e us"
  shows "conc_inv cap held (ConcurrencyConfig_withDefaults no_limits) (permits (engine_start e w c))"
proof -
  have "permits (engine_start e w c) = conc_start ops (ConcurrencyConfig_withDefaults no_limits)"
    using assms(2) by (simp add: permits_def conc_start_def engine_start_def ready_def)
  then show ?thesis using conc_inv_start [OF assms(1), of "ConcurrencyConfig_withDefaults no_limits"] by simp
qed

lemma ready_Wait:
  fixes e :: "('d, 'j, 'b, 's) Engine" and env :: "('w, 'd, 'j, 'b, 'c) engine_env"
  assumes law: "semaphore_law ops cap held" and live: "semaphore_live ops cap held"
    and calm: "\<And>c w r. Client_Do (ee_client env) c w (Some r) \<noteq> None"
    and r: "ready ops e us" and workers: "0 < en_workers e"
  shows "\<exists>st. engine_Wait timed ops env cbs (engine_start e w c) None st"
proof -
  let ?s = "engine_start e w c"
  have ctx: "ctx_err (er_engine ?s) = None" and w: "0 < en_workers (er_engine ?s)" using r workers by (simp_all add: ready_def engine_start_def ctx_err_def)
  obtain st where st: "(worker_step ops env cbs)\<^sup>*\<^sup>* ?s st" "en_urlWg (er_engine st) = 0"
    using run_completes [OF law live ready_control_inv [OF r] ready_conc_inv [OF law r] _ _ w ctx calm]
    by (auto simp: ConcurrencyConfig_withDefaults_def no_limits_def)
  have "en_ctx (er_engine st) \<noteq> None" using worker_run_ctx [OF st(1)] r by (simp add: ready_def engine_start_def)
  from Wait_when_done [OF timed_workers [OF st(1)] worker_run_inv [OF st(1) ready_control_inv [OF r]] st(2) this]
  show ?thesis by blast
qed

text \<open>An engine without workers does nothing until its context ends.\<close>

lemma no_workers_run:
  assumes "engine_Wait timed ops env cbs (engine_start e w c) r st" "en_workers e = 0"
  shows "er_cb st = c"
proof -
  have "er_cb st = c \<and> er_waiting st = {#} \<and> er_running st = {#} \<and> en_workers (er_engine st) = 0"
    by (rule Wait_invariant [OF assms(1), where I = "\<lambda>st. er_cb st = c \<and> er_waiting st = {#} \<and> er_running st = {#} \<and> en_workers (er_engine st) = 0"])
      (auto simp: engine_start_def assms(2) url_Done_def elim: worker_stepE)
  then show ?thesis by simp
qed

lemma run_begin_workers:
  fixes e :: "('d, 'j, 'b, 's) Engine"
  assumes "run_begin lib ops now rc = Some (Inr e)"
  shows "en_workers e = nat (if rn_Workers rc = 0 then 10 else rn_Workers rc)"
proof -
  obtain opts e1 where e1: "Engine_AddURLs (fresh_engine ops (Config_withDefaults (zero_Config\<lparr>cfg_MaxDepth := rn_MaxDepth rc, cfg_MaxPages := rn_MaxPages rc,
        cfg_UserAgent := rn_UserAgent rc, cfg_WorkerCount := rn_Workers rc\<rparr>)) :: ('d, 'j, 'b, 's) Engine) (rn_URLs rc) opts = (None, e1)"
      "list_all keeps_URL opts" and e: "e = snd (Engine_Start now None e1)"
    using assms header_options_keep by (auto simp: run_begin_def NewEngine_def newEngine_fresh split: prod.splits option.splits)
  show ?thesis using AddURLs_queue [OF e1] by (simp add: e Engine_Start_def fresh_engine_def Config_withDefaults_def Let_def)
qed

text \<open>With zero or more workers in its configuration \<^verbatim>\<open>run\<close> can always finish: every request is worked off and \<open>Wait\<close> returns nil.  A negative number, which
  is passed on unchecked, leaves the engine without workers: the command waits for its whole time-out and then prints no result at all.\<close>

theorem run_workers:
  fixes e :: "('d, 'j, 'b, 's) Engine" and env :: "('w, 'd, 'j, 'b, runResult list) engine_env"
  assumes law: "semaphore_law ops cap held" and live: "semaphore_live ops cap held"
    and calm: "\<And>c w r. Client_Do (ee_client env) c w (Some r) \<noteq> None"
    and b: "run_begin lib ops now rc = Some (Inr e)" and urls: "rn_URLs rc \<noteq> []"
  shows "(0 \<le> rn_Workers rc \<longrightarrow> (\<exists>st. engine_Wait True ops env run_callbacks (engine_start e w []) None st)) \<and>
    (rn_Workers rc < 0 \<longrightarrow> engine_Wait True ops env run_callbacks (engine_start e w []) r st \<longrightarrow> er_cb st = [] \<and> r \<noteq> None)"
proof (intro conjI impI)
  assume "0 \<le> rn_Workers rc"
  then have "0 < en_workers e" using run_begin_workers [OF b] by simp
  then show "\<exists>st. engine_Wait True ops env run_callbacks (engine_start e w []) None st"
    by (rule ready_Wait [OF law live calm run_begin_ready [OF b]])
next
  assume n: "rn_Workers rc < 0" and w: "engine_Wait True ops env run_callbacks (engine_start e w []) r st"
  then show cb: "er_cb st = []" using no_workers_run [OF w] run_begin_workers [OF b] by simp
  have "mset (map rr_URL (er_cb st)) = mset (rn_URLs rc)" if "r = None"
    using run_log.Wait_logs [OF w ready_control_inv [OF run_begin_ready [OF b]], unfolded ready_urls [OF run_begin_ready [OF b]]] that by simp
  then show "r \<noteq> None" using cb urls by auto
qed

section \<open>The measurements of \<^verbatim>\<open>benchmark\<close>\<close>

definition percentile_index :: "(rat \<Rightarrow> rat) \<Rightarrow> nat \<Rightarrow> rat \<Rightarrow> int" where
  "percentile_index fl n p = min (int n - 1) (max 0 (\<lceil>fl (fl (p / 100) * fl (of_nat n))\<rceil> - 1))"

lemma clamp: "(0 :: int) < n \<Longrightarrow> (let i = (if k < 0 then 0 else k) in if n \<le> i then n - 1 else i) = min (n - 1) (max 0 k)"
  by (auto simp: Let_def)

lemma percentile_index: "xs \<noteq> [] \<Longrightarrow> percentile fl xs p = xs ! nat (percentile_index fl (length xs) p)"
  unfolding percentile_def percentile_index_def
  by (subst clamp [symmetric]) (simp_all add: Let_def)

lemma percentile_index_bound: "xs \<noteq> [] \<Longrightarrow> nat (percentile_index fl (length xs) p) < length xs"
  by (cases xs) (auto simp: percentile_index_def)

lemma percentile_mem: "xs \<noteq> [] \<Longrightarrow> percentile fl xs p \<in> set xs"
  by (simp add: percentile_index percentile_index_bound)

lemma percentile_mono:
  assumes fl: "mono fl" "0 \<le> fl (of_nat (length xs))" and xs: "sorted xs" "xs \<noteq> []" and p: "p \<le> q"
  shows "percentile fl xs p \<le> percentile fl xs q"
proof -
  have "fl (p / 100) \<le> fl (q / 100)" using p by (intro monoD [OF fl(1)]) simp
  then have "fl (p / 100) * fl (of_nat (length xs)) \<le> fl (q / 100) * fl (of_nat (length xs))" by (rule mult_right_mono) (rule fl(2))
  then have "\<lceil>fl (fl (p / 100) * fl (of_nat (length xs)))\<rceil> \<le> \<lceil>fl (fl (q / 100) * fl (of_nat (length xs)))\<rceil>"
    by (intro ceiling_mono monoD [OF fl(1)])
  then have "percentile_index fl (length xs) p \<le> percentile_index fl (length xs) q"
    unfolding percentile_index_def by (intro min.mono max.mono diff_right_mono order_refl)
  moreover have "nat (percentile_index fl (length xs) q) < length xs" using percentile_index_bound [OF xs(2)] .
  ultimately show ?thesis using xs by (simp add: percentile_index sorted_nth_mono nat_mono)
qed

text \<open>Each success leaves one latency, and no more requests end than were queued.\<close>

definition bench_inv :: "nat \<Rightarrow> ('d, 'j, 'b, 's, 'w, bench_state) engine_run \<Rightarrow> bool" where
  "bench_inv n st \<longleftrightarrow> es_successCount (en_stats (er_engine st)) = wrap64 (int (length (bn_latencies (er_cb st)))) \<and>
     length (bn_latencies (er_cb st)) \<le> er_done st \<and> int (er_done st) + en_urlWg (er_engine st) \<le> int n"

lemma bench_callbacks_simps [simp]:
  "requestCBs (bench_callbacks fl nanos) = [bench_request nanos]" "responseCBs (bench_callbacks fl nanos) = [bench_response fl nanos]"
  "errorCBs (bench_callbacks fl nanos) = []" "htmlCBs (bench_callbacks fl nanos) = Map.empty"
  by (simp_all add: bench_callbacks_def OnRequest_def OnResponse_def no_callbacks_def)

lemma bench_process:
  assumes nanos: "\<And>k. in_int64 (nanos k)"
    and p: "process_acquired env (bench_callbacks fl nanos) e w s req = Some (e', w', s')"
  shows "es_successCount (en_stats e') = es_successCount (en_stats e) \<and> bn_latencies s' = bn_latencies s \<or>
    es_successCount (en_stats e') = wrap64 (es_successCount (en_stats e) + 1) \<and> length (bn_latencies s') = Suc (length (bn_latencies s))"
  using p
  by (auto simp: process_acquired_def fireRequestCallbacks_def fireResponseCallbacks_def fireErrorCallbacks_def fire_no_HTML bench_request_def
      bench_response_def make_if_nil_def Atoi_Itoa [OF nanos] count_error_def count_success_def count_request_def Let_def
      split: option.splits sum.splits prod.splits if_splits dest!: engine_fetch_frame)

lemma bench_inv_step:
  assumes nanos: "\<And>k. in_int64 (nanos k)" and step: "worker_step ops env (bench_callbacks fl nanos) st st'" and inv: "bench_inv n st"
  shows "bench_inv n st'"
  using step
proof cases
  case (refuse req W e err cm e1 c1)
  then show ?thesis using inv process_refused_frame(1) [OF refuse(5)]
    by (auto simp: bench_inv_def process_refused_def fireErrorCallbacks_def url_Done_def count_error_def)
next
  case (finish req R e1 w1 c1 e2)
  obtain cm where e2: "e2 = e1\<lparr>en_concurrency := cm\<rparr>" using release_permit_frame [OF finish(4)] by blast
  have "en_urlWg e1 = en_urlWg (er_engine st)" using process_acquired_frame(1) [OF finish(3)] by (simp add: same_control_def)
  then show ?thesis using inv bench_process [OF nanos finish(3)] finish(1)
    by (auto simp: bench_inv_def url_Done_def e2 wrap64_sum ac_simps)
qed (use inv in \<open>simp_all add: bench_inv_def\<close>)

lemma Wait_bench_inv:
  assumes nanos: "\<And>k. in_int64 (nanos k)"
    and wait: "engine_Wait timed ops env (bench_callbacks fl nanos) st r st'" and inv: "bench_inv n st"
  shows "bench_inv n st'"
  by (rule Wait_invariant [OF wait, where I = "bench_inv n", OF inv bench_inv_step [OF nanos]])
    (auto simp: bench_inv_def url_Done_def)

text \<open>The report counts as successful exactly the requests whose latency was measured; its percentiles are measured latencies, and they increase, for
  every monotone rounding.\<close>

theorem benchmark_percentiles:
  assumes fl: "mono fl" "fl 0 = 0" and nanos: "\<And>k. in_int64 (nanos k)"
    and run: "runBenchmark lib ops env fl nanos dur_String fixed_two concurrency duration requests w url (Inr rep)"
  shows "\<exists>lats. br_Successful rep = int (length lats) \<and> int (length lats) \<le> br_TotalSent rep \<and>
    (if lats = [] then br_LatencyP50 rep = [] \<and> br_LatencyP95 rep = [] \<and> br_LatencyP99 rep = []
     else \<exists>a b c. {a, b, c} \<subseteq> set lats \<and> a \<le> b \<and> b \<le> c \<and>
       br_LatencyP50 rep = fixed_two a @ '' ms'' \<and> br_LatencyP95 rep = fixed_two b @ '' ms'' \<and> br_LatencyP99 rep = fixed_two c @ '' ms'')"
  using run
proof cases
  case (measured now e r st elapsed alloc later)
  let ?n = "bench_numRequests fl concurrency duration requests" and ?lats = "sort (bn_latencies (er_cb st))"
  note ready = bench_begin_ready [OF measured(2)]
  have n: "0 \<le> ?n" using measured(2) by (auto simp: bench_begin_def split: option.splits if_splits)
  have "bench_inv (nat ?n) (engine_start e w \<lparr>bn_latencies = [], bn_reads = 0\<rparr>)"
    using ready by (simp add: bench_inv_def engine_start_def ready_def wrap64_def)
  then have inv: "bench_inv (nat ?n) st" by (rule Wait_bench_inv [OF nanos measured(3)])
  have "0 \<le> en_urlWg (er_engine st)"
    using Wait_control_inv [OF measured(3) ready_control_inv [OF ready]] by (simp add: control_inv_def Let_def)
  moreover have "?n \<le> int urlQueue_cap" using ready n unfolding ready_def length_replicate by linarith
  ultimately have len: "int (length (bn_latencies (er_cb st))) \<le> ?n" "?n \<le> 10000" using inv n by (simp_all add: bench_inv_def urlQueue_cap_def)
  then have "wrap64 (int (length (bn_latencies (er_cb st)))) = int (length (bn_latencies (er_cb st)))" by (simp add: wrap64_def)
  then have succ: "br_Successful rep = int (length ?lats)" "br_TotalSent rep = ?n"
    using inv by (simp_all add: measured(1) bench_report_def Engine_Stats_def bench_inv_def Let_def)
  have shown: "br_LatencyP50 rep = (if ?lats = [] then [] else fixed_two (percentile fl ?lats 50) @ '' ms'')"
    "br_LatencyP95 rep = (if ?lats = [] then [] else fixed_two (percentile fl ?lats 95) @ '' ms'')"
    "br_LatencyP99 rep = (if ?lats = [] then [] else fixed_two (percentile fl ?lats 99) @ '' ms'')"
    by (simp_all add: measured(1) bench_report_def Let_def)
  have pos: "0 \<le> fl (of_nat (length ?lats))" using monoD [OF fl(1), of 0 "of_nat (length ?lats)"] fl(2) by simp
  have incr: "?lats \<noteq> [] \<Longrightarrow> percentile fl ?lats 50 \<le> percentile fl ?lats 95" "?lats \<noteq> [] \<Longrightarrow> percentile fl ?lats 95 \<le> percentile fl ?lats 99"
    by (rule percentile_mono [OF fl(1) pos sorted_sort]; simp)+
  have "?lats \<noteq> [] \<Longrightarrow> \<exists>a b c. {a, b, c} \<subseteq> set ?lats \<and> a \<le> b \<and> b \<le> c \<and>
       br_LatencyP50 rep = fixed_two a @ '' ms'' \<and> br_LatencyP95 rep = fixed_two b @ '' ms'' \<and> br_LatencyP99 rep = fixed_two c @ '' ms''"
    by (rule exI [of _ "percentile fl ?lats 50"], rule exI [of _ "percentile fl ?lats 95"], rule exI [of _ "percentile fl ?lats 99"])
      (use incr percentile_mem [of ?lats fl] shown in \<open>simp del: set_sort\<close>)
  then show ?thesis
    by (intro exI [of _ ?lats] conjI) (use succ len shown in simp_all)
qed

section \<open>A time-out before the first request\<close>

lemma crawl_begin_ok: "\<exists>e. crawl_begin lib ops now headers maxDepth ua url = Some (Inr e)"
  by (simp add: crawl_begin_def NewEngine_def newEngine_fresh Engine_AddURL_def urlQueue_cap_def Let_def)

text \<open>If the time-out of \<^verbatim>\<open>crawl\<close> ends before a worker has taken the URL, the queue is drained and the command succeeds: it prints a result without
  a status and without an error.\<close>

theorem crawl_silent_timeout:
  assumes json: "json ((fresh_result url)\<lparr>cr_Duration := dur_String (duration_Round elapsed Millisecond)\<rparr>) = Inr data"
  shows "runCrawl (lib :: 'd socks_lib) (ops :: 's sem_ops) (env :: ('w, 'd, 'j, 'b, crawlResult) engine_env) json dur_String os headers maxDepth ua [] w url
    None (co_Println os w data)"
proof -
  obtain e :: "('d, 'j, 'b, 's) Engine" where b: "crawl_begin lib ops now headers maxDepth ua url = Some (Inr e)" using crawl_begin_ok by blast
  note r = crawl_begin_ready [OF b, unfolded ready_def]
  then obtain req where q: "en_urlQueue e = [req]" by auto
  let ?s0 = "engine_start e w (fresh_result url)"
  let ?s1 = "?s0\<lparr>er_engine := (er_engine ?s0)\<lparr>en_ctx := Some (Some DeadlineExceeded)\<rparr>\<rparr>"
  let ?s2 = "?s1\<lparr>er_engine := url_Done ((er_engine ?s1)\<lparr>en_urlQueue := []\<rparr>)\<rparr>"
  let ?s3 = "?s2\<lparr>er_engine := (er_engine ?s2)\<lparr>en_workers := 0\<rparr>\<rparr>"
  have "timed_step True ops env runCrawl_callbacks ?s0 ?s1" by (rule deadline) (use r in \<open>simp_all add: engine_start_def\<close>)
  moreover have "drain_step ops env runCrawl_callbacks ?s1 ?s2" by (rule drop) (simp add: engine_start_def q)
  moreover have "idle_run ?s2" "ctx_err (er_engine ?s2) \<noteq> None" by (simp_all add: idle_run_def engine_start_def url_Done_def ctx_err_def)
  then have "(worker_step ops env runCrawl_callbacks)\<^sup>*\<^sup>* ?s2 ?s3" by (rule idle_workers_leave)
  ultimately have "engine_Wait True ops env runCrawl_callbacks ?s0 (Some DeadlineExceeded) ?s3"
    by (intro drained [OF r_into_rtranclp _ r_into_rtranclp]) (simp_all add: engine_start_def ctx_err_def url_Done_def)
  then show ?thesis
    by (rule crawled [OF b, where elapsed = elapsed]) (simp add: engine_start_def crawl_end_def json cli_output_def)
qed

section \<open>A new project\<close>

text \<open>Writing a file sets its contents and leaves the other files alone; making a directory and printing change none.\<close>

definition files_law :: "'w cli_os \<Rightarrow> ('w \<Rightarrow> string \<Rightarrow> string option) \<Rightarrow> bool" where
  "files_law os contents \<longleftrightarrow>
     (\<forall>w p d w'. co_WriteFile os w p d = (None, w') \<longrightarrow> contents w' = (contents w)(p \<mapsto> d)) \<and>
     (\<forall>w p. contents (snd (co_MkdirAll os w p)) = contents w) \<and> (\<forall>w s. contents (co_Println os w s) = contents w)"

lemma join_with_snoc: "suffix c (join_with sep (xs @ [c]))"
  by (induction xs rule: induct_list012) (auto intro: suffix_appendI)

lemma split_on_middle: "split_on c (s @ c # t) = split_on c s @ split_on c t"
  by (induction s) (auto split: list.splits)

lemma Join_ends:
  assumes "d \<noteq> []" "CHR ''/'' \<notin> set c" "c \<noteq> []" "c \<noteq> ''.''" "c \<noteq> ''..''"
  shows "suffix c (filepath_Join d c)"
proof -
  have s: "split_on CHR ''/'' (d @ CHR ''/'' # c) = split_on CHR ''/'' d @ [c]" using assms(2) by (simp add: split_on_middle split_on_no_sep)
  have j: "suffix c (join_with ''/'' (xs @ [c]))" for xs by (rule join_with_snoc)
  have k: "clean_component r out c = c # out" for r out using assms by (simp add: clean_component_def)
  show ?thesis using assms j by (simp add: filepath_Join_def filepath_Clean_def s k suffix_ConsI Let_def)
qed

lemma Clean_not_empty: "filepath_Clean p \<noteq> []"
proof -
  have step: "[] \<notin> set out \<Longrightarrow> [] \<notin> set (clean_component r out c)" for out c r
    by (auto simp: clean_component_def split: list.splits)
  have "[] \<notin> set (foldl (clean_component r) out cs)" if "[] \<notin> set out" for r out cs
    using that by (induction cs arbitrary: out) (simp_all add: step)
  then have no: "[] \<notin> set (rev (foldl (clean_component r) [] cs))" for r cs by simp
  have "xs \<noteq> [] \<Longrightarrow> [] \<notin> set xs \<Longrightarrow> join_with ''/'' xs \<noteq> []" for xs :: "string list"
    by (induction xs rule: induct_list012) auto
  then show ?thesis using no by (simp add: filepath_Clean_def Let_def)
qed

lemma make_dirs_contents: "files_law os contents \<Longrightarrow> contents (snd (make_dirs os w ds)) = contents w"
proof (induction ds arbitrary: w)
  case (Cons d ds)
  have "contents (snd (co_MkdirAll os w d)) = contents w" using Cons.prems by (simp add: files_law_def)
  then show ?case using Cons by (cases "co_MkdirAll os w d") (simp split: option.split)
qed simp

text \<open>When \<^verbatim>\<open>init\<close> succeeds, the default configuration and the ignore file are in the cleaned project directory, whatever was there before, and no other file
  has changed.\<close>

theorem runInit_files:
  assumes law: "files_law os contents" and ok: "runInit os message w name = (None, w')"
  shows "contents w' = (contents w)
    (filepath_Join (filepath_Clean name) ''crawler.yaml'' \<mapsto> defaultConfigYAML, filepath_Join (filepath_Clean name) ''.gitignore'' \<mapsto> gitignoreContent) \<and>
    contents w' (filepath_Join (filepath_Clean name) ''crawler.yaml'') = Some defaultConfigYAML"
proof -
  let ?cfg = "filepath_Join (filepath_Clean name) ''crawler.yaml''" and ?ign = "filepath_Join (filepath_Clean name) ''.gitignore''"
  obtain w1 w2 w3 where s: "make_dirs os w [filepath_Clean name, filepath_Join (filepath_Clean name) ''output''] = (None, w1)"
    "co_WriteFile os w1 ?cfg defaultConfigYAML = (None, w2)" "co_WriteFile os w2 ?ign gitignoreContent = (None, w3)" "w' = co_Println os w3 (message name)"
    using ok unfolding runInit_def Let_def by (auto split: prod.splits option.splits)
  have "contents w1 = contents w" using make_dirs_contents [OF law] s(1) by (metis snd_conv)
  moreover have "contents w2 = (contents w1)(?cfg \<mapsto> defaultConfigYAML)" "contents w3 = (contents w2)(?ign \<mapsto> gitignoreContent)" "contents w' = contents w3"
    using law s(2-4) unfolding files_law_def by blast+
  moreover have "?cfg \<noteq> ?ign"
  proof
    assume "?cfg = ?ign"
    moreover have "suffix ''crawler.yaml'' ?cfg" "suffix ''.gitignore'' ?ign" by (rule Join_ends [OF Clean_not_empty]; simp)+
    ultimately have "suffix ''crawler.yaml'' ?ign" "suffix ''.gitignore'' ?ign" by metis+
    then have "last ?ign = CHR ''l''" "last ?ign = CHR ''e''" by (auto simp: suffix_def)
    then show False by simp
  qed
  ultimately show ?thesis by simp
qed

section \<open>Concrete commands\<close>

definition cli_sample :: "(bytes_Buffer list, unit, unit, unit, 'c) engine_env" where
  "cli_sample = \<lparr>ee_client = sample_http ''2'' ''ok'', ee_Render = (\<lambda>w b u t. (Inl (ErrorString ''no browser''), w)), ee_selectors = (\<lambda>m. [])\<rparr>"

lemma cli_sample_calm: "Client_Do (ee_client cli_sample) c w (Some r) \<noteq> None"
  using crawl_sample_calm [of c w r] by (simp add: cli_sample_def crawl_sample_def)

definition sample_run :: runConfig where
  "sample_run = \<lparr>rn_URLs = [''http://h/''], rn_MaxDepth = 3, rn_MaxPages = 0, rn_Workers = 2, rn_UserAgent = ''u'', rn_Headers = None, rn_Timeout = Minute\<rparr>"

lemma sample_run_begins: "\<exists>e :: (unit, unit, unit, int \<times> nat) Engine. run_begin socks_sample counting_sem 0 sample_run = Some (Inr e)"
  by (simp add: run_begin_def NewEngine_def newEngine_fresh sample_run_def Engine_AddURL_def urlQueue_cap_def Let_def)

lemma benchmark_queue_limit_witness:
  "runBenchmark socks_sample counting_sem (cli_sample :: (bytes_Buffer list, unit, unit, unit, bench_state) engine_env) (\<lambda>x. x) (\<lambda>k. 0) (\<lambda>d. []) (\<lambda>x. []) 10 (30 * Second) 0 [] ''http://h/''
    (Inl (WrapError ''add URLs: '' (ErrorString ''url queue is full'') [])) \<and>
   (\<exists>e :: (unit, unit, unit, int \<times> nat) Engine. bench_begin socks_sample counting_sem 0 10 10000 ''http://h/'' = Some (Inr e))"
proof -
  have fl: "(\<lambda>x :: rat. x) 0 = 0" "(\<lambda>x :: rat. x) 30 = 30" by simp_all
  have "0 \<le> (10000 :: int) \<and> 16 * 10000 \<le> maxAlloc" by (simp add: maxAlloc_def)
  then show ?thesis
    using benchmark_queue_limit [OF fl, where lib = socks_sample and ops = counting_sem and env = "cli_sample :: (bytes_Buffer list, unit, unit, unit, bench_state) engine_env"
        and n = 10000 and now = 0 and c = 10 and url = "''http://h/''" and nanos = "\<lambda>k. 0" and dur_String = "\<lambda>d. []" and fixed_two = "\<lambda>x. []" and w = "[]"
        and r = "Inl (WrapError ''add URLs: '' (ErrorString ''url queue is full'') [])"] by simp
qed

lemma run_workers_witness:
  "\<exists>(e :: (unit, unit, unit, int \<times> nat) Engine) st. run_begin socks_sample counting_sem 0 sample_run = Some (Inr e) \<and>
     engine_Wait True counting_sem cli_sample run_callbacks (engine_start e [] []) None st"
proof -
  obtain e :: "(unit, unit, unit, int \<times> nat) Engine" where e: "run_begin socks_sample counting_sem 0 sample_run = Some (Inr e)" using sample_run_begins by blast
  have "0 \<le> rn_Workers sample_run" "rn_URLs sample_run \<noteq> []" by (simp_all add: sample_run_def)
  then show ?thesis using run_workers [OF counting_sem_law counting_sem_live cli_sample_calm e, where w = "[]"] e by blast
qed


lemma benchmark_percentiles_witness:
  "\<exists>rep. runBenchmark socks_sample counting_sem cli_sample (\<lambda>x. x) (\<lambda>k. 0) (\<lambda>d. []) (\<lambda>x. []) 10 (30 * Second) 1 [] ''http://h/'' (Inr rep) \<and>
     br_TotalSent rep = 1 \<and> br_Successful rep \<le> 1"
proof -
  let ?run = "runBenchmark socks_sample counting_sem cli_sample (\<lambda>x. x) (\<lambda>k. 0) (\<lambda>d. []) (\<lambda>x. []) 10 (30 * Second) 1 [] ''http://h/''"
  have n: "bench_numRequests (\<lambda>x. x) 10 (30 * Second) 1 = 1" by (simp add: bench_numRequests_def)
  obtain e :: "(unit, unit, unit, int \<times> nat) Engine" where e: "bench_begin socks_sample counting_sem 0 10 1 ''http://h/'' = Some (Inr e)"
    using bench_begin_result [where n = 1 and lib = socks_sample and ops = counting_sem and now = 0 and c = 10 and url = "''http://h/''"
        and b = "bench_begin socks_sample counting_sem 0 10 1 ''http://h/'' :: (error + (unit, unit, unit, int \<times> nat) Engine) option"]
    by (auto simp: maxAlloc_def urlQueue_cap_def)
  have "0 < en_workers e"
    using e by (auto simp: bench_begin_def NewEngine_def newEngine_fresh Engine_AddURL_def urlQueue_cap_def Engine_Start_def fresh_engine_def maxAlloc_def
        Config_withDefaults_def zero_Config_def Let_def)
  then obtain st where st: "engine_Wait False counting_sem cli_sample (bench_callbacks (\<lambda>x. x) (\<lambda>k. 0)) (engine_start e [] \<lparr>bn_latencies = [], bn_reads = 0\<rparr>) None st"
    using ready_Wait [OF counting_sem_law counting_sem_live cli_sample_calm bench_begin_ready [OF e], where timed = False and w = "[]"
        and cbs = "bench_callbacks (\<lambda>x. x) (\<lambda>k. 0)" and c = "\<lparr>bn_latencies = [], bn_reads = 0\<rparr>"] by blast
  let ?rep = "bench_report (\<lambda>x. x) (\<lambda>d. []) (\<lambda>x. []) ''http://h/'' 10 1 0 0 (Engine_Stats 0 (er_engine st)) (er_cb st)"
  have run: "?run (Inr ?rep)"
    using measured [of socks_sample counting_sem 0 10 "\<lambda>x. x" "30 * Second" 1 "''http://h/''" e cli_sample "\<lambda>k. 0" "[]" None st "\<lambda>d. []" "\<lambda>x. []" 0 0 0] e st n by simp
  have "mono (\<lambda>x :: rat. x)" "(\<lambda>x :: rat. x) 0 = 0" "in_int64 0" by (simp_all add: mono_def in_int64_def)
  from benchmark_percentiles [OF this(1,2) this(3) run]
  have "br_Successful ?rep \<le> br_TotalSent ?rep" by auto
  then show ?thesis using run by (intro exI [of _ ?rep]) (simp add: bench_report_def Let_def)
qed

definition disk_sample :: "(string \<Rightarrow> string option) cli_os" where
  "disk_sample = \<lparr>co_WriteFile = \<lambda>w p d. (None, w(p \<mapsto> d)), co_Println = \<lambda>w s. w, co_MkdirAll = \<lambda>w p. (None, w)\<rparr>"

lemma crawl_silent_timeout_witness:
  "runCrawl socks_sample counting_sem cli_sample (\<lambda>r. Inr ''{}'') (\<lambda>d. ''0s'')
     \<lparr>co_WriteFile = \<lambda>w p d. (None, w), co_Println = \<lambda>w s. w, co_MkdirAll = \<lambda>w p. (None, w)\<rparr> [] 1 ''u'' [] [] ''http://h/'' None []"
proof -
  have j: "(\<lambda>r. Inr ''{}'') ((fresh_result ''http://h/'')\<lparr>cr_Duration := (\<lambda>d. ''0s'') (duration_Round 0 Millisecond)\<rparr>) = Inr ''{}''" by simp
  from crawl_silent_timeout [where json = "\<lambda>r. Inr ''{}''" and dur_String = "\<lambda>d. ''0s''" and elapsed = 0, OF j, where lib = socks_sample and ops = counting_sem
      and env = cli_sample and headers = "[]" and maxDepth = 1 and ua = "''u''" and w = "[]"
      and os = "\<lparr>co_WriteFile = \<lambda>w p d. (None, w), co_Println = \<lambda>w s. w, co_MkdirAll = \<lambda>w p. (None, w)\<rparr>"]
  show ?thesis by simp
qed

lemma runInit_files_witness:
  "(case runInit disk_sample (\<lambda>s. s) Map.empty ''a/../proj'' of (err, w') \<Rightarrow> err = None \<and> w' ''proj/crawler.yaml'' = Some defaultConfigYAML)"
proof -
  have law: "files_law disk_sample (\<lambda>w. w)" by (simp add: files_law_def disk_sample_def)
  obtain w' where ok: "runInit disk_sample (\<lambda>s. s) Map.empty ''a/../proj'' = (None, w')" by (simp add: runInit_def disk_sample_def Let_def)
  have path: "filepath_Join (filepath_Clean ''a/../proj'') ''crawler.yaml'' = ''proj/crawler.yaml''" by code_simp
  have "w' ''proj/crawler.yaml'' = Some defaultConfigYAML" using runInit_files [OF law ok, THEN conjunct2] by (simp only: path)
  then show ?thesis by (simp only: ok prod.case simp_thms)
qed

end
